(* ===== verification/Prelude.thy ===== *)
theory Prelude
  imports Main "HOL-Library.Word" "HOL-Library.Monad_Syntax"
begin

section \<open>Shared types, the failure monad and generic lemmas\<close>

text \<open>
  What every component of the development uses: the machine types of the C++ code, the
  \<open>option\<close> monad in which \<open>None\<close> stands for a failed \<open>assert\<close>, an \<open>abort()\<close> or an
  access outside a \<open>std::vector\<close> (the simulator process ends there), and lemmas on
  circular indices, lists and unique searches.
\<close>

unbundle bit_operations_syntax

type_synonym u32 = "32 word"
type_synonym u64 = "64 word"

text \<open>\<open>active_mask_t\<close> and \<open>simt_mask_t\<close>: \<open>std::bitset<32>\<close>, one bit per lane.\<close>

type_synonym active_mask_t = "32 word"

named_theorems fail_simps \<open>equations of the failure monad\<close>

definition assert_that :: "bool \<Rightarrow> unit option" where
  "assert_that b = (if b then Some () else None)"

lemma bind_assert_that [simp, fail_simps]:
  "Option.bind (assert_that b) f = (if b then f () else None)"
  by (simp add: assert_that_def)

lemma assert_that_Some [simp, fail_simps]: "assert_that b = Some u \<longleftrightarrow> b"
  by (simp add: assert_that_def)

lemma bind_if [fail_simps]:
  "Option.bind (if b then x else y) f = (if b then Option.bind x f else Option.bind y f)"
  by simp

text \<open>\<open>v[i]\<close> and \<open>v[i] = x\<close> on a \<open>std::vector\<close>: an index out of range is a failure.\<close>

definition vec_at :: "'a list \<Rightarrow> nat \<Rightarrow> 'a option" where
  "vec_at xs i = (if i < length xs then Some (xs ! i) else None)"

definition vec_set :: "'a list \<Rightarrow> nat \<Rightarrow> 'a \<Rightarrow> 'a list option" where
  "vec_set xs i x = (if i < length xs then Some (xs[i := x]) else None)"

lemma vec_at_Some [simp]: "vec_at xs i = Some x \<longleftrightarrow> i < length xs \<and> x = xs ! i"
  by (auto simp: vec_at_def)

lemma vec_at_in [simp]: "i < length xs \<Longrightarrow> vec_at xs i = Some (xs ! i)"
  by (simp add: vec_at_def)

lemma vec_at_map: "vec_at (map f xs) i = map_option f (vec_at xs i)"
  by (simp add: vec_at_def)

lemma vec_set_in [simp]: "i < length xs \<Longrightarrow> vec_set xs i x = Some (xs[i := x])"
  by (simp add: vec_set_def)

lemma vec_set_map: "vec_set (map f xs) i (f x) = map_option (map f) (vec_set xs i x)"
  by (simp add: vec_set_def map_update)

text \<open>\<open>unsigned\<close> arithmetic on values kept as \<open>nat\<close>, with the wrap-around written out.\<close>

definition wrap32 :: "nat \<Rightarrow> nat" where
  "wrap32 n = n mod 2 ^ 32"

lemma wrap32_small: "n < 2 ^ 32 \<Longrightarrow> wrap32 n = n"
  by (simp add: wrap32_def)

lemma wrap32_less: "wrap32 n < 2 ^ 32"
  by (simp add: wrap32_def)

definition sub32 :: "nat \<Rightarrow> nat \<Rightarrow> nat" where
  "sub32 a b = (if b \<le> a then a - b else wrap32 (a + (2 ^ 32 - b)))"

text \<open>A sequence of calls on one object: the first failure ends it.\<close>

fun run_calls :: "('q \<Rightarrow> 'c \<Rightarrow> 'q option) \<Rightarrow> 'q \<Rightarrow> 'c list \<Rightarrow> 'q option" where
  "run_calls step q [] = Some q"
| "run_calls step q (c # cs) = Option.bind (step q c) (\<lambda>q'. run_calls step q' cs)"

lemma run_calls_append:
  "run_calls step q (cs @ ds) = Option.bind (run_calls step q cs) (\<lambda>q'. run_calls step q' ds)"
  by (induction cs arbitrary: q) (auto split: bind_splits)

lemma run_calls_invariant:
  assumes "run_calls step q cs = Some q'" and "P q"
    and "\<And>q c q'. P q \<Longrightarrow> c \<in> set cs \<Longrightarrow> step q c = Some q' \<Longrightarrow> P q'"
  shows "P q'"
  using assms
proof (induction cs arbitrary: q)
  case Nil
  then show ?case by simp
next
  case (Cons c cs)
  from Cons.prems(1) obtain r where r: "step q c = Some r" "run_calls step r cs = Some q'"
    by (auto split: bind_splits)
  have "P r" using Cons.prems(3)[of q c r] Cons.prems(2) r(1) by simp
  moreover have "\<And>q d q'. P q \<Longrightarrow> d \<in> set cs \<Longrightarrow> step q d = Some q' \<Longrightarrow> P q'"
    using Cons.prems(3) by auto
  ultimately show ?case using Cons.IH[OF r(2)] by blast
qed

subsection \<open>Circular indices\<close>

lemma ring_inj:
  fixes h n :: nat
  assumes "h < n" "i < n" "j < n"
  shows "(h + i) mod n = (h + j) mod n \<longleftrightarrow> i = j"
proof -
  have *: "(h + k) mod n = (if h + k < n then h + k else h + k - n)" if "k < n" for k
    using assms(1) that by (simp add: mod_if)
  show ?thesis using assms by (auto simp: *)
qed

lemma ring_pos:
  fixes h n :: nat
  assumes "h < n" "j < n"
  shows "(h + (j + n - h) mod n) mod n = j"
  using assms by (simp add: mod_add_right_eq)

lemma ring_pos_inv:
  fixes h n :: nat
  assumes "h < n" "i < n"
  shows "((h + i) mod n + n - h) mod n = i"
proof -
  have 1: "(h + i) mod n = (if h + i < n then h + i else h + i - n)"
    using assms by (simp add: mod_if)
  show ?thesis
  proof (cases "h + i < n")
    case True
    then have "(h + i) mod n + n - h = i + n" using 1 by simp
    then show ?thesis using assms(2) by (simp only: mod_add_self2 mod_less)
  next
    case False
    then have "(h + i) mod n + n - h = i" using 1 assms by simp
    then show ?thesis using assms(2) by (simp only: mod_less)
  qed
qed

lemma mixed_radix_inj:
  fixes M :: nat
  assumes "w1 * M + b1 = w2 * M + b2" "b1 < M" "b2 < M"
  shows "w1 = w2 \<and> b1 = b2"
  using arg_cong[OF assms(1), of "\<lambda>x. x div M"] arg_cong[OF assms(1), of "\<lambda>x. x mod M"] assms(2,3)
  by simp

subsection \<open>Lists\<close>

lemma find_unique:
  assumes "x \<in> set xs" "P x" "\<And>y. y \<in> set xs \<Longrightarrow> P y \<Longrightarrow> y = x"
  shows "List.find P xs = Some x"
proof (cases "List.find P xs")
  case None
  with assms(1,2) show ?thesis by (auto simp: find_None_iff)
next
  case (Some y)
  then have "y \<in> set xs" "P y" by (auto simp: find_Some_iff)
  then have "y = x" by (rule assms(3))
  with Some show ?thesis by simp
qed

lemma find_none: "(\<And>y. y \<in> set xs \<Longrightarrow> \<not> P y) \<Longrightarrow> List.find P xs = None"
  by (induction xs) auto

lemma map_upt_cong: "(\<And>i. i < n \<Longrightarrow> f i = g i) \<Longrightarrow> map f [0..<n] = map g [0..<n]"
  by simp

lemma upt_0_Suc: "[0..<Suc n] = 0 # map Suc [0..<n]"
  by (metis map_Suc_upt upt_conv_Cons zero_less_Suc)

subsection \<open>Ordered maps\<close>

text \<open>
  A \<open>std::map\<close> that the code iterates over is the list of its pairs in key order:
  \<open>m[k] = v\<close>, \<open>erase\<close>, and \<open>map_of\<close> for \<open>find\<close>.
\<close>

fun smap_insert :: "('k :: linorder) \<Rightarrow> 'v \<Rightarrow> ('k \<times> 'v) list \<Rightarrow> ('k \<times> 'v) list" where
  "smap_insert k v [] = [(k, v)]"
| "smap_insert k v ((k', v') # m) =
     (if k < k' then (k, v) # (k', v') # m
      else if k = k' then (k, v) # m
      else (k', v') # smap_insert k v m)"

definition smap_erase :: "('k :: linorder) \<Rightarrow> ('k \<times> 'v) list \<Rightarrow> ('k \<times> 'v) list" where
  "smap_erase k m = filter (\<lambda>p. fst p \<noteq> k) m"

abbreviation smap_ok :: "('k :: linorder \<times> 'v) list \<Rightarrow> bool" where
  "smap_ok m \<equiv> sorted_wrt (<) (map fst m)"

lemma map_of_smap_insert [simp]: "map_of (smap_insert k v m) = (map_of m)(k \<mapsto> v)"
  by (induction k v m rule: smap_insert.induct) (auto simp: fun_eq_iff)

lemma map_of_smap_erase [simp]: "map_of (smap_erase k m) = (map_of m)(k := None)"
  by (induction m) (auto simp: smap_erase_def fun_eq_iff)

lemma set_keys_smap_insert [simp]: "fst ` set (smap_insert k v m) = insert k (fst ` set m)"
  by (induction k v m rule: smap_insert.induct) auto

lemma smap_ok_insert: "smap_ok m \<Longrightarrow> smap_ok (smap_insert k v m)"
  by (induction k v m rule: smap_insert.induct) auto

lemma smap_ok_erase: "smap_ok m \<Longrightarrow> smap_ok (smap_erase k m)"
  by (induction m) (auto simp: smap_erase_def)

lemma smap_ok_distinct: "smap_ok m \<Longrightarrow> distinct (map fst m)"
  by (induction m) auto

lemma smap_lookup: "smap_ok m \<Longrightarrow> (k, v) \<in> set m \<longleftrightarrow> map_of m k = Some v"
  using smap_ok_distinct[of m] by (metis map_of_SomeD map_of_is_SomeI)

end
