(* ===== verification/Address_Map.thy ===== *)
theory Address_Map
  imports Prelude
begin

section \<open>Address spaces\<close>

text \<open>
  The generic address space of \<open>abstract_hardware_model.h\<close> and \<open>cuda-sim.cc\<close> (windows
  for shared and local memory of every multiprocessor below the global heap), the mapping
  of local memory to a linear timing address (\<open>shader_core_ctx::translate_local_memaddr\<close>)
  and \<open>intLOGB2\<close>. Addresses are \<open>nat\<close>: with 32-bit ids no sum below reaches \<open>2 ^ 64\<close>;
  arithmetic that the code does in \<open>unsigned\<close> is wrapped.
\<close>

datatype mem_space_type =
    undefined_space | reg_space | local_space | shared_space | sstarr_space
  | param_space_unclassified | param_space_kernel | param_space_local | const_space
  | tex_space | surf_space | global_space | generic_space | instruction_space

fun space_code :: "mem_space_type \<Rightarrow> nat" where
  "space_code undefined_space = 0"
| "space_code reg_space = 1"
| "space_code local_space = 2"
| "space_code shared_space = 3"
| "space_code sstarr_space = 4"
| "space_code param_space_unclassified = 5"
| "space_code param_space_kernel = 6"
| "space_code param_space_local = 7"
| "space_code const_space = 8"
| "space_code tex_space = 9"
| "space_code surf_space = 10"
| "space_code global_space = 11"
| "space_code generic_space = 12"
| "space_code instruction_space = 13"

datatype memory_space_t = Memory_space (ms_type: mem_space_type) (ms_bank: nat)

definition memory_space_less :: "memory_space_t \<Rightarrow> memory_space_t \<Rightarrow> bool" where
  "memory_space_less s x =
     (if space_code (ms_type s) < space_code (ms_type x) then True
      else if space_code (ms_type s) > space_code (ms_type x) then False
      else if ms_bank s < ms_bank x then True
      else False)"

definition is_const_space :: "memory_space_t \<Rightarrow> bool" where
  "is_const_space s \<longleftrightarrow> ms_type s = const_space \<or> ms_type s = param_space_kernel"

definition is_local_space :: "memory_space_t \<Rightarrow> bool" where
  "is_local_space s \<longleftrightarrow> ms_type s = local_space \<or> ms_type s = param_space_local"

definition is_global_space :: "memory_space_t \<Rightarrow> bool" where
  "is_global_space s \<longleftrightarrow> ms_type s = global_space"

lemma space_code_inj [simp]: "space_code a = space_code b \<longleftrightarrow> a = b"
  by (cases a; cases b) simp_all

instantiation memory_space_t :: linorder
begin

definition less_memory_space_t :: "memory_space_t \<Rightarrow> memory_space_t \<Rightarrow> bool" where
  "less_memory_space_t = memory_space_less"

definition less_eq_memory_space_t :: "memory_space_t \<Rightarrow> memory_space_t \<Rightarrow> bool" where
  "less_eq_memory_space_t a b \<longleftrightarrow> memory_space_less a b \<or> a = b"

instance
proof
  fix x y z :: memory_space_t
  have eq: "a = b \<longleftrightarrow> space_code (ms_type a) = space_code (ms_type b) \<and> ms_bank a = ms_bank b"
    for a b :: memory_space_t by (cases a; cases b) simp
  show "(x < y) = (x \<le> y \<and> \<not> y \<le> x)" "x \<le> x" "x \<le> y \<Longrightarrow> y \<le> z \<Longrightarrow> x \<le> z"
    "x \<le> y \<Longrightarrow> y \<le> x \<Longrightarrow> x = y" "x \<le> y \<or> y \<le> x"
    unfolding less_memory_space_t_def less_eq_memory_space_t_def memory_space_less_def eq
    by (simp_all del: space_code_inj split: if_splits)
qed

end

subsection \<open>The layout\<close>

definition GLOBAL_HEAP_START :: nat where "GLOBAL_HEAP_START = 0xC0000000"
definition SHARED_MEM_SIZE_MAX :: nat where "SHARED_MEM_SIZE_MAX = 96 * 2 ^ 10"
definition LOCAL_MEM_SIZE_MAX :: nat where "LOCAL_MEM_SIZE_MAX = 2 ^ 14"
definition MAX_STREAMING_MULTIPROCESSORS :: nat where "MAX_STREAMING_MULTIPROCESSORS = 80"
definition MAX_THREAD_PER_SM :: nat where "MAX_THREAD_PER_SM = 2 ^ 11"
definition TOTAL_LOCAL_MEM_PER_SM :: nat where
  "TOTAL_LOCAL_MEM_PER_SM = MAX_THREAD_PER_SM * LOCAL_MEM_SIZE_MAX"
definition TOTAL_SHARED_MEM :: nat where
  "TOTAL_SHARED_MEM = MAX_STREAMING_MULTIPROCESSORS * SHARED_MEM_SIZE_MAX"
definition TOTAL_LOCAL_MEM :: nat where
  "TOTAL_LOCAL_MEM = MAX_STREAMING_MULTIPROCESSORS * MAX_THREAD_PER_SM * LOCAL_MEM_SIZE_MAX"
definition SHARED_GENERIC_START :: nat where
  "SHARED_GENERIC_START = GLOBAL_HEAP_START - TOTAL_SHARED_MEM"
definition LOCAL_GENERIC_START :: nat where
  "LOCAL_GENERIC_START = SHARED_GENERIC_START - TOTAL_LOCAL_MEM"
definition STATIC_ALLOC_LIMIT :: nat where
  "STATIC_ALLOC_LIMIT = GLOBAL_HEAP_START - (TOTAL_LOCAL_MEM + TOTAL_SHARED_MEM)"

lemmas layout_defs = GLOBAL_HEAP_START_def SHARED_MEM_SIZE_MAX_def LOCAL_MEM_SIZE_MAX_def
  MAX_STREAMING_MULTIPROCESSORS_def MAX_THREAD_PER_SM_def TOTAL_LOCAL_MEM_PER_SM_def
  TOTAL_SHARED_MEM_def TOTAL_LOCAL_MEM_def SHARED_GENERIC_START_def LOCAL_GENERIC_START_def
  STATIC_ALLOC_LIMIT_def

definition shared_to_generic :: "nat \<Rightarrow> nat \<Rightarrow> nat option" where
  "shared_to_generic smid addr = do {
     assert_that (addr < SHARED_MEM_SIZE_MAX);
     Some (SHARED_GENERIC_START + smid * SHARED_MEM_SIZE_MAX + addr)
   }"

definition global_to_generic :: "nat \<Rightarrow> nat" where
  "global_to_generic addr = addr"

definition isspace_shared :: "nat \<Rightarrow> nat \<Rightarrow> bool" where
  "isspace_shared smid addr =
     (let start = SHARED_GENERIC_START + smid * SHARED_MEM_SIZE_MAX;
          stop = SHARED_GENERIC_START + wrap32 (smid + 1) * SHARED_MEM_SIZE_MAX
      in if addr \<ge> stop \<or> addr < start then False else True)"

definition isspace_global :: "nat \<Rightarrow> bool" where
  "isspace_global addr \<longleftrightarrow> addr \<ge> GLOBAL_HEAP_START \<or> addr < STATIC_ALLOC_LIMIT"

definition whichspace :: "nat \<Rightarrow> mem_space_type" where
  "whichspace addr =
     (if addr \<ge> GLOBAL_HEAP_START \<or> addr < STATIC_ALLOC_LIMIT then global_space
      else if addr \<ge> SHARED_GENERIC_START then shared_space
      else local_space)"

definition generic_to_shared :: "nat \<Rightarrow> nat \<Rightarrow> nat option" where
  "generic_to_shared smid addr = do {
     assert_that (isspace_shared smid addr);
     Some (addr - (SHARED_GENERIC_START + smid * SHARED_MEM_SIZE_MAX))
   }"

definition local_to_generic :: "nat \<Rightarrow> nat \<Rightarrow> nat \<Rightarrow> nat option" where
  "local_to_generic smid hwtid addr = do {
     assert_that (addr < LOCAL_MEM_SIZE_MAX);
     Some (LOCAL_GENERIC_START + TOTAL_LOCAL_MEM_PER_SM * smid + LOCAL_MEM_SIZE_MAX * hwtid + addr)
   }"

definition isspace_local :: "nat \<Rightarrow> nat \<Rightarrow> nat \<Rightarrow> bool" where
  "isspace_local smid hwtid addr =
     (let start = LOCAL_GENERIC_START + TOTAL_LOCAL_MEM_PER_SM * smid + LOCAL_MEM_SIZE_MAX * hwtid;
          stop = LOCAL_GENERIC_START + TOTAL_LOCAL_MEM_PER_SM * smid +
            LOCAL_MEM_SIZE_MAX * wrap32 (hwtid + 1)
      in if addr \<ge> stop \<or> addr < start then False else True)"

definition generic_to_local :: "nat \<Rightarrow> nat \<Rightarrow> nat \<Rightarrow> nat option" where
  "generic_to_local smid hwtid addr = do {
     assert_that (isspace_local smid hwtid addr);
     Some (addr - (LOCAL_GENERIC_START + TOTAL_LOCAL_MEM_PER_SM * smid + LOCAL_MEM_SIZE_MAX * hwtid))
   }"

definition generic_to_global :: "nat \<Rightarrow> nat" where
  "generic_to_global addr = addr"

lemma generic_shared_roundtrip:
  assumes "smid < 2 ^ 32 - 1" "shared_to_generic smid a = Some g"
  shows "generic_to_shared smid g = Some a \<and> isspace_shared smid g"
  using assms
  by (auto simp: shared_to_generic_def generic_to_shared_def isspace_shared_def wrap32_def Let_def
      split: if_splits)

lemma generic_local_roundtrip:
  assumes "hwtid < 2 ^ 32 - 1" "local_to_generic smid hwtid a = Some g"
  shows "generic_to_local smid hwtid g = Some a \<and> isspace_local smid hwtid g"
  using assms
  by (auto simp: local_to_generic_def generic_to_local_def isspace_local_def wrap32_def Let_def
      split: if_splits)

lemma shared_window_class:
  assumes "shared_to_generic smid a = Some g"
  shows "whichspace g = (if smid < MAX_STREAMING_MULTIPROCESSORS then shared_space else global_space)"
  using assms by (auto simp: shared_to_generic_def whichspace_def layout_defs split: if_splits)

lemma local_window_class:
  assumes "local_to_generic smid hwtid a = Some g" "smid < MAX_STREAMING_MULTIPROCESSORS"
    "hwtid < MAX_THREAD_PER_SM"
  shows "whichspace g = local_space"
  using assms by (auto simp: local_to_generic_def whichspace_def layout_defs split: if_splits)

lemma local_windows_disjoint:
  assumes "local_to_generic s1 h1 a1 = Some g" "local_to_generic s2 h2 a2 = Some g"
    "h1 < MAX_THREAD_PER_SM" "h2 < MAX_THREAD_PER_SM"
  shows "s1 = s2 \<and> h1 = h2 \<and> a1 = a2"
proof -
  have g: "(s1 * 2048 + h1) * 16384 + a1 = (s2 * 2048 + h2) * 16384 + a2"
    and a: "a1 < 16384" "a2 < 16384"
    using assms(1,2) by (auto simp: local_to_generic_def layout_defs split: if_splits)
  have h: "h1 < 2048" "h2 < 2048" using assms(3,4) by (simp_all add: MAX_THREAD_PER_SM_def)
  have "s1 * 2048 + h1 = s2 * 2048 + h2 \<and> a1 = a2" using mixed_radix_inj[OF g a] .
  then show ?thesis using mixed_radix_inj[OF _ h] by blast
qed

lemma shared_windows_disjoint:
  assumes "shared_to_generic s1 a1 = Some g" "shared_to_generic s2 a2 = Some g"
  shows "s1 = s2 \<and> a1 = a2"
proof -
  have "s1 * 98304 + a1 = s2 * 98304 + a2" "a1 < 98304" "a2 < 98304"
    using assms by (auto simp: shared_to_generic_def layout_defs split: if_splits)
  then show ?thesis by (rule mixed_radix_inj)
qed

subsection \<open>Local memory in the timing model\<close>

text \<open>What \<open>translate_local_memaddr\<close> reads of the core and its configuration.\<close>

record local_map_params =
  lm_local_mem_map :: bool
  lm_kernel_padded_threads_per_cta :: nat
  lm_kernel_max_cta_per_shader :: nat
  lm_n_thread_per_shader :: nat
  lm_sid :: nat

definition MAX_ACCESSES_PER_INSN_PER_THREAD :: nat where
  "MAX_ACCESSES_PER_INSN_PER_THREAD = 8"

definition local_thread_base :: "local_map_params \<Rightarrow> nat \<Rightarrow> nat \<Rightarrow> nat" where
  "local_thread_base c tid num_shader =
     (if lm_local_mem_map c
      then wrap32 (4 * (lm_kernel_padded_threads_per_cta c *
             (lm_sid c + num_shader * (tid div lm_kernel_padded_threads_per_cta c)) +
             tid mod lm_kernel_padded_threads_per_cta c))
      else wrap32 (4 * (lm_n_thread_per_shader c * lm_sid c + tid)))"

definition local_max_threads :: "local_map_params \<Rightarrow> nat \<Rightarrow> nat" where
  "local_max_threads c num_shader =
     (if lm_local_mem_map c
      then wrap32 (lm_kernel_padded_threads_per_cta c * lm_kernel_max_cta_per_shader c * num_shader)
      else wrap32 (num_shader * lm_n_thread_per_shader c))"

definition translate_local_memaddr ::
  "local_map_params \<Rightarrow> nat \<Rightarrow> nat \<Rightarrow> nat \<Rightarrow> nat \<Rightarrow> nat list option" where
  "translate_local_memaddr c localaddr tid num_shader datasize = do {
     assert_that (\<not> (lm_local_mem_map c \<and> lm_kernel_padded_threads_per_cta c = 0));
     let thread_base = local_thread_base c tid num_shader;
     let max_concurrent_threads = local_max_threads c num_shader;
     assert_that (thread_base < wrap32 (4 * max_concurrent_threads));
     (if datasize \<ge> 4 then do {
        assert_that (datasize mod 4 = 0);
        let num_accesses = datasize div 4;
        assert_that (num_accesses \<le> MAX_ACCESSES_PER_INSN_PER_THREAD);
        assert_that (localaddr mod 4 = 0);
        Some (map (\<lambda>i. (localaddr div 4 + i) * max_concurrent_threads * 4 + thread_base +
                LOCAL_GENERIC_START) [0..<num_accesses])
      } else do {
        assert_that (datasize > 0);
        let local_word = localaddr div 4;
        assert_that ((localaddr + datasize - 1) div 4 = local_word);
        Some [local_word * max_concurrent_threads * 4 + localaddr mod 4 + thread_base +
                LOCAL_GENERIC_START]
      })
   }"

text \<open>
  The word a translated address lies in determines the local word and the thread: the
  position \<open>w * M + b\<close> with \<open>b < M\<close> has one decomposition.
\<close>

lemma translate_word:
  assumes "translate_local_memaddr c la tid ns ds = Some as" "a \<in> set as"
    "local_thread_base c tid ns = 4 * b" "4 * local_max_threads c ns < 2 ^ 32"
  shows "\<exists>w. (a - LOCAL_GENERIC_START) div 4 = w * local_max_threads c ns + b \<and>
    b < local_max_threads c ns \<and> la div 4 \<le> w \<and> w < la div 4 + (ds + 3) div 4 \<and>
    LOCAL_GENERIC_START \<le> a"
proof (cases "ds \<ge> 4")
  case True
  then obtain i where i: "i < ds div 4"
    "a = (la div 4 + i) * local_max_threads c ns * 4 + 4 * b + LOCAL_GENERIC_START"
    and b: "4 * b < 4 * local_max_threads c ns"
    using assms by (auto simp: translate_local_memaddr_def Let_def wrap32_small split: if_splits)
  have "(a - LOCAL_GENERIC_START) = 4 * ((la div 4 + i) * local_max_threads c ns + b)"
    using i(2) by (simp add: algebra_simps)
  then have "(a - LOCAL_GENERIC_START) div 4 = (la div 4 + i) * local_max_threads c ns + b" by simp
  moreover have "la div 4 + i < la div 4 + (ds + 3) div 4" using i(1) by linarith
  moreover have "LOCAL_GENERIC_START \<le> a" using i(2) by simp
  moreover have "b < local_max_threads c ns" using b by simp
  ultimately show ?thesis by (intro exI[of _ "la div 4 + i"]) simp
next
  case False
  then have a: "a = la div 4 * local_max_threads c ns * 4 + la mod 4 + 4 * b + LOCAL_GENERIC_START"
    and b: "4 * b < 4 * local_max_threads c ns" and ds: "0 < ds"
    using assms by (auto simp: translate_local_memaddr_def Let_def wrap32_small split: if_splits)
  have "(a - LOCAL_GENERIC_START) = 4 * (la div 4 * local_max_threads c ns + b) + la mod 4"
    using a by (simp add: algebra_simps)
  then have "(a - LOCAL_GENERIC_START) div 4 = la div 4 * local_max_threads c ns + b" by simp
  moreover have "la div 4 < la div 4 + (ds + 3) div 4" using ds by linarith
  moreover have "b < local_max_threads c ns" using b by simp
  moreover have "LOCAL_GENERIC_START \<le> a" using a by simp
  ultimately show ?thesis by (intro exI[of _ "la div 4"]) simp
qed

subsection \<open>\<open>intLOGB2\<close>\<close>

definition logb2_stage :: "u32 \<Rightarrow> nat \<Rightarrow> u32 \<times> u32 \<Rightarrow> u32 \<times> u32" where
  "logb2_stage m k vr =
     (case vr of (v, r) \<Rightarrow>
        let shift = (if v AND m \<noteq> 0 then 2 ^ k else 0 :: nat)
        in (drop_bit shift v, r OR of_nat shift))"

definition intLOGB2 :: "u32 \<Rightarrow> u32" where
  "intLOGB2 v = snd (logb2_stage 0x2 0 (logb2_stage 0xC 1 (logb2_stage 0xF0 2
     (logb2_stage 0xFF00 3 (logb2_stage 0xFFFF0000 4 (v, 0))))))"

text \<open>
  Before stage \<open>k\<close> the value fits in \<open>2 ^ (k + 1)\<close> bits and is the original one
  shifted right by \<open>r\<close>, a multiple of \<open>2 ^ (k + 1)\<close>; the stage halves the width.
\<close>

definition logb2_inv :: "u32 \<Rightarrow> nat \<Rightarrow> u32 \<times> u32 \<Rightarrow> bool" where
  "logb2_inv v0 n vr \<longleftrightarrow> (case vr of (v, r) \<Rightarrow>
     0 < unat v \<and> unat v < 2 ^ (2 ^ n) \<and> unat v = unat v0 div 2 ^ unat r \<and>
     2 ^ n dvd unat r \<and> unat r < 32)"

lemma and_field_nonzero:
  fixes v :: u32
  assumes "unat v < 2 ^ (2 * s)" "2 * s \<le> 32" "m = push_bit s (mask s)"
  shows "v AND m \<noteq> 0 \<longleftrightarrow> 2 ^ s \<le> unat v"
proof -
  have un: "unat (drop_bit s v) = unat v div 2 ^ s"
    unfolding unat_drop_bit_eq by (rule drop_bit_eq_div)
  have d: "unat (drop_bit s v) < 2 ^ s"
    unfolding un using assms(1) by (simp add: less_mult_imp_div_less mult_2 power_add)
  then have t: "take_bit s (drop_bit s v) = drop_bit s v"
    by (intro unsigned_word_eqI[where 'a = nat]) (simp add: unsigned_take_bit_eq take_bit_nat_eq_self)
  have "v AND m = push_bit s (drop_bit s v AND mask s)"
    unfolding assms(3) by (rule bit_eqI) (auto simp: bit_simps)
  also have "\<dots> = push_bit s (drop_bit s v)" by (simp add: t flip: take_bit_eq_mask)
  finally have e: "v AND m = push_bit s (drop_bit s v)" .
  have "unat (push_bit s (drop_bit s v)) = unat (drop_bit s v) * 2 ^ s"
  proof -
    have "unat (drop_bit s v) * 2 ^ s < 2 ^ s * 2 ^ s" using d by simp
    also have "\<dots> = 2 ^ (2 * s)" by (simp add: mult_2 power_add)
    also have "\<dots> \<le> 2 ^ 32" using assms(2) by (rule power_increasing) simp
    finally have "unat (drop_bit s v) * 2 ^ s < 2 ^ 32" .
    then show ?thesis
      unfolding unsigned_push_bit_eq push_bit_eq_mult[where 'a = nat] by (simp add: take_bit_nat_eq_self)
  qed
  then have "v AND m = 0 \<longleftrightarrow> unat (drop_bit s v) = 0"
    by (simp add: e unat_eq_zero[symmetric])
  also have "\<dots> \<longleftrightarrow> unat v < 2 ^ s"
    by (simp only: un) (simp add: div_eq_0_iff)
  finally show ?thesis by auto
qed

lemma or_add_multiple:
  fixes r :: u32
  assumes "2 ^ Suc k dvd unat r" "unat r < 32" "k < 5"
  shows "unat (r OR of_nat (2 ^ k)) = unat r + 2 ^ k"
proof -
  obtain j where "unat r = 2 ^ k * (2 * j)" using assms(1) by (auto simp: dvd_def algebra_simps)
  then have "unat r div 2 ^ k = 2 * j" by simp
  then have "\<not> bit (unat r) k" by (simp add: bit_iff_odd)
  then have "\<not> bit r k" using assms(3) by (simp add: bit_unsigned_iff)
  then have "r AND of_nat (2 ^ k) = 0"
    by (intro bit_eqI) (auto simp: bit_simps)
  then have e: "r OR of_nat (2 ^ k) = r + of_nat (2 ^ k)"
    by (simp add: disjunctive_add_eq_or)
  have "(2::nat) ^ k < 32" using assms(3) power_strict_increasing[of k 5 "2::nat"] by simp
  then have "unat r + 2 ^ k < 2 ^ 32" using assms(2) by simp
  moreover then have "unat (of_nat (2 ^ k) :: u32) = 2 ^ k"
    by (simp only: unat_of_nat) (simp del: of_nat_power)
  ultimately show ?thesis unfolding e by (simp only: unat_word_ariths(1)) simp
qed

lemma logb2_stage_inv:
  assumes "logb2_inv v0 (Suc k) vr" "k < 5" "m = push_bit (2 ^ k) (mask (2 ^ k))"
  shows "logb2_inv v0 k (logb2_stage m k vr)"
proof -
  obtain v r where vr: "vr = (v, r)" by (cases vr)
  from assms(1) have pos: "0 < unat v" and lt: "unat v < 2 ^ (2 * 2 ^ k)"
    and sh: "unat v = unat v0 div 2 ^ unat r" and dv: "2 ^ Suc k dvd unat r" and r32: "unat r < 32"
    by (simp_all add: vr logb2_inv_def)
  have w: "2 * 2 ^ k \<le> (32 :: nat)"
    using assms(2) power_increasing[of "Suc k" 5 "2::nat"] by simp
  note test = and_field_nonzero[OF lt w assms(3)]
  have dvk: "2 ^ k dvd unat r" using dvd_trans[OF le_imp_power_dvd[of k "Suc k" 2] dv] by simp
  show ?thesis
  proof (cases "2 ^ 2 ^ k \<le> unat v")
    case False
    then show ?thesis
      using False pos sh r32 test dvk by (simp add: vr logb2_stage_def logb2_inv_def)
  next
    case True
    have un: "unat (drop_bit (2 ^ k) v) = unat v div 2 ^ 2 ^ k"
      unfolding unat_drop_bit_eq by (rule drop_bit_eq_div)
    have add: "unat (r OR of_nat (2 ^ k)) = unat r + 2 ^ k"
      using or_add_multiple[OF dv r32 assms(2)] .
    have "unat v div 2 ^ 2 ^ k = unat v0 div 2 ^ (unat r + 2 ^ k)"
      by (simp add: sh power_add div_mult2_eq)
    moreover have "0 < unat v div 2 ^ 2 ^ k" using True by (simp add: div_greater_zero_iff)
    moreover have "unat v div 2 ^ 2 ^ k < 2 ^ 2 ^ k"
      using lt by (simp add: less_mult_imp_div_less mult_2 power_add)
    moreover have "2 ^ k dvd unat r + 2 ^ k"
      using dvk by (rule dvd_add) simp
    moreover have "unat r + 2 ^ k < 32"
    proof -
      have "2 ^ (unat r + 2 ^ k) \<le> unat v0"
        using calculation(1,2) by (simp add: div_greater_zero_iff)
      also have "\<dots> < 2 ^ 32" using unsigned_less[of v0] by simp
      finally have "(2::nat) ^ (unat r + 2 ^ k) < 2 ^ 32" .
      then show ?thesis by (rule power_less_imp_less_exp[rotated]) simp
    qed
    ultimately show ?thesis
      using True test un add by (simp add: vr logb2_stage_def logb2_inv_def)
  qed
qed

lemma intLOGB2_bounds:
  assumes "v \<noteq> 0"
  shows "2 ^ unat (intLOGB2 v) \<le> unat v \<and> unat v < 2 ^ Suc (unat (intLOGB2 v))"
proof -
  have "unat v < 2 ^ 32" using unsigned_less[of v] by simp
  then have "logb2_inv v 5 (v, 0)"
    using assms by (simp add: logb2_inv_def unat_gt_0)
  then have "logb2_inv v 0 (logb2_stage 0x2 0 (logb2_stage 0xC 1 (logb2_stage 0xF0 2
      (logb2_stage 0xFF00 3 (logb2_stage 0xFFFF0000 4 (v, 0))))))"
    using logb2_stage_inv[of v 4 "(v, 0)" "0xFFFF0000"] logb2_stage_inv[of v 3 _ "0xFF00"]
      logb2_stage_inv[of v 2 _ "0xF0"] logb2_stage_inv[of v 1 _ "0xC"] logb2_stage_inv[of v 0 _ "0x2"]
    by (simp add: mask_eq_exp_minus_1 push_bit_eq_mult eval_nat_numeral(3)[symmetric] numeral_2_eq_2[symmetric])
  then have "unat v div 2 ^ unat (intLOGB2 v) = 1"
    unfolding intLOGB2_def logb2_inv_def by (auto split: prod.splits)
  moreover have "d \<le> n \<and> n < d + d" if "n div d = 1" for n d :: nat
  proof -
    have "0 < d" using that by (cases d) auto
    then have "n mod d < d" "d + n mod d = n" using that div_mult_mod_eq[of n d] by simp_all
    then show ?thesis by linarith
  qed
  ultimately show ?thesis by (simp add: mult_2)
qed

subsection \<open>Properties\<close>

text \<open>C19. Generic pointers into shared memory: for every core id below 80, an address of the
  core's shared memory becomes a generic address that is classified as shared memory, lies in
  the window of that core and of no other, and converts back to the same address.\<close>

theorem generic_shared_window:
  assumes "shared_to_generic smid a = Some g" "smid < MAX_STREAMING_MULTIPROCESSORS"
  shows "whichspace g = shared_space \<and> generic_to_shared smid g = Some a \<and>
    (\<forall>s. s < MAX_STREAMING_MULTIPROCESSORS \<and> isspace_shared s g \<longrightarrow> s = smid)"
proof (intro conjI allI impI)
  have small: "smid < 2 ^ 32 - 1" using assms(2) by (simp add: MAX_STREAMING_MULTIPROCESSORS_def)
  show "whichspace g = shared_space" using shared_window_class[OF assms(1)] assms(2) by simp
  show "generic_to_shared smid g = Some a" using generic_shared_roundtrip[OF small assms(1)] by simp
  fix s assume s: "s < MAX_STREAMING_MULTIPROCESSORS \<and> isspace_shared s g"
  then have "generic_to_shared s g = Some (g - (SHARED_GENERIC_START + s * SHARED_MEM_SIZE_MAX))"
    by (simp add: generic_to_shared_def)
  moreover have "shared_to_generic s (g - (SHARED_GENERIC_START + s * SHARED_MEM_SIZE_MAX)) = Some g"
    using s by (auto simp: shared_to_generic_def isspace_shared_def Let_def layout_defs wrap32_def
        split: if_splits)
  ultimately show "s = smid" using shared_windows_disjoint[OF _ assms(1)] by blast
qed

theorem generic_shared_window_witness:
  "\<exists>g. shared_to_generic 79 98300 = Some g \<and> whichspace g = shared_space \<and>
     generic_to_shared 79 g = Some 98300"
proof -
  obtain g where g: "shared_to_generic 79 98300 = Some g"
    by (simp add: shared_to_generic_def layout_defs)
  from generic_shared_window[OF g] g show ?thesis by (simp add: MAX_STREAMING_MULTIPROCESSORS_def)
qed

text \<open>C23. The windows are laid out for 80 cores: a generic pointer into the shared memory of a
  core with id 80 or more is classified as global memory.\<close>

theorem generic_shared_beyond_80:
  assumes "shared_to_generic smid a = Some g" "MAX_STREAMING_MULTIPROCESSORS \<le> smid"
  shows "whichspace g = global_space"
  using shared_window_class[OF assms(1)] assms(2) by simp

theorem generic_shared_beyond_80_witness:
  "\<exists>g. shared_to_generic 131 0 = Some g \<and> whichspace g = global_space"
proof -
  obtain g where g: "shared_to_generic 131 0 = Some g"
    by (simp add: shared_to_generic_def layout_defs)
  from generic_shared_beyond_80[OF g] g show ?thesis by (simp add: MAX_STREAMING_MULTIPROCESSORS_def)
qed

text \<open>Generic pointers into local memory: the window of a thread is inside the region that is
  classified as local memory, converts back, and shares no address with the window of any
  other thread of any core.\<close>

theorem generic_local_window:
  assumes "local_to_generic smid hwtid a = Some g"
    and "smid < MAX_STREAMING_MULTIPROCESSORS" "hwtid < MAX_THREAD_PER_SM"
  shows "whichspace g = local_space \<and> generic_to_local smid hwtid g = Some a \<and>
    (\<forall>s h b. local_to_generic s h b = Some g \<and> h < MAX_THREAD_PER_SM \<longrightarrow> s = smid \<and> h = hwtid)"
proof (intro conjI allI impI)
  have small: "hwtid < 2 ^ 32 - 1" using assms(3) by (simp add: MAX_THREAD_PER_SM_def)
  show "whichspace g = local_space" by (rule local_window_class[OF assms])
  show "generic_to_local smid hwtid g = Some a" using generic_local_roundtrip[OF small assms(1)] by simp
  fix s h b assume h: "local_to_generic s h b = Some g \<and> h < MAX_THREAD_PER_SM"
  then show "s = smid" "h = hwtid" using local_windows_disjoint[OF _ assms(1) _ assms(3), of s h b] by blast+
qed

theorem generic_local_window_witness:
  "\<exists>g. local_to_generic 3 2047 16383 = Some g \<and> whichspace g = local_space \<and>
     generic_to_local 3 2047 g = Some 16383"
proof -
  obtain g where g: "local_to_generic 3 2047 16383 = Some g"
    by (simp add: local_to_generic_def layout_defs)
  from generic_local_window[OF g] g show ?thesis
    by (simp add: MAX_STREAMING_MULTIPROCESSORS_def MAX_THREAD_PER_SM_def)
qed

text \<open>The products of the mapping fit in an \<open>unsigned\<close>.\<close>

definition local_map_fits :: "local_map_params \<Rightarrow> nat \<Rightarrow> bool" where
  "local_map_fits c ns \<longleftrightarrow>
     0 < lm_kernel_padded_threads_per_cta c \<and> 4 * (lm_n_thread_per_shader c * ns) < 2 ^ 32 \<and>
     4 * (lm_kernel_padded_threads_per_cta c * (ns * Suc (lm_n_thread_per_shader c div
       lm_kernel_padded_threads_per_cta c))) < 2 ^ 32 \<and>
     4 * (lm_kernel_padded_threads_per_cta c * lm_kernel_max_cta_per_shader c * ns) < 2 ^ 32"

text \<open>The base that a thread gets, without overflow, determines the core and the thread.\<close>

lemma local_thread_base_inj:
  assumes "local_thread_base c1 t1 ns = local_thread_base c2 t2 ns" "c2 = c1\<lparr>lm_sid := s2\<rparr>"
    and bounds: "lm_sid c1 < ns" "s2 < ns" "t1 < lm_n_thread_per_shader c1" "t2 < lm_n_thread_per_shader c1"
    and fits: "local_map_fits c1 ns"
  shows "lm_sid c1 = s2 \<and> t1 = t2"
proof (cases "lm_local_mem_map c1")
  case True
  let ?P = "lm_kernel_padded_threads_per_cta c1" and ?N = "lm_n_thread_per_shader c1"
  from fits have p: "0 < ?P" by (simp add: local_map_fits_def)
  have bd: "4 * (?P * (s + ns * (t div ?P)) + t mod ?P) < 2 ^ 32" if "s < ns" "t < ?N" for s t
  proof -
    have "s + ns * (t div ?P) < ns * Suc (t div ?P)" using that(1) by simp
    also have "\<dots> \<le> ns * Suc (?N div ?P)" using that(2) by (intro mult_le_mono2) (simp add: div_le_mono)
    finally have "Suc (s + ns * (t div ?P)) \<le> ns * Suc (?N div ?P)" by simp
    then have "?P * Suc (s + ns * (t div ?P)) \<le> ?P * (ns * Suc (?N div ?P))" by (rule mult_le_mono2)
    moreover have "t mod ?P < ?P" using p by simp
    ultimately show ?thesis using fits by (simp add: local_map_fits_def)
  qed
  have "?P * (lm_sid c1 + ns * (t1 div ?P)) + t1 mod ?P = ?P * (s2 + ns * (t2 div ?P)) + t2 mod ?P"
    using assms(1) True bd[OF bounds(1,3)] bd[OF bounds(2,4)] assms(2)
    by (simp add: local_thread_base_def wrap32_small)
  then have "lm_sid c1 + ns * (t1 div ?P) = s2 + ns * (t2 div ?P) \<and> t1 mod ?P = t2 mod ?P"
    using mixed_radix_inj[of "lm_sid c1 + ns * (t1 div ?P)" ?P "t1 mod ?P"
        "s2 + ns * (t2 div ?P)" "t2 mod ?P"] p
    by (simp only: mult.commute[of _ ?P] mod_less_divisor simp_thms)
  moreover from this have "t1 div ?P = t2 div ?P \<and> lm_sid c1 = s2"
    using mixed_radix_inj[of "t1 div ?P" ns "lm_sid c1" "t2 div ?P" s2] bounds(1,2)
    by (simp add: algebra_simps)
  ultimately show ?thesis by (metis div_mult_mod_eq)
next
  case False
  let ?N = "lm_n_thread_per_shader c1"
  have ov: "4 * (?N * ns) < 2 ^ 32" using fits by (simp add: local_map_fits_def)
  have bd: "4 * (?N * s + t) < 2 ^ 32" if "s < ns" "t < ?N" for s t
  proof -
    have "?N * s + t < ?N * Suc s" using that(2) by simp
    also have "\<dots> \<le> ?N * ns" using that(1) by (intro mult_le_mono2) simp
    finally show ?thesis using ov by (meson le_less_trans less_imp_le mult_le_mono2)
  qed
  have "lm_sid c1 * ?N + t1 = s2 * ?N + t2"
    using assms(1) False bd[OF bounds(1,3)] bd[OF bounds(2,4)] assms(2)
    by (simp add: local_thread_base_def wrap32_small mult.commute)
  then show ?thesis using mixed_radix_inj bounds(3,4) by blast
qed

lemma local_thread_base_words: "\<exists>b. local_thread_base c t ns = 4 * b"
proof -
  have "\<exists>b. wrap32 (4 * x) = 4 * b" for x
    using mult_mod_right[of 4 x "2 ^ 30"] by (intro exI[of _ "x mod 2 ^ 30"]) (simp add: wrap32_def)
  then show ?thesis unfolding local_thread_base_def by presburger
qed



text \<open>\<open>intLOGB2\<close> is the floor of the binary logarithm of every nonzero 32-bit value.\<close>

theorem intLOGB2_floor_log:
  assumes "v \<noteq> 0"
  shows "2 ^ unat (intLOGB2 v) \<le> unat v \<and> unat v < 2 ^ Suc (unat (intLOGB2 v))"
  by (rule intLOGB2_bounds[OF assms])

theorem intLOGB2_floor_log_witness: "2 ^ unat (intLOGB2 1000) \<le> (1000 :: nat) \<and> (1000 :: nat) < 2 ^ Suc (unat (intLOGB2 1000))"
  using intLOGB2_floor_log[of 1000] by simp

end
