(* ===== verification/Inst_Model.thy ===== *)
theory Inst_Model
  imports Address_Map
begin

section \<open>Instructions in the pipeline: \<open>warp_inst_t\<close> and \<open>register_set\<close>\<close>

text \<open>
  The operation classes that the timing model sees, the fields of \<open>inst_t\<close> and
  \<open>warp_inst_t\<close> (\<open>abstract_hardware_model.h\<close>) that the modelled code reads or writes, and
  \<open>register_set\<close>, the group of pipeline registers between two stages.
\<close>

datatype uarch_op_t =
    NO_OP | ALU_OP | SFU_OP | TENSOR_CORE_OP | DP_OP | SP_OP | INTP_OP | ALU_SFU_OP | LOAD_OP
  | TENSOR_CORE_LOAD_OP | TENSOR_CORE_STORE_OP | STORE_OP | BRANCH_OP | BARRIER_OP
  | MEMORY_BARRIER_OP | CALL_OPS | RET_OPS | EXIT_OPS
  | SPECIALIZED_UNIT_1_OP | SPECIALIZED_UNIT_2_OP | SPECIALIZED_UNIT_3_OP
  | SPECIALIZED_UNIT_4_OP | SPECIALIZED_UNIT_5_OP | SPECIALIZED_UNIT_6_OP
  | SPECIALIZED_UNIT_7_OP | SPECIALIZED_UNIT_8_OP

definition SPEC_UNIT_START_ID :: int where
  "SPEC_UNIT_START_ID = 100"

fun op_code :: "uarch_op_t \<Rightarrow> int" where
  "op_code NO_OP = -1"
| "op_code ALU_OP = 1"
| "op_code SFU_OP = 2"
| "op_code TENSOR_CORE_OP = 3"
| "op_code DP_OP = 4"
| "op_code SP_OP = 5"
| "op_code INTP_OP = 6"
| "op_code ALU_SFU_OP = 7"
| "op_code LOAD_OP = 8"
| "op_code TENSOR_CORE_LOAD_OP = 9"
| "op_code TENSOR_CORE_STORE_OP = 10"
| "op_code STORE_OP = 11"
| "op_code BRANCH_OP = 12"
| "op_code BARRIER_OP = 13"
| "op_code MEMORY_BARRIER_OP = 14"
| "op_code CALL_OPS = 15"
| "op_code RET_OPS = 16"
| "op_code EXIT_OPS = 17"
| "op_code SPECIALIZED_UNIT_1_OP = 100"
| "op_code SPECIALIZED_UNIT_2_OP = 101"
| "op_code SPECIALIZED_UNIT_3_OP = 102"
| "op_code SPECIALIZED_UNIT_4_OP = 103"
| "op_code SPECIALIZED_UNIT_5_OP = 104"
| "op_code SPECIALIZED_UNIT_6_OP = 105"
| "op_code SPECIALIZED_UNIT_7_OP = 106"
| "op_code SPECIALIZED_UNIT_8_OP = 107"

definition is_spec_op :: "uarch_op_t \<Rightarrow> bool" where
  "is_spec_op p \<longleftrightarrow> op_code p \<ge> SPEC_UNIT_START_ID"

datatype uarch_bar_t = NOT_BAR | SYNC | ARRIVE | RED

datatype memory_op_t = no_memory_op | memory_load | memory_store

datatype mem_access_type =
    GLOBAL_ACC_R | LOCAL_ACC_R | CONST_ACC_R | TEXTURE_ACC_R | GLOBAL_ACC_W | LOCAL_ACC_W
  | L1_WRBK_ACC | L2_WRBK_ACC | INST_ACC_R | L1_WR_ALLOC_R | L2_WR_ALLOC_R

datatype operation_pipeline =
    UNKOWN_OP | SP__OP | DP__OP | INTP__OP | SFU__OP | TENSOR_CORE__OP | MEM__OP | SPECIALIZED__OP

datatype types_of_operands = UN_OP | INT_OP | FP_OP

definition MAX_REG_OPERANDS :: nat where "MAX_REG_OPERANDS = 32"
definition MAX_OUTPUT_VALUES :: nat where "MAX_OUTPUT_VALUES = 8"
definition MAX_INPUT_VALUES :: nat where "MAX_INPUT_VALUES = 24"

record mem_access =
  ma_addr :: nat
  ma_write :: bool
  ma_req_size :: nat
  ma_type :: mem_access_type
  ma_warp_mask :: active_mask_t

datatype cache_operator_type =
    CACHE_UNDEFINED | CACHE_ALL | CACHE_LAST_USE | CACHE_VOLATILE | CACHE_L1
  | CACHE_STREAMING | CACHE_GLOBAL | CACHE_WRITE_BACK | CACHE_WRITE_THROUGH

text \<open>\<open>(unsigned)-1\<close>, the value the code uses for "no barrier count".\<close>

definition UINT_MAX :: nat where
  "UINT_MAX = 2 ^ 32 - 1"

record warp_inst =
  wi_decoded :: bool
  wi_pc :: u64
  wi_isize :: nat
  wi_op :: uarch_op_t
  wi_memory_op :: memory_op_t
  wi_bar_type :: uarch_bar_t
  wi_bar_id :: nat
  wi_bar_count :: nat
  wi_oprnd_type :: types_of_operands
  wi_op_pipe :: operation_pipeline
  wi_in :: "nat list"
  wi_out :: "nat list"
  wi_pred :: int
  wi_ar1 :: int
  wi_ar2 :: int
  wi_arch_reg_src :: "int list"
  wi_arch_reg_dst :: "int list"
  wi_latency :: nat
  wi_initiation_interval :: nat
  wi_space :: memory_space_t
  wi_cache_op :: cache_operator_type
  wi_data_size :: nat
  wi_is_cdp :: int
  wi_is_ldgsts :: bool
  wi_is_ldgdepbar :: bool
  wi_is_depbar :: bool
  wi_depbar_group_no :: nat
  wi_rfq_load :: bool
  wi_rfq_move :: bool
  wi_rfq_queue_id :: nat
  wi_rfq_payload_words_per_lane :: nat
  wi_rfq_token_valid :: bool
  wi_rfq_token_cta_hw_id :: nat
  wi_rfq_token_original_warp_id :: nat
  wi_rfq_token_slot_index :: nat
  wi_rfq_token_sequence :: u32
  wi_smemq_load :: bool
  wi_smemq_move :: bool
  wi_smemq_queue_id :: nat
  wi_smemq_payload_words_per_lane :: nat
  wi_smemq_token_valid :: bool
  wi_smemq_token_cta_hw_id :: nat
  wi_smemq_token_original_warp_id :: nat
  wi_smemq_token_slot_index :: nat
  wi_smemq_token_sequence :: u32
  wi_uid :: nat
  wi_empty :: bool
  wi_warp_id :: nat
  wi_dynamic_warp_id :: nat
  wi_scheduler_id :: nat
  wi_streamID :: nat
  wi_cycles :: nat
  wi_isatomic :: bool
  wi_active_mask :: active_mask_t
  wi_accessq :: "mem_access list"
  wi_addr :: "nat list"

text \<open>
  The constructors of \<open>inst_t\<close> and \<open>warp_inst_t\<close>. Members that they leave uninitialised
  (\<open>memory_op\<close>, \<open>data_size\<close>, the operand numbers, the ids that \<open>issue\<close> sets) get the
  null value of their type here.
\<close>

definition warp_inst_init :: warp_inst where
  "warp_inst_init = \<lparr>wi_decoded = False, wi_pc = - 1, wi_isize = 0, wi_op = NO_OP,
     wi_memory_op = no_memory_op, wi_bar_type = NOT_BAR, wi_bar_id = UINT_MAX,
     wi_bar_count = UINT_MAX, wi_oprnd_type = UN_OP, wi_op_pipe = UNKOWN_OP,
     wi_in = replicate MAX_INPUT_VALUES 0, wi_out = replicate MAX_OUTPUT_VALUES 0,
     wi_pred = 0, wi_ar1 = 0, wi_ar2 = 0, wi_arch_reg_src = replicate MAX_REG_OPERANDS (-1),
     wi_arch_reg_dst = replicate MAX_REG_OPERANDS (-1), wi_latency = 1,
     wi_initiation_interval = 1, wi_space = Memory_space undefined_space 0,
     wi_cache_op = CACHE_UNDEFINED, wi_data_size = 0, wi_is_cdp = 0, wi_is_ldgsts = False,
     wi_is_ldgdepbar = False, wi_is_depbar = False, wi_depbar_group_no = 0,
     wi_rfq_load = False, wi_rfq_move = False, wi_rfq_queue_id = 0,
     wi_rfq_payload_words_per_lane = 0, wi_rfq_token_valid = False,
     wi_rfq_token_cta_hw_id = 0, wi_rfq_token_original_warp_id = 0,
     wi_rfq_token_slot_index = 0, wi_rfq_token_sequence = 0,
     wi_smemq_load = False, wi_smemq_move = False, wi_smemq_queue_id = 0,
     wi_smemq_payload_words_per_lane = 0, wi_smemq_token_valid = False,
     wi_smemq_token_cta_hw_id = 0, wi_smemq_token_original_warp_id = 0,
     wi_smemq_token_slot_index = 0, wi_smemq_token_sequence = 0,
     wi_uid = 0, wi_empty = True, wi_warp_id = 0, wi_dynamic_warp_id = 0,
     wi_scheduler_id = 0, wi_streamID = 2 ^ 64 - 1, wi_cycles = 0, wi_isatomic = False,
     wi_active_mask = 0, wi_accessq = [], wi_addr = []\<rparr>"

definition wi_is_load :: "warp_inst \<Rightarrow> bool" where
  "wi_is_load i \<longleftrightarrow> wi_op i = LOAD_OP \<or> wi_op i = TENSOR_CORE_LOAD_OP \<or> wi_memory_op i = memory_load"

definition wi_is_store :: "warp_inst \<Rightarrow> bool" where
  "wi_is_store i \<longleftrightarrow> wi_op i = STORE_OP \<or> wi_op i = TENSOR_CORE_STORE_OP \<or> wi_memory_op i = memory_store"

text \<open>\<open>warp_id()\<close> asserts that the register holds an instruction.\<close>

definition warp_id_of :: "warp_inst \<Rightarrow> nat option" where
  "warp_id_of i = do { assert_that (\<not> wi_empty i); Some (wi_warp_id i) }"

definition accessq_count :: "warp_inst \<Rightarrow> nat" where
  "accessq_count i = length (wi_accessq i)"

text \<open>\<open>dispatch_delay\<close> counts the initiation interval down and says whether it has not ended.\<close>

definition dispatch_delay :: "warp_inst \<Rightarrow> bool \<times> warp_inst" where
  "dispatch_delay i =
     (let c = (if wi_cycles i > 0 then wi_cycles i - 1 else wi_cycles i)
      in (c > 0, i\<lparr>wi_cycles := c\<rparr>))"

definition inst_clear :: "warp_inst \<Rightarrow> warp_inst" where
  "inst_clear i = i\<lparr>wi_empty := True\<rparr>"

subsection \<open>\<open>register_set\<close>\<close>

type_synonym register_set = "warp_inst list"

text \<open>The first index from \<open>i\<close> on whose register satisfies the test.\<close>

fun first_index :: "('a \<Rightarrow> bool) \<Rightarrow> nat \<Rightarrow> 'a list \<Rightarrow> nat option" where
  "first_index p i [] = None"
| "first_index p i (x # xs) = (if p x then Some i else first_index p (Suc i) xs)"

definition rs_has_free_any :: "register_set \<Rightarrow> bool" where
  "rs_has_free_any regs = list_ex wi_empty regs"

definition rs_has_free :: "bool \<Rightarrow> nat \<Rightarrow> register_set \<Rightarrow> bool option" where
  "rs_has_free sub_core_model reg_id regs =
     (if \<not> sub_core_model then Some (rs_has_free_any regs)
      else do { r \<leftarrow> vec_at regs reg_id; Some (wi_empty r) })"

definition rs_has_ready_any :: "register_set \<Rightarrow> bool" where
  "rs_has_ready_any regs = list_ex (\<lambda>r. \<not> wi_empty r) regs"

definition rs_has_ready :: "bool \<Rightarrow> nat \<Rightarrow> register_set \<Rightarrow> bool option" where
  "rs_has_ready sub_core_model reg_id regs =
     (if \<not> sub_core_model then Some (rs_has_ready_any regs)
      else do { r \<leftarrow> vec_at regs reg_id; Some (\<not> wi_empty r) })"

text \<open>
  The scan for the oldest instruction keeps the current candidate only if its uid is
  strictly smaller, as the code does.
\<close>

fun rs_scan_ready :: "nat option \<Rightarrow> nat \<Rightarrow> register_set \<Rightarrow> register_set \<Rightarrow> nat option" where
  "rs_scan_ready ready i all [] = ready"
| "rs_scan_ready ready i all (r # rs) =
     rs_scan_ready
       (if \<not> wi_empty r then
          (case ready of
             Some j \<Rightarrow> if wi_uid (all ! j) < wi_uid r then Some j else Some i
           | None \<Rightarrow> Some i)
        else ready) (Suc i) all rs"

definition rs_get_ready_any :: "register_set \<Rightarrow> nat option" where
  "rs_get_ready_any regs = rs_scan_ready None 0 regs regs"

definition rs_get_ready_reg_id :: "register_set \<Rightarrow> nat option" where
  "rs_get_ready_reg_id regs = do {
     assert_that (rs_has_ready_any regs);
     Some (case rs_get_ready_any regs of Some j \<Rightarrow> j | None \<Rightarrow> 0)
   }"

text \<open>\<open>get_ready\<close> may return a null pointer; \<open>None\<close> of the outer option is the failed assertion.\<close>

definition rs_get_ready :: "bool \<Rightarrow> nat \<Rightarrow> register_set \<Rightarrow> nat option option" where
  "rs_get_ready sub_core_model reg_id regs =
     (if \<not> sub_core_model then Some (rs_get_ready_any regs)
      else do { r \<leftarrow> vec_at regs reg_id; Some (if \<not> wi_empty r then Some reg_id else None) })"

definition rs_get_free_any :: "register_set \<Rightarrow> nat option" where
  "rs_get_free_any regs = first_index wi_empty 0 regs"

definition rs_get_free :: "bool \<Rightarrow> nat \<Rightarrow> register_set \<Rightarrow> nat option" where
  "rs_get_free sub_core_model reg_id regs =
     (if \<not> sub_core_model then rs_get_free_any regs
      else do { r \<leftarrow> vec_at regs reg_id; assert_that (wi_empty r); Some reg_id })"

definition rs_get_schd_id :: "nat \<Rightarrow> register_set \<Rightarrow> nat option" where
  "rs_get_schd_id reg_id regs = do {
     r \<leftarrow> vec_at regs reg_id;
     assert_that (\<not> wi_empty r);
     Some (wi_scheduler_id r)
   }"

text \<open>
  \<open>move_warp\<close> is defined outside the overlay; the moves take it as an argument that
  exchanges a destination and a source register.
\<close>

definition rs_move_in ::
  "(warp_inst \<Rightarrow> warp_inst \<Rightarrow> (warp_inst \<times> warp_inst) option) \<Rightarrow> bool \<Rightarrow> nat \<Rightarrow>
   warp_inst \<Rightarrow> register_set \<Rightarrow> (warp_inst \<times> register_set) option" where
  "rs_move_in move_warp sub_core_model reg_id src regs = do {
     j \<leftarrow> rs_get_free sub_core_model reg_id regs;
     (d, s) \<leftarrow> move_warp (regs ! j) src;
     Some (s, regs[j := d])
   }"

definition rs_move_out_to ::
  "(warp_inst \<Rightarrow> warp_inst \<Rightarrow> (warp_inst \<times> warp_inst) option) \<Rightarrow> bool \<Rightarrow> nat \<Rightarrow>
   warp_inst \<Rightarrow> register_set \<Rightarrow> (warp_inst \<times> register_set) option" where
  "rs_move_out_to move_warp sub_core_model reg_id dest regs = do {
     rdy \<leftarrow> rs_get_ready sub_core_model reg_id regs;
     j \<leftarrow> rdy;
     (d, s) \<leftarrow> move_warp dest (regs ! j);
     Some (d, regs[j := s])
   }"

subsection \<open>Facts\<close>

lemma first_index_Some:
  "first_index p i xs = Some k \<Longrightarrow>
   i \<le> k \<and> k < i + length xs \<and> p (xs ! (k - i)) \<and> (\<forall>j < k - i. \<not> p (xs ! j))"
proof (induction xs arbitrary: i)
  case (Cons x xs)
  show ?case
  proof (cases "p x")
    case True
    with Cons.prems show ?thesis by simp
  next
    case False
    with Cons.prems have "first_index p (Suc i) xs = Some k" by simp
    note IH = Cons.IH[OF this]
    moreover have "\<not> p ((x # xs) ! j)" if "j < k - i" for j
      using that IH False by (cases j) auto
    ultimately show ?thesis
      by (auto simp: nth_Cons' Suc_diff_le[symmetric] diff_Suc_eq_diff_pred[symmetric])
  qed
qed simp

lemma first_index_None: "first_index p i xs = None \<longleftrightarrow> \<not> list_ex p xs"
  by (induction xs arbitrary: i) auto

lemma rs_get_free_spec:
  assumes "rs_has_free sc rid regs = Some True"
  shows "\<exists>j. rs_get_free sc rid regs = Some j \<and> j < length regs \<and> wi_empty (regs ! j) \<and> (sc \<longrightarrow> j = rid)"
proof (cases sc)
  case True
  with assms show ?thesis by (auto simp: rs_has_free_def rs_get_free_def vec_at_def split: if_splits)
next
  case False
  with assms have "first_index wi_empty 0 regs \<noteq> None"
    by (simp add: first_index_None rs_has_free_def rs_has_free_any_def)
  then obtain j where j: "first_index wi_empty 0 regs = Some j" by auto
  with first_index_Some[OF j] False show ?thesis by (simp add: rs_get_free_def rs_get_free_any_def)
qed

text \<open>The scan returns the index of a waiting instruction with the smallest uid.\<close>

definition rs_oldest :: "register_set \<Rightarrow> nat \<Rightarrow> nat option \<Rightarrow> bool" where
  "rs_oldest regs n ready \<longleftrightarrow>
     (case ready of
        None \<Rightarrow> \<forall>k < n. wi_empty (regs ! k)
      | Some j \<Rightarrow> j < n \<and> \<not> wi_empty (regs ! j) \<and>
          (\<forall>k < n. \<not> wi_empty (regs ! k) \<longrightarrow> wi_uid (regs ! j) \<le> wi_uid (regs ! k)))"

lemma rs_scan_ready_oldest:
  assumes "rs_oldest regs i ready" "drop i regs = rs"
  shows "rs_oldest regs (i + length rs) (rs_scan_ready ready i regs rs)"
  using assms
proof (induction rs arbitrary: ready i)
  case Nil
  then show ?case by simp
next
  case (Cons r rs)
  have r: "regs ! i = r" "drop (Suc i) regs = rs"
    using Cons.prems(2) by (metis hd_drop_conv_nth drop_eq_Nil2 list.distinct(1) list.sel(1) not_le
        , metis drop_Suc list.sel(3) tl_drop)
  let ?ready = "if \<not> wi_empty r then
      (case ready of Some j \<Rightarrow> if wi_uid (regs ! j) < wi_uid r then Some j else Some i | None \<Rightarrow> Some i)
    else ready"
  have "rs_oldest regs (Suc i) ?ready"
    using Cons.prems(1) r(1)
    by (auto simp: rs_oldest_def less_Suc_eq split: option.splits)
  from Cons.IH[OF this r(2)] show ?case by simp
qed

lemma rs_get_ready_oldest: "rs_oldest regs (length regs) (rs_get_ready_any regs)"
  using rs_scan_ready_oldest[of regs 0 None regs]
  by (simp add: rs_get_ready_any_def rs_oldest_def)

subsection \<open>Properties\<close>

text \<open>A register set issues oldest first: \<open>get_ready\<close> finds nothing exactly when every
  register is empty, and otherwise an occupied register whose instruction has the smallest
  uid of the set.\<close>

theorem register_set_oldest_first:
  "case rs_get_ready_any regs of
     None \<Rightarrow> \<forall>k < length regs. wi_empty (regs ! k)
   | Some j \<Rightarrow> j < length regs \<and> \<not> wi_empty (regs ! j) \<and>
       (\<forall>k < length regs. wi_empty (regs ! k) \<or> wi_uid (regs ! j) \<le> wi_uid (regs ! k))"
  using rs_get_ready_oldest[of regs] unfolding rs_oldest_def by (cases "rs_get_ready_any regs") auto

theorem register_set_oldest_first_witness:
  "rs_get_ready_any [warp_inst_init, warp_inst_init\<lparr>wi_empty := False, wi_uid := 9\<rparr>,
     warp_inst_init\<lparr>wi_empty := False, wi_uid := 4\<rparr>] = Some 2 \<and> (4 :: nat) \<le> 9"
proof -
  let ?rs = "[warp_inst_init, warp_inst_init\<lparr>wi_empty := False, wi_uid := 9\<rparr>,
     warp_inst_init\<lparr>wi_empty := False, wi_uid := 4\<rparr>]"
  have r: "rs_get_ready_any ?rs = Some 2"
    by (simp add: rs_get_ready_any_def warp_inst_init_def numeral_2_eq_2)
  from register_set_oldest_first[of ?rs] have
    "\<forall>k < length ?rs. wi_empty (?rs ! k) \<or> wi_uid (?rs ! 2) \<le> wi_uid (?rs ! k)"
    unfolding r option.case by blast
  moreover have "1 < length ?rs" "\<not> wi_empty (?rs ! 1)" "wi_uid (?rs ! 1) = 9" "wi_uid (?rs ! 2) = 4"
    by simp_all
  ultimately show ?thesis using r by metis
qed

end
