(* ===== verification/Shd_Warp.thy ===== *)
theory Shd_Warp
  imports Inst_Model
begin

section \<open>Warps: \<open>shd_warp_t\<close>\<close>

text \<open>
  The state of a hardware warp and its operations (\<open>shader.h\<close>, \<open>shader.cc\<close>): life
  cycle, instruction buffer, counters of instructions, stores and atomics in flight, and the
  barrier that \<open>LDGDEPBAR\<close> and \<open>DEPBAR\<close> form for \<open>LDGSTS\<close> instructions. Pointers
  to static instructions are options. Counters that count events in flight are \<open>nat\<close>.
\<close>

definition MAX_WARP_SIZE :: nat where "MAX_WARP_SIZE = 32"
definition IBUFFER_SIZE :: nat where "IBUFFER_SIZE = 2"

definition mask_count :: "active_mask_t \<Rightarrow> nat" where
  "mask_count m = length (filter (\<lambda>i. bit m i) [0..<32])"

record ibuffer_entry =
  ib_inst :: "warp_inst option"
  ib_valid :: bool

definition ibuffer_entry_init :: ibuffer_entry where
  "ibuffer_entry_init = \<lparr>ib_inst = None, ib_valid = False\<rparr>"

record shd_warp =
  sw_streamID :: nat
  sw_cta_id :: nat
  sw_warp_id :: nat
  sw_warp_size :: nat
  sw_dynamic_warp_id :: nat
  sw_next_pc :: u64
  sw_n_completed :: nat
  sw_active_threads :: active_mask_t
  sw_imiss_pending :: bool
  sw_inst_at_barrier :: warp_inst
  sw_ibuffer :: "ibuffer_entry list"
  sw_next :: nat
  sw_n_atomic :: nat
  sw_membar :: bool
  sw_done_exit :: bool
  sw_last_fetch :: nat
  sw_stores_outstanding :: nat
  sw_inst_in_pipeline :: nat
  sw_cdp_latency :: nat
  sw_cdp_dummy :: bool
  sw_ldgdepbar_id :: nat
  sw_ldgdepbar_buf :: "warp_inst list list"
  sw_depbar_start_id :: nat
  sw_depbar_group :: nat
  sw_waiting_ldgsts :: bool

text \<open>The part that \<open>reset\<close> and \<open>init\<close> share: no barrier of \<open>LDGSTS\<close> instructions.\<close>

definition sw_clear_depbar :: "shd_warp \<Rightarrow> shd_warp" where
  "sw_clear_depbar w = w\<lparr>sw_cdp_latency := 0, sw_cdp_dummy := False, sw_ldgdepbar_id := 0,
     sw_depbar_start_id := 0, sw_depbar_group := 0, sw_waiting_ldgsts := False,
     sw_ldgdepbar_buf := []\<rparr>"

definition sw_reset :: "shd_warp \<Rightarrow> shd_warp option" where
  "sw_reset w = do {
     assert_that (sw_stores_outstanding w = 0);
     assert_that (sw_inst_in_pipeline w = 0);
     Some (sw_clear_depbar (w\<lparr>sw_imiss_pending := False, sw_warp_id := UINT_MAX,
       sw_dynamic_warp_id := UINT_MAX, sw_n_completed := sw_warp_size w, sw_n_atomic := 0,
       sw_membar := False, sw_done_exit := True, sw_last_fetch := 0, sw_next := 0,
       sw_streamID := 2 ^ 64 - 1\<rparr>))
   }"

text \<open>Members the constructor leaves uninitialised get a null value.\<close>

definition shd_warp_new :: "nat \<Rightarrow> shd_warp option" where
  "shd_warp_new warp_size = sw_reset \<lparr>sw_streamID = 0, sw_cta_id = 0, sw_warp_id = 0,
     sw_warp_size = warp_size, sw_dynamic_warp_id = 0, sw_next_pc = 0, sw_n_completed = 0,
     sw_active_threads = 0, sw_imiss_pending = False, sw_inst_at_barrier = warp_inst_init,
     sw_ibuffer = replicate IBUFFER_SIZE ibuffer_entry_init, sw_next = 0, sw_n_atomic = 0,
     sw_membar = False, sw_done_exit = False, sw_last_fetch = 0, sw_stores_outstanding = 0,
     sw_inst_in_pipeline = 0, sw_cdp_latency = 0, sw_cdp_dummy = False, sw_ldgdepbar_id = 0,
     sw_ldgdepbar_buf = [], sw_depbar_start_id = 0, sw_depbar_group = 0, sw_waiting_ldgsts = False\<rparr>"

definition sw_init :: "u64 \<Rightarrow> nat \<Rightarrow> nat \<Rightarrow> active_mask_t \<Rightarrow> nat \<Rightarrow> nat \<Rightarrow> shd_warp \<Rightarrow> shd_warp option" where
  "sw_init start_pc cta_id wid active dynamic_warp_id streamID w = do {
     assert_that (sw_n_completed w \<ge> mask_count active);
     assert_that (sw_n_completed w \<le> sw_warp_size w);
     Some (sw_clear_depbar (w\<lparr>sw_streamID := streamID, sw_cta_id := cta_id, sw_warp_id := wid,
       sw_dynamic_warp_id := dynamic_warp_id, sw_next_pc := start_pc,
       sw_n_completed := sw_n_completed w - mask_count active, sw_active_threads := active,
       sw_done_exit := False\<rparr>))
   }"

definition sw_set_completed :: "nat \<Rightarrow> shd_warp \<Rightarrow> shd_warp option" where
  "sw_set_completed lane w = do {
     assert_that (lane < MAX_WARP_SIZE);
     assert_that (bit (sw_active_threads w) lane);
     Some (w\<lparr>sw_active_threads := unset_bit lane (sw_active_threads w),
       sw_n_completed := sw_n_completed w + 1\<rparr>)
   }"

definition sw_inc_n_atomic :: "shd_warp \<Rightarrow> shd_warp" where
  "sw_inc_n_atomic w = w\<lparr>sw_n_atomic := sw_n_atomic w + 1\<rparr>"

definition sw_dec_n_atomic :: "nat \<Rightarrow> shd_warp \<Rightarrow> shd_warp" where
  "sw_dec_n_atomic n w = w\<lparr>sw_n_atomic := sub32 (sw_n_atomic w) n\<rparr>"

definition sw_set_membar :: "shd_warp \<Rightarrow> shd_warp" where
  "sw_set_membar w = w\<lparr>sw_membar := True\<rparr>"

definition sw_clear_membar :: "shd_warp \<Rightarrow> shd_warp" where
  "sw_clear_membar w = w\<lparr>sw_membar := False\<rparr>"

definition sw_set_next_pc :: "u64 \<Rightarrow> shd_warp \<Rightarrow> shd_warp" where
  "sw_set_next_pc pc w = w\<lparr>sw_next_pc := pc\<rparr>"

definition sw_store_info_of_last_inst_at_barrier :: "warp_inst \<Rightarrow> shd_warp \<Rightarrow> shd_warp" where
  "sw_store_info_of_last_inst_at_barrier pI w = w\<lparr>sw_inst_at_barrier := pI\<rparr>"

subsection \<open>The instruction buffer\<close>

definition sw_ibuffer_fill :: "nat \<Rightarrow> warp_inst option \<Rightarrow> shd_warp \<Rightarrow> shd_warp option" where
  "sw_ibuffer_fill slot pI w = do {
     assert_that (slot < IBUFFER_SIZE);
     ib \<leftarrow> vec_set (sw_ibuffer w) slot \<lparr>ib_inst = pI, ib_valid = True\<rparr>;
     Some (w\<lparr>sw_ibuffer := ib, sw_next := 0\<rparr>)
   }"

definition sw_ibuffer_empty :: "shd_warp \<Rightarrow> bool" where
  "sw_ibuffer_empty w = list_all (\<lambda>e. \<not> ib_valid e) (sw_ibuffer w)"

definition sw_num_inst_in_buffer :: "shd_warp \<Rightarrow> nat" where
  "sw_num_inst_in_buffer w = length (filter ib_valid (sw_ibuffer w))"

definition sw_num_issued_inst_in_pipeline :: "shd_warp \<Rightarrow> nat" where
  "sw_num_issued_inst_in_pipeline w = sub32 (sw_inst_in_pipeline w) (sw_num_inst_in_buffer w)"

definition sw_inc_inst_in_pipeline :: "shd_warp \<Rightarrow> shd_warp" where
  "sw_inc_inst_in_pipeline w = w\<lparr>sw_inst_in_pipeline := sw_inst_in_pipeline w + 1\<rparr>"

definition sw_dec_inst_in_pipeline :: "shd_warp \<Rightarrow> shd_warp option" where
  "sw_dec_inst_in_pipeline w = do {
     assert_that (sw_inst_in_pipeline w > 0);
     Some (w\<lparr>sw_inst_in_pipeline := sw_inst_in_pipeline w - 1\<rparr>)
   }"

text \<open>\<open>ibuffer_flush\<close>, one slot of the loop after the other.\<close>

fun flush_slots :: "ibuffer_entry list \<Rightarrow> nat \<Rightarrow> (ibuffer_entry list \<times> nat) option" where
  "flush_slots [] n = Some ([], n)"
| "flush_slots (e # es) n =
     (if ib_valid e \<and> n = 0 then None
      else map_option (\<lambda>(es', n'). (\<lparr>ib_inst = None, ib_valid = False\<rparr> # es', n'))
             (flush_slots es (if ib_valid e then n - 1 else n)))"

definition sw_ibuffer_flush :: "shd_warp \<Rightarrow> shd_warp option" where
  "sw_ibuffer_flush w = do {
     (ib, n) \<leftarrow> flush_slots (sw_ibuffer w) (sw_inst_in_pipeline w);
     Some (w\<lparr>sw_ibuffer := ib, sw_inst_in_pipeline := n\<rparr>)
   }"

definition sw_ibuffer_next_inst :: "shd_warp \<Rightarrow> warp_inst option" where
  "sw_ibuffer_next_inst w = ib_inst (sw_ibuffer w ! sw_next w)"

definition sw_ibuffer_next_valid :: "shd_warp \<Rightarrow> bool" where
  "sw_ibuffer_next_valid w = ib_valid (sw_ibuffer w ! sw_next w)"

definition sw_ibuffer_free :: "shd_warp \<Rightarrow> shd_warp" where
  "sw_ibuffer_free w = w\<lparr>sw_ibuffer := (sw_ibuffer w)[sw_next w := \<lparr>ib_inst = None, ib_valid = False\<rparr>]\<rparr>"

definition sw_ibuffer_step :: "shd_warp \<Rightarrow> shd_warp" where
  "sw_ibuffer_step w = w\<lparr>sw_next := (sw_next w + 1) mod IBUFFER_SIZE\<rparr>"

definition sw_set_imiss_pending :: "shd_warp \<Rightarrow> shd_warp" where
  "sw_set_imiss_pending w = w\<lparr>sw_imiss_pending := True\<rparr>"

definition sw_clear_imiss_pending :: "shd_warp \<Rightarrow> shd_warp" where
  "sw_clear_imiss_pending w = w\<lparr>sw_imiss_pending := False\<rparr>"

definition sw_inc_store_req :: "shd_warp \<Rightarrow> shd_warp" where
  "sw_inc_store_req w = w\<lparr>sw_stores_outstanding := sw_stores_outstanding w + 1\<rparr>"

definition sw_dec_store_req :: "shd_warp \<Rightarrow> shd_warp option" where
  "sw_dec_store_req w = do {
     assert_that (sw_stores_outstanding w > 0);
     Some (w\<lparr>sw_stores_outstanding := sw_stores_outstanding w - 1\<rparr>)
   }"

subsection \<open>Done and waiting\<close>

definition sw_functional_done :: "shd_warp \<Rightarrow> bool" where
  "sw_functional_done w \<longleftrightarrow> sw_n_completed w = sw_warp_size w"

definition sw_stores_done :: "shd_warp \<Rightarrow> bool" where
  "sw_stores_done w \<longleftrightarrow> sw_stores_outstanding w = 0"

definition sw_hardware_done :: "shd_warp \<Rightarrow> bool" where
  "sw_hardware_done w \<longleftrightarrow> sw_functional_done w \<and> sw_stores_done w \<and> \<not> sw_inst_in_pipeline w > 0"

text \<open>
  \<open>waiting()\<close> with the answers of the core, which it asks in this order: does the warp
  wait at a CTA barrier, and, only when it does not, at a memory barrier.
\<close>

definition sw_waiting :: "bool \<Rightarrow> bool \<Rightarrow> shd_warp \<Rightarrow> bool" where
  "sw_waiting at_barrier at_mem_barrier w =
     (if sw_functional_done w then True
      else if at_barrier then True
      else if at_mem_barrier then True
      else if sw_n_atomic w > 0 then True
      else if sw_waiting_ldgsts w then True
      else False)"

subsection \<open>The \<open>LDGSTS\<close> barrier\<close>

text \<open>
  \<open>pc = -1\<close> marks a finished instruction of the buffer. The comparison \<open>pc != -1\<close> is on
  64 bits.
\<close>

definition depbar_done :: "warp_inst list list \<Rightarrow> bool" where
  "depbar_done gs = list_all (list_all (\<lambda>i. wi_pc i = - 1)) gs"

text \<open>The test over the groups \<open>0\<close> to \<open>end_group - 1\<close>; a group past the buffer is out of range.\<close>

definition depbar_scan :: "nat \<Rightarrow> shd_warp \<Rightarrow> bool option" where
  "depbar_scan end_group w =
     (if end_group \<le> length (sw_ldgdepbar_buf w)
      then Some (depbar_done (take end_group (sw_ldgdepbar_buf w)))
      else if depbar_done (sw_ldgdepbar_buf w) then None else Some False)"

text \<open>
  The first matching entry of the buffer is marked as finished. \<open>get_addr(0)\<close> asserts that
  the instruction has addresses; it is asked only when the program counters agree.
\<close>

fun mark_ldgsts_row :: "warp_inst \<Rightarrow> warp_inst list \<Rightarrow> (bool \<times> warp_inst list) option" where
  "mark_ldgsts_row inst [] = Some (False, [])"
| "mark_ldgsts_row inst (i # is) = do {
     hit \<leftarrow> (if wi_pc i = wi_pc inst
            then do { a \<leftarrow> vec_at (wi_addr i) 0; b \<leftarrow> vec_at (wi_addr inst) 0; Some (a = b) }
            else Some False);
     (if hit then Some (True, i\<lparr>wi_pc := - 1\<rparr> # is)
      else do { (r, is') \<leftarrow> mark_ldgsts_row inst is; Some (r, i # is') }) }"

fun mark_ldgsts :: "warp_inst \<Rightarrow> warp_inst list list \<Rightarrow> warp_inst list list option" where
  "mark_ldgsts inst [] = Some []"
| "mark_ldgsts inst (g # gs) = do {
     (r, g') \<leftarrow> mark_ldgsts_row inst g;
     (if r then Some (g' # gs)
      else do { gs' \<leftarrow> mark_ldgsts inst gs; Some (g # gs') }) }"

text \<open>\<open>unset_depbar\<close> of the core, on the warp of the instruction.\<close>

definition sw_unset_depbar :: "warp_inst \<Rightarrow> shd_warp \<Rightarrow> shd_warp option" where
  "sw_unset_depbar inst w = do {
     let end_group = (if sw_depbar_start_id w = 0 then length (sw_ldgdepbar_buf w)
       else wrap32 (sub32 (sw_depbar_start_id w) (sw_depbar_group w) + 1));
     (if wi_is_ldgsts inst then do {
        buf \<leftarrow> mark_ldgsts inst (sw_ldgdepbar_buf w);
        let w = w\<lparr>sw_ldgdepbar_buf := buf\<rparr>;
        done_flag \<leftarrow> depbar_scan end_group w;
        Some (if done_flag \<and> sw_waiting_ldgsts w then w\<lparr>sw_waiting_ldgsts := False\<rparr> else w)
      } else Some w)
   }"

text \<open>What \<open>issue_warp\<close> does with an \<open>LDGSTS\<close>, an \<open>LDGDEPBAR\<close> and a \<open>DEPBAR\<close>.\<close>

definition sw_issue_ldgsts :: "warp_inst \<Rightarrow> shd_warp \<Rightarrow> shd_warp option" where
  "sw_issue_ldgsts inst w = do {
     let i = sw_ldgdepbar_id w;
     let buf = sw_ldgdepbar_buf w;
     buf \<leftarrow> (if length buf = i + 1 then Some (buf[i := buf ! i @ [inst]])
            else do { assert_that (length buf < i + 1); Some (buf @ [[inst]]) });
     Some (w\<lparr>sw_ldgdepbar_buf :=
       (if wi_active_mask inst = 0
        then butlast buf @ [butlast (last buf) @ [(last (last buf))\<lparr>wi_pc := - 1\<rparr>]]
        else buf)\<rparr>)
   }"

definition sw_issue_ldgdepbar :: "shd_warp \<Rightarrow> shd_warp option" where
  "sw_issue_ldgdepbar w = do {
     let i = sw_ldgdepbar_id w;
     let w = w\<lparr>sw_ldgdepbar_id := i + 1\<rparr>;
     (if length (sw_ldgdepbar_buf w) \<noteq> i + 1 then do {
        assert_that (length (sw_ldgdepbar_buf w) < i + 1);
        Some (w\<lparr>sw_ldgdepbar_buf := sw_ldgdepbar_buf w @ [[]]\<rparr>)
      } else Some w)
   }"

definition sw_issue_depbar :: "warp_inst \<Rightarrow> shd_warp \<Rightarrow> shd_warp option" where
  "sw_issue_depbar inst w = do {
     let w = w\<lparr>sw_waiting_ldgsts := True, sw_depbar_group := wi_depbar_group_no inst,
       sw_depbar_start_id := sub32 (sw_ldgdepbar_id w) 1\<rparr>;
     let end_group = sub32 (sw_ldgdepbar_id w) (sw_depbar_group w);
     done_flag \<leftarrow> depbar_scan end_group w;
     Some (if done_flag \<and> sw_waiting_ldgsts w then w\<lparr>sw_waiting_ldgsts := False\<rparr> else w)
   }"

subsection \<open>Invariant\<close>

definition warp_inv :: "shd_warp \<Rightarrow> bool" where
  "warp_inv w \<longleftrightarrow> length (sw_ibuffer w) = IBUFFER_SIZE \<and> sw_next w < IBUFFER_SIZE \<and>
     sw_num_inst_in_buffer w \<le> sw_inst_in_pipeline w \<and>
     sw_n_completed w + mask_count (sw_active_threads w) = sw_warp_size w"

lemma mask_count_zero: "mask_count m = 0 \<longleftrightarrow> m = 0"
proof -
  have "mask_count m = 0 \<longleftrightarrow> (\<forall>i < 32. \<not> bit m i)" by (auto simp: mask_count_def filter_empty_conv)
  also have "\<dots> \<longleftrightarrow> m = 0" by (auto simp: bit_eq_iff)
  finally show ?thesis .
qed

lemma mask_count_unset:
  assumes "bit m lane" "lane < 32"
  shows "mask_count m = Suc (mask_count (unset_bit lane m))"
proof -
  have c: "mask_count x = card {i. i < 32 \<and> bit x i}" for x :: active_mask_t
    unfolding mask_count_def length_filter_conv_card by (rule arg_cong[of _ _ card]) auto
  have "{i. i < 32 \<and> bit m i} = insert lane {i. i < 32 \<and> bit (unset_bit lane m) i}"
    using assms by (auto simp: bit_simps)
  moreover have "lane \<notin> {i. i < 32 \<and> bit (unset_bit lane m) i}" by (simp add: bit_simps)
  ultimately show ?thesis by (simp add: c)
qed

lemma filter_update:
  "k < length xs \<Longrightarrow> length (filter P (xs[k := x])) + (if P (xs ! k) then 1 else 0) =
    length (filter P xs) + (if P x then 1 else 0)"
proof (induction xs arbitrary: k)
  case (Cons a xs)
  then show ?case by (cases k) auto
qed simp

lemma flush_slots_spec:
  "length (filter ib_valid es) \<le> n \<Longrightarrow>
   flush_slots es n = Some (replicate (length es) \<lparr>ib_inst = None, ib_valid = False\<rparr>,
     n - length (filter ib_valid es))"
  by (induction es n rule: flush_slots.induct) auto

lemma flush_slots_fails: "flush_slots es n = Some r \<Longrightarrow> length (filter ib_valid es) \<le> n"
  by (induction es n arbitrary: r rule: flush_slots.induct) (fastforce split: if_splits)+

text \<open>The events of a warp between the initialisation and the end of its threads.\<close>

datatype warp_event =
    Warp_decode "warp_inst option" "warp_inst option"
  | Warp_issue | Warp_step | Warp_writeback | Warp_flush
  | Warp_thread_done nat | Warp_store | Warp_store_ack | Warp_membar | Warp_branch u64

text \<open>\<open>decode\<close> fills slot 0 and, when the first instruction exists and a second one too, slot 1.\<close>

fun warp_step :: "shd_warp \<Rightarrow> warp_event \<Rightarrow> shd_warp option" where
  "warp_step w (Warp_decode i1 i2) = do {
     w \<leftarrow> sw_ibuffer_fill 0 i1 w;
     let w = sw_inc_inst_in_pipeline w;
     (if i1 \<noteq> None \<and> i2 \<noteq> None then do {
        w \<leftarrow> sw_ibuffer_fill 1 i2 w;
        Some (sw_inc_inst_in_pipeline w)
      } else Some w) }"
| "warp_step w Warp_issue = Some (sw_ibuffer_free w)"
| "warp_step w Warp_step = Some (sw_ibuffer_step w)"
| "warp_step w Warp_writeback = sw_dec_inst_in_pipeline w"
| "warp_step w Warp_flush = sw_ibuffer_flush w"
| "warp_step w (Warp_thread_done lane) = sw_set_completed lane w"
| "warp_step w Warp_store = Some (sw_inc_store_req w)"
| "warp_step w Warp_store_ack = sw_dec_store_req w"
| "warp_step w Warp_membar = Some (sw_set_membar w)"
| "warp_step w (Warp_branch pc) = Some (sw_set_next_pc pc w)"

text \<open>Only an instruction that was issued is written back.\<close>

fun warp_event_ok :: "shd_warp \<Rightarrow> warp_event \<Rightarrow> bool" where
  "warp_event_ok w Warp_writeback = (0 < sw_num_issued_inst_in_pipeline w)"
| "warp_event_ok w e = True"

inductive warp_run :: "shd_warp \<Rightarrow> shd_warp \<Rightarrow> bool" for w0 where
  warp_start: "warp_run w0 w0"
| warp_next: "warp_run w0 w \<Longrightarrow> warp_event_ok w e \<Longrightarrow> warp_step w e = Some w' \<Longrightarrow> warp_run w0 w'"

lemma sw_ibuffer_fill_eq:
  assumes "warp_inv w"
  shows "sw_ibuffer_fill k pI w = (if k < IBUFFER_SIZE
    then Some (w\<lparr>sw_ibuffer := (sw_ibuffer w)[k := \<lparr>ib_inst = pI, ib_valid = True\<rparr>], sw_next := 0\<rparr>)
    else None)"
  using assms by (simp add: sw_ibuffer_fill_def warp_inv_def)

lemma warp_inv_fill:
  assumes "warp_inv w" "sw_ibuffer_fill k pI w = Some w'"
  shows "warp_inv (sw_inc_inst_in_pipeline w')"
proof -
  have k: "k < length (sw_ibuffer w)" "k < IBUFFER_SIZE"
    using assms by (auto simp: sw_ibuffer_fill_eq warp_inv_def split: if_splits)
  have "length (filter ib_valid ((sw_ibuffer w)[k := \<lparr>ib_inst = pI, ib_valid = True\<rparr>]))
      \<le> Suc (length (filter ib_valid (sw_ibuffer w)))"
    using filter_update[OF k(1), of ib_valid "\<lparr>ib_inst = pI, ib_valid = True\<rparr>"] by (simp split: if_splits)
  moreover have "w' = w\<lparr>sw_ibuffer := (sw_ibuffer w)[k := \<lparr>ib_inst = pI, ib_valid = True\<rparr>], sw_next := 0\<rparr>"
    using assms k by (simp add: sw_ibuffer_fill_eq)
  ultimately show ?thesis
    using assms(1) by (simp add: warp_inv_def sw_inc_inst_in_pipeline_def sw_num_inst_in_buffer_def
        IBUFFER_SIZE_def)
qed

lemma warp_inv_decode:
  assumes "warp_inv w" "warp_step w (Warp_decode i1 i2) = Some w'"
  shows "warp_inv w'"
proof -
  obtain u where u: "sw_ibuffer_fill 0 i1 w = Some u"
    using assms(2) by (auto split: bind_splits)
  note inv = warp_inv_fill[OF assms(1) u]
  show ?thesis
  proof (cases "i1 \<noteq> None \<and> i2 \<noteq> None")
    case True
    then obtain v where "sw_ibuffer_fill 1 i2 (sw_inc_inst_in_pipeline u) = Some v"
      "w' = sw_inc_inst_in_pipeline v"
      using assms(2) u by (auto simp: Let_def split: bind_splits)
    with warp_inv_fill[OF inv] show ?thesis by simp
  next
    case False
    then have "w' = sw_inc_inst_in_pipeline u" using assms(2) u by (simp add: Let_def split: if_splits)
    with inv show ?thesis by simp
  qed
qed

lemma warp_inv_step:
  assumes "warp_inv w" "warp_event_ok w e" "warp_step w e = Some w'"
  shows "warp_inv w'"
proof (cases e)
  case (Warp_decode i1 i2)
  with assms(1,3) show ?thesis using warp_inv_decode by blast
next
  case Warp_issue
  have "sw_next w < length (sw_ibuffer w)" using assms(1) by (simp add: warp_inv_def)
  from filter_update[OF this, of ib_valid "\<lparr>ib_inst = None, ib_valid = False\<rparr>"]
  have "length (filter ib_valid ((sw_ibuffer w)[sw_next w := \<lparr>ib_inst = None, ib_valid = False\<rparr>]))
      \<le> length (filter ib_valid (sw_ibuffer w))" by (simp split: if_splits)
  then show ?thesis
    using Warp_issue assms by (auto simp: warp_inv_def sw_ibuffer_free_def sw_num_inst_in_buffer_def)
next
  case Warp_writeback
  then show ?thesis
    using assms by (auto simp: warp_inv_def sw_dec_inst_in_pipeline_def sw_num_inst_in_buffer_def
        sw_num_issued_inst_in_pipeline_def sub32_def split: if_splits)
next
  case Warp_flush
  then show ?thesis
    using assms flush_slots_spec[of "sw_ibuffer w" "sw_inst_in_pipeline w"]
    by (auto simp: warp_inv_def sw_ibuffer_flush_def sw_num_inst_in_buffer_def)
next
  case (Warp_thread_done lane)
  then show ?thesis
    using assms mask_count_unset[of "sw_active_threads w" lane]
    by (auto simp: warp_inv_def sw_set_completed_def sw_num_inst_in_buffer_def MAX_WARP_SIZE_def split: if_splits)
qed (use assms in \<open>auto simp: warp_inv_def sw_ibuffer_step_def sw_inc_store_req_def sw_dec_store_req_def
    sw_set_membar_def sw_set_next_pc_def sw_num_inst_in_buffer_def IBUFFER_SIZE_def split: if_splits\<close>)

lemma warp_inv_run: "warp_run w0 w \<Longrightarrow> warp_inv w0 \<Longrightarrow> warp_inv w"
  by (induction rule: warp_run.induct) (auto intro: warp_inv_step)

lemma warp_inv_init:
  assumes "sw_init pc cta wid m dyn st w = Some w'" "warp_inv w" "sw_functional_done w"
  shows "warp_inv w' \<and> sw_active_threads w' = m"
  using assms
  by (auto simp: sw_init_def warp_inv_def sw_functional_done_def sw_clear_depbar_def
      sw_num_inst_in_buffer_def split: if_splits)

lemma warp_inv_new:
  assumes "shd_warp_new n = Some w"
  shows "warp_inv w \<and> sw_functional_done w \<and> sw_warp_size w = n"
  using assms mask_count_zero[of 0]
  by (auto simp: shd_warp_new_def sw_reset_def warp_inv_def sw_functional_done_def sw_clear_depbar_def
      sw_num_inst_in_buffer_def IBUFFER_SIZE_def ibuffer_entry_init_def split: if_splits)

subsection \<open>Properties\<close>

text \<open>C24. The book-keeping of a warp is consistent through its life: after any well-behaved
  events from its initialisation, the count of issued instructions does not wrap around, a
  flush of the instruction buffer cannot fail, the warp is functionally done exactly when it
  has no active thread, and a warp that reports \<open>hardware_done\<close> has no active thread, no
  instruction in its buffer or in the pipeline and no store outstanding.\<close>

theorem warp_life_consistent:
  assumes "shd_warp_new n = Some w0" "sw_init pc cta wid m dyn st w0 = Some w1" "warp_run w1 w"
  shows "sw_num_issued_inst_in_pipeline w = sw_inst_in_pipeline w - sw_num_inst_in_buffer w \<and>
    sw_ibuffer_flush w \<noteq> None \<and> (sw_functional_done w \<longleftrightarrow> sw_active_threads w = 0) \<and>
    (sw_hardware_done w \<longrightarrow> sw_active_threads w = 0 \<and> sw_ibuffer_empty w \<and>
      sw_inst_in_pipeline w = 0 \<and> sw_stores_outstanding w = 0)"
proof -
  have "warp_inv w0" "sw_functional_done w0" using warp_inv_new[OF assms(1)] by simp_all
  with warp_inv_init[OF assms(2)] warp_inv_run[OF assms(3)] have inv: "warp_inv w" by simp
  have done_iff: "sw_functional_done w \<longleftrightarrow> sw_active_threads w = 0"
    using inv mask_count_zero[of "sw_active_threads w"] by (auto simp: warp_inv_def sw_functional_done_def)
  have "sw_ibuffer_empty w" if "sw_inst_in_pipeline w = 0"
    using inv that by (simp add: warp_inv_def sw_num_inst_in_buffer_def sw_ibuffer_empty_def
        filter_empty_conv list_all_iff)
  with inv done_iff show ?thesis
    by (auto simp: warp_inv_def sw_num_issued_inst_in_pipeline_def sub32_def sw_ibuffer_flush_def
        flush_slots_spec sw_num_inst_in_buffer_def sw_hardware_done_def sw_stores_done_def)
qed

lemma mask_count_le: "mask_count m \<le> 32"
  using length_filter_le[of "\<lambda>i. bit m i" "[0..<32]"] by (simp add: mask_count_def)

theorem warp_life_consistent_witness:
  "\<exists>w0 w1 w. shd_warp_new 32 = Some w0 \<and> sw_init 64 3 0 15 7 0 w0 = Some w1 \<and> warp_run w1 w \<and>
     sw_inst_in_pipeline w = 2 \<and> sw_num_inst_in_buffer w = 1 \<and>
     sw_num_issued_inst_in_pipeline w = 1 \<and> sw_ibuffer_flush w \<noteq> None"
proof -
  let ?i = "\<lparr>ib_inst = Some warp_inst_init, ib_valid = True\<rparr>"
  obtain w0 where w0: "shd_warp_new 32 = Some w0"
    by (simp add: shd_warp_new_def sw_reset_def)
  have f: "sw_n_completed w0 = 32" "sw_warp_size w0 = 32" "sw_inst_in_pipeline w0 = 0"
    "sw_ibuffer w0 = replicate 2 ibuffer_entry_init" "sw_next w0 = 0"
    using w0 by (auto simp: shd_warp_new_def sw_reset_def sw_clear_depbar_def IBUFFER_SIZE_def)
  then obtain w1 where w1: "sw_init 64 3 0 15 7 0 w0 = Some w1"
    using mask_count_le[of 15] by (simp add: sw_init_def)
  have g: "sw_inst_in_pipeline w1 = 0" "sw_ibuffer w1 = [ibuffer_entry_init, ibuffer_entry_init]"
    using w1 f by (auto simp: sw_init_def sw_clear_depbar_def numeral_2_eq_2 split: if_splits)
  let ?w = "w1\<lparr>sw_ibuffer := [?i, ?i], sw_next := 0, sw_inst_in_pipeline := 2\<rparr>"
  have "warp_step w1 (Warp_decode (Some warp_inst_init) (Some warp_inst_init)) = Some ?w"
    by (simp add: sw_ibuffer_fill_def IBUFFER_SIZE_def g sw_inc_inst_in_pipeline_def Let_def)
  then have "warp_run w1 ?w" by (rule warp_next[OF warp_start, rotated]) simp
  then have r: "warp_run w1 (sw_ibuffer_free ?w)"
    by (rule warp_next[where e = Warp_issue]) simp_all
  from warp_life_consistent[OF w0 w1 r] w0 w1 r show ?thesis
    by (intro exI[of _ w0] exI[of _ w1] exI[of _ "sw_ibuffer_free ?w"])
       (simp add: sw_ibuffer_free_def sw_num_inst_in_buffer_def)
qed

end
