(* ===== verification/Warp_Order.thy ===== *)
theory Warp_Order
  imports Shd_Warp "HOL-Library.Multiset"
begin

section \<open>The order in which a scheduler looks at its warps\<close>

text \<open>
  The ordering functions of \<open>scheduler_unit\<close> and the \<open>order_warps\<close> of its subclasses
  (\<open>shader.cc\<close>, \<open>shader.h\<close>). A \<open>shd_warp_t *\<close> is the index of the warp in \<open>m_warp\<close>
  (it is never null); an iterator into \<open>m_supervised_warps\<close> is its position, the length of
  the list being \<open>end()\<close>. \<open>std::sort\<close> leaves the order of equivalent elements open: it is
  an argument of the definitions, of which \<open>sorts\<close> says what the standard promises.
  \<open>waiting()\<close> of a warp asks the core for its barriers: \<open>at_barrier\<close> and
  \<open>at_mem_barrier\<close> are the answers during one call of \<open>order_warps\<close>.
\<close>

datatype scheduler_prioritization_type =
    SCHEDULER_PRIORITIZATION_LRR
  | SCHEDULER_PRIORITIZATION_SRR
  | SCHEDULER_PRIORITIZATION_GTO
  | SCHEDULER_PRIORITIZATION_GTLRR
  | SCHEDULER_PRIORITIZATION_GTY
  | SCHEDULER_PRIORITIZATION_OLDEST
  | SCHEDULER_PRIORITIZATION_YOUNGEST

datatype ordering_type = ORDERING_GREEDY_THEN_PRIORITY_FUNC | ORDERED_PRIORITY_FUNC_ONLY | NUM_ORDERING

type_synonym 'a sorter = "('a \<Rightarrow> 'a \<Rightarrow> bool) \<Rightarrow> 'a list \<Rightarrow> 'a list"

subsection \<open>The general ordering functions\<close>

primrec lrr_loop :: "'a list \<Rightarrow> nat \<Rightarrow> nat \<Rightarrow> 'a list option" where
  "lrr_loop input iter 0 = Some []"
| "lrr_loop input iter (Suc n) = do {
     let iter = (if iter = length input then 0 else iter);
     x \<leftarrow> vec_at input iter;
     rest \<leftarrow> lrr_loop input (iter + 1) n;
     Some (x # rest)
   }"

definition order_lrr :: "'a list \<Rightarrow> nat \<Rightarrow> nat \<Rightarrow> 'a list option" where
  "order_lrr input last_issued n = do {
     assert_that (n \<le> length input);
     lrr_loop input (if last_issued = length input then 0 else last_issued + 1) n
   }"

text \<open>What the comparisons ask of a warp: \<open>done_exit() || waiting()\<close>.\<close>

definition warp_idle :: "(nat \<Rightarrow> bool) \<Rightarrow> (nat \<Rightarrow> bool) \<Rightarrow> shd_warp \<Rightarrow> bool" where
  "warp_idle at_barrier at_mem_barrier w \<longleftrightarrow> sw_done_exit w \<or>
     sw_waiting (at_barrier (sw_warp_id w)) (at_mem_barrier (sw_warp_id w)) w"

text \<open>
  \<open>order_rrr\<close>: the warp whose turn it is keeps it while nothing was issued and it can run;
  otherwise the turn goes to the next warp that can. The result is the list and the turn.
\<close>

primrec rrr_loop :: "(nat \<Rightarrow> bool) \<Rightarrow> shd_warp list \<Rightarrow> nat list \<Rightarrow> nat \<Rightarrow> nat \<Rightarrow> nat \<Rightarrow> (nat list \<times> nat) option" where
  "rrr_loop idle warps input turn iter 0 = Some ([], turn)"
| "rrr_loop idle warps input turn iter (Suc n) = do {
     let iter = (if iter = length input then 0 else iter);
     p \<leftarrow> vec_at input iter;
     w \<leftarrow> vec_at warps p;
     (if \<not> idle p then Some ([p], sw_warp_id w)
      else rrr_loop idle warps input turn (iter + 1) n)
   }"

definition order_rrr :: "(nat \<Rightarrow> bool) \<Rightarrow> shd_warp list \<Rightarrow> nat \<Rightarrow> nat \<Rightarrow> nat list \<Rightarrow> nat \<Rightarrow> nat \<Rightarrow>
    (nat list \<times> nat) option" where
  "order_rrr idle warps num_issued_last_cycle turn input last_issued n = do {
     change \<leftarrow> (if num_issued_last_cycle > 0 then Some True
               else do { assert_that (turn < length warps); Some (idle turn) });
     (if change
      then rrr_loop idle warps input turn (if last_issued = length input then 0 else last_issued + 1) n
      else do { assert_that (turn < length warps); Some ([turn], turn) })
   }"

definition order_by_priority :: "'a sorter \<Rightarrow> 'a list \<Rightarrow> nat \<Rightarrow> nat \<Rightarrow> ordering_type \<Rightarrow>
    ('a \<Rightarrow> 'a \<Rightarrow> bool) \<Rightarrow> 'a list option" where
  "order_by_priority std_sort input last_issued n age_ordering priority_func = do {
     assert_that (n \<le> length input);
     (case age_ordering of
        ORDERING_GREEDY_THEN_PRIORITY_FUNC \<Rightarrow> do {
          greedy_value \<leftarrow> vec_at input last_issued;
          Some (greedy_value # filter (\<lambda>x. x \<noteq> greedy_value) (take n (std_sort priority_func input)))
        }
      | ORDERED_PRIORITY_FUNC_ONLY \<Rightarrow> Some (take n (std_sort priority_func input))
      | NUM_ORDERING \<Rightarrow> None)
   }"

definition sort_warps_by_oldest_dynamic_id :: "(nat \<Rightarrow> bool) \<Rightarrow> (nat \<Rightarrow> nat) \<Rightarrow> nat \<Rightarrow> nat \<Rightarrow> bool" where
  "sort_warps_by_oldest_dynamic_id idle dynamic_id lhs rhs =
     (if idle lhs then False
      else if idle rhs then True
      else dynamic_id lhs < dynamic_id rhs)"

subsection \<open>The schedulers\<close>

definition lrr_order_warps :: "'a list \<Rightarrow> nat \<Rightarrow> 'a list option" where
  "lrr_order_warps supervised last_issued = order_lrr supervised last_issued (length supervised)"

definition rrr_order_warps :: "(nat \<Rightarrow> bool) \<Rightarrow> shd_warp list \<Rightarrow> nat \<Rightarrow> nat \<Rightarrow> nat list \<Rightarrow> nat \<Rightarrow>
    (nat list \<times> nat) option" where
  "rrr_order_warps idle warps num_issued_last_cycle turn supervised last_issued =
     order_rrr idle warps num_issued_last_cycle turn supervised last_issued (length supervised)"

definition gto_order_warps :: "nat sorter \<Rightarrow> (nat \<Rightarrow> bool) \<Rightarrow> (nat \<Rightarrow> nat) \<Rightarrow> nat list \<Rightarrow> nat \<Rightarrow> nat list option" where
  "gto_order_warps std_sort idle dynamic_id supervised last_issued =
     order_by_priority std_sort supervised last_issued (length supervised)
       ORDERING_GREEDY_THEN_PRIORITY_FUNC (sort_warps_by_oldest_dynamic_id idle dynamic_id)"

definition oldest_order_warps :: "nat sorter \<Rightarrow> (nat \<Rightarrow> bool) \<Rightarrow> (nat \<Rightarrow> nat) \<Rightarrow> nat list \<Rightarrow> nat \<Rightarrow> nat list option" where
  "oldest_order_warps std_sort idle dynamic_id supervised last_issued =
     order_by_priority std_sort supervised last_issued (length supervised)
       ORDERED_PRIORITY_FUNC_ONLY (sort_warps_by_oldest_dynamic_id idle dynamic_id)"

definition swl_order_warps :: "nat sorter \<Rightarrow> (nat \<Rightarrow> bool) \<Rightarrow> (nat \<Rightarrow> nat) \<Rightarrow> scheduler_prioritization_type \<Rightarrow>
    nat \<Rightarrow> nat list \<Rightarrow> nat \<Rightarrow> nat list option" where
  "swl_order_warps std_sort idle dynamic_id prioritization num_warps_to_limit supervised last_issued =
     (if prioritization = SCHEDULER_PRIORITIZATION_GTO
      then order_by_priority std_sort supervised last_issued (min num_warps_to_limit (length supervised))
             ORDERING_GREEDY_THEN_PRIORITY_FUNC (sort_warps_by_oldest_dynamic_id idle dynamic_id)
      else None)"

text \<open>
  The two-level scheduler keeps the active warps in \<open>m_next_cycle_prioritized_warps\<close> and the
  others in a queue. A warp is demoted when it waits or when an input register of its next
  instruction comes from a long operation (\<open>islongop\<close> of the scoreboard).
\<close>

record two_level =
  tl_active :: "nat list"
  tl_pending :: "nat list"
  tl_max_active_warps :: nat
  tl_inner :: scheduler_prioritization_type
  tl_outer :: scheduler_prioritization_type

definition two_level_add_supervised_warp_id :: "nat \<Rightarrow> two_level \<Rightarrow> two_level" where
  "two_level_add_supervised_warp_id i s =
     (if length (tl_active s) < tl_max_active_warps s
      then s\<lparr>tl_active := tl_active s @ [i]\<rparr>
      else s\<lparr>tl_pending := tl_pending s @ [i]\<rparr>)"

text \<open>\<open>front()\<close> and \<open>pop_front()\<close> of an empty \<open>deque\<close> are undefined.\<close>

function (sequential) promote :: "nat \<Rightarrow> nat list \<Rightarrow> nat list \<Rightarrow> nat \<Rightarrow> (nat list \<times> nat list \<times> nat) option" where
  "promote m active pending num_promoted =
     (if length active < m
      then (case pending of [] \<Rightarrow> None
            | p # ps \<Rightarrow> promote m (active @ [p]) ps (num_promoted + 1))
      else Some (active, pending, num_promoted))"
  by pat_completeness auto
termination by (relation "measure (\<lambda>(m, active, pending, k). m - length active)") auto

declare promote.simps [simp del]

definition demote_warp :: "(nat \<Rightarrow> bool) \<Rightarrow> (nat \<Rightarrow> nat \<Rightarrow> bool) \<Rightarrow> (nat \<Rightarrow> shd_warp) \<Rightarrow> nat \<Rightarrow> bool" where
  "demote_warp waiting islongop warp p \<longleftrightarrow> waiting p \<or>
     (case sw_ibuffer_next_inst (warp p) of None \<Rightarrow> False
      | Some inst \<Rightarrow> list_ex (\<lambda>i. wi_in inst ! i > 0 \<and> islongop (sw_warp_id (warp p)) (wi_in inst ! i))
                      [0..<MAX_INPUT_VALUES])"

definition two_level_order_warps :: "(nat \<Rightarrow> bool) \<Rightarrow> two_level \<Rightarrow> two_level option" where
  "two_level_order_warps demote s = do {
     let demoted = filter demote (tl_active s);
     let active = filter (\<lambda>p. \<not> demote p) (tl_active s);
     assert_that (tl_outer s = SCHEDULER_PRIORITIZATION_SRR);
     (active, pending, num_promoted) \<leftarrow> promote (tl_max_active_warps s) active (tl_pending s @ demoted) 0;
     assert_that (num_promoted = length demoted);
     Some (s\<lparr>tl_active := active, tl_pending := pending\<rparr>)
   }"

text \<open>\<open>do_on_warp_issued\<close>: after an issue the warp at the iterator becomes the last.\<close>

definition two_level_rotate :: "nat \<Rightarrow> two_level \<Rightarrow> two_level option" where
  "two_level_rotate prioritized_iter s = do {
     assert_that (tl_inner s = SCHEDULER_PRIORITIZATION_LRR);
     new_active \<leftarrow> order_lrr (tl_active s) prioritized_iter (length (tl_active s));
     Some (s\<lparr>tl_active := new_active\<rparr>)
   }"


subsection \<open>Comparison functions and sorting\<close>

text \<open>What \<open>std::sort\<close> asks of a comparison function.\<close>

locale strict_weak_order =
  fixes prec :: "'a \<Rightarrow> 'a \<Rightarrow> bool"
  assumes irreflexive: "\<not> prec x x"
    and transitive: "prec x y \<Longrightarrow> prec y z \<Longrightarrow> prec x z"
    and separates: "prec x z \<Longrightarrow> prec x y \<or> prec y z"
begin

lemma asymmetric: "prec x y \<Longrightarrow> \<not> prec y x"
  using irreflexive transitive by blast

lemma not_less_trans: "\<not> prec y x \<Longrightarrow> \<not> prec z y \<Longrightarrow> \<not> prec z x"
  using separates by blast

end

definition sorts :: "'a sorter \<Rightarrow> bool" where
  "sorts std_sort \<longleftrightarrow> (\<forall>prec xs. strict_weak_order prec \<longrightarrow>
     mset (std_sort prec xs) = mset xs \<and> sorted_wrt (\<lambda>x y. \<not> prec y x) (std_sort prec xs))"

text \<open>One function that \<open>std::sort\<close> could be: insertion sort.\<close>

primrec insert_by :: "('a \<Rightarrow> 'a \<Rightarrow> bool) \<Rightarrow> 'a \<Rightarrow> 'a list \<Rightarrow> 'a list" where
  "insert_by prec x [] = [x]"
| "insert_by prec x (y # ys) = (if prec y x then y # insert_by prec x ys else x # y # ys)"

definition insertion_sort :: "'a sorter" where
  "insertion_sort prec xs = foldr (insert_by prec) xs []"

lemma insertion_sort_sorts: "sorts insertion_sort"
  unfolding sorts_def
proof (intro allI impI)
  fix prec :: "'a \<Rightarrow> 'a \<Rightarrow> bool" and xs
  assume "strict_weak_order prec"
  then have o: "prec x z \<Longrightarrow> prec x y \<or> prec y z" "prec x y \<Longrightarrow> \<not> prec y x" for x y z
    using strict_weak_order.separates strict_weak_order.asymmetric by metis+
  have ms: "mset (insert_by prec x ys) = add_mset x (mset ys)" for x ys by (induction ys) auto
  have st: "set (insert_by prec x ys) = insert x (set ys)" for x ys
    using ms[of x ys] by (metis set_mset_add_mset_insert set_mset_mset)
  have "sorted_wrt (\<lambda>x y. \<not> prec y x) ys \<Longrightarrow> sorted_wrt (\<lambda>x y. \<not> prec y x) (insert_by prec x ys)" for x ys
  proof (induction ys)
    case (Cons y ys)
    then show ?case using o(2)[of y x] o(1)[of _ x y] by (auto simp: st)
  qed simp
  then show "mset (insertion_sort prec xs) = mset xs \<and>
      sorted_wrt (\<lambda>x y. \<not> prec y x) (insertion_sort prec xs)"
    by (induction xs) (simp_all add: insertion_sort_def ms)
qed

interpretation by_oldest: strict_weak_order "sort_warps_by_oldest_dynamic_id idle dynamic_id"
  by unfold_locales (auto simp: sort_warps_by_oldest_dynamic_id_def split: if_splits)


subsection \<open>The contract of \<open>order_warps\<close>\<close>

text \<open>
  What \<open>cycle\<close> of the scheduler relies on: a list with the supervised warps, each as often
  as it is supervised. \<open>valid\<close> is the condition on the list and the iterator.
\<close>

locale warp_ordering =
  fixes order :: "'a list \<Rightarrow> nat \<Rightarrow> 'a list option"
    and valid :: "'a list \<Rightarrow> nat \<Rightarrow> bool"
  assumes permutation: "valid xs last_issued \<Longrightarrow> \<exists>ys. order xs last_issued = Some ys \<and> mset ys = mset xs"
begin

lemma no_failure: "valid xs last_issued \<Longrightarrow> order xs last_issued \<noteq> None"
  using permutation by fastforce

lemma same_warps: "valid xs last_issued \<Longrightarrow> order xs last_issued = Some ys \<Longrightarrow> set ys = set xs \<and> length ys = length xs"
  using permutation[of xs last_issued] by (metis option.inject set_mset_mset size_mset)

lemma ready_found:
  assumes "valid xs last_issued" "w \<in> set xs" "ready w"
  shows "\<exists>ys u. order xs last_issued = Some ys \<and> List.find ready ys = Some u \<and> u \<in> set xs \<and> ready u"
proof -
  obtain ys where ys: "order xs last_issued = Some ys" using no_failure assms(1) by blast
  with same_warps assms have "w \<in> set ys" "set ys = set xs" by auto
  with assms(3) obtain u where "List.find ready ys = Some u" by (metis find_None_iff not_None_eq)
  moreover from this have "u \<in> set ys" "ready u" by (auto simp: find_Some_iff)
  ultimately show ?thesis using ys \<open>set ys = set xs\<close> by auto
qed

end

lemma lrr_loop_eq:
  assumes "xs \<noteq> []"
  shows "it \<le> length xs \<Longrightarrow> lrr_loop xs it n = Some (map (\<lambda>k. xs ! ((it + k) mod length xs)) [0..<n])"
proof (induction n arbitrary: it)
  case (Suc n)
  have pos: "0 < length xs" using assms by simp
  show ?case
  proof (cases "it = length xs")
    case True
    with Suc.IH[of 1] pos show ?thesis
      by (simp add: upt_0_Suc comp_def Suc_le_eq del: upt_Suc)
  next
    case False
    with Suc.IH[of "it + 1"] Suc.prems show ?thesis
      by (simp add: upt_0_Suc comp_def del: upt_Suc)
  qed
qed simp

lemma order_lrr_eq:
  assumes "xs \<noteq> []" "last_issued \<le> length xs" "n \<le> length xs"
  shows "order_lrr xs last_issued n = Some (map (\<lambda>k. xs !
    (((if last_issued = length xs then 0 else last_issued + 1) + k) mod length xs)) [0..<n])"
  using assms by (simp add: order_lrr_def lrr_loop_eq)

lemma lrr_order_warps_rotate:
  assumes "last_issued \<le> length xs"
  shows "lrr_order_warps xs last_issued =
    Some (if last_issued = length xs then xs else rotate (Suc last_issued) xs)"
proof (cases "xs = []")
  case True
  with assms show ?thesis by (simp add: lrr_order_warps_def order_lrr_def)
next
  case False
  have "map (\<lambda>k. xs ! ((i + k) mod length xs)) [0..<length xs] = rotate i xs" for i
    using False by (intro nth_equalityI) (simp_all add: nth_rotate add.commute)
  from this[of 0] this[of "Suc last_issued"] show ?thesis
    using False assms by (auto simp: lrr_order_warps_def order_lrr_eq)
qed

lemma mset_rotate: "mset (rotate n xs) = mset xs"
proof -
  have "mset (rotate1 ys) = mset ys" for ys :: "'a list" by (cases ys) auto
  then show ?thesis by (induction n) (simp_all add: rotate_def)
qed

lemma greedy_permutation:
  assumes "distinct xs" "k < length xs" "mset ys = mset xs"
  shows "mset (xs ! k # filter (\<lambda>x. x \<noteq> xs ! k) ys) = mset xs"
proof -
  have "count (mset xs) (xs ! k) = 1" using assms(1,2) by (simp add: distinct_count_atmost_1)
  moreover have "mset ys = filter_mset (\<lambda>x. x \<noteq> xs ! k) (mset ys) + filter_mset (\<lambda>x. x = xs ! k) (mset ys)"
    using multiset_partition[of "mset ys" "\<lambda>x. x \<noteq> xs ! k"] by simp
  ultimately show ?thesis by (metis add_mset_add_single assms(3) filter_eq_replicate_mset mset.simps(2)
    mset_filter replicate_mset_0 replicate_mset_Suc One_nat_def)
qed

lemma sortsD:
  assumes "sorts std_sort" "strict_weak_order prec"
  shows "mset (std_sort prec xs) = mset xs" "sorted_wrt (\<lambda>x y. \<not> prec y x) (std_sort prec xs)"
    "length (std_sort prec xs) = length xs" "set (std_sort prec xs) = set xs"
proof -
  show m: "mset (std_sort prec xs) = mset xs" "sorted_wrt (\<lambda>x y. \<not> prec y x) (std_sort prec xs)"
    using assms by (auto simp: sorts_def)
  from m(1) show "length (std_sort prec xs) = length xs" "set (std_sort prec xs) = set xs"
    by (metis size_mset, metis set_mset_mset)
qed

interpretation lrr: warp_ordering lrr_order_warps "\<lambda>xs last_issued. last_issued \<le> length xs"
  by unfold_locales (simp add: lrr_order_warps_rotate mset_rotate del: rotate_Suc)

lemma gto_eq:
  assumes "sorts std_sort" "last_issued < length xs"
  shows "gto_order_warps std_sort idle dynamic_id xs last_issued = Some (xs ! last_issued #
    filter (\<lambda>x. x \<noteq> xs ! last_issued) (std_sort (sort_warps_by_oldest_dynamic_id idle dynamic_id) xs))"
  using assms sortsD(3)[OF assms(1) by_oldest.strict_weak_order_axioms]
  by (simp add: gto_order_warps_def order_by_priority_def)

interpretation gto: warp_ordering "gto_order_warps std_sort idle dynamic_id"
    "\<lambda>xs last_issued. sorts std_sort \<and> distinct xs \<and> last_issued < length xs"
  using greedy_permutation sortsD(1)[OF _ by_oldest.strict_weak_order_axioms]
  by unfold_locales (fastforce simp: gto_eq)

interpretation oldest: warp_ordering "oldest_order_warps std_sort idle dynamic_id"
    "\<lambda>xs last_issued. sorts std_sort"
  using sortsD[OF _ by_oldest.strict_weak_order_axioms]
  by unfold_locales (auto simp: oldest_order_warps_def order_by_priority_def)


subsection \<open>Turns of the loose round robin\<close>

text \<open>
  \<open>m_last_supervised_issued\<close> after an issue: the last position of the warp among the
  supervised warps.
\<close>

definition last_supervised_issued :: "'a list \<Rightarrow> 'a \<Rightarrow> nat \<Rightarrow> nat" where
  "last_supervised_issued supervised x last_issued =
     fold (\<lambda>(i, y) l. if x = y then i else l) (enumerate 0 supervised) last_issued"

lemma fold_last_position:
  "distinct xs \<Longrightarrow> k < length xs \<Longrightarrow>
   fold (\<lambda>(i, y) l. if xs ! k = y then i else l) (enumerate n xs) l0 = n + k"
proof (induction xs arbitrary: k n l0)
  case (Cons x xs)
  have absent: "y \<notin> set ys \<Longrightarrow> fold (\<lambda>(i, z) l. if y = z then i else l) (enumerate m ys) l = l" for y :: 'a and ys m l
    by (induction ys arbitrary: m l) auto
  show ?case
  proof (cases k)
    case 0
    with Cons.prems show ?thesis by (simp add: absent)
  next
    case (Suc j)
    with Cons.prems Cons.IH[of j "Suc n"] show ?thesis by auto
  qed
qed simp

lemma last_supervised_issued_nth:
  "distinct xs \<Longrightarrow> k < length xs \<Longrightarrow> last_supervised_issued xs (xs ! k) l = k"
  by (simp add: last_supervised_issued_def fold_last_position)

text \<open>
  Cycles of a scheduler that issues the first warp of its order that is ready, one predicate
  for each cycle; the result is the warp that each cycle issues.
\<close>

fun lrr_turns :: "('a \<Rightarrow> bool) list \<Rightarrow> 'a list \<Rightarrow> nat \<Rightarrow> 'a option list option" where
  "lrr_turns [] xs last_issued = Some []"
| "lrr_turns (ready # rs) xs last_issued = do {
     ys \<leftarrow> lrr_order_warps xs last_issued;
     let issued = List.find ready ys;
     us \<leftarrow> lrr_turns rs xs (case issued of None \<Rightarrow> last_issued
       | Some w \<Rightarrow> last_supervised_issued xs w last_issued);
     Some (issued # us)
   }"

definition lrr_start :: "'a list \<Rightarrow> nat \<Rightarrow> nat" where
  "lrr_start xs last_issued = (if last_issued = length xs then 0 else last_issued + 1) mod length xs"

lemma lrr_order_warps_start:
  assumes "xs \<noteq> []" "last_issued \<le> length xs"
  shows "lrr_order_warps xs last_issued =
    Some (map (\<lambda>k. xs ! ((lrr_start xs last_issued + k) mod length xs)) [0..<length xs])"
  using assms by (simp add: lrr_order_warps_def order_lrr_eq lrr_start_def mod_add_left_eq)

lemma lrr_turns_total: "last_issued \<le> length xs \<Longrightarrow> distinct xs \<Longrightarrow> \<exists>us. lrr_turns rs xs last_issued = Some us"
proof (induction rs arbitrary: last_issued)
  case (Cons r rs)
  obtain ys where ys: "lrr_order_warps xs last_issued = Some ys" "set ys = set xs"
    using lrr.no_failure lrr.same_warps Cons.prems(1) by (metis not_None_eq)
  show ?case
  proof (cases "List.find r ys")
    case None
    with Cons ys show ?thesis by (auto simp: Let_def split: bind_splits)
  next
    case (Some w)
    then have "w \<in> set xs" using ys by (auto simp: find_Some_iff)
    then obtain k where "k < length xs" "w = xs ! k" by (auto simp: in_set_conv_nth)
    then have "last_supervised_issued xs w last_issued \<le> length xs"
      using Cons.prems by (simp add: last_supervised_issued_nth)
    from Cons.IH[OF this Cons.prems(2)] show ?thesis using ys Some by auto
  qed
qed simp

lemma lrr_turns_progress:
  assumes "distinct xs" "last_issued \<le> length xs" "d < length xs" "d < length rs"
    "w = xs ! ((lrr_start xs last_issued + d) mod length xs)" "\<forall>r \<in> set rs. r w"
  shows "\<exists>us. lrr_turns rs xs last_issued = Some us \<and> Some w \<in> set us"
  using assms
proof (induction rs arbitrary: last_issued d)
  case (Cons r rs)
  let ?n = "length xs" and ?s = "lrr_start xs last_issued"
  let ?ys = "map (\<lambda>k. xs ! ((?s + k) mod ?n)) [0..<?n]"
  have ne: "xs \<noteq> []" using Cons.prems(3) by auto
  note ord = lrr_order_warps_start[OF ne Cons.prems(2)]
  have wd: "?ys ! d = w" using Cons.prems(3,5) by simp
  obtain j where j: "j < ?n" "r (?ys ! j)" "List.find r ?ys = Some (?ys ! j)" "\<forall>i < j. \<not> r (?ys ! i)"
  proof (cases "List.find r ?ys")
    case None
    then have "\<not> r (?ys ! d)" using Cons.prems(3) unfolding find_None_iff by fastforce
    with wd Cons.prems(6) show ?thesis by simp
  next
    case (Some u)
    then show ?thesis using that unfolding find_Some_iff by fastforce
  qed
  have jd: "j \<le> d" using j(4) wd Cons.prems(6) by (metis linorder_not_le list.set_intros(1))
  let ?p = "(?s + j) mod ?n"
  have p: "?p < ?n" using ne by simp
  have last: "last_supervised_issued xs (?ys ! j) last_issued = ?p"
    using last_supervised_issued_nth[OF Cons.prems(1) p] j(1) by simp
  have step: "lrr_turns (r # rs) xs last_issued = Option.bind (lrr_turns rs xs ?p) (\<lambda>us. Some (Some (?ys ! j) # us))"
    using ord j(3) last by (simp add: Let_def)
  show ?case
  proof (cases "j = d")
    case True
    with lrr_turns_total[of ?p xs rs] p Cons.prems(1) wd step show ?thesis by auto
  next
    case False
    with jd have less: "j < d" by simp
    have "(lrr_start xs ?p + (d - j - 1)) mod ?n = (?s + d) mod ?n"
    proof -
      have "lrr_start xs ?p = (?s + j + 1) mod ?n"
        using p by (simp add: lrr_start_def mod_Suc_eq)
      then have "(lrr_start xs ?p + (d - j - 1)) mod ?n = (?s + j + 1 + (d - j - 1)) mod ?n"
        by (simp add: mod_add_left_eq)
      then show ?thesis using less by simp
    qed
    then obtain us where "lrr_turns rs xs ?p = Some us" "Some w \<in> set us"
      using Cons.IH[of ?p "d - j - 1"] Cons.prems less p by force
    with step show ?thesis by simp
  qed
qed simp

subsection \<open>Properties\<close>



text \<open>C26. Greedy then oldest: with any \<open>std::sort\<close> that keeps the promises of the standard,
  \<open>order_warps\<close> of \<open>gto_scheduler\<close> lists every supervised warp once, the last issued one
  first, and after it the warps that can run by increasing dynamic id, then those that wait or
  are done.\<close>

theorem gto_order:
  assumes "sorts std_sort" "distinct supervised" "last_issued < length supervised"
  shows "\<exists>rest. gto_order_warps std_sort idle dynamic_id supervised last_issued =
      Some (supervised ! last_issued # rest) \<and>
    mset (supervised ! last_issued # rest) = mset supervised \<and>
    (\<exists>m \<le> length rest. list_all (\<lambda>w. \<not> idle w) (take m rest) \<and> list_all idle (drop m rest) \<and>
      sorted (map dynamic_id (take m rest)))"
proof -
  let ?less = "sort_warps_by_oldest_dynamic_id idle dynamic_id"
  let ?ys = "std_sort ?less supervised" and ?g = "supervised ! last_issued"
  let ?rest = "filter (\<lambda>x. x \<noteq> ?g) ?ys"
  have split: "\<exists>m \<le> length xs. list_all (\<lambda>w. \<not> idle w) (take m xs) \<and> list_all idle (drop m xs) \<and>
      sorted (map dynamic_id (take m xs))" if "sorted_wrt (\<lambda>x y. \<not> ?less y x) xs" for xs
    using that
  proof (induction xs)
    case (Cons x xs)
    then obtain m where m: "m \<le> length xs" "list_all (\<lambda>w. \<not> idle w) (take m xs)" "list_all idle (drop m xs)"
      "sorted (map dynamic_id (take m xs))" by auto
    show ?case
    proof (cases "idle x")
      case True
      with Cons.prems have "list_all idle (x # xs)"
        by (auto simp: list_all_iff sort_warps_by_oldest_dynamic_id_def split: if_splits)
      then show ?thesis by (intro exI[of _ 0]) simp
    next
      case False
      have "dynamic_id x \<le> dynamic_id y" if "y \<in> set (take m xs)" for y
        using Cons.prems m(2) that in_set_takeD[OF that] False
        by (auto simp: list_all_iff sort_warps_by_oldest_dynamic_id_def split: if_splits)
      with m False show ?thesis by (intro exI[of _ "Suc m"]) auto
    qed
  qed simp
  note ys = sortsD[OF assms(1) by_oldest.strict_weak_order_axioms, of idle dynamic_id supervised]
  have "sorted_wrt (\<lambda>x y. \<not> ?less y x) ?rest" by (rule sorted_wrt_filter[OF ys(2)])
  with split greedy_permutation[OF assms(2,3) ys(1)] gto_eq[OF assms(1,3)] show ?thesis by auto
qed

theorem gto_order_witness:
  "gto_order_warps insertion_sort (\<lambda>w. w = 1) (\<lambda>w. 9 - w) [0, 1, 2, 3] 2 = Some [2, 3, 0, 1] \<and>
   (\<exists>rest. gto_order_warps insertion_sort (\<lambda>w. w = 1) (\<lambda>w. 9 - w) [0, 1, 2, 3] 2 = Some (2 # rest))"
  using gto_order[OF insertion_sort_sorts, of "[0, 1, 2, 3]" 2 "\<lambda>w. w = 1" "\<lambda>w. 9 - w"]
  by (auto simp: gto_order_warps_def order_by_priority_def insertion_sort_def sort_warps_by_oldest_dynamic_id_def)


text \<open>C28. The static warp limiter: \<open>order_warps\<close> of \<open>swl_scheduler\<close> never fails on a
  valid iterator, lists only supervised warps, none of them twice, and its length is the limit
  when the last issued warp is among the first warps of the sorted list, but one more than the
  limit when it is not.\<close>

theorem swl_limit:
  assumes "sorts std_sort" "distinct supervised" "last_issued < length supervised" "limit \<le> length supervised"
  shows "\<exists>ys. swl_order_warps std_sort idle dynamic_id SCHEDULER_PRIORITIZATION_GTO limit supervised last_issued =
      Some ys \<and> set ys \<subseteq> set supervised \<and> distinct ys \<and>
    length ys = (if supervised ! last_issued \<in>
        set (take limit (std_sort (sort_warps_by_oldest_dynamic_id idle dynamic_id) supervised))
      then limit else limit + 1)"
proof -
  let ?ys = "std_sort (sort_warps_by_oldest_dynamic_id idle dynamic_id) supervised"
  let ?g = "supervised ! last_issued"
  note ys = sortsD[OF assms(1) by_oldest.strict_weak_order_axioms, of idle dynamic_id supervised]
  have dy: "distinct (take limit ?ys)" using ys(1) assms(2) by (metis distinct_take mset_eq_imp_distinct_iff)
  have "length (filter (\<lambda>x. x \<noteq> ?g) xs) = (if ?g \<in> set xs then length xs - 1 else length xs)" if "distinct xs" for xs
    using that
  proof (induction xs)
    case (Cons a xs)
    then show ?case by (cases xs) auto
  qed simp
  from this[OF dy] have len: "length (filter (\<lambda>x. x \<noteq> ?g) (take limit ?ys)) =
      (if ?g \<in> set (take limit ?ys) then limit - 1 else limit)" using ys(3) assms(4) by simp
  have pos: "0 < limit" if "?g \<in> set (take limit ?ys)" using that by (cases limit) auto
  have "set (take limit ?ys) \<subseteq> set supervised" using ys(4) set_take_subset by fastforce
  then show ?thesis
    using assms(3,4) dy len pos by (auto simp: swl_order_warps_def order_by_priority_def min_def)
qed

theorem swl_limit_witness:
  "\<exists>ys. swl_order_warps insertion_sort (\<lambda>w. False) (\<lambda>w. w) SCHEDULER_PRIORITIZATION_GTO 1 [0, 1, 2] 2 =
     Some ys \<and> length ys = 2"
  using swl_limit[OF insertion_sort_sorts, of "[0, 1, 2]" 2 1 "\<lambda>w. False" "\<lambda>w. w"]
  by (auto simp: insertion_sort_def sort_warps_by_oldest_dynamic_id_def)

lemma promote_eq:
  "promote m active pending k =
    (if m - length active \<le> length pending
     then Some (active @ take (m - length active) pending, drop (m - length active) pending,
       k + (m - length active))
     else None)"
proof (induction m active pending k rule: promote.induct)
  case (1 m active pending k)
  show ?case
  proof (cases "length active < m")
    case False
    then show ?thesis by (subst promote.simps) simp
  next
    case True
    show ?thesis
    proof (cases pending)
      case Nil
      with True show ?thesis by (subst promote.simps) simp
    next
      case (Cons p ps)
      have "m - length active = Suc (m - length (active @ [p]))" using True by simp
      with True Cons 1[OF True Cons] show ?thesis by (subst promote.simps) simp
    qed
  qed
qed

text \<open>C27. The two-level scheduler: \<open>order_warps\<close> succeeds exactly when as many warps are active
  as the configuration allows, which takes at least that many supervised warps; then it keeps
  the number of active warps, loses and duplicates no warp, leaves the active warps that need
  not be demoted at the front in their order, and hands the free places to the pending warps in
  the order of their arrival.\<close>

theorem two_level_order:
  assumes "tl_outer s = SCHEDULER_PRIORITIZATION_SRR" "length (tl_active s) \<le> tl_max_active_warps s"
  shows "(two_level_order_warps demote s \<noteq> None \<longleftrightarrow> length (tl_active s) = tl_max_active_warps s) \<and>
    (\<forall>s'. two_level_order_warps demote s = Some s' \<longrightarrow>
       length (tl_active s') = tl_max_active_warps s' \<and>
       mset (tl_active s' @ tl_pending s') = mset (tl_active s @ tl_pending s) \<and>
       tl_active s' @ tl_pending s' = filter (\<lambda>p. \<not> demote p) (tl_active s) @ tl_pending s @
         filter demote (tl_active s))"
proof -
  let ?kept = "filter (\<lambda>p. \<not> demote p) (tl_active s)" and ?demoted = "filter demote (tl_active s)"
  have len: "length ?kept + length ?demoted = length (tl_active s)"
    using sum_length_filter_compl[of demote "tl_active s"] by simp
  let ?act = "?kept @ take (length ?demoted) (tl_pending s @ ?demoted)"
    and ?pend = "drop (length ?demoted) (tl_pending s @ ?demoted)"
  have ms: "mset ?kept + mset ?demoted = mset (tl_active s)"
    by (simp add: add.commute)
  have eq: "two_level_order_warps demote s =
    (if length (tl_active s) = tl_max_active_warps s then
       Some (s\<lparr>tl_active := ?kept @ take (length ?demoted) (tl_pending s @ ?demoted),
         tl_pending := drop (length ?demoted) (tl_pending s @ ?demoted)\<rparr>) else None)"
  proof (cases "length (tl_active s) = tl_max_active_warps s")
    case True
    then have "tl_max_active_warps s - length ?kept = length ?demoted" using len by simp
    with True assms(1) show ?thesis
      by (simp add: two_level_order_warps_def promote_eq Let_def del: take_append drop_append)
  next
    case False
    then have "tl_max_active_warps s - length ?kept \<noteq> length ?demoted" using len assms(2) by simp
    with False assms(1) show ?thesis
      by (simp add: two_level_order_warps_def promote_eq Let_def del: take_append drop_append)
  qed
  have "mset (?kept @ tl_pending s @ ?demoted) = mset (tl_active s @ tl_pending s)"
    using ms by (simp add: ac_simps)
  moreover have "?act @ ?pend = ?kept @ tl_pending s @ ?demoted" by (metis append.assoc append_take_drop_id)
  ultimately have sum: "mset ?act + mset ?pend = mset (tl_active s) + mset (tl_pending s)"
    "?act @ ?pend = ?kept @ tl_pending s @ ?demoted" by (metis mset_append, simp only:)
  have la: "length ?act = length (tl_active s)" using len by simp
  show ?thesis
  proof (cases "length (tl_active s) = tl_max_active_warps s")
    case True
    then have "two_level_order_warps demote s = Some (s\<lparr>tl_active := ?act, tl_pending := ?pend\<rparr>)"
      by (simp only: eq refl if_True)
    with True sum la show ?thesis by (simp del: take_append drop_append)
  next
    case False
    with eq show ?thesis by simp
  qed
qed

definition two_level_small :: two_level where
  "two_level_small = fold two_level_add_supervised_warp_id [0, 1, 2, 3, 4]
     \<lparr>tl_active = [], tl_pending = [], tl_max_active_warps = 3, tl_inner = SCHEDULER_PRIORITIZATION_LRR,
      tl_outer = SCHEDULER_PRIORITIZATION_SRR\<rparr>"

theorem two_level_order_witness:
  "tl_active two_level_small = [0, 1, 2] \<and>
   map_option tl_active (two_level_order_warps (\<lambda>p. p = 1) two_level_small) = Some [0, 2, 3] \<and>
   map_option tl_pending (two_level_order_warps (\<lambda>p. p = 1) two_level_small) = Some [4, 1]"
proof -
  have s: "tl_active two_level_small = [0, 1, 2]" "tl_pending two_level_small = [3, 4]"
    "tl_max_active_warps two_level_small = 3" "tl_outer two_level_small = SCHEDULER_PRIORITIZATION_SRR"
    by (simp_all add: two_level_small_def two_level_add_supervised_warp_id_def)
  then have "two_level_order_warps (\<lambda>p. p = 1) two_level_small \<noteq> None"
    using two_level_order[of two_level_small "\<lambda>p. p = 1"] by simp
  with s show ?thesis
    by (auto simp: two_level_order_warps_def promote_eq Let_def)
qed

end
