(* ===== verification/Token_Queue.thy ===== *)
theory Token_Queue
  imports Prelude
begin

section \<open>The queue contract: an abstract FIFO of reserved slots\<close>

text \<open>
  Both queue classes of the simulator (\<open>wasp_rfq\<close>, the register-file queue, and
  \<open>smemq\<close>, the shared-memory queue) promise the same thing: a bounded FIFO whose slots
  are reserved at the tail by a producer load, filled by a number of memory responses
  that may arrive in any order, and consumed at the head once the head is filled. This
  theory states that promise as a specification on lists, as the locale
  \<open>token_queue\<close> that an implementation interprets, and proves once what follows from
  it: order, conservation, uniqueness of tokens.
\<close>

text \<open>A slot is known to its clients by the pair of slot index and sequence number.\<close>

type_synonym slot_id = "nat \<times> u32"

record fifo_slot =
  fs_id :: slot_id
  fs_pending :: nat
  fs_mask :: active_mask_t
  fs_payload :: "u64 list"

record fifo =
  ff_capacity :: nat
  ff_words :: nat
  ff_lanes :: nat
  ff_tail :: nat
  ff_next :: u32
  ff_slots :: "fifo_slot list"

definition fifo_ids :: "fifo \<Rightarrow> slot_id list" where
  "fifo_ids f = map fs_id (ff_slots f)"

definition fifo_get :: "slot_id \<Rightarrow> fifo \<Rightarrow> fifo_slot option" where
  "fifo_get d f = List.find (\<lambda>s. fs_id s = d) (ff_slots f)"

definition fifo_upd :: "slot_id \<Rightarrow> (fifo_slot \<Rightarrow> fifo_slot) \<Rightarrow> fifo \<Rightarrow> fifo" where
  "fifo_upd d g f = f\<lparr>ff_slots := map (\<lambda>s. if fs_id s = d then g s else s) (ff_slots f)\<rparr>"

definition fifo_reserve :: "active_mask_t \<Rightarrow> nat \<Rightarrow> fifo \<Rightarrow> (slot_id \<times> fifo) option" where
  "fifo_reserve m p f =
     (if length (ff_slots f) < ff_capacity f
      then Some ((ff_tail f, ff_next f),
        f\<lparr>ff_slots := ff_slots f @ [\<lparr>fs_id = (ff_tail f, ff_next f), fs_pending = p, fs_mask = m,
             fs_payload = replicate (ff_lanes f * ff_words f) 0\<rparr>],
          ff_tail := (ff_tail f + 1) mod ff_capacity f, ff_next := ff_next f + 1\<rparr>)
      else None)"

definition fifo_set_pending :: "slot_id \<Rightarrow> nat \<Rightarrow> fifo \<Rightarrow> fifo option" where
  "fifo_set_pending d n f =
     (if d \<in> set (fifo_ids f) then Some (fifo_upd d (fs_pending_update (\<lambda>_. n)) f) else None)"

definition fifo_mark :: "slot_id \<Rightarrow> fifo \<Rightarrow> (bool \<times> fifo) option" where
  "fifo_mark d f =
     (case fifo_get d f of None \<Rightarrow> None
      | Some s \<Rightarrow> if fs_pending s = 0 then None
          else Some (fs_pending s = 1, fifo_upd d (fs_pending_update (\<lambda>n. n - 1)) f))"

definition fifo_consume :: "fifo \<Rightarrow> fifo option" where
  "fifo_consume f =
     (case ff_slots f of [] \<Rightarrow> None
      | s # ss \<Rightarrow> if fs_pending s = 0 then Some (f\<lparr>ff_slots := ss\<rparr>) else None)"

definition fifo_set_lane :: "slot_id \<Rightarrow> nat \<Rightarrow> nat \<Rightarrow> u64 \<Rightarrow> fifo \<Rightarrow> fifo option" where
  "fifo_set_lane d l w v f =
     (if d \<in> set (fifo_ids f) \<and> l < ff_lanes f \<and> w < ff_words f
      then Some (fifo_upd d (fs_payload_update (\<lambda>p. p[l * ff_words f + w := v])) f) else None)"

definition fifo_head_lane :: "nat \<Rightarrow> nat \<Rightarrow> fifo \<Rightarrow> u64 option" where
  "fifo_head_lane l w f =
     (case ff_slots f of [] \<Rightarrow> None
      | s # ss \<Rightarrow> if fs_pending s = 0 \<and> l < ff_lanes f \<and> w < ff_words f
          then Some (fs_payload s ! (l * ff_words f + w)) else None)"

text \<open>The calls a client makes, with slots named by their identity.\<close>

datatype fifo_call =
    Reserve active_mask_t nat
  | Set_pending slot_id nat
  | Mark slot_id
  | Consume
  | Set_lane slot_id nat nat u64

fun fifo_step :: "fifo \<Rightarrow> fifo_call \<Rightarrow> fifo option" where
  "fifo_step f (Reserve m p) = map_option snd (fifo_reserve m p f)"
| "fifo_step f (Set_pending d n) = fifo_set_pending d n f"
| "fifo_step f (Mark d) = map_option snd (fifo_mark d f)"
| "fifo_step f Consume = fifo_consume f"
| "fifo_step f (Set_lane d l w v) = fifo_set_lane d l w v f"

subsection \<open>Facts of the specification\<close>

lemma fifo_upd_simps [simp]:
  "ff_capacity (fifo_upd d g f) = ff_capacity f" "ff_words (fifo_upd d g f) = ff_words f"
  "ff_lanes (fifo_upd d g f) = ff_lanes f" "ff_tail (fifo_upd d g f) = ff_tail f"
  "ff_next (fifo_upd d g f) = ff_next f"
  "length (ff_slots (fifo_upd d g f)) = length (ff_slots f)"
  by (simp_all add: fifo_upd_def)

lemma fifo_ids_upd: "(\<And>s. fs_id (g s) = fs_id s) \<Longrightarrow> fifo_ids (fifo_upd d g f) = fifo_ids f"
  by (simp add: fifo_ids_def fifo_upd_def)

lemma fifo_ids_update_fields [simp]:
  "fifo_ids (fifo_upd d (fs_pending_update h) f) = fifo_ids f"
  "fifo_ids (fifo_upd d (fs_payload_update k) f) = fifo_ids f"
  by (simp_all add: fifo_ids_upd)

lemma fifo_get_None: "fifo_get d f = None \<longleftrightarrow> d \<notin> set (fifo_ids f)"
  by (auto simp: fifo_get_def fifo_ids_def find_None_iff)

lemma fifo_get_Some: "fifo_get d f = Some s \<Longrightarrow> s \<in> set (ff_slots f) \<and> fs_id s = d"
  by (auto simp: fifo_get_def find_Some_iff)

lemma fifo_get_upd:
  "(\<And>s. fs_id (g s) = fs_id s) \<Longrightarrow> fifo_get d (fifo_upd d g f) = map_option g (fifo_get d f)"
proof -
  assume g: "\<And>s. fs_id (g s) = fs_id s"
  have "List.find (\<lambda>s. fs_id s = d) (map (\<lambda>s. if fs_id s = d then g s else s) xs) =
      map_option g (List.find (\<lambda>s. fs_id s = d) xs)" for xs
    by (induction xs) (auto simp: g)
  then show ?thesis by (simp add: fifo_get_def fifo_upd_def)
qed

lemma fifo_get_live: "d \<in> set (fifo_ids f) \<Longrightarrow> \<exists>s. fifo_get d f = Some s"
  by (metis fifo_get_None not_None_eq)

lemma fifo_get_mem: "fifo_get d f = Some s \<Longrightarrow> d \<in> set (fifo_ids f)"
  by (metis fifo_get_None option.distinct(1))

text \<open>The ghost record of a run: the ids reserved so far, and how many were consumed.\<close>

fun call_reserved :: "fifo \<Rightarrow> fifo_call \<Rightarrow> slot_id list" where
  "call_reserved f (Reserve m p) = [(ff_tail f, ff_next f)]"
| "call_reserved f c = []"

fun call_consumed :: "fifo \<Rightarrow> fifo_call \<Rightarrow> slot_id list" where
  "call_consumed f Consume = take 1 (fifo_ids f)"
| "call_consumed f c = []"

lemma fifo_step_ids:
  assumes "fifo_step f c = Some f'"
  shows "call_consumed f c @ fifo_ids f' = fifo_ids f @ call_reserved f c"
  using assms
  by (cases c) (auto simp: fifo_reserve_def fifo_set_pending_def fifo_mark_def fifo_consume_def
      fifo_set_lane_def fifo_ids_def fifo_upd_def
      split: if_splits option.splits list.splits)

lemma fifo_step_next:
  assumes "fifo_step f c = Some f'"
  shows "ff_next f' = ff_next f + of_nat (length (call_reserved f c))"
  using assms
  by (cases c) (auto simp: fifo_reserve_def fifo_set_pending_def fifo_mark_def fifo_consume_def
      fifo_set_lane_def split: if_splits option.splits list.splits)

lemma fifo_step_capacity: "fifo_step f c = Some f' \<Longrightarrow> ff_capacity f' = ff_capacity f"
  by (cases c) (auto simp: fifo_reserve_def fifo_set_pending_def fifo_mark_def fifo_consume_def
      fifo_set_lane_def split: if_splits option.splits list.splits)

lemma fifo_step_bounded:
  "fifo_step f c = Some f' \<Longrightarrow> length (ff_slots f) \<le> ff_capacity f \<Longrightarrow>
   length (ff_slots f') \<le> ff_capacity f'"
  by (cases c) (auto simp: fifo_reserve_def fifo_set_pending_def fifo_mark_def fifo_consume_def
      fifo_set_lane_def split: if_splits option.splits list.splits)

text \<open>
  A traced run: the state together with the ids reserved and the ids consumed, in order.
\<close>

fun traced_run :: "('q \<Rightarrow> fifo) \<Rightarrow> ('q \<Rightarrow> fifo_call \<Rightarrow> 'q option) \<Rightarrow> 'q \<Rightarrow> fifo_call list
    \<Rightarrow> ('q \<times> slot_id list \<times> slot_id list) option" where
  "traced_run ab step q [] = Some (q, [], [])"
| "traced_run ab step q (c # cs) =
     (case step q c of None \<Rightarrow> None
      | Some q' \<Rightarrow> (case traced_run ab step q' cs of None \<Rightarrow> None
          | Some (r, res, con) \<Rightarrow>
              Some (r, call_reserved (ab q) c @ res, call_consumed (ab q) c @ con)))"

lemma seq_list_distinct:
  assumes "map snd xs = map (\<lambda>i. a + of_nat i) [0..<length xs]"
    and "length xs \<le> 2 ^ 32"
  shows "distinct (xs :: slot_id list)"
proof -
  have "inj_on (\<lambda>i. a + (of_nat i :: u32)) {0..<length xs}"
  proof (rule inj_onI)
    fix i j assume "i \<in> {0..<length xs}" "j \<in> {0..<length xs}"
      and "a + (of_nat i :: u32) = a + of_nat j"
    then have "unat (of_nat i :: u32) = unat (of_nat j :: u32)" "i < 2 ^ 32" "j < 2 ^ 32"
      using assms(2) by auto
    then show "i = j" by (simp add: unat_of_nat)
  qed
  then have "distinct (map snd xs)"
    unfolding assms(1) by (simp add: distinct_map)
  then show ?thesis by (simp add: distinct_map)
qed

text \<open>
  A call is live when the slot it names is in the queue. \<open>Mark\<close> needs no such
  condition: the code itself checks the slot's state.
\<close>

fun call_live :: "fifo \<Rightarrow> fifo_call \<Rightarrow> bool" where
  "call_live f (Set_pending d n) = (d \<in> set (fifo_ids f))"
| "call_live f (Set_lane d l w v) = (d \<in> set (fifo_ids f))"
| "call_live f c = True"

text \<open>All calls of a sequence are live at the point where they are made.\<close>

fun calls_live :: "fifo \<Rightarrow> fifo_call list \<Rightarrow> bool" where
  "calls_live f [] = True"
| "calls_live f (c # cs) =
     (call_live f c \<and> (case fifo_step f c of None \<Rightarrow> True | Some f' \<Rightarrow> calls_live f' cs))"

subsection \<open>The interface\<close>

locale token_queue =
  fixes invar :: "'q \<Rightarrow> bool"
    and abs :: "'q \<Rightarrow> fifo"
    and tok_id :: "'t \<Rightarrow> slot_id"
    and tok_ok :: "'t \<Rightarrow> bool"
    and full :: "'q \<Rightarrow> bool"
    and empty :: "'q \<Rightarrow> bool"
    and head_ready :: "'q \<Rightarrow> bool option"
    and occupancy :: "'q \<Rightarrow> nat"
    and reserve :: "'k \<Rightarrow> active_mask_t \<Rightarrow> nat \<Rightarrow> 'q \<Rightarrow> ('t \<times> 'q) option"
    and set_pending :: "'t \<Rightarrow> nat \<Rightarrow> 'q \<Rightarrow> 'q option"
    and has_pending :: "'t \<Rightarrow> 'q \<Rightarrow> bool option"
    and mark :: "'t \<Rightarrow> 'q \<Rightarrow> (bool \<times> 'q) option"
    and consume :: "'k \<Rightarrow> 'q \<Rightarrow> 'q option"
    and set_lane :: "'t \<Rightarrow> nat \<Rightarrow> nat \<Rightarrow> u64 \<Rightarrow> 'q \<Rightarrow> 'q option"
    and head_lane :: "nat \<Rightarrow> nat \<Rightarrow> 'q \<Rightarrow> u64 option"
    and mk_tok :: "slot_id \<Rightarrow> 't"
    and key0 :: "'k"
    and step :: "'q \<Rightarrow> fifo_call \<Rightarrow> 'q option"
  assumes mk_tok: "tok_id (mk_tok d) = d" "tok_ok (mk_tok d)"
    and abs_bound: "invar q \<Longrightarrow> length (ff_slots (abs q)) \<le> ff_capacity (abs q)"
    and abs_distinct: "invar q \<Longrightarrow> distinct (fifo_ids (abs q))"
    and full_law: "invar q \<Longrightarrow> full q \<longleftrightarrow> length (ff_slots (abs q)) = ff_capacity (abs q)"
    and empty_law: "invar q \<Longrightarrow> empty q \<longleftrightarrow> ff_slots (abs q) = []"
    and head_ready_law: "invar q \<Longrightarrow> head_ready q =
      Some (case ff_slots (abs q) of [] \<Rightarrow> False | s # _ \<Rightarrow> fs_pending s = 0)"
    and occupancy_law: "invar q \<Longrightarrow> occupancy q = length (ff_slots (abs q))"
    and reserve_law: "invar q \<Longrightarrow>
      map_option (\<lambda>(t, q'). (tok_id t, abs q')) (reserve k m p q) = fifo_reserve m p (abs q)"
    and reserve_invar: "invar q \<Longrightarrow> reserve k m p q = Some (t, q') \<Longrightarrow> invar q' \<and> tok_ok t"
    and set_pending_law: "invar q \<Longrightarrow> tok_ok t \<Longrightarrow> tok_id t \<in> set (fifo_ids (abs q)) \<Longrightarrow>
      map_option abs (set_pending t n q) = fifo_set_pending (tok_id t) n (abs q)"
    and set_pending_invar: "invar q \<Longrightarrow> tok_ok t \<Longrightarrow> tok_id t \<in> set (fifo_ids (abs q)) \<Longrightarrow>
      set_pending t n q = Some q' \<Longrightarrow> invar q'"
    and has_pending_law: "invar q \<Longrightarrow> tok_ok t \<Longrightarrow> fifo_get (tok_id t) (abs q) = Some s \<Longrightarrow>
      has_pending t q = Some (0 < fs_pending s)"
    and mark_law: "invar q \<Longrightarrow> tok_ok t \<Longrightarrow>
      map_option (\<lambda>(b, q'). (b, abs q')) (mark t q) = fifo_mark (tok_id t) (abs q)"
    and mark_invar: "invar q \<Longrightarrow> tok_ok t \<Longrightarrow> mark t q = Some (b, q') \<Longrightarrow> invar q'"
    and consume_law: "invar q \<Longrightarrow> map_option abs (consume k q) = fifo_consume (abs q)"
    and consume_invar: "invar q \<Longrightarrow> consume k q = Some q' \<Longrightarrow> invar q'"
    and set_lane_law: "invar q \<Longrightarrow> tok_ok t \<Longrightarrow> tok_id t \<in> set (fifo_ids (abs q)) \<Longrightarrow>
      map_option abs (set_lane t l w v q) = fifo_set_lane (tok_id t) l w v (abs q)"
    and set_lane_invar: "invar q \<Longrightarrow> tok_ok t \<Longrightarrow> tok_id t \<in> set (fifo_ids (abs q)) \<Longrightarrow>
      set_lane t l w v q = Some q' \<Longrightarrow> invar q'"
    and head_lane_law: "invar q \<Longrightarrow> head_lane l w q = fifo_head_lane l w (abs q)"
    and step_eqs:
      "step q (Reserve m p) = map_option snd (reserve key0 m p q)"
      "step q (Set_pending d n) = set_pending (mk_tok d) n q"
      "step q (Mark d) = map_option snd (mark (mk_tok d) q)"
      "step q Consume = consume key0 q"
      "step q (Set_lane d l w v) = set_lane (mk_tok d) l w v q"
begin

lemma step_refines:
  assumes "invar q" and "call_live (abs q) c"
  shows "map_option abs (step q c) = fifo_step (abs q) c"
proof (cases c)
  case (Reserve m p)
  have "map_option abs (map_option snd (reserve key0 m p q)) =
      map_option snd (map_option (\<lambda>(t, q'). (tok_id t, abs q')) (reserve key0 m p q))"
    by (cases "reserve key0 m p q") auto
  then show ?thesis using Reserve reserve_law[OF assms(1)] by (simp add: step_eqs)
next
  case (Mark d)
  have "map_option abs (map_option snd (mark (mk_tok d) q)) =
      map_option snd (map_option (\<lambda>(b, q'). (b, abs q')) (mark (mk_tok d) q))"
    by (cases "mark (mk_tok d) q") auto
  then show ?thesis using Mark mark_law[OF assms(1) mk_tok(2)] by (simp add: step_eqs mk_tok)
qed (use assms in \<open>simp_all add: step_eqs set_pending_law consume_law set_lane_law mk_tok\<close>)

lemma step_invar:
  assumes "invar q" and "call_live (abs q) c" and "step q c = Some q'"
  shows "invar q'"
proof (cases c)
  case (Set_pending d n)
  show ?thesis
    by (rule set_pending_invar[of q "mk_tok d" n]) (use assms Set_pending in \<open>simp_all add: step_eqs mk_tok\<close>)
next
  case (Mark d)
  with assms obtain b where "mark (mk_tok d) q = Some (b, q')" by (auto simp: step_eqs)
  then show ?thesis by (rule mark_invar[OF assms(1) mk_tok(2)])
next
  case (Set_lane d l w v)
  show ?thesis
    by (rule set_lane_invar[of q "mk_tok d" l w v]) (use assms Set_lane in \<open>simp_all add: step_eqs mk_tok\<close>)
qed (use assms in \<open>auto simp: step_eqs dest: reserve_invar consume_invar\<close>)

lemma run_refines:
  assumes "invar q" and "calls_live (abs q) cs"
  shows "map_option abs (run_calls step q cs) = run_calls fifo_step (abs q) cs"
  using assms
proof (induction cs arbitrary: q)
  case (Cons c cs)
  then have ref: "map_option abs (step q c) = fifo_step (abs q) c"
    by (auto intro: step_refines)
  show ?case
  proof (cases "step q c")
    case None
    with ref have "fifo_step (abs q) c = None" by simp
    with None show ?thesis by simp
  next
    case (Some r)
    with ref have f: "fifo_step (abs q) c = Some (abs r)" by simp
    with Cons.prems Some have "invar r" "calls_live (abs r) cs"
      by (auto intro: step_invar)
    then show ?thesis using Some f Cons.IH by simp
  qed
qed simp

lemma run_invar:
  assumes "invar q" and "calls_live (abs q) cs" and "run_calls step q cs = Some q'"
  shows "invar q'"
  using assms
proof (induction cs arbitrary: q)
  case (Cons c cs)
  then obtain r where r: "step q c = Some r" "run_calls step r cs = Some q'"
    by (auto split: bind_splits)
  with Cons.prems step_refines[of q c] have "fifo_step (abs q) c = Some (abs r)" by simp
  with Cons.prems r show ?case using Cons.IH[of r] step_invar[of q c r] by simp
qed simp

text \<open>No slot is lost, none is invented, and they leave in the order they came.\<close>

lemma traced_order:
  assumes "invar q" and "calls_live (abs q) cs"
    and "traced_run abs step q cs = Some (q', res, con)"
  shows "con @ fifo_ids (abs q') = fifo_ids (abs q) @ res \<and> invar q'"
  using assms
proof (induction cs arbitrary: q res con)
  case (Cons c cs)
  then obtain r res' con' where r: "step q c = Some r"
    and t: "traced_run abs step r cs = Some (q', res', con')"
    and res: "res = call_reserved (abs q) c @ res'" and con: "con = call_consumed (abs q) c @ con'"
    by (auto split: option.splits)
  with Cons.prems step_refines[of q c] have f: "fifo_step (abs q) c = Some (abs r)" by simp
  have "invar r" using Cons.prems r by (auto intro: step_invar)
  then have "con' @ fifo_ids (abs q') = fifo_ids (abs r) @ res' \<and> invar q'"
    using Cons.prems(2) f t by (intro Cons.IH) auto
  with fifo_step_ids[OF f] show ?case
    by (metis append.assoc con res)
qed auto

lemma traced_next:
  assumes "invar q" and "calls_live (abs q) cs"
    and "traced_run abs step q cs = Some (q', res, con)"
  shows "map snd res = map (\<lambda>i. ff_next (abs q) + of_nat i) [0..<length res]"
  using assms
proof (induction cs arbitrary: q res con)
  case (Cons c cs)
  then obtain r res' con' where r: "step q c = Some r"
    and t: "traced_run abs step r cs = Some (q', res', con')"
    and res: "res = call_reserved (abs q) c @ res'"
    by (auto split: option.splits)
  with Cons.prems step_refines[of q c] have f: "fifo_step (abs q) c = Some (abs r)" by simp
  have "invar r" using Cons.prems r by (auto intro: step_invar)
  then have IH: "map snd res' = map (\<lambda>i. ff_next (abs r) + of_nat i) [0..<length res']"
    using Cons.prems(2) f t by (intro Cons.IH) auto
  show ?case
  proof (cases c)
    case (Reserve m p)
    then show ?thesis using IH fifo_step_next[OF f]
      by (simp add: res upt_0_Suc comp_def add_ac del: upt_Suc)
  qed (use IH fifo_step_next[OF f] in \<open>simp_all add: res\<close>)
qed simp

text \<open>
  Up to \<open>2 ^ 32\<close> reservations, an id that was consumed is never in the queue again, so a
  memory response that still carries it is refused.
\<close>

lemma stale_refused:
  assumes "invar q" "ff_slots (abs q) = []" "calls_live (abs q) cs"
    and run: "traced_run abs step q cs = Some (q', res, con)"
    and small: "length res \<le> 2 ^ 32" and t: "tok_ok t" "tok_id t \<in> set con"
  shows "mark t q' = None"
proof -
  have order: "con @ fifo_ids (abs q') = res" and inv: "invar q'"
    using traced_order[OF assms(1,3) run] assms(2) by (simp_all add: fifo_ids_def)
  have "distinct res"
    using seq_list_distinct[OF traced_next[OF assms(1,3) run] small] .
  then have "tok_id t \<notin> set (fifo_ids (abs q'))"
    using order t(2) by (metis disjoint_iff distinct_append)
  then have "fifo_mark (tok_id t) (abs q') = None"
    by (simp add: fifo_mark_def fifo_get_None[THEN iffD2])
  then show ?thesis using mark_law[OF inv t(1)] by simp
qed

text \<open>A value stored through a token is the value read once the token is at the head.\<close>

lemma store_then_read:
  assumes "invar q" "ff_slots (abs q) = s # ss" "tok_ok t" "tok_id t = fs_id s"
    and st: "set_lane t l w v q = Some q'" and "fs_pending s = 0"
    and len: "length (fs_payload s) = ff_lanes (abs q) * ff_words (abs q)"
  shows "head_lane l w q' = Some v"
proof -
  have live: "tok_id t \<in> set (fifo_ids (abs q))"
    using assms(2,4) by (simp add: fifo_ids_def)
  from set_lane_law[OF assms(1,3) live, of l w v] st
  have f: "fifo_set_lane (tok_id t) l w v (abs q) = Some (abs q')" by simp
  then have lw: "l < ff_lanes (abs q)" "w < ff_words (abs q)"
    by (auto simp: fifo_set_lane_def split: if_splits)
  have "l * ff_words (abs q) + w < ff_lanes (abs q) * ff_words (abs q)"
  proof -
    have "l * ff_words (abs q) + w < l * ff_words (abs q) + ff_words (abs q)" using lw by simp
    also have "\<dots> = Suc l * ff_words (abs q)" by simp
    also have "\<dots> \<le> ff_lanes (abs q) * ff_words (abs q)" using lw(1) by (intro mult_le_mono1) simp
    finally show ?thesis .
  qed
  moreover from f live lw have "abs q' =
      fifo_upd (tok_id t) (fs_payload_update (\<lambda>p. p[l * ff_words (abs q) + w := v])) (abs q)"
    by (simp add: fifo_set_lane_def)
  ultimately have "fifo_head_lane l w (abs q') = Some v"
    using assms(2,4,6) lw len by (simp add: fifo_head_lane_def fifo_upd_def)
  moreover have "invar q'" using set_lane_invar[OF assms(1,3) live st] .
  ultimately show ?thesis by (simp add: head_lane_law)
qed

text \<open>The life of a slot: reserved, given its responses, answered as often as expected.\<close>

lemma load_reserved:
  assumes "invar q" "\<not> full q"
  shows "\<exists>t q'. reserve k m p q = Some (t, q') \<and> invar q' \<and> tok_ok t \<and>
    fifo_ids (abs q') = fifo_ids (abs q) @ [tok_id t]"
proof -
  have "length (ff_slots (abs q)) < ff_capacity (abs q)"
    using assms full_law abs_bound by (metis le_neq_implies_less)
  then obtain d f where f: "fifo_reserve m p (abs q) = Some (d, f)" "fifo_ids f = fifo_ids (abs q) @ [d]"
    by (simp add: fifo_reserve_def fifo_ids_def)
  with reserve_law[OF assms(1), of k m p] obtain t q' where
    r: "reserve k m p q = Some (t, q')" "tok_id t = d" "abs q' = f" by auto
  with reserve_invar[OF assms(1) r(1)] f(2) show ?thesis by auto
qed

lemma pending_set:
  assumes "invar q" "tok_ok t" "tok_id t \<in> set (fifo_ids (abs q))"
  shows "\<exists>q' s. set_pending t n q = Some q' \<and> invar q' \<and> fifo_ids (abs q') = fifo_ids (abs q) \<and>
    fifo_get (tok_id t) (abs q') = Some s \<and> fs_pending s = n"
proof -
  obtain s where s: "fifo_get (tok_id t) (abs q) = Some s" using fifo_get_live assms(3) by blast
  let ?f = "fifo_upd (tok_id t) (fs_pending_update (\<lambda>_. n)) (abs q)"
  have "map_option abs (set_pending t n q) = Some ?f"
    using set_pending_law[OF assms, of n] assms(3) by (simp add: fifo_set_pending_def)
  then obtain q' where q': "set_pending t n q = Some q'" "abs q' = ?f" by auto
  with set_pending_invar[OF assms q'(1)] s show ?thesis by (simp add: fifo_get_upd)
qed

lemma marked:
  assumes "invar q" "tok_ok t" "fifo_get (tok_id t) (abs q) = Some s" "fs_pending s = Suc n"
  shows "\<exists>q' s'. mark t q = Some (n = 0, q') \<and> invar q' \<and> fifo_ids (abs q') = fifo_ids (abs q) \<and>
    fifo_get (tok_id t) (abs q') = Some s' \<and> fs_pending s' = n"
proof -
  let ?f = "fifo_upd (tok_id t) (fs_pending_update (\<lambda>n. n - 1)) (abs q)"
  have "map_option (\<lambda>(b, q'). (b, abs q')) (mark t q) = Some (n = 0, ?f)"
    using mark_law[OF assms(1,2)] assms(3,4) by (simp add: fifo_mark_def)
  then obtain q' where q': "mark t q = Some (n = 0, q')" "abs q' = ?f" by auto
  with mark_invar[OF assms(1,2) q'(1)] assms(3,4) show ?thesis by (simp add: fifo_get_upd)
qed

lemma mark_refused:
  assumes "invar q" "tok_ok t" "fifo_get (tok_id t) (abs q) = Some s" "fs_pending s = 0"
  shows "mark t q = None"
  using mark_law[OF assms(1,2)] assms(3,4) by (simp add: fifo_mark_def)

lemma lane_stored:
  assumes "invar q" "tok_ok t" "tok_id t \<in> set (fifo_ids (abs q))" "set_lane t l w v q = Some q'"
  shows "invar q' \<and> fifo_ids (abs q') = fifo_ids (abs q)"
  using set_lane_law[OF assms(1-3), of l w v] set_lane_invar[OF assms(1-3), of l w v q'] assms(4)
  by (auto simp: fifo_set_lane_def split: if_splits)

lemma head_consumed:
  assumes "invar q" "head_ready q = Some True"
  shows "\<exists>q' d. consume k q = Some q' \<and> invar q' \<and> fifo_ids (abs q) = d # fifo_ids (abs q')"
proof -
  obtain s ss where s: "ff_slots (abs q) = s # ss" "fs_pending s = 0"
    using head_ready_law[OF assms(1)] assms(2) by (auto split: list.splits)
  then have "map_option abs (consume k q) = Some ((abs q)\<lparr>ff_slots := ss\<rparr>)"
    using consume_law[OF assms(1), of k] by (simp add: fifo_consume_def)
  then obtain q' where q': "consume k q = Some q'" "abs q' = (abs q)\<lparr>ff_slots := ss\<rparr>" by auto
  with consume_invar[OF assms(1) q'(1)] s show ?thesis by (simp add: fifo_ids_def)
qed

end

end
