(* ===== verification/Wasp_Rfq.thy ===== *)
theory Wasp_Rfq
  imports Token_Queue
begin

section \<open>The register-file queue: \<open>wasp-rfq.h\<close> and \<open>wasp-rfq.cc\<close>\<close>

text \<open>
  The ring buffer \<open>wasp_rfq\<close> and the table \<open>wasp_rfq_table\<close> of one queue per key. Slot
  indices, sizes and counts are \<open>nat\<close>: \<open>m_entries\<close> is an \<open>unsigned\<close>, and indices stay
  below it, so \<open>(m_tail + 1) % m_entries\<close> cannot overflow. The sequence counter, which
  does wrap around, is a 32-bit word; products of sizes are wrapped by \<open>wrap32\<close>.
\<close>

subsection \<open>Keys\<close>

datatype wasp_rfq_key = Wasp_rfq_key
  (rk_cta_hw_id: nat) (rk_original_warp_id: nat) (rk_src_stage_id: nat)
  (rk_dst_stage_id: nat) (rk_queue_id: nat)

definition wasp_rfq_key_init :: wasp_rfq_key where
  "wasp_rfq_key_init = Wasp_rfq_key 0 0 0 1 0"

definition wasp_rfq_key_less :: "wasp_rfq_key \<Rightarrow> wasp_rfq_key \<Rightarrow> bool" where
  "wasp_rfq_key_less a rhs =
     (if rk_cta_hw_id a \<noteq> rk_cta_hw_id rhs then rk_cta_hw_id a < rk_cta_hw_id rhs
      else if rk_original_warp_id a \<noteq> rk_original_warp_id rhs
        then rk_original_warp_id a < rk_original_warp_id rhs
      else if rk_src_stage_id a \<noteq> rk_src_stage_id rhs
        then rk_src_stage_id a < rk_src_stage_id rhs
      else if rk_dst_stage_id a \<noteq> rk_dst_stage_id rhs
        then rk_dst_stage_id a < rk_dst_stage_id rhs
      else rk_queue_id a < rk_queue_id rhs)"

text \<open>The comparison of the source makes the keys a linear order, as \<open>std::map\<close> needs.\<close>

instantiation wasp_rfq_key :: linorder
begin

definition less_wasp_rfq_key :: "wasp_rfq_key \<Rightarrow> wasp_rfq_key \<Rightarrow> bool" where
  "less_wasp_rfq_key = wasp_rfq_key_less"

definition less_eq_wasp_rfq_key :: "wasp_rfq_key \<Rightarrow> wasp_rfq_key \<Rightarrow> bool" where
  "less_eq_wasp_rfq_key a b \<longleftrightarrow> wasp_rfq_key_less a b \<or> a = b"

instance
proof
  fix x y z :: wasp_rfq_key
  show "(x < y) = (x \<le> y \<and> \<not> y \<le> x)"
    by (cases x; cases y) (auto simp: less_wasp_rfq_key_def less_eq_wasp_rfq_key_def
        wasp_rfq_key_less_def split: if_splits)
  show "x \<le> x" by (simp add: less_eq_wasp_rfq_key_def)
  show "x \<le> y \<Longrightarrow> y \<le> z \<Longrightarrow> x \<le> z"
    by (cases x; cases y; cases z) (auto simp: less_eq_wasp_rfq_key_def
        wasp_rfq_key_less_def split: if_splits)
  show "x \<le> y \<Longrightarrow> y \<le> x \<Longrightarrow> x = y"
    by (cases x; cases y) (auto simp: less_eq_wasp_rfq_key_def
        wasp_rfq_key_less_def split: if_splits)
  show "x \<le> y \<or> y \<le> x"
    by (cases x; cases y) (auto simp: less_eq_wasp_rfq_key_def wasp_rfq_key_less_def)
qed

end

subsection \<open>The queue\<close>

record wasp_rfq_token =
  rt_key :: wasp_rfq_key
  rt_slot_index :: nat
  rt_sequence :: u32
  rt_payload_words_per_lane :: nat
  rt_valid :: bool

definition wasp_rfq_token_init :: wasp_rfq_token where
  "wasp_rfq_token_init = \<lparr>rt_key = wasp_rfq_key_init, rt_slot_index = 0, rt_sequence = 0,
     rt_payload_words_per_lane = 0, rt_valid = False\<rparr>"

datatype rfq_entry_state = RFQ_FREE | RFQ_RESERVED | RFQ_READY

record rfq_entry =
  re_state :: rfq_entry_state
  re_sequence :: u32
  re_pending_responses :: nat
  re_payload_words_per_lane :: nat
  re_active_mask :: active_mask_t
  re_lane_payload :: "u64 list"

definition rfq_entry_init :: rfq_entry where
  "rfq_entry_init = \<lparr>re_state = RFQ_FREE, re_sequence = 0, re_pending_responses = 0,
     re_payload_words_per_lane = 0, re_active_mask = 0, re_lane_payload = []\<rparr>"

record wasp_rfq =
  rq_entries :: nat
  rq_payload_words_per_lane :: nat
  rq_warp_size :: nat
  rq_head :: nat
  rq_tail :: nat
  rq_occupancy :: nat
  rq_next_sequence :: u32
  rq_storage :: "rfq_entry list"

definition wasp_rfq_init :: wasp_rfq where
  "wasp_rfq_init = \<lparr>rq_entries = 0, rq_payload_words_per_lane = 0, rq_warp_size = 0,
     rq_head = 0, rq_tail = 0, rq_occupancy = 0, rq_next_sequence = 1, rq_storage = []\<rparr>"

definition rfq_configured :: "wasp_rfq \<Rightarrow> bool" where
  "rfq_configured q \<longleftrightarrow> rq_entries q > 0"

definition rfq_full :: "wasp_rfq \<Rightarrow> bool" where
  "rfq_full q \<longleftrightarrow> rq_occupancy q \<ge> rq_entries q"

definition rfq_empty :: "wasp_rfq \<Rightarrow> bool" where
  "rfq_empty q \<longleftrightarrow> rq_occupancy q = 0"

definition rfq_occupancy :: "wasp_rfq \<Rightarrow> nat" where
  "rfq_occupancy q = rq_occupancy q"

text \<open>\<open>configure\<close>: the first call sizes the storage, later calls only check the sizes.\<close>

definition rfq_configure :: "nat \<Rightarrow> nat \<Rightarrow> nat \<Rightarrow> wasp_rfq \<Rightarrow> wasp_rfq option" where
  "rfq_configure entries payload_words warp_size q =
     (if rfq_configured q then do {
        assert_that (rq_entries q = entries);
        assert_that (rq_payload_words_per_lane q = payload_words);
        assert_that (rq_warp_size q = warp_size);
        Some q
      } else do {
        assert_that (entries > 0);
        assert_that (payload_words > 0);
        assert_that (warp_size > 0);
        Some (q\<lparr>rq_entries := entries, rq_payload_words_per_lane := payload_words,
          rq_warp_size := warp_size,
          rq_storage := map (\<lambda>e. e\<lparr>re_lane_payload := replicate (wrap32 (warp_size * payload_words)) 0\<rparr>)
            (take entries (rq_storage q) @ replicate (entries - length (rq_storage q)) rfq_entry_init)\<rparr>)
      })"

definition rfq_head_ready :: "wasp_rfq \<Rightarrow> bool option" where
  "rfq_head_ready q =
     (if rfq_empty q then Some False
      else do { e \<leftarrow> vec_at (rq_storage q) (rq_head q); Some (re_state e = RFQ_READY) })"

definition rfq_ready_count :: "wasp_rfq \<Rightarrow> nat" where
  "rfq_ready_count q = length (filter (\<lambda>e. re_state e = RFQ_READY) (take (rq_entries q) (rq_storage q)))"

definition rfq_pending_count :: "wasp_rfq \<Rightarrow> nat" where
  "rfq_pending_count q =
     length (filter (\<lambda>e. re_state e = RFQ_RESERVED) (take (rq_entries q) (rq_storage q)))"

definition rfq_reserve_tail ::
  "wasp_rfq_key \<Rightarrow> active_mask_t \<Rightarrow> nat \<Rightarrow> wasp_rfq \<Rightarrow> (wasp_rfq_token \<times> wasp_rfq) option" where
  "rfq_reserve_tail key active_mask pending q = do {
     assert_that (rfq_configured q);
     assert_that (\<not> rfq_full q);
     e \<leftarrow> vec_at (rq_storage q) (rq_tail q);
     assert_that (re_state e = RFQ_FREE);
     let e' = e\<lparr>re_state := (if pending = 0 then RFQ_READY else RFQ_RESERVED),
       re_sequence := rq_next_sequence q, re_pending_responses := pending,
       re_payload_words_per_lane := rq_payload_words_per_lane q,
       re_active_mask := active_mask,
       re_lane_payload := map (\<lambda>_. 0) (re_lane_payload e)\<rparr>;
     let token = wasp_rfq_token_init\<lparr>rt_key := key, rt_slot_index := rq_tail q,
       rt_sequence := re_sequence e',
       rt_payload_words_per_lane := rq_payload_words_per_lane q, rt_valid := True\<rparr>;
     Some (token, q\<lparr>rq_storage := (rq_storage q)[rq_tail q := e'],
       rq_next_sequence := rq_next_sequence q + 1,
       rq_tail := (rq_tail q + 1) mod rq_entries q,
       rq_occupancy := rq_occupancy q + 1\<rparr>)
   }"

definition rfq_entry_for_token :: "wasp_rfq_token \<Rightarrow> wasp_rfq \<Rightarrow> rfq_entry option" where
  "rfq_entry_for_token token q = do {
     assert_that (rt_valid token);
     assert_that (rt_slot_index token < rq_entries q);
     e \<leftarrow> vec_at (rq_storage q) (rt_slot_index token);
     assert_that (re_sequence e = rt_sequence token);
     Some e
   }"

definition rfq_store_entry :: "wasp_rfq_token \<Rightarrow> rfq_entry \<Rightarrow> wasp_rfq \<Rightarrow> wasp_rfq" where
  "rfq_store_entry token e q = q\<lparr>rq_storage := (rq_storage q)[rt_slot_index token := e]\<rparr>"

definition rfq_set_pending_responses :: "wasp_rfq_token \<Rightarrow> nat \<Rightarrow> wasp_rfq \<Rightarrow> wasp_rfq option" where
  "rfq_set_pending_responses token pending q = do {
     e \<leftarrow> rfq_entry_for_token token q;
     Some (rfq_store_entry token (e\<lparr>re_pending_responses := pending,
       re_state := (if pending = 0 then RFQ_READY else RFQ_RESERVED)\<rparr>) q)
   }"

definition rfq_has_pending_responses :: "wasp_rfq_token \<Rightarrow> wasp_rfq \<Rightarrow> bool option" where
  "rfq_has_pending_responses token q = do {
     e \<leftarrow> rfq_entry_for_token token q;
     Some (re_pending_responses e > 0)
   }"

definition rfq_mark_response :: "wasp_rfq_token \<Rightarrow> wasp_rfq \<Rightarrow> (bool \<times> wasp_rfq) option" where
  "rfq_mark_response token q = do {
     e \<leftarrow> rfq_entry_for_token token q;
     assert_that (re_state e = RFQ_RESERVED \<or> re_state e = RFQ_READY);
     assert_that (re_pending_responses e > 0);
     let e' = e\<lparr>re_pending_responses := re_pending_responses e - 1\<rparr>;
     (if re_pending_responses e' = 0
      then Some (True, rfq_store_entry token (e'\<lparr>re_state := RFQ_READY\<rparr>) q)
      else Some (False, rfq_store_entry token e' q))
   }"

definition rfq_consume_head :: "wasp_rfq_key \<Rightarrow> wasp_rfq \<Rightarrow> wasp_rfq option" where
  "rfq_consume_head key q = do {
     assert_that (\<not> rfq_empty q);
     e \<leftarrow> vec_at (rq_storage q) (rq_head q);
     assert_that (re_state e = RFQ_READY);
     Some (q\<lparr>rq_storage := (rq_storage q)[rq_head q := e\<lparr>re_state := RFQ_FREE,
         re_pending_responses := 0, re_active_mask := 0,
         re_lane_payload := map (\<lambda>_. 0) (re_lane_payload e)\<rparr>],
       rq_head := (rq_head q + 1) mod rq_entries q,
       rq_occupancy := rq_occupancy q - 1\<rparr>)
   }"

definition rfq_set_lane_value ::
  "wasp_rfq_token \<Rightarrow> nat \<Rightarrow> nat \<Rightarrow> u64 \<Rightarrow> wasp_rfq \<Rightarrow> wasp_rfq option" where
  "rfq_set_lane_value token lane w value q = do {
     e \<leftarrow> rfq_entry_for_token token q;
     assert_that (lane < rq_warp_size q);
     assert_that (w < re_payload_words_per_lane e);
     p \<leftarrow> vec_set (re_lane_payload e) (wrap32 (wrap32 (lane * re_payload_words_per_lane e) + w)) value;
     Some (rfq_store_entry token (e\<lparr>re_lane_payload := p\<rparr>) q)
   }"

definition rfq_head_lane_value :: "nat \<Rightarrow> nat \<Rightarrow> wasp_rfq \<Rightarrow> u64 option" where
  "rfq_head_lane_value lane w q = do {
     r \<leftarrow> rfq_head_ready q;
     assert_that r;
     e \<leftarrow> vec_at (rq_storage q) (rq_head q);
     assert_that (lane < rq_warp_size q);
     assert_that (w < re_payload_words_per_lane e);
     vec_at (re_lane_payload e) (wrap32 (wrap32 (lane * re_payload_words_per_lane e) + w))
   }"

subsection \<open>The table\<close>

type_synonym wasp_rfq_table = "wasp_rfq_key \<Rightarrow> wasp_rfq option"

text \<open>
  \<open>m_queues[key]\<close> creates a queue when there is none; \<open>get_or_create\<close> returns a
  reference to the configured queue, here the queue and the table that holds it.
\<close>

definition rfq_get_or_create ::
  "wasp_rfq_key \<Rightarrow> nat \<Rightarrow> nat \<Rightarrow> nat \<Rightarrow> wasp_rfq_table \<Rightarrow> (wasp_rfq \<times> wasp_rfq_table) option" where
  "rfq_get_or_create key entries payload_words warp_size t = do {
     let queue = (case t key of None \<Rightarrow> wasp_rfq_init | Some q \<Rightarrow> q);
     q \<leftarrow> rfq_configure entries payload_words warp_size queue;
     Some (q, t(key \<mapsto> q))
   }"

definition rfq_find :: "wasp_rfq_key \<Rightarrow> wasp_rfq_table \<Rightarrow> wasp_rfq option" where
  "rfq_find key t = t key"

definition rfq_erase_cta :: "nat \<Rightarrow> wasp_rfq_table \<Rightarrow> wasp_rfq_table" where
  "rfq_erase_cta cta_hw_id t = (\<lambda>k. if rk_cta_hw_id k = cta_hw_id then None else t k)"

definition rfq_clear :: "wasp_rfq_table \<Rightarrow> wasp_rfq_table" where
  "rfq_clear t = Map.empty"

subsection \<open>Invariant and abstraction\<close>

text \<open>
  Slot \<open>j\<close> is in the window when its distance from the head is below the occupancy. The
  invariant says where the window is and that exactly the slots in it are not free; a
  slot in it is ready if and only if no response is outstanding.
\<close>

definition rfq_pos :: "wasp_rfq \<Rightarrow> nat \<Rightarrow> nat" where
  "rfq_pos q j = (j + rq_entries q - rq_head q) mod rq_entries q"

definition rfq_at :: "wasp_rfq \<Rightarrow> nat \<Rightarrow> nat" where
  "rfq_at q i = (rq_head q + i) mod rq_entries q"

definition rfq_entry_ok :: "wasp_rfq \<Rightarrow> nat \<Rightarrow> rfq_entry \<Rightarrow> bool" where
  "rfq_entry_ok q j e \<longleftrightarrow>
     length (re_lane_payload e) = rq_warp_size q * rq_payload_words_per_lane q \<and>
     (re_state e = RFQ_FREE \<longleftrightarrow> \<not> rfq_pos q j < rq_occupancy q) \<and>
     (re_state e = RFQ_RESERVED \<longrightarrow> re_pending_responses e > 0) \<and>
     (re_state e = RFQ_READY \<longrightarrow> re_pending_responses e = 0) \<and>
     (re_state e \<noteq> RFQ_FREE \<longrightarrow> re_payload_words_per_lane e = rq_payload_words_per_lane q)"

definition rfq_invar :: "wasp_rfq \<Rightarrow> bool" where
  "rfq_invar q \<longleftrightarrow>
     0 < rq_entries q \<and> 0 < rq_payload_words_per_lane q \<and> 0 < rq_warp_size q \<and>
     rq_warp_size q * rq_payload_words_per_lane q < 2 ^ 32 \<and>
     length (rq_storage q) = rq_entries q \<and> rq_head q < rq_entries q \<and>
     rq_occupancy q \<le> rq_entries q \<and>
     rq_tail q = (rq_head q + rq_occupancy q) mod rq_entries q \<and>
     (\<forall>j < rq_entries q. rfq_entry_ok q j (rq_storage q ! j))"

definition rfq_slot_abs :: "nat \<Rightarrow> rfq_entry \<Rightarrow> fifo_slot" where
  "rfq_slot_abs j e = \<lparr>fs_id = (j, re_sequence e), fs_pending = re_pending_responses e,
     fs_mask = re_active_mask e, fs_payload = re_lane_payload e\<rparr>"

definition rfq_abs :: "wasp_rfq \<Rightarrow> fifo" where
  "rfq_abs q = \<lparr>ff_capacity = rq_entries q, ff_words = rq_payload_words_per_lane q,
     ff_lanes = rq_warp_size q, ff_tail = rq_tail q, ff_next = rq_next_sequence q,
     ff_slots = map (\<lambda>i. rfq_slot_abs (rfq_at q i) (rq_storage q ! rfq_at q i)) [0..<rq_occupancy q]\<rparr>"

definition rfq_tok_id :: "wasp_rfq_token \<Rightarrow> slot_id" where
  "rfq_tok_id t = (rt_slot_index t, rt_sequence t)"

definition rfq_mk_tok :: "slot_id \<Rightarrow> wasp_rfq_token" where
  "rfq_mk_tok d = wasp_rfq_token_init\<lparr>rt_slot_index := fst d, rt_sequence := snd d, rt_valid := True\<rparr>"

text \<open>One call on the queue, with tokens built from slot ids.\<close>

fun rfq_step :: "wasp_rfq \<Rightarrow> fifo_call \<Rightarrow> wasp_rfq option" where
  "rfq_step q (Reserve m p) = map_option snd (rfq_reserve_tail wasp_rfq_key_init m p q)"
| "rfq_step q (Set_pending d n) = rfq_set_pending_responses (rfq_mk_tok d) n q"
| "rfq_step q (Mark d) = map_option snd (rfq_mark_response (rfq_mk_tok d) q)"
| "rfq_step q Consume = rfq_consume_head wasp_rfq_key_init q"
| "rfq_step q (Set_lane d l w v) = rfq_set_lane_value (rfq_mk_tok d) l w v q"

subsection \<open>The window\<close>

lemma rfq_at_less: "rfq_invar q \<Longrightarrow> rfq_at q i < rq_entries q"
  by (simp add: rfq_at_def rfq_invar_def)

lemma rfq_at_inj:
  "rfq_invar q \<Longrightarrow> i < rq_entries q \<Longrightarrow> k < rq_entries q \<Longrightarrow> rfq_at q i = rfq_at q k \<longleftrightarrow> i = k"
  by (simp add: rfq_at_def rfq_invar_def ring_inj)

lemma rfq_at_pos: "rfq_invar q \<Longrightarrow> j < rq_entries q \<Longrightarrow> rfq_at q (rfq_pos q j) = j"
  by (simp add: rfq_at_def rfq_pos_def rfq_invar_def ring_pos)

lemma rfq_pos_at: "rfq_invar q \<Longrightarrow> i < rq_entries q \<Longrightarrow> rfq_pos q (rfq_at q i) = i"
  by (simp add: rfq_at_def rfq_pos_def rfq_invar_def ring_pos_inv)

lemma rfq_pos_less: "rfq_invar q \<Longrightarrow> rfq_pos q j < rq_entries q"
  by (simp add: rfq_pos_def rfq_invar_def)

lemma rfq_tail_at: "rfq_invar q \<Longrightarrow> rq_tail q = rfq_at q (rq_occupancy q)"
  by (simp add: rfq_at_def rfq_invar_def)

lemma rfq_head_at: "rfq_invar q \<Longrightarrow> rq_head q = rfq_at q 0"
  by (simp add: rfq_at_def rfq_invar_def)

lemma rfq_invarD:
  assumes "rfq_invar q"
  shows "length (rq_storage q) = rq_entries q" "rq_head q < rq_entries q"
    "rq_occupancy q \<le> rq_entries q" "0 < rq_entries q" "rq_tail q < rq_entries q"
    "j < rq_entries q \<Longrightarrow> rfq_entry_ok q j (rq_storage q ! j)"
    "rq_warp_size q * rq_payload_words_per_lane q < 2 ^ 32"
  using assms by (simp_all add: rfq_invar_def)

text \<open>An entry that a token finds is in the window exactly when it is not free.\<close>

lemma rfq_live_iff:
  assumes "rfq_invar q" "j < rq_entries q"
  shows "(j, s) \<in> set (fifo_ids (rfq_abs q)) \<longleftrightarrow>
    re_state (rq_storage q ! j) \<noteq> RFQ_FREE \<and> re_sequence (rq_storage q ! j) = s"
proof -
  have free: "re_state (rq_storage q ! j) \<noteq> RFQ_FREE \<longleftrightarrow> rfq_pos q j < rq_occupancy q"
    using rfq_invarD(6)[OF assms] by (simp add: rfq_entry_ok_def)
  have "(\<exists>i < rq_occupancy q. rfq_at q i = j) \<longleftrightarrow> rfq_pos q j < rq_occupancy q"
    using assms rfq_at_pos rfq_pos_at rfq_invarD(3)[OF assms(1)]
    by (metis order_less_le_trans)
  then show ?thesis
    by (auto simp: free fifo_ids_def rfq_abs_def rfq_slot_abs_def)
qed

lemma rfq_ids_distinct:
  assumes "rfq_invar q"
  shows "distinct (fifo_ids (rfq_abs q))"
proof -
  have "inj_on (rfq_at q) {0..<rq_occupancy q}"
    using assms rfq_at_inj[OF assms] rfq_invarD(3)[OF assms] by (auto intro!: inj_onI)
  then show ?thesis
    by (auto simp: fifo_ids_def rfq_abs_def rfq_slot_abs_def distinct_map inj_on_def)
qed

lemma rfq_get:
  assumes "rfq_invar q" "j < rq_entries q" "re_state (rq_storage q ! j) \<noteq> RFQ_FREE"
    "re_sequence (rq_storage q ! j) = s"
  shows "fifo_get (j, s) (rfq_abs q) = Some (rfq_slot_abs j (rq_storage q ! j))"
  unfolding fifo_get_def
proof (rule find_unique)
  have "rfq_pos q j < rq_occupancy q"
    using rfq_invarD(6)[OF assms(1,2)] assms(3) by (simp add: rfq_entry_ok_def)
  then show "rfq_slot_abs j (rq_storage q ! j) \<in> set (ff_slots (rfq_abs q))"
    using rfq_at_pos[OF assms(1,2)] by (auto simp: rfq_abs_def image_iff intro!: bexI[of _ "rfq_pos q j"])
qed (use assms in \<open>auto simp: rfq_slot_abs_def rfq_abs_def\<close>)

subsection \<open>Writing an entry of the window\<close>

text \<open>
  Every operation through a token rewrites one entry in place: the abstract effect is an
  update of that slot, and the invariant needs to be checked for that entry alone.
\<close>

lemma rfq_store_abs:
  assumes "rfq_invar q" "rt_slot_index t < rq_entries q"
    "re_sequence e = rt_sequence t" "re_sequence (rq_storage q ! rt_slot_index t) = rt_sequence t"
    "g (rfq_slot_abs (rt_slot_index t) (rq_storage q ! rt_slot_index t)) = rfq_slot_abs (rt_slot_index t) e"
  shows "rfq_abs (rfq_store_entry t e q) = fifo_upd (rfq_tok_id t) g (rfq_abs q)"
  using assms rfq_at_less[OF assms(1)] rfq_invarD(1)[OF assms(1)]
  by (auto simp: rfq_abs_def rfq_store_entry_def fifo_upd_def rfq_tok_id_def rfq_at_def
      rfq_slot_abs_def nth_list_update)

lemma rfq_store_entry_simps [simp]:
  "rq_entries (rfq_store_entry t e q) = rq_entries q"
  "rq_payload_words_per_lane (rfq_store_entry t e q) = rq_payload_words_per_lane q"
  "rq_warp_size (rfq_store_entry t e q) = rq_warp_size q"
  "rq_head (rfq_store_entry t e q) = rq_head q" "rq_tail (rfq_store_entry t e q) = rq_tail q"
  "rq_occupancy (rfq_store_entry t e q) = rq_occupancy q"
  "rq_next_sequence (rfq_store_entry t e q) = rq_next_sequence q"
  "rq_storage (rfq_store_entry t e q) = (rq_storage q)[rt_slot_index t := e]"
  by (simp_all add: rfq_store_entry_def)

lemma rfq_entry_ok_store [simp]: "rfq_entry_ok (rfq_store_entry t e q) j x = rfq_entry_ok q j x"
  by (simp add: rfq_entry_ok_def rfq_store_entry_def rfq_pos_def)

lemma rfq_store_invar:
  assumes "rfq_invar q" "rfq_entry_ok q (rt_slot_index t) e"
  shows "rfq_invar (rfq_store_entry t e q)"
proof -
  have "rfq_entry_ok q j ((rq_storage q)[rt_slot_index t := e] ! j)" if "j < rq_entries q" for j
    using assms rfq_invarD(1,6)[OF assms(1)] that by (cases "j = rt_slot_index t") simp_all
  then show ?thesis using assms(1) unfolding rfq_invar_def by simp
qed

lemma rfq_entry_for_token_Some:
  "rfq_invar q \<Longrightarrow> rfq_entry_for_token t q = Some e \<longleftrightarrow>
   rt_valid t \<and> rt_slot_index t < rq_entries q \<and> e = rq_storage q ! rt_slot_index t \<and>
   re_sequence e = rt_sequence t"
  by (auto simp: rfq_entry_for_token_def rfq_invarD(1) split: bind_splits if_splits)

lemma rfq_entry_for_live:
  assumes "rfq_invar q" "rt_valid t" "rfq_tok_id t \<in> set (fifo_ids (rfq_abs q))"
  shows "rt_slot_index t < rq_entries q" "re_state (rq_storage q ! rt_slot_index t) \<noteq> RFQ_FREE"
    "re_sequence (rq_storage q ! rt_slot_index t) = rt_sequence t"
    "rfq_entry_for_token t q = Some (rq_storage q ! rt_slot_index t)"
proof -
  show *: "rt_slot_index t < rq_entries q"
    using assms(1,3) rfq_at_less[OF assms(1)]
    by (auto simp: rfq_tok_id_def fifo_ids_def rfq_abs_def rfq_slot_abs_def)
  show "re_state (rq_storage q ! rt_slot_index t) \<noteq> RFQ_FREE"
    "re_sequence (rq_storage q ! rt_slot_index t) = rt_sequence t"
    using rfq_live_iff[OF assms(1) *] assms(3) by (auto simp: rfq_tok_id_def)
  then show "rfq_entry_for_token t q = Some (rq_storage q ! rt_slot_index t)"
    using rfq_entry_for_token_Some[OF assms(1)] assms(2) * by simp
qed

subsection \<open>The laws of the contract\<close>

lemma rfq_set_pending_law:
  assumes "rfq_invar q" "rt_valid t" "rfq_tok_id t \<in> set (fifo_ids (rfq_abs q))"
  shows "map_option rfq_abs (rfq_set_pending_responses t n q) =
    fifo_set_pending (rfq_tok_id t) n (rfq_abs q)"
proof -
  note live = rfq_entry_for_live[OF assms]
  let ?e = "rq_storage q ! rt_slot_index t"
  show ?thesis
    using assms(3) live
    by (auto simp: rfq_set_pending_responses_def fifo_set_pending_def rfq_slot_abs_def
        intro!: rfq_store_abs[OF assms(1)])
qed

lemma rfq_set_pending_invar:
  assumes "rfq_invar q" "rt_valid t" "rfq_tok_id t \<in> set (fifo_ids (rfq_abs q))"
    "rfq_set_pending_responses t n q = Some q'"
  shows "rfq_invar q'"
proof -
  note live = rfq_entry_for_live[OF assms(1-3)]
  have "rfq_entry_ok q (rt_slot_index t) (rq_storage q ! rt_slot_index t)"
    using rfq_invarD(6)[OF assms(1) live(1)] .
  then show ?thesis
    using assms(4) live
    by (auto simp: rfq_set_pending_responses_def rfq_entry_ok_def intro!: rfq_store_invar[OF assms(1)])
qed

lemma rfq_has_pending_law:
  assumes "rfq_invar q" "rt_valid t" "fifo_get (rfq_tok_id t) (rfq_abs q) = Some s"
  shows "rfq_has_pending_responses t q = Some (0 < fs_pending s)"
proof -
  have "rfq_tok_id t \<in> set (fifo_ids (rfq_abs q))"
    using fifo_get_Some[OF assms(3)] by (force simp: fifo_ids_def)
  note live = rfq_entry_for_live[OF assms(1,2) this]
  then show ?thesis
    using assms(3) rfq_get[OF assms(1) live(1,2,3)]
    by (auto simp: rfq_has_pending_responses_def rfq_tok_id_def rfq_slot_abs_def)
qed

lemma rfq_mark_law:
  assumes "rfq_invar q" "rt_valid t"
  shows "map_option (\<lambda>(b, q'). (b, rfq_abs q')) (rfq_mark_response t q) =
    fifo_mark (rfq_tok_id t) (rfq_abs q)"
proof (cases "rfq_tok_id t \<in> set (fifo_ids (rfq_abs q))")
  case True
  note live = rfq_entry_for_live[OF assms True]
  let ?e = "rq_storage q ! rt_slot_index t"
  have st: "re_state ?e = RFQ_RESERVED \<or> re_state ?e = RFQ_READY"
    using live(2) by (cases "re_state ?e") auto
  have get: "fifo_get (rfq_tok_id t) (rfq_abs q) = Some (rfq_slot_abs (rt_slot_index t) ?e)"
    using rfq_get[OF assms(1) live(1,2,3)] by (simp add: rfq_tok_id_def)
  have "rfq_abs (rfq_store_entry t (?e\<lparr>re_pending_responses := re_pending_responses ?e - 1\<rparr>) q) =
      fifo_upd (rfq_tok_id t) (fs_pending_update (\<lambda>n. n - 1)) (rfq_abs q)"
    "rfq_abs (rfq_store_entry t (?e\<lparr>re_pending_responses := re_pending_responses ?e - 1,
        re_state := RFQ_READY\<rparr>) q) =
      fifo_upd (rfq_tok_id t) (fs_pending_update (\<lambda>n. n - 1)) (rfq_abs q)"
    using live by (auto intro!: rfq_store_abs[OF assms(1)] simp: rfq_slot_abs_def)
  then show ?thesis
    using st by (auto simp: rfq_mark_response_def live(4) fifo_mark_def get rfq_slot_abs_def Let_def)
next
  case False
  then have "fifo_get (rfq_tok_id t) (rfq_abs q) = None" by (simp add: fifo_get_None)
  moreover have "rfq_mark_response t q = None"
  proof (cases "rfq_entry_for_token t q")
    case None
    then show ?thesis by (simp add: rfq_mark_response_def)
  next
    case (Some e)
    then have "re_state e = RFQ_FREE"
      using False rfq_live_iff[OF assms(1)] by (auto simp: rfq_entry_for_token_Some[OF assms(1)] rfq_tok_id_def)
    with Some show ?thesis by (simp add: rfq_mark_response_def)
  qed
  ultimately show ?thesis by (simp add: fifo_mark_def)
qed

lemma rfq_mark_invar:
  assumes "rfq_invar q" "rt_valid t" "rfq_mark_response t q = Some (b, q')"
  shows "rfq_invar q'"
proof -
  obtain e where e: "rfq_entry_for_token t q = Some e"
    using assms(3) by (cases "rfq_entry_for_token t q") (auto simp: rfq_mark_response_def)
  then have "rfq_entry_ok q (rt_slot_index t) e"
    using rfq_entry_for_token_Some[OF assms(1)] rfq_invarD(6)[OF assms(1)] by auto
  then show ?thesis
    using assms(3) e
    by (auto simp: rfq_mark_response_def rfq_entry_ok_def Let_def split: if_splits
        intro!: rfq_store_invar[OF assms(1)])
qed

lemma lane_index_less:
  assumes "l < (L::nat)" "w < W"
  shows "l * W + w < L * W"
proof -
  have "l * W + w < l * W + W" using assms(2) by simp
  also have "\<dots> = Suc l * W" by simp
  also have "\<dots> \<le> L * W" using assms(1) by (intro mult_le_mono1) simp
  finally show ?thesis .
qed

lemma lane_index_wrap:
  assumes "l < (L::nat)" "w < W" "L * W < 2 ^ 32"
  shows "wrap32 (wrap32 (l * W) + w) = l * W + w"
proof -
  have "l * W + w < 2 ^ 32" using lane_index_less[OF assms(1,2)] assms(3) by simp
  moreover then have "l * W < 2 ^ 32" by simp
  ultimately show ?thesis by (simp only: wrap32_small)
qed

lemma rfq_set_lane_live:
  assumes "rfq_invar q" "rt_valid t" "rfq_tok_id t \<in> set (fifo_ids (rfq_abs q))"
  shows "rfq_set_lane_value t l w v q =
    (if l < rq_warp_size q \<and> w < rq_payload_words_per_lane q
     then Some (rfq_store_entry t ((rq_storage q ! rt_slot_index t)\<lparr>re_lane_payload :=
       (re_lane_payload (rq_storage q ! rt_slot_index t))[l * rq_payload_words_per_lane q + w := v]\<rparr>) q)
     else None)"
proof -
  note live = rfq_entry_for_live[OF assms]
  have ok: "rfq_entry_ok q (rt_slot_index t) (rq_storage q ! rt_slot_index t)"
    using rfq_invarD(6)[OF assms(1) live(1)] .
  show ?thesis
    using ok live(2) lane_index_less lane_index_wrap rfq_invarD(7)[OF assms(1)]
    by (auto simp: rfq_set_lane_value_def live(4) rfq_entry_ok_def vec_set_def)
qed

lemma rfq_set_lane_law:
  assumes "rfq_invar q" "rt_valid t" "rfq_tok_id t \<in> set (fifo_ids (rfq_abs q))"
  shows "map_option rfq_abs (rfq_set_lane_value t l w v q) =
    fifo_set_lane (rfq_tok_id t) l w v (rfq_abs q)"
proof -
  note live = rfq_entry_for_live[OF assms]
  have "ff_lanes (rfq_abs q) = rq_warp_size q" "ff_words (rfq_abs q) = rq_payload_words_per_lane q"
    by (simp_all add: rfq_abs_def)
  then show ?thesis
    using assms(3) live
    by (auto simp: rfq_set_lane_live[OF assms] fifo_set_lane_def rfq_slot_abs_def
        intro!: rfq_store_abs[OF assms(1)])
qed

lemma rfq_set_lane_invar:
  assumes "rfq_invar q" "rt_valid t" "rfq_tok_id t \<in> set (fifo_ids (rfq_abs q))"
    "rfq_set_lane_value t l w v q = Some q'"
  shows "rfq_invar q'"
proof -
  note live = rfq_entry_for_live[OF assms(1-3)]
  have ok: "rfq_entry_ok q (rt_slot_index t) (rq_storage q ! rt_slot_index t)"
    using rfq_invarD(6)[OF assms(1) live(1)] .
  then show ?thesis
    using assms(4)
    by (auto simp: rfq_set_lane_live[OF assms(1-3)] rfq_entry_ok_def split: if_splits
        intro!: rfq_store_invar[OF assms(1)])
qed

lemma rfq_tail_free:
  assumes "rfq_invar q" "\<not> rfq_full q"
  shows "rfq_pos q (rq_tail q) = rq_occupancy q" "re_state (rq_storage q ! rq_tail q) = RFQ_FREE"
    "length (re_lane_payload (rq_storage q ! rq_tail q)) = rq_warp_size q * rq_payload_words_per_lane q"
proof -
  have "rq_occupancy q < rq_entries q" using assms(2) by (simp add: rfq_full_def)
  then show pos: "rfq_pos q (rq_tail q) = rq_occupancy q"
    using rfq_pos_at[OF assms(1)] rfq_tail_at[OF assms(1)] by simp
  have "rfq_entry_ok q (rq_tail q) (rq_storage q ! rq_tail q)"
    using rfq_invarD(5,6)[OF assms(1)] by blast
  then show "re_state (rq_storage q ! rq_tail q) = RFQ_FREE"
    "length (re_lane_payload (rq_storage q ! rq_tail q)) = rq_warp_size q * rq_payload_words_per_lane q"
    by (simp_all add: rfq_entry_ok_def pos)
qed

definition rfq_reserved_entry :: "active_mask_t \<Rightarrow> nat \<Rightarrow> wasp_rfq \<Rightarrow> rfq_entry" where
  "rfq_reserved_entry m p q = \<lparr>re_state = (if p = 0 then RFQ_READY else RFQ_RESERVED),
     re_sequence = rq_next_sequence q, re_pending_responses = p,
     re_payload_words_per_lane = rq_payload_words_per_lane q, re_active_mask = m,
     re_lane_payload = replicate (rq_warp_size q * rq_payload_words_per_lane q) 0\<rparr>"

definition rfq_after_reserve :: "active_mask_t \<Rightarrow> nat \<Rightarrow> wasp_rfq \<Rightarrow> wasp_rfq" where
  "rfq_after_reserve m p q = q\<lparr>rq_storage := (rq_storage q)[rq_tail q := rfq_reserved_entry m p q],
     rq_next_sequence := rq_next_sequence q + 1, rq_tail := (rq_tail q + 1) mod rq_entries q,
     rq_occupancy := rq_occupancy q + 1\<rparr>"

lemma rfq_entry_overwrite:
  "e\<lparr>re_state := a, re_sequence := b, re_pending_responses := c, re_payload_words_per_lane := d,
     re_active_mask := m, re_lane_payload := p\<rparr> =
   \<lparr>re_state = a, re_sequence = b, re_pending_responses = c, re_payload_words_per_lane = d,
     re_active_mask = m, re_lane_payload = p\<rparr>" for e :: rfq_entry
  by (cases e) simp

lemma rfq_reserve_eq:
  assumes "rfq_invar q"
  shows "rfq_reserve_tail k m p q =
    (if rfq_full q then None
     else Some (\<lparr>rt_key = k, rt_slot_index = rq_tail q, rt_sequence = rq_next_sequence q,
       rt_payload_words_per_lane = rq_payload_words_per_lane q, rt_valid = True\<rparr>,
       rfq_after_reserve m p q))"
proof (cases "rfq_full q")
  case True
  then show ?thesis by (simp add: rfq_reserve_tail_def)
next
  case False
  note free = rfq_tail_free[OF assms False]
  have fill: "map (\<lambda>_. 0) (re_lane_payload (rq_storage q ! rq_tail q)) =
      replicate (rq_warp_size q * rq_payload_words_per_lane q) (0 :: u64)"
    using free(3) by (simp add: map_replicate_const)
  show ?thesis
    using False free(2) rfq_invarD(1,4,5)[OF assms]
    by (simp add: rfq_reserve_tail_def rfq_configured_def Let_def fill rfq_after_reserve_def
        rfq_reserved_entry_def wasp_rfq_token_init_def rfq_entry_overwrite)
qed

lemma rfq_after_reserve_abs:
  assumes "rfq_invar q" "\<not> rfq_full q"
  shows "fifo_reserve m p (rfq_abs q) =
    Some ((rq_tail q, rq_next_sequence q), rfq_abs (rfq_after_reserve m p q))"
proof -
  have occ: "rq_occupancy q < rq_entries q" using assms(2) by (simp add: rfq_full_def)
  have ne: "rq_tail q \<noteq> rfq_at q i" if "i < rq_occupancy q" for i
    using rfq_at_inj[OF assms(1), of "rq_occupancy q" i] that occ rfq_tail_at[OF assms(1)] by simp
  have at: "rfq_at (rfq_after_reserve m p q) i = rfq_at q i" for i
    by (simp add: rfq_at_def rfq_after_reserve_def)
  have "map (\<lambda>i. rfq_slot_abs (rfq_at q i) ((rq_storage q)[rq_tail q := rfq_reserved_entry m p q] ! rfq_at q i))
      [0..<rq_occupancy q] = ff_slots (rfq_abs q)"
    using ne by (simp add: rfq_abs_def)
  moreover have "rfq_at q (rq_occupancy q) = rq_tail q" using rfq_tail_at[OF assms(1)] by simp
  ultimately show ?thesis
    using occ rfq_invarD(1,5)[OF assms(1)]
    by (simp add: fifo_reserve_def rfq_abs_def at)
       (simp add: rfq_after_reserve_def rfq_slot_abs_def rfq_reserved_entry_def)
qed

lemma rfq_after_reserve_invar:
  assumes "rfq_invar q" "\<not> rfq_full q"
  shows "rfq_invar (rfq_after_reserve m p q)"
proof -
  let ?q = "rfq_after_reserve m p q"
  have occ: "rq_occupancy q < rq_entries q" using assms(2) by (simp add: rfq_full_def)
  have pos: "rfq_pos ?q j = rfq_pos q j" for j by (simp add: rfq_pos_def rfq_after_reserve_def)
  have "rfq_entry_ok ?q j (rq_storage ?q ! j)" if j: "j < rq_entries q" for j
  proof (cases "j = rq_tail q")
    case True
    then show ?thesis
      using j rfq_invarD(1)[OF assms(1)] rfq_tail_free(1)[OF assms]
      by (simp add: rfq_entry_ok_def pos) (simp add: rfq_after_reserve_def rfq_reserved_entry_def)
  next
    case False
    then have "rfq_pos q j \<noteq> rq_occupancy q"
      using rfq_at_pos[OF assms(1) j] rfq_tail_at[OF assms(1)] by auto
    then show ?thesis
      using False rfq_invarD(6)[OF assms(1) j]
      by (simp add: rfq_entry_ok_def pos) (auto simp: rfq_after_reserve_def)
  qed
  moreover have "(rq_tail q + 1) mod rq_entries q = (rq_head q + (rq_occupancy q + 1)) mod rq_entries q"
    using assms(1) by (simp add: rfq_invar_def mod_Suc_eq)
  ultimately show ?thesis
    using assms(1) occ unfolding rfq_invar_def by (simp add: rfq_after_reserve_def)
qed

lemma rfq_reserve_law:
  assumes "rfq_invar q"
  shows "map_option (\<lambda>(t, q'). (rfq_tok_id t, rfq_abs q')) (rfq_reserve_tail k m p q) =
    fifo_reserve m p (rfq_abs q)"
proof (cases "rfq_full q")
  case True
  then show ?thesis
    by (simp add: rfq_reserve_eq[OF assms]) (simp add: fifo_reserve_def rfq_abs_def rfq_full_def)
next
  case False
  then show ?thesis
    by (simp add: rfq_reserve_eq[OF assms] rfq_after_reserve_abs[OF assms False] rfq_tok_id_def)
qed

lemma rfq_reserve_invar:
  "rfq_invar q \<Longrightarrow> rfq_reserve_tail k m p q = Some (t, q') \<Longrightarrow> rfq_invar q' \<and> rt_valid t"
  by (auto simp: rfq_reserve_eq rfq_after_reserve_invar split: if_splits)

subsection \<open>Consuming the head\<close>

definition rfq_after_consume :: "wasp_rfq \<Rightarrow> wasp_rfq" where
  "rfq_after_consume q = q\<lparr>rq_storage := (rq_storage q)[rq_head q :=
       (rq_storage q ! rq_head q)\<lparr>re_state := RFQ_FREE, re_pending_responses := 0, re_active_mask := 0,
         re_lane_payload := map (\<lambda>_. 0) (re_lane_payload (rq_storage q ! rq_head q))\<rparr>],
     rq_head := (rq_head q + 1) mod rq_entries q, rq_occupancy := rq_occupancy q - 1\<rparr>"

lemma rfq_head_facts:
  assumes "rfq_invar q" "\<not> rfq_empty q"
  shows "rfq_pos q (rq_head q) = 0" "re_state (rq_storage q ! rq_head q) \<noteq> RFQ_FREE"
    "re_state (rq_storage q ! rq_head q) = RFQ_READY \<longleftrightarrow>
      re_pending_responses (rq_storage q ! rq_head q) = 0"
    "re_payload_words_per_lane (rq_storage q ! rq_head q) = rq_payload_words_per_lane q"
    "length (re_lane_payload (rq_storage q ! rq_head q)) = rq_warp_size q * rq_payload_words_per_lane q"
proof -
  show pos: "rfq_pos q (rq_head q) = 0" using assms(1) by (simp add: rfq_pos_def rfq_invar_def)
  have "rfq_entry_ok q (rq_head q) (rq_storage q ! rq_head q)"
    using rfq_invarD(2,6)[OF assms(1)] by blast
  then show "re_state (rq_storage q ! rq_head q) \<noteq> RFQ_FREE"
    "re_state (rq_storage q ! rq_head q) = RFQ_READY \<longleftrightarrow>
      re_pending_responses (rq_storage q ! rq_head q) = 0"
    "re_payload_words_per_lane (rq_storage q ! rq_head q) = rq_payload_words_per_lane q"
    "length (re_lane_payload (rq_storage q ! rq_head q)) = rq_warp_size q * rq_payload_words_per_lane q"
    using assms(2) pos by (cases "re_state (rq_storage q ! rq_head q)";
        simp add: rfq_entry_ok_def rfq_empty_def)+
qed

lemma rfq_abs_slots:
  assumes "rfq_invar q" "\<not> rfq_empty q"
  shows "ff_slots (rfq_abs q) = rfq_slot_abs (rq_head q) (rq_storage q ! rq_head q) #
    map (\<lambda>i. rfq_slot_abs (rfq_at q (Suc i)) (rq_storage q ! rfq_at q (Suc i))) [0..<rq_occupancy q - 1]"
proof -
  obtain n where "rq_occupancy q = Suc n" using assms(2) by (cases "rq_occupancy q") (auto simp: rfq_empty_def)
  then show ?thesis
    using rfq_head_at[OF assms(1)]
    by (simp add: rfq_abs_def upt_0_Suc comp_def del: upt_Suc)
qed

lemma rfq_consume_eq:
  assumes "rfq_invar q"
  shows "rfq_consume_head k q =
    (if rfq_empty q \<or> re_state (rq_storage q ! rq_head q) \<noteq> RFQ_READY then None
     else Some (rfq_after_consume q))"
  using rfq_invarD(1,2)[OF assms] by (simp add: rfq_consume_head_def rfq_after_consume_def)

lemma rfq_after_consume_abs:
  assumes "rfq_invar q" "\<not> rfq_empty q"
  shows "rfq_abs (rfq_after_consume q) = (rfq_abs q)\<lparr>ff_slots := tl (ff_slots (rfq_abs q))\<rparr>"
proof -
  have at: "rfq_at (rfq_after_consume q) i = rfq_at q (Suc i)" for i
    by (simp add: rfq_at_def rfq_after_consume_def mod_simps)
  have ne: "rq_head q \<noteq> rfq_at q (Suc i)" if "i < rq_occupancy q - 1" for i
    using rfq_at_inj[OF assms(1), of 0 "Suc i"] that rfq_invarD(3,4)[OF assms(1)] rfq_head_at[OF assms(1)]
    by auto
  have "map (\<lambda>i. rfq_slot_abs (rfq_at q (Suc i)) (rq_storage (rfq_after_consume q) ! rfq_at q (Suc i)))
      [0..<rq_occupancy q - 1] = tl (ff_slots (rfq_abs q))"
    using ne by (simp add: rfq_abs_slots[OF assms] rfq_after_consume_def)
  then show ?thesis
    by (simp add: rfq_abs_def at) (simp add: rfq_after_consume_def)
qed

lemma rfq_after_consume_invar:
  assumes "rfq_invar q" "\<not> rfq_empty q"
  shows "rfq_invar (rfq_after_consume q)"
proof -
  let ?q = "rfq_after_consume q"
  note inv = rfq_invarD[OF assms(1)]
  have head: "rq_head ?q < rq_entries q" using inv(4) by (simp add: rfq_after_consume_def)
  have occ: "0 < rq_occupancy q" using assms(2) by (simp add: rfq_empty_def)
  have at: "(rq_head ?q + i) mod rq_entries q = rfq_at q (Suc i)" for i
    by (simp add: rfq_at_def rfq_after_consume_def mod_simps)
  have pos: "rfq_pos ?q (rfq_at q (Suc i)) = i" if "i < rq_entries q" for i
    using ring_pos_inv[OF head that] by (simp add: rfq_pos_def at) (simp add: rfq_after_consume_def)
  have ok: "rfq_entry_ok ?q j (rq_storage ?q ! j)" if j: "j < rq_entries q" for j
  proof (cases "j = rq_head q")
    case True
    have "rfq_at q (Suc (rq_entries q - 1)) = rq_head q"
      using inv(2,4) by (simp add: rfq_at_def)
    then have "rfq_pos ?q j = rq_entries q - 1" using pos[of "rq_entries q - 1"] inv(4) True by simp
    then show ?thesis
      using True j inv(1,3,4) occ rfq_head_facts(5)[OF assms]
      by (simp add: rfq_entry_ok_def) (auto simp: rfq_after_consume_def)
  next
    case False
    then have "rfq_pos q j \<noteq> 0" using rfq_at_pos[OF assms(1) j] rfq_head_at[OF assms(1)] by metis
    then obtain i where i: "rfq_pos q j = Suc i" by (cases "rfq_pos q j") auto
    then have "rfq_pos ?q j = i"
      using pos[of i] rfq_at_pos[OF assms(1) j] rfq_pos_less[OF assms(1), of j] by simp
    then show ?thesis
      using False inv(6)[OF j] i occ
      by (simp add: rfq_entry_ok_def) (auto simp: rfq_after_consume_def)
  qed
  have "rq_tail ?q = (rq_head ?q + rq_occupancy ?q) mod rq_entries q"
    using assms(1) occ by (simp add: at) (simp add: rfq_after_consume_def rfq_at_def rfq_invar_def)
  moreover have "rq_occupancy ?q \<le> rq_entries q" using inv(3) by (simp add: rfq_after_consume_def)
  ultimately show ?thesis
    using assms(1) head ok unfolding rfq_invar_def by (simp add: rfq_after_consume_def)
qed

lemma rfq_consume_law:
  assumes "rfq_invar q"
  shows "map_option rfq_abs (rfq_consume_head k q) = fifo_consume (rfq_abs q)"
proof (cases "rfq_empty q")
  case True
  then show ?thesis
    by (simp add: rfq_consume_eq[OF assms]) (simp add: fifo_consume_def rfq_abs_def rfq_empty_def)
next
  case False
  then show ?thesis
    using rfq_head_facts(3)[OF assms False]
    by (simp add: rfq_consume_eq[OF assms] rfq_after_consume_abs[OF assms False])
       (simp add: fifo_consume_def rfq_abs_slots[OF assms False] rfq_slot_abs_def)
qed

lemma rfq_consume_invar: "rfq_invar q \<Longrightarrow> rfq_consume_head k q = Some q' \<Longrightarrow> rfq_invar q'"
  by (auto simp: rfq_consume_eq rfq_after_consume_invar split: if_splits)

lemma rfq_head_ready_law:
  assumes "rfq_invar q"
  shows "rfq_head_ready q =
    Some (case ff_slots (rfq_abs q) of [] \<Rightarrow> False | s # _ \<Rightarrow> fs_pending s = 0)"
proof (cases "rfq_empty q")
  case True
  then show ?thesis by (simp add: rfq_head_ready_def) (simp add: rfq_abs_def rfq_empty_def)
next
  case False
  then show ?thesis
    using rfq_head_facts(3)[OF assms False] rfq_invarD(1,2)[OF assms]
    by (simp add: rfq_head_ready_def rfq_abs_slots[OF assms False] rfq_slot_abs_def)
qed

lemma rfq_head_lane_law:
  assumes "rfq_invar q"
  shows "rfq_head_lane_value l w q = fifo_head_lane l w (rfq_abs q)"
proof (cases "rfq_empty q")
  case True
  then show ?thesis
    by (simp add: rfq_head_lane_value_def rfq_head_ready_def fifo_head_lane_def)
       (simp add: rfq_abs_def rfq_empty_def)
next
  case False
  note hf = rfq_head_facts[OF assms False]
  have r: "rfq_head_ready q = Some (re_pending_responses (rq_storage q ! rq_head q) = 0)"
    using False hf(3) rfq_invarD(1,2)[OF assms] by (simp add: rfq_head_ready_def)
  have dims: "ff_lanes (rfq_abs q) = rq_warp_size q" "ff_words (rfq_abs q) = rq_payload_words_per_lane q"
    by (simp_all add: rfq_abs_def)
  show ?thesis
    using rfq_invarD(1,2)[OF assms] hf(5) lane_index_less
      lane_index_wrap[OF _ _ rfq_invarD(7)[OF assms]]
    by (auto simp: rfq_head_lane_value_def r fifo_head_lane_def rfq_abs_slots[OF assms False] dims
        rfq_slot_abs_def hf(4) vec_at_def)
qed

lemma rfq_full_law:
  "rfq_invar q \<Longrightarrow> rfq_full q \<longleftrightarrow> length (ff_slots (rfq_abs q)) = ff_capacity (rfq_abs q)"
  by (auto simp: rfq_full_def rfq_abs_def rfq_invar_def)

lemma rfq_configure_invar:
  assumes "rfq_configure n w l wasp_rfq_init = Some q" "l * w < 2 ^ 32"
  shows "rfq_invar q \<and> ff_slots (rfq_abs q) = [] \<and> rq_entries q = n"
  using assms
  by (auto simp: rfq_configure_def rfq_configured_def wasp_rfq_init_def rfq_invar_def rfq_entry_ok_def
      rfq_abs_def rfq_entry_init_def wrap32_small split: if_splits)

subsection \<open>The contract holds\<close>

interpretation rfq: token_queue rfq_invar rfq_abs rfq_tok_id rt_valid rfq_full rfq_empty
  rfq_head_ready rfq_occupancy rfq_reserve_tail rfq_set_pending_responses
  rfq_has_pending_responses rfq_mark_response rfq_consume_head rfq_set_lane_value
  rfq_head_lane_value rfq_mk_tok wasp_rfq_key_init rfq_step
proof unfold_locales
  fix q d l w v n m p
  show "rfq_tok_id (rfq_mk_tok d) = d" "rt_valid (rfq_mk_tok d)"
    by (simp_all add: rfq_tok_id_def rfq_mk_tok_def)
  show "rfq_step q (Reserve m p) = map_option snd (rfq_reserve_tail wasp_rfq_key_init m p q)"
    "rfq_step q (Set_pending d n) = rfq_set_pending_responses (rfq_mk_tok d) n q"
    "rfq_step q (Mark d) = map_option snd (rfq_mark_response (rfq_mk_tok d) q)"
    "rfq_step q Consume = rfq_consume_head wasp_rfq_key_init q"
    "rfq_step q (Set_lane d l w v) = rfq_set_lane_value (rfq_mk_tok d) l w v q"
    by simp_all
next
  fix q assume "rfq_invar q"
  then show "length (ff_slots (rfq_abs q)) \<le> ff_capacity (rfq_abs q)"
    "rfq_empty q \<longleftrightarrow> ff_slots (rfq_abs q) = []" "rfq_occupancy q = length (ff_slots (rfq_abs q))"
    by (auto simp: rfq_abs_def rfq_invar_def rfq_empty_def rfq_occupancy_def)
qed (fact rfq_ids_distinct rfq_full_law rfq_head_ready_law rfq_reserve_law rfq_reserve_invar
    rfq_set_pending_law rfq_set_pending_invar rfq_has_pending_law rfq_mark_law rfq_mark_invar
    rfq_consume_law rfq_consume_invar rfq_set_lane_law rfq_set_lane_invar rfq_head_lane_law)+

subsection \<open>A small queue\<close>

text \<open>A queue of two slots with four lanes of one word, and a run on it.\<close>

definition rfq_small :: wasp_rfq where
  "rfq_small = \<lparr>rq_entries = 2, rq_payload_words_per_lane = 1, rq_warp_size = 4, rq_head = 0,
     rq_tail = 0, rq_occupancy = 0, rq_next_sequence = 1,
     rq_storage = [rfq_entry_init\<lparr>re_lane_payload := replicate 4 0\<rparr>,
       rfq_entry_init\<lparr>re_lane_payload := replicate 4 0\<rparr>]\<rparr>"

definition rfq_small_calls :: "fifo_call list" where
  "rfq_small_calls =
     [Reserve 15 1, Set_lane (0, 1) 2 0 7, Reserve 3 2, Mark (0, 1), Consume, Reserve 1 0]"

lemma replicate_two: "replicate 2 x = [x, x]"
  by (simp add: numeral_2_eq_2)

lemma rfq_small_configure: "rfq_configure 2 1 4 wasp_rfq_init = Some rfq_small"
  by (simp add: rfq_configure_def wasp_rfq_init_def rfq_small_def rfq_configured_def wrap32_def
      replicate_two)

lemmas rfq_eval = rfq_reserve_tail_def rfq_set_pending_responses_def rfq_mark_response_def
  rfq_consume_head_def rfq_set_lane_value_def rfq_head_lane_value_def rfq_head_ready_def
  rfq_entry_for_token_def rfq_store_entry_def rfq_configured_def rfq_full_def rfq_empty_def
  rfq_mk_tok_def wasp_rfq_token_init_def Let_def wrap32_def rfq_entry_init_def

lemmas rfq_abs_eval = rfq_abs_def rfq_slot_abs_def rfq_at_def fifo_reserve_def fifo_set_lane_def
  fifo_ids_def fifo_upd_def fifo_mark_def fifo_get_def fifo_consume_def

lemma rfq_small_live: "calls_live (rfq_abs rfq_small) rfq_small_calls"
  by (simp add: rfq_small_def rfq_small_calls_def rfq_abs_eval)

lemma rfq_small_traced: "map_option snd (traced_run rfq_abs rfq_step rfq_small rfq_small_calls) =
    Some ([(0, 1), (1, 2), (0, 3)], [(0, 1)])"
  by (simp add: rfq_small_def rfq_small_calls_def rfq_eval rfq_abs_eval)

lemma rfq_small_traced_obtain:
  obtains q where "traced_run rfq_abs rfq_step rfq_small rfq_small_calls =
    Some (q, [(0, 1), (1, 2), (0, 3)], [(0, 1)])"
  using rfq_small_traced by (cases "traced_run rfq_abs rfq_step rfq_small rfq_small_calls") auto

subsection \<open>Properties\<close>

text \<open>C1. The register-file queue implements the abstract queue: for every sequence of calls
  whose tokens are live when they are used, the ring buffer and the list specification fail
  together or end in related states.\<close>

theorem rfq_implements_fifo:
  assumes "rfq_configure n w l wasp_rfq_init = Some q" "l * w < 2 ^ 32"
    and "calls_live (rfq_abs q) cs"
  shows "map_option rfq_abs (run_calls rfq_step q cs) = run_calls fifo_step (rfq_abs q) cs"
  using rfq_configure_invar[OF assms(1,2)] assms(3) by (auto intro: rfq.run_refines)

theorem rfq_implements_fifo_witness:
  "map_option rfq_abs (run_calls rfq_step rfq_small rfq_small_calls) =
     run_calls fifo_step (rfq_abs rfq_small) rfq_small_calls"
  by (rule rfq_implements_fifo[OF rfq_small_configure _ rfq_small_live]) simp

lemma rfq_configure_next:
  "rfq_configure n w l wasp_rfq_init = Some q \<Longrightarrow> rq_next_sequence q = 1"
  by (cases q) (auto simp: rfq_configure_def rfq_configured_def wasp_rfq_init_def split: if_splits)

text \<open>C2. Slots leave in the order in which they were reserved, and none is lost or invented:
  after any such run, the ids consumed followed by the ids still queued are exactly the ids
  reserved, and they are numbered 1, 2, 3, ... modulo \<open>2 ^ 32\<close>.\<close>

theorem rfq_fifo_order:
  assumes "rfq_configure n w l wasp_rfq_init = Some q" "l * w < 2 ^ 32"
    and "calls_live (rfq_abs q) cs"
    and "traced_run rfq_abs rfq_step q cs = Some (q', reserved, consumed)"
  shows "consumed @ fifo_ids (rfq_abs q') = reserved \<and>
    map snd reserved = map (\<lambda>i. 1 + of_nat i) [0..<length reserved]"
proof -
  have "rfq_invar q" "fifo_ids (rfq_abs q) = []" "ff_next (rfq_abs q) = 1"
    using rfq_configure_invar[OF assms(1,2)] rfq_configure_next[OF assms(1)]
    by (auto simp: fifo_ids_def) (simp add: rfq_abs_def)
  then show ?thesis
    using rfq.traced_order[OF _ assms(3,4)] rfq.traced_next[OF _ assms(3,4)] by simp
qed

theorem rfq_fifo_order_witness:
  "\<exists>q'. [(0, 1)] @ fifo_ids (rfq_abs q') = [(0, 1), (1, 2), (0, 3)]"
proof (rule rfq_small_traced_obtain)
  fix q assume "traced_run rfq_abs rfq_step rfq_small rfq_small_calls =
    Some (q, [(0, 1), (1, 2), (0, 3)], [(0, 1)])"
  from rfq_fifo_order[OF rfq_small_configure _ rfq_small_live this] show ?thesis by auto
qed

text \<open>C13. A late memory response for a slot that was already consumed is refused: during the
  first \<open>2 ^ 32\<close> reservations, \<open>mark_response\<close> with the token of a consumed slot fails
  its assertions, although another reservation may occupy the same slot index.\<close>

theorem rfq_stale_response_refused:
  assumes "rfq_configure n w l wasp_rfq_init = Some q" "l * w < 2 ^ 32"
    and "calls_live (rfq_abs q) cs"
    and "traced_run rfq_abs rfq_step q cs = Some (q', reserved, consumed)"
    and "length reserved \<le> 2 ^ 32" "rt_valid t" "(rt_slot_index t, rt_sequence t) \<in> set consumed"
  shows "rfq_mark_response t q' = None"
  using rfq_configure_invar[OF assms(1,2)] assms(3-)
  by (auto simp: rfq_tok_id_def intro!: rfq.stale_refused)

theorem rfq_stale_response_refused_witness:
  "\<exists>q'. rfq_mark_response (rfq_mk_tok (0, 1)) q' = None \<and> fifo_ids (rfq_abs q') = [(1, 2), (0, 3)]"
proof (rule rfq_small_traced_obtain)
  fix q assume r: "traced_run rfq_abs rfq_step rfq_small rfq_small_calls =
    Some (q, [(0, 1), (1, 2), (0, 3)], [(0, 1)])"
  have inv: "rfq_invar rfq_small" using rfq_configure_invar[OF rfq_small_configure] by simp
  have "rfq_mark_response (rfq_mk_tok (0, 1)) q = None"
    by (rule rfq_stale_response_refused[OF rfq_small_configure _ rfq_small_live r])
       (simp_all add: rfq_mk_tok_def)
  moreover have "fifo_ids (rfq_abs q) = [(1, 2), (0, 3)]"
    using rfq.traced_order[OF inv rfq_small_live r] by (simp add: rfq_small_def rfq_abs_eval)
  ultimately show ?thesis by blast
qed

text \<open>The word that a producer stores through its token is the word that the consumer reads
  at the head of the queue, for every lane and word in range, whatever the sizes.\<close>

theorem rfq_store_then_read:
  assumes "rfq_invar q" "\<not> rfq_full q" "rfq_empty q" "rfq_reserve_tail k m 0 q = Some (t, q1)"
    and "rfq_set_lane_value t lane w v q1 = Some q2"
  shows "rfq_head_lane_value lane w q2 = Some v"
proof -
  have r: "(rt_slot_index t, rt_sequence t) = (rq_tail q, rq_next_sequence q)" "rt_valid t"
    and q1: "q1 = rfq_after_reserve m 0 q" "rfq_invar q1"
    using assms rfq_reserve_invar[OF assms(1,4)] by (auto simp: rfq_reserve_eq)
  have s: "ff_slots (rfq_abs q) = []" using assms(3) by (simp add: rfq_abs_def rfq_empty_def)
  from rfq_after_reserve_abs[OF assms(1,2), of m 0] assms(2)
  have "rfq_abs q1 = snd (the (fifo_reserve m 0 (rfq_abs q)))" by (simp add: q1)
  moreover have "0 < ff_capacity (rfq_abs q)" using assms(1) by (simp add: rfq_abs_def rfq_invar_def)
  ultimately obtain x where x: "ff_slots (rfq_abs q1) = [x]" "fs_id x = (rq_tail q, rq_next_sequence q)"
    "fs_pending x = 0" "length (fs_payload x) = ff_lanes (rfq_abs q1) * ff_words (rfq_abs q1)"
    using s by (simp add: fifo_reserve_def) (simp add: rfq_abs_def)
  show ?thesis
    by (rule rfq.store_then_read[OF q1(2) x(1) r(2) _ assms(5) x(3,4)]) (simp add: x r(1) rfq_tok_id_def)
qed

theorem rfq_store_then_read_witness:
  "\<exists>t q1 q2. rfq_reserve_tail wasp_rfq_key_init 15 0 rfq_small = Some (t, q1) \<and>
     rfq_set_lane_value t 2 0 7 q1 = Some q2 \<and> rfq_head_lane_value 2 0 q2 = Some 7"
proof -
  have inv: "rfq_invar rfq_small" using rfq_configure_invar[OF rfq_small_configure] by simp
  obtain t q1 q2 where r: "rfq_reserve_tail wasp_rfq_key_init 15 0 rfq_small = Some (t, q1)"
    and s: "rfq_set_lane_value t 2 0 7 q1 = Some q2"
    by (simp add: rfq_small_def rfq_eval)
  from rfq_store_then_read[OF inv _ _ r s] r s show ?thesis
    by (auto simp: rfq_small_def rfq_full_def rfq_empty_def)
qed

text \<open>Only \<open>mark_response\<close> checks the state of its slot: \<open>set_pending_responses\<close> with the
  token of a slot that was consumed is accepted and makes the free slot reserved again, so
  that the queue, empty as it is, refuses the reservation that reaches the slot.\<close>

theorem rfq_stale_set_pending_accepted:
  assumes "rfq_invar q" "rq_entries q = 1" "rfq_empty q" "0 < p"
  shows "\<exists>t q1 q2 q3. rfq_reserve_tail k m 0 q = Some (t, q1) \<and> rfq_consume_head k q1 = Some q2 \<and>
    rfq_set_pending_responses t p q2 = Some q3 \<and> rfq_empty q3 \<and> \<not> rfq_full q3 \<and>
    rfq_reserve_tail k m 0 q3 = None"
proof -
  note inv = rfq_invarD[OF assms(1)]
  have nf: "\<not> rfq_full q" using assms(2,3) by (simp add: rfq_full_def rfq_empty_def)
  have z: "rq_head q = 0" "rq_tail q = 0" "length (rq_storage q) = Suc 0" "rq_occupancy q = 0"
    using assms by (auto simp: rfq_invar_def rfq_empty_def)
  then obtain e where e: "rq_storage q = [e]" by (auto simp: length_Suc_conv)
  let ?q1 = "rfq_after_reserve m 0 q"
  have q1: "rq_head ?q1 = 0" "rq_entries ?q1 = 1" "rq_occupancy ?q1 = 1"
      "rq_storage ?q1 = [rfq_reserved_entry m 0 q]"
    using assms(2) z e by (simp_all add: rfq_after_reserve_def)
  show ?thesis
    using nf assms(2,4) z e
    by (simp add: rfq_reserve_eq[OF assms(1)])
       (simp add: rfq_consume_head_def rfq_empty_def rfq_full_def q1 rfq_set_pending_responses_def
         rfq_entry_for_token_def rfq_store_entry_def rfq_reserved_entry_def rfq_reserve_tail_def
         rfq_configured_def Let_def rfq_after_reserve_def)
qed

theorem rfq_stale_set_pending_accepted_witness:
  "\<exists>q t q1 q2 q3. rfq_reserve_tail wasp_rfq_key_init 1 0 q = Some (t, q1) \<and>
    rfq_consume_head wasp_rfq_key_init q1 = Some q2 \<and> rfq_set_pending_responses t 1 q2 = Some q3 \<and>
    rfq_empty q3 \<and> rfq_reserve_tail wasp_rfq_key_init 1 0 q3 = None"
proof -
  obtain q where c: "rfq_configure 1 1 4 wasp_rfq_init = Some q"
    by (simp add: rfq_configure_def wasp_rfq_init_def rfq_configured_def)
  then have "rfq_invar q" "rq_entries q = 1" "rfq_empty q"
    using rfq_configure_invar[OF c] by (auto simp: rfq_abs_def rfq_empty_def)
  from rfq_stale_set_pending_accepted[OF this zero_less_one] show ?thesis by blast
qed

end
