(* ===== verification/Smem_Queue.thy ===== *)
theory Smem_Queue
  imports Wasp_Rfq
begin

section \<open>The shared-memory queue: \<open>wasp-smem-queue.h\<close> and \<open>wasp-smem-queue.cc\<close>\<close>

text \<open>
  The class \<open>smemq\<close> and its table. The source repeats the code of \<open>wasp_rfq\<close> under
  other names; so does this model, definition by definition. That the two are the same
  machine is then not an assumption but a theorem: the renaming \<open>rfq_of_smemq\<close>
  commutes with every operation, failures included, and the queue contract of
  \<open>Token_Queue\<close> follows for \<open>smemq\<close> from the one proved for \<open>wasp_rfq\<close>.
\<close>

subsection \<open>Keys\<close>

datatype smemq_key = Smemq_key
  (sk_cta_hw_id: nat) (sk_original_warp_id: nat) (sk_src_stage_id: nat)
  (sk_dst_stage_id: nat) (sk_queue_id: nat)

definition smemq_key_init :: smemq_key where
  "smemq_key_init = Smemq_key 0 0 0 1 0"

definition smemq_key_less :: "smemq_key \<Rightarrow> smemq_key \<Rightarrow> bool" where
  "smemq_key_less a rhs =
     (if sk_cta_hw_id a \<noteq> sk_cta_hw_id rhs then sk_cta_hw_id a < sk_cta_hw_id rhs
      else if sk_original_warp_id a \<noteq> sk_original_warp_id rhs
        then sk_original_warp_id a < sk_original_warp_id rhs
      else if sk_src_stage_id a \<noteq> sk_src_stage_id rhs
        then sk_src_stage_id a < sk_src_stage_id rhs
      else if sk_dst_stage_id a \<noteq> sk_dst_stage_id rhs
        then sk_dst_stage_id a < sk_dst_stage_id rhs
      else sk_queue_id a < sk_queue_id rhs)"

text \<open>The comparison of the source makes the keys a linear order, as \<open>std::map\<close> needs.\<close>

instantiation smemq_key :: linorder
begin

definition less_smemq_key :: "smemq_key \<Rightarrow> smemq_key \<Rightarrow> bool" where
  "less_smemq_key = smemq_key_less"

definition less_eq_smemq_key :: "smemq_key \<Rightarrow> smemq_key \<Rightarrow> bool" where
  "less_eq_smemq_key a b \<longleftrightarrow> smemq_key_less a b \<or> a = b"

instance
proof
  fix x y z :: smemq_key
  show "(x < y) = (x \<le> y \<and> \<not> y \<le> x)"
    by (cases x; cases y) (auto simp: less_smemq_key_def less_eq_smemq_key_def
        smemq_key_less_def split: if_splits)
  show "x \<le> x" by (simp add: less_eq_smemq_key_def)
  show "x \<le> y \<Longrightarrow> y \<le> z \<Longrightarrow> x \<le> z"
    by (cases x; cases y; cases z) (auto simp: less_eq_smemq_key_def
        smemq_key_less_def split: if_splits)
  show "x \<le> y \<Longrightarrow> y \<le> x \<Longrightarrow> x = y"
    by (cases x; cases y) (auto simp: less_eq_smemq_key_def
        smemq_key_less_def split: if_splits)
  show "x \<le> y \<or> y \<le> x"
    by (cases x; cases y) (auto simp: less_eq_smemq_key_def smemq_key_less_def)
qed

end

subsection \<open>The queue\<close>

record smemq_token =
  st_key :: smemq_key
  st_slot_index :: nat
  st_sequence :: u32
  st_payload_words_per_lane :: nat
  st_valid :: bool

definition smemq_token_init :: smemq_token where
  "smemq_token_init = \<lparr>st_key = smemq_key_init, st_slot_index = 0, st_sequence = 0,
     st_payload_words_per_lane = 0, st_valid = False\<rparr>"

datatype smemq_entry_state = SMEMQ_FREE | SMEMQ_RESERVED | SMEMQ_READY

record smemq_entry =
  se_state :: smemq_entry_state
  se_sequence :: u32
  se_pending_responses :: nat
  se_payload_words_per_lane :: nat
  se_active_mask :: active_mask_t
  se_lane_payload :: "u64 list"

definition smemq_entry_init :: smemq_entry where
  "smemq_entry_init = \<lparr>se_state = SMEMQ_FREE, se_sequence = 0, se_pending_responses = 0,
     se_payload_words_per_lane = 0, se_active_mask = 0, se_lane_payload = []\<rparr>"

record smemq =
  sq_entries :: nat
  sq_payload_words_per_lane :: nat
  sq_warp_size :: nat
  sq_head :: nat
  sq_tail :: nat
  sq_occupancy :: nat
  sq_next_sequence :: u32
  sq_storage :: "smemq_entry list"

definition smemq_init :: smemq where
  "smemq_init = \<lparr>sq_entries = 0, sq_payload_words_per_lane = 0, sq_warp_size = 0,
     sq_head = 0, sq_tail = 0, sq_occupancy = 0, sq_next_sequence = 1, sq_storage = []\<rparr>"

definition smemq_configured :: "smemq \<Rightarrow> bool" where
  "smemq_configured q \<longleftrightarrow> sq_entries q > 0"

definition smemq_full :: "smemq \<Rightarrow> bool" where
  "smemq_full q \<longleftrightarrow> sq_occupancy q \<ge> sq_entries q"

definition smemq_empty :: "smemq \<Rightarrow> bool" where
  "smemq_empty q \<longleftrightarrow> sq_occupancy q = 0"

definition smemq_occupancy :: "smemq \<Rightarrow> nat" where
  "smemq_occupancy q = sq_occupancy q"

text \<open>\<open>configure\<close>: the first call sizes the storage, later calls only check the sizes.\<close>

definition smemq_configure :: "nat \<Rightarrow> nat \<Rightarrow> nat \<Rightarrow> smemq \<Rightarrow> smemq option" where
  "smemq_configure entries payload_words warp_size q =
     (if smemq_configured q then do {
        assert_that (sq_entries q = entries);
        assert_that (sq_payload_words_per_lane q = payload_words);
        assert_that (sq_warp_size q = warp_size);
        Some q
      } else do {
        assert_that (entries > 0);
        assert_that (payload_words > 0);
        assert_that (warp_size > 0);
        Some (q\<lparr>sq_entries := entries, sq_payload_words_per_lane := payload_words,
          sq_warp_size := warp_size,
          sq_storage := map (\<lambda>e. e\<lparr>se_lane_payload := replicate (wrap32 (warp_size * payload_words)) 0\<rparr>)
            (take entries (sq_storage q) @ replicate (entries - length (sq_storage q)) smemq_entry_init)\<rparr>)
      })"

definition smemq_head_ready :: "smemq \<Rightarrow> bool option" where
  "smemq_head_ready q =
     (if smemq_empty q then Some False
      else do { e \<leftarrow> vec_at (sq_storage q) (sq_head q); Some (se_state e = SMEMQ_READY) })"

definition smemq_ready_count :: "smemq \<Rightarrow> nat" where
  "smemq_ready_count q = length (filter (\<lambda>e. se_state e = SMEMQ_READY) (take (sq_entries q) (sq_storage q)))"

definition smemq_pending_count :: "smemq \<Rightarrow> nat" where
  "smemq_pending_count q =
     length (filter (\<lambda>e. se_state e = SMEMQ_RESERVED) (take (sq_entries q) (sq_storage q)))"

definition smemq_reserve_tail ::
  "smemq_key \<Rightarrow> active_mask_t \<Rightarrow> nat \<Rightarrow> smemq \<Rightarrow> (smemq_token \<times> smemq) option" where
  "smemq_reserve_tail key active_mask pending q = do {
     assert_that (smemq_configured q);
     assert_that (\<not> smemq_full q);
     e \<leftarrow> vec_at (sq_storage q) (sq_tail q);
     assert_that (se_state e = SMEMQ_FREE);
     let e' = e\<lparr>se_state := (if pending = 0 then SMEMQ_READY else SMEMQ_RESERVED),
       se_sequence := sq_next_sequence q, se_pending_responses := pending,
       se_payload_words_per_lane := sq_payload_words_per_lane q,
       se_active_mask := active_mask,
       se_lane_payload := map (\<lambda>_. 0) (se_lane_payload e)\<rparr>;
     let token = smemq_token_init\<lparr>st_key := key, st_slot_index := sq_tail q,
       st_sequence := se_sequence e',
       st_payload_words_per_lane := sq_payload_words_per_lane q, st_valid := True\<rparr>;
     Some (token, q\<lparr>sq_storage := (sq_storage q)[sq_tail q := e'],
       sq_next_sequence := sq_next_sequence q + 1,
       sq_tail := (sq_tail q + 1) mod sq_entries q,
       sq_occupancy := sq_occupancy q + 1\<rparr>)
   }"

definition smemq_entry_for_token :: "smemq_token \<Rightarrow> smemq \<Rightarrow> smemq_entry option" where
  "smemq_entry_for_token token q = do {
     assert_that (st_valid token);
     assert_that (st_slot_index token < sq_entries q);
     e \<leftarrow> vec_at (sq_storage q) (st_slot_index token);
     assert_that (se_sequence e = st_sequence token);
     Some e
   }"

definition smemq_store_entry :: "smemq_token \<Rightarrow> smemq_entry \<Rightarrow> smemq \<Rightarrow> smemq" where
  "smemq_store_entry token e q = q\<lparr>sq_storage := (sq_storage q)[st_slot_index token := e]\<rparr>"

definition smemq_set_pending_responses :: "smemq_token \<Rightarrow> nat \<Rightarrow> smemq \<Rightarrow> smemq option" where
  "smemq_set_pending_responses token pending q = do {
     e \<leftarrow> smemq_entry_for_token token q;
     Some (smemq_store_entry token (e\<lparr>se_pending_responses := pending,
       se_state := (if pending = 0 then SMEMQ_READY else SMEMQ_RESERVED)\<rparr>) q)
   }"

definition smemq_has_pending_responses :: "smemq_token \<Rightarrow> smemq \<Rightarrow> bool option" where
  "smemq_has_pending_responses token q = do {
     e \<leftarrow> smemq_entry_for_token token q;
     Some (se_pending_responses e > 0)
   }"

definition smemq_mark_response :: "smemq_token \<Rightarrow> smemq \<Rightarrow> (bool \<times> smemq) option" where
  "smemq_mark_response token q = do {
     e \<leftarrow> smemq_entry_for_token token q;
     assert_that (se_state e = SMEMQ_RESERVED \<or> se_state e = SMEMQ_READY);
     assert_that (se_pending_responses e > 0);
     let e' = e\<lparr>se_pending_responses := se_pending_responses e - 1\<rparr>;
     (if se_pending_responses e' = 0
      then Some (True, smemq_store_entry token (e'\<lparr>se_state := SMEMQ_READY\<rparr>) q)
      else Some (False, smemq_store_entry token e' q))
   }"

definition smemq_consume_head :: "smemq_key \<Rightarrow> smemq \<Rightarrow> smemq option" where
  "smemq_consume_head key q = do {
     assert_that (\<not> smemq_empty q);
     e \<leftarrow> vec_at (sq_storage q) (sq_head q);
     assert_that (se_state e = SMEMQ_READY);
     Some (q\<lparr>sq_storage := (sq_storage q)[sq_head q := e\<lparr>se_state := SMEMQ_FREE,
         se_pending_responses := 0, se_active_mask := 0,
         se_lane_payload := map (\<lambda>_. 0) (se_lane_payload e)\<rparr>],
       sq_head := (sq_head q + 1) mod sq_entries q,
       sq_occupancy := sq_occupancy q - 1\<rparr>)
   }"

definition smemq_set_lane_value ::
  "smemq_token \<Rightarrow> nat \<Rightarrow> nat \<Rightarrow> u64 \<Rightarrow> smemq \<Rightarrow> smemq option" where
  "smemq_set_lane_value token lane w value q = do {
     e \<leftarrow> smemq_entry_for_token token q;
     assert_that (lane < sq_warp_size q);
     assert_that (w < se_payload_words_per_lane e);
     p \<leftarrow> vec_set (se_lane_payload e) (wrap32 (wrap32 (lane * se_payload_words_per_lane e) + w)) value;
     Some (smemq_store_entry token (e\<lparr>se_lane_payload := p\<rparr>) q)
   }"

definition smemq_head_lane_value :: "nat \<Rightarrow> nat \<Rightarrow> smemq \<Rightarrow> u64 option" where
  "smemq_head_lane_value lane w q = do {
     r \<leftarrow> smemq_head_ready q;
     assert_that r;
     e \<leftarrow> vec_at (sq_storage q) (sq_head q);
     assert_that (lane < sq_warp_size q);
     assert_that (w < se_payload_words_per_lane e);
     vec_at (se_lane_payload e) (wrap32 (wrap32 (lane * se_payload_words_per_lane e) + w))
   }"

subsection \<open>The table\<close>

type_synonym smemq_table = "smemq_key \<Rightarrow> smemq option"

text \<open>
  \<open>m_queues[key]\<close> creates a queue when there is none; \<open>get_or_create\<close> returns a
  reference to the configured queue, here the queue and the table that holds it.
\<close>

definition smemq_get_or_create ::
  "smemq_key \<Rightarrow> nat \<Rightarrow> nat \<Rightarrow> nat \<Rightarrow> smemq_table \<Rightarrow> (smemq \<times> smemq_table) option" where
  "smemq_get_or_create key entries payload_words warp_size t = do {
     let queue = (case t key of None \<Rightarrow> smemq_init | Some q \<Rightarrow> q);
     q \<leftarrow> smemq_configure entries payload_words warp_size queue;
     Some (q, t(key \<mapsto> q))
   }"

definition smemq_find :: "smemq_key \<Rightarrow> smemq_table \<Rightarrow> smemq option" where
  "smemq_find key t = t key"

definition smemq_erase_cta :: "nat \<Rightarrow> smemq_table \<Rightarrow> smemq_table" where
  "smemq_erase_cta cta_hw_id t = (\<lambda>k. if sk_cta_hw_id k = cta_hw_id then None else t k)"

definition smemq_clear :: "smemq_table \<Rightarrow> smemq_table" where
  "smemq_clear t = Map.empty"

definition smemq_mk_tok :: "slot_id \<Rightarrow> smemq_token" where
  "smemq_mk_tok d = smemq_token_init\<lparr>st_slot_index := fst d, st_sequence := snd d, st_valid := True\<rparr>"

text \<open>One call on the queue, with tokens built from slot ids.\<close>

fun smemq_step :: "smemq \<Rightarrow> fifo_call \<Rightarrow> smemq option" where
  "smemq_step q (Reserve m p) = map_option snd (smemq_reserve_tail smemq_key_init m p q)"
| "smemq_step q (Set_pending d n) = smemq_set_pending_responses (smemq_mk_tok d) n q"
| "smemq_step q (Mark d) = map_option snd (smemq_mark_response (smemq_mk_tok d) q)"
| "smemq_step q Consume = smemq_consume_head smemq_key_init q"
| "smemq_step q (Set_lane d l w v) = smemq_set_lane_value (smemq_mk_tok d) l w v q"

subsection \<open>The renaming\<close>

fun rfq_of_key :: "smemq_key \<Rightarrow> wasp_rfq_key" where
  "rfq_of_key (Smemq_key c w s d i) = Wasp_rfq_key c w s d i"

fun rfq_of_state :: "smemq_entry_state \<Rightarrow> rfq_entry_state" where
  "rfq_of_state SMEMQ_FREE = RFQ_FREE"
| "rfq_of_state SMEMQ_RESERVED = RFQ_RESERVED"
| "rfq_of_state SMEMQ_READY = RFQ_READY"

definition rfq_of_token :: "smemq_token \<Rightarrow> wasp_rfq_token" where
  "rfq_of_token t = \<lparr>rt_key = rfq_of_key (st_key t), rt_slot_index = st_slot_index t,
     rt_sequence = st_sequence t, rt_payload_words_per_lane = st_payload_words_per_lane t,
     rt_valid = st_valid t\<rparr>"

definition rfq_of_entry :: "smemq_entry \<Rightarrow> rfq_entry" where
  "rfq_of_entry e = \<lparr>re_state = rfq_of_state (se_state e), re_sequence = se_sequence e,
     re_pending_responses = se_pending_responses e,
     re_payload_words_per_lane = se_payload_words_per_lane e,
     re_active_mask = se_active_mask e, re_lane_payload = se_lane_payload e\<rparr>"

definition rfq_of_smemq :: "smemq \<Rightarrow> wasp_rfq" where
  "rfq_of_smemq q = \<lparr>rq_entries = sq_entries q,
     rq_payload_words_per_lane = sq_payload_words_per_lane q, rq_warp_size = sq_warp_size q,
     rq_head = sq_head q, rq_tail = sq_tail q, rq_occupancy = sq_occupancy q,
     rq_next_sequence = sq_next_sequence q, rq_storage = map rfq_of_entry (sq_storage q)\<rparr>"

named_theorems renaming \<open>how the renaming commutes with the parts of a queue\<close>

lemma rfq_of_key_sel [renaming]:
  "rk_cta_hw_id (rfq_of_key k) = sk_cta_hw_id k" "rfq_of_key smemq_key_init = wasp_rfq_key_init"
  by (cases k; simp add: smemq_key_init_def wasp_rfq_key_init_def)+

lemma rfq_of_key_inj [simp]: "rfq_of_key a = rfq_of_key b \<longleftrightarrow> a = b"
  by (cases a; cases b) auto

lemma rfq_of_key_less: "wasp_rfq_key_less (rfq_of_key a) (rfq_of_key b) \<longleftrightarrow> smemq_key_less a b"
  by (cases a; cases b) (simp add: wasp_rfq_key_less_def smemq_key_less_def)

lemma rfq_of_state_eq [renaming]:
  "rfq_of_state s = RFQ_FREE \<longleftrightarrow> s = SMEMQ_FREE"
  "rfq_of_state s = RFQ_RESERVED \<longleftrightarrow> s = SMEMQ_RESERVED"
  "rfq_of_state s = RFQ_READY \<longleftrightarrow> s = SMEMQ_READY"
  by (cases s; simp)+

lemma rfq_of_entry_sel [renaming]:
  "re_state (rfq_of_entry e) = rfq_of_state (se_state e)"
  "re_sequence (rfq_of_entry e) = se_sequence e"
  "re_pending_responses (rfq_of_entry e) = se_pending_responses e"
  "re_payload_words_per_lane (rfq_of_entry e) = se_payload_words_per_lane e"
  "re_active_mask (rfq_of_entry e) = se_active_mask e"
  "re_lane_payload (rfq_of_entry e) = se_lane_payload e"
  "rfq_of_entry smemq_entry_init = rfq_entry_init"
  by (simp_all add: rfq_of_entry_def smemq_entry_init_def rfq_entry_init_def)

lemma rfq_of_token_sel [renaming]:
  "rt_slot_index (rfq_of_token t) = st_slot_index t" "rt_sequence (rfq_of_token t) = st_sequence t"
  "rt_valid (rfq_of_token t) = st_valid t"
  "rfq_of_token (smemq_mk_tok d) = rfq_mk_tok d"
  by (simp_all add: rfq_of_token_def smemq_mk_tok_def rfq_mk_tok_def smemq_token_init_def
      wasp_rfq_token_init_def rfq_of_key_sel)

lemma rfq_of_smemq_sel [renaming]:
  "rq_entries (rfq_of_smemq q) = sq_entries q"
  "rq_payload_words_per_lane (rfq_of_smemq q) = sq_payload_words_per_lane q"
  "rq_warp_size (rfq_of_smemq q) = sq_warp_size q" "rq_head (rfq_of_smemq q) = sq_head q"
  "rq_tail (rfq_of_smemq q) = sq_tail q" "rq_occupancy (rfq_of_smemq q) = sq_occupancy q"
  "rq_next_sequence (rfq_of_smemq q) = sq_next_sequence q"
  "rq_storage (rfq_of_smemq q) = map rfq_of_entry (sq_storage q)"
  "rfq_of_smemq smemq_init = wasp_rfq_init"
  by (simp_all add: rfq_of_smemq_def smemq_init_def wasp_rfq_init_def)

lemma smemq_obs_rfq [renaming]:
  "rfq_configured (rfq_of_smemq q) = smemq_configured q" "rfq_full (rfq_of_smemq q) = smemq_full q"
  "rfq_empty (rfq_of_smemq q) = smemq_empty q" "rfq_occupancy (rfq_of_smemq q) = smemq_occupancy q"
  by (simp_all add: rfq_configured_def smemq_configured_def rfq_full_def smemq_full_def
      rfq_empty_def smemq_empty_def rfq_occupancy_def smemq_occupancy_def renaming)

lemma smemq_head_ready_rfq: "rfq_head_ready (rfq_of_smemq q) = smemq_head_ready q"
  by (simp add: rfq_head_ready_def smemq_head_ready_def renaming vec_at_def)

lemma smemq_configure_rfq:
  "rfq_configure n w l (rfq_of_smemq q) = map_option rfq_of_smemq (smemq_configure n w l q)"
proof -
  let ?p = "replicate (wrap32 (l * w)) (0 :: u64)"
  have one: "(rfq_of_entry e)\<lparr>re_lane_payload := ?p\<rparr> = rfq_of_entry (e\<lparr>se_lane_payload := ?p\<rparr>)" for e
    by (simp add: rfq_of_entry_def)
  have "map (\<lambda>e. e\<lparr>re_lane_payload := ?p\<rparr>) (take n (map rfq_of_entry (sq_storage q)) @
        replicate (n - length (sq_storage q)) rfq_entry_init) =
      map rfq_of_entry (map (\<lambda>e. e\<lparr>se_lane_payload := ?p\<rparr>) (take n (sq_storage q) @
        replicate (n - length (sq_storage q)) smemq_entry_init))"
    by (simp add: take_map one) (simp add: one[symmetric] rfq_of_entry_sel)
  then show ?thesis
    by (simp only: rfq_configure_def smemq_configure_def renaming bind_assert_that length_map)
       (simp add: rfq_of_smemq_def)
qed

lemma smemq_counts_rfq:
  "rfq_ready_count (rfq_of_smemq q) = smemq_ready_count q"
  "rfq_pending_count (rfq_of_smemq q) = smemq_pending_count q"
  by (simp_all add: rfq_ready_count_def smemq_ready_count_def rfq_pending_count_def
      smemq_pending_count_def renaming take_map filter_map comp_def)

lemma smemq_entry_for_token_rfq:
  "rfq_entry_for_token (rfq_of_token t) (rfq_of_smemq q) = map_option rfq_of_entry (smemq_entry_for_token t q)"
  by (simp add: rfq_entry_for_token_def smemq_entry_for_token_def renaming vec_at_def)

lemma smemq_store_entry_rfq:
  "rfq_of_smemq (smemq_store_entry t e q) = rfq_store_entry (rfq_of_token t) (rfq_of_entry e) (rfq_of_smemq q)"
  by (simp add: smemq_store_entry_def rfq_store_entry_def renaming)
     (simp add: rfq_of_smemq_def map_update)

lemma smemq_reserve_tail_rfq:
  "rfq_reserve_tail (rfq_of_key k) m p (rfq_of_smemq q) =
     map_option (map_prod rfq_of_token rfq_of_smemq) (smemq_reserve_tail k m p q)"
  by (simp add: rfq_reserve_tail_def smemq_reserve_tail_def renaming vec_at_def Let_def)
     (simp add: rfq_of_smemq_def rfq_of_entry_def rfq_of_token_def map_update
        wasp_rfq_token_init_def smemq_token_init_def)

lemma smemq_set_pending_rfq:
  "rfq_set_pending_responses (rfq_of_token t) n (rfq_of_smemq q) =
     map_option rfq_of_smemq (smemq_set_pending_responses t n q)"
  by (cases "smemq_entry_for_token t q")
     (simp_all add: rfq_set_pending_responses_def smemq_set_pending_responses_def
        smemq_entry_for_token_rfq smemq_store_entry_rfq, simp_all add: rfq_of_entry_def)

lemma smemq_has_pending_rfq:
  "rfq_has_pending_responses (rfq_of_token t) (rfq_of_smemq q) = smemq_has_pending_responses t q"
  by (cases "smemq_entry_for_token t q")
     (simp_all add: rfq_has_pending_responses_def smemq_has_pending_responses_def
        smemq_entry_for_token_rfq renaming)

lemma smemq_mark_response_rfq:
  "rfq_mark_response (rfq_of_token t) (rfq_of_smemq q) =
     map_option (map_prod id rfq_of_smemq) (smemq_mark_response t q)"
  by (cases "smemq_entry_for_token t q")
     (simp_all add: rfq_mark_response_def smemq_mark_response_def Let_def
        smemq_entry_for_token_rfq smemq_store_entry_rfq renaming, simp_all add: rfq_of_entry_def)

lemma smemq_consume_head_rfq:
  "rfq_consume_head (rfq_of_key k) (rfq_of_smemq q) = map_option rfq_of_smemq (smemq_consume_head k q)"
  by (simp add: rfq_consume_head_def smemq_consume_head_def renaming vec_at_def)
     (simp add: rfq_of_smemq_def rfq_of_entry_def map_update)

lemma smemq_set_lane_value_rfq:
  "rfq_set_lane_value (rfq_of_token t) l w v (rfq_of_smemq q) =
     map_option rfq_of_smemq (smemq_set_lane_value t l w v q)"
  by (cases "smemq_entry_for_token t q")
     (simp_all add: rfq_set_lane_value_def smemq_set_lane_value_def vec_set_def
        smemq_entry_for_token_rfq smemq_store_entry_rfq renaming, simp_all add: rfq_of_entry_def)

lemma smemq_head_lane_value_rfq:
  "rfq_head_lane_value l w (rfq_of_smemq q) = smemq_head_lane_value l w q"
  by (cases "smemq_head_ready q"; cases "sq_head q < length (sq_storage q)")
     (simp_all add: rfq_head_lane_value_def smemq_head_lane_value_def smemq_head_ready_rfq
        vec_at_def renaming)

lemma smemq_step_rfq: "rfq_step (rfq_of_smemq q) c = map_option rfq_of_smemq (smemq_step q c)"
proof (cases c)
  case (Reserve m p)
  then show ?thesis
    using smemq_reserve_tail_rfq[of smemq_key_init m p q]
    by (cases "smemq_reserve_tail smemq_key_init m p q") (auto simp: renaming)
next
  case (Set_pending d n)
  then show ?thesis using smemq_set_pending_rfq[of "smemq_mk_tok d" n q] by (simp add: renaming)
next
  case (Mark d)
  then show ?thesis
    using smemq_mark_response_rfq[of "smemq_mk_tok d" q]
    by (cases "smemq_mark_response (smemq_mk_tok d) q") (auto simp: renaming)
next
  case Consume
  then show ?thesis using smemq_consume_head_rfq[of smemq_key_init q] by (simp add: renaming)
next
  case (Set_lane d l w v)
  then show ?thesis using smemq_set_lane_value_rfq[of "smemq_mk_tok d" l w v q] by (simp add: renaming)
qed

subsection \<open>The contract, transported\<close>

definition smemq_invar :: "smemq \<Rightarrow> bool" where
  "smemq_invar q = rfq_invar (rfq_of_smemq q)"

definition smemq_abs :: "smemq \<Rightarrow> fifo" where
  "smemq_abs q = rfq_abs (rfq_of_smemq q)"

definition smemq_tok_id :: "smemq_token \<Rightarrow> slot_id" where
  "smemq_tok_id t = rfq_tok_id (rfq_of_token t)"

lemmas smemq_contract_defs = smemq_invar_def smemq_abs_def smemq_tok_id_def

interpretation smemq: token_queue smemq_invar smemq_abs smemq_tok_id st_valid smemq_full smemq_empty
  smemq_head_ready smemq_occupancy smemq_reserve_tail smemq_set_pending_responses
  smemq_has_pending_responses smemq_mark_response smemq_consume_head smemq_set_lane_value
  smemq_head_lane_value smemq_mk_tok smemq_key_init smemq_step
proof unfold_locales
  fix d l w v n m p and q :: smemq
  show "smemq_tok_id (smemq_mk_tok d) = d" "st_valid (smemq_mk_tok d)"
    by (simp_all add: smemq_contract_defs renaming rfq.mk_tok) (simp add: smemq_mk_tok_def)
  show "smemq_step q (Reserve m p) = map_option snd (smemq_reserve_tail smemq_key_init m p q)"
    "smemq_step q (Set_pending d n) = smemq_set_pending_responses (smemq_mk_tok d) n q"
    "smemq_step q (Mark d) = map_option snd (smemq_mark_response (smemq_mk_tok d) q)"
    "smemq_step q Consume = smemq_consume_head smemq_key_init q"
    "smemq_step q (Set_lane d l w v) = smemq_set_lane_value (smemq_mk_tok d) l w v q"
    by simp_all
next
  fix q l w
  assume "smemq_invar q"
  then have i: "rfq_invar (rfq_of_smemq q)" by (simp add: smemq_invar_def)
  show "length (ff_slots (smemq_abs q)) \<le> ff_capacity (smemq_abs q)" "distinct (fifo_ids (smemq_abs q))"
    "smemq_full q \<longleftrightarrow> length (ff_slots (smemq_abs q)) = ff_capacity (smemq_abs q)"
    "smemq_empty q \<longleftrightarrow> ff_slots (smemq_abs q) = []"
    "smemq_head_ready q = Some (case ff_slots (smemq_abs q) of [] \<Rightarrow> False | s # _ \<Rightarrow> fs_pending s = 0)"
    "smemq_occupancy q = length (ff_slots (smemq_abs q))"
    "smemq_head_lane_value l w q = fifo_head_lane l w (smemq_abs q)"
    using rfq.abs_bound[OF i] rfq.abs_distinct[OF i] rfq.full_law[OF i] rfq.empty_law[OF i]
      rfq.head_ready_law[OF i] rfq.occupancy_law[OF i] rfq.head_lane_law[OF i]
    by (simp_all add: smemq_abs_def renaming smemq_head_ready_rfq smemq_head_lane_value_rfq)
next
  fix q k m p q' and t :: smemq_token
  assume "smemq_invar q"
  then have i: "rfq_invar (rfq_of_smemq q)" by (simp add: smemq_invar_def)
  show "map_option (\<lambda>(t, q'). (smemq_tok_id t, smemq_abs q')) (smemq_reserve_tail k m p q) =
      fifo_reserve m p (smemq_abs q)"
    using rfq.reserve_law[OF i, of "rfq_of_key k" m p]
    by (cases "smemq_reserve_tail k m p q")
       (auto simp: smemq_reserve_tail_rfq smemq_contract_defs)
  show "smemq_reserve_tail k m p q = Some (t, q') \<Longrightarrow> smemq_invar q' \<and> st_valid t"
    using rfq.reserve_invar[OF i, of "rfq_of_key k" m p "rfq_of_token t" "rfq_of_smemq q'"]
    by (simp add: smemq_reserve_tail_rfq smemq_contract_defs renaming)
  show "map_option smemq_abs (smemq_consume_head k q) = fifo_consume (smemq_abs q)"
    using rfq.consume_law[OF i, of "rfq_of_key k"]
    by (cases "smemq_consume_head k q") (auto simp: smemq_consume_head_rfq smemq_abs_def)
  show "smemq_consume_head k q = Some q' \<Longrightarrow> smemq_invar q'"
    using rfq.consume_invar[OF i, of "rfq_of_key k" "rfq_of_smemq q'"]
    by (simp add: smemq_consume_head_rfq smemq_invar_def)
next
  fix q b q' s and t :: smemq_token
  assume "smemq_invar q" and "st_valid t"
  then have i: "rfq_invar (rfq_of_smemq q)" and v: "rt_valid (rfq_of_token t)"
    by (simp_all add: smemq_invar_def renaming)
  show "map_option (\<lambda>(b, q'). (b, smemq_abs q')) (smemq_mark_response t q) =
      fifo_mark (smemq_tok_id t) (smemq_abs q)"
    using rfq.mark_law[OF i v]
    by (cases "smemq_mark_response t q") (auto simp: smemq_mark_response_rfq smemq_contract_defs)
  show "smemq_mark_response t q = Some (b, q') \<Longrightarrow> smemq_invar q'"
    using rfq.mark_invar[OF i v, of b "rfq_of_smemq q'"]
    by (simp add: smemq_mark_response_rfq smemq_invar_def)
  show "fifo_get (smemq_tok_id t) (smemq_abs q) = Some s \<Longrightarrow>
      smemq_has_pending_responses t q = Some (0 < fs_pending s)"
    using rfq.has_pending_law[OF i v, of s]
    by (simp add: smemq_has_pending_rfq smemq_contract_defs)
next
  fix q n l w v q' and t :: smemq_token
  assume "smemq_invar q" "st_valid t" "smemq_tok_id t \<in> set (fifo_ids (smemq_abs q))"
  then have a: "rfq_invar (rfq_of_smemq q)" "rt_valid (rfq_of_token t)"
    "rfq_tok_id (rfq_of_token t) \<in> set (fifo_ids (rfq_abs (rfq_of_smemq q)))"
    by (simp_all add: smemq_contract_defs renaming)
  show "map_option smemq_abs (smemq_set_pending_responses t n q) =
      fifo_set_pending (smemq_tok_id t) n (smemq_abs q)"
    using rfq.set_pending_law[OF a, of n]
    by (cases "smemq_set_pending_responses t n q") (auto simp: smemq_set_pending_rfq smemq_contract_defs)
  show "smemq_set_pending_responses t n q = Some q' \<Longrightarrow> smemq_invar q'"
    using rfq.set_pending_invar[OF a, of n "rfq_of_smemq q'"]
    by (simp add: smemq_set_pending_rfq smemq_invar_def)
  show "map_option smemq_abs (smemq_set_lane_value t l w v q) =
      fifo_set_lane (smemq_tok_id t) l w v (smemq_abs q)"
    using rfq.set_lane_law[OF a, of l w v]
    by (cases "smemq_set_lane_value t l w v q") (auto simp: smemq_set_lane_value_rfq smemq_contract_defs)
  show "smemq_set_lane_value t l w v q = Some q' \<Longrightarrow> smemq_invar q'"
    using rfq.set_lane_invar[OF a, of l w v "rfq_of_smemq q'"]
    by (simp add: smemq_set_lane_value_rfq smemq_invar_def)
qed

subsection \<open>Properties\<close>

text \<open>C14. The shared-memory queue is the register-file queue under other names: on every
  sequence of calls, live or not, both fail together or end in corresponding states.\<close>

theorem smemq_equals_rfq:
  "map_option rfq_of_smemq (run_calls smemq_step q cs) = run_calls rfq_step (rfq_of_smemq q) cs"
proof (induction cs arbitrary: q)
  case (Cons c cs)
  then show ?case by (cases "smemq_step q c") (simp_all add: smemq_step_rfq)
qed simp

end
