(* ===== verification/Kernel_Grid.thy ===== *)
theory Kernel_Grid
  imports Prelude
begin

section \<open>Kernels and their grids: \<open>kernel_info_t\<close>\<close>

text \<open>
  \<open>dim3\<close>, \<open>kernel_info_t\<close> (\<open>abstract_hardware_model.h\<close>) and
  \<open>increment_x_then_y_then_z\<close> (\<open>gpu-sim.cc\<close>): how a launched kernel hands out the blocks
  of its grid. Components of \<open>dim3\<close> are \<open>unsigned\<close>: they are \<open>nat\<close> here, the products
  that the code forms of them are wrapped to 32 bits.
\<close>

record dim3 =
  d_x :: nat
  d_y :: nat
  d_z :: nat

definition dim3comp :: "dim3 \<Rightarrow> dim3 \<Rightarrow> bool" where
  "dim3comp a b =
     (if d_z a < d_z b then True
      else if d_y a < d_y b then True
      else if d_x a < d_x b then True
      else False)"

definition increment_x_then_y_then_z :: "dim3 \<Rightarrow> dim3 \<Rightarrow> dim3" where
  "increment_x_then_y_then_z i bound =
     (let i1 = i\<lparr>d_x := d_x i + 1\<rparr> in
      if d_x i1 \<ge> d_x bound then
        let i2 = i1\<lparr>d_x := 0, d_y := d_y i1 + 1\<rparr> in
        if d_y i2 \<ge> d_y bound then
          let i3 = i2\<lparr>d_y := 0\<rparr> in
          if d_z i3 < d_z bound then i3\<lparr>d_z := d_z i3 + 1\<rparr> else i3
        else i2
      else i1)"

text \<open>\<open>gpgpu_ptx_sim_info\<close>: the resources that \<open>ptxas\<close> reported for the kernel.\<close>

record gpgpu_ptx_sim_info =
  pi_lmem :: int
  pi_smem :: int
  pi_cmem :: int
  pi_gmem :: int
  pi_regs :: int
  pi_maxthreads :: nat
  pi_ptx_version :: nat
  pi_sm_target :: nat

record kernel_info =
  ki_uid :: nat
  ki_streamID :: nat
  ki_entry :: gpgpu_ptx_sim_info
  ki_grid_dim :: dim3
  ki_block_dim :: dim3
  ki_next_cta :: dim3
  ki_next_tid :: dim3
  ki_num_cores_running :: nat
  ki_start_cycle :: nat
  ki_end_cycle :: nat
  ki_kernel_TB_latency :: nat
  ki_cache_config_set :: bool

definition inc_running :: "kernel_info \<Rightarrow> kernel_info" where
  "inc_running k = k\<lparr>ki_num_cores_running := ki_num_cores_running k + 1\<rparr>"

definition dec_running :: "kernel_info \<Rightarrow> kernel_info option" where
  "dec_running k = do {
     assert_that (ki_num_cores_running k > 0);
     Some (k\<lparr>ki_num_cores_running := ki_num_cores_running k - 1\<rparr>)
   }"

definition kernel_running :: "kernel_info \<Rightarrow> bool" where
  "kernel_running k \<longleftrightarrow> ki_num_cores_running k > 0"

definition num_blocks :: "kernel_info \<Rightarrow> nat" where
  "num_blocks k =
     wrap32 (wrap32 (d_x (ki_grid_dim k) * d_y (ki_grid_dim k)) * d_z (ki_grid_dim k))"

definition threads_per_cta :: "kernel_info \<Rightarrow> nat" where
  "threads_per_cta k =
     wrap32 (wrap32 (d_x (ki_block_dim k) * d_y (ki_block_dim k)) * d_z (ki_block_dim k))"

definition increment_cta_id :: "kernel_info \<Rightarrow> kernel_info" where
  "increment_cta_id k =
     k\<lparr>ki_next_cta := increment_x_then_y_then_z (ki_next_cta k) (ki_grid_dim k),
       ki_next_tid := \<lparr>d_x = 0, d_y = 0, d_z = 0\<rparr>\<rparr>"

text \<open>\<open>c.x + b.x * c.y + b.x * b.y * c.z\<close>, in 32 bits.\<close>

definition linear_id :: "dim3 \<Rightarrow> dim3 \<Rightarrow> nat" where
  "linear_id c b = wrap32 (d_x c + d_x b * d_y c + d_x b * d_y b * d_z c)"

definition get_next_cta_id_single :: "kernel_info \<Rightarrow> nat" where
  "get_next_cta_id_single k = linear_id (ki_next_cta k) (ki_grid_dim k)"

definition no_more_ctas_to_run :: "kernel_info \<Rightarrow> bool" where
  "no_more_ctas_to_run k \<longleftrightarrow>
     d_x (ki_next_cta k) \<ge> d_x (ki_grid_dim k) \<or> d_y (ki_next_cta k) \<ge> d_y (ki_grid_dim k) \<or>
     d_z (ki_next_cta k) \<ge> d_z (ki_grid_dim k)"

definition kernel_done :: "kernel_info \<Rightarrow> bool" where
  "kernel_done k \<longleftrightarrow> no_more_ctas_to_run k \<and> \<not> kernel_running k"

definition increment_thread_id :: "kernel_info \<Rightarrow> kernel_info" where
  "increment_thread_id k =
     k\<lparr>ki_next_tid := increment_x_then_y_then_z (ki_next_tid k) (ki_block_dim k)\<rparr>"

definition get_next_thread_id :: "kernel_info \<Rightarrow> nat" where
  "get_next_thread_id k = linear_id (ki_next_tid k) (ki_block_dim k)"

definition more_threads_in_cta :: "kernel_info \<Rightarrow> bool" where
  "more_threads_in_cta k \<longleftrightarrow>
     d_z (ki_next_tid k) < d_z (ki_block_dim k) \<and> d_y (ki_next_tid k) < d_y (ki_block_dim k) \<and>
     d_x (ki_next_tid k) < d_x (ki_block_dim k)"

subsection \<open>The order in which a grid is walked\<close>

text \<open>
  A position of the walk is inside the bounds, or it is the end position, where \<open>z\<close> has
  reached its bound and the other components are 0.
\<close>

definition grid_pos :: "dim3 \<Rightarrow> dim3 \<Rightarrow> bool" where
  "grid_pos c b \<longleftrightarrow>
     (d_x c < d_x b \<and> d_y c < d_y b \<and> d_z c < d_z b) \<or> (d_x c = 0 \<and> d_y c = 0 \<and> d_z c = d_z b)"

definition raw_id :: "dim3 \<Rightarrow> dim3 \<Rightarrow> nat" where
  "raw_id c b = d_x c + d_x b * d_y c + d_x b * d_y b * d_z c"

definition grid_volume :: "dim3 \<Rightarrow> nat" where
  "grid_volume b = d_x b * d_y b * d_z b"

lemma raw_id_less:
  assumes "d_x c < d_x b" "d_y c < d_y b" "d_z c < d_z b"
  shows "raw_id c b < grid_volume b"
proof -
  have "d_x c + d_x b * d_y c < d_x b + d_x b * d_y c" using assms(1) by simp
  also have "\<dots> = d_x b * Suc (d_y c)" by simp
  also have "\<dots> \<le> d_x b * d_y b" using assms(2) by (intro mult_le_mono2) simp
  finally have "raw_id c b < d_x b * d_y b + d_x b * d_y b * d_z c" by (simp add: raw_id_def)
  also have "\<dots> = d_x b * d_y b * Suc (d_z c)" by simp
  also have "\<dots> \<le> d_x b * d_y b * d_z b" using assms(3) by (intro mult_le_mono2) simp
  finally show ?thesis by (simp add: grid_volume_def)
qed

lemma increment_step:
  assumes "grid_pos c b" "d_z c < d_z b" "0 < d_x b" "0 < d_y b"
  shows "raw_id (increment_x_then_y_then_z c b) b = Suc (raw_id c b)"
    and "grid_pos (increment_x_then_y_then_z c b) b"
proof -
  have in_b: "d_x c < d_x b" "d_y c < d_y b" using assms by (auto simp: grid_pos_def)
  have carry_x: "d_x b = Suc (d_x c)" if "\<not> Suc (d_x c) < d_x b" using that in_b by simp
  have carry_y: "d_y b = Suc (d_y c)" if "\<not> Suc (d_y c) < d_y b" using that in_b by simp
  show "raw_id (increment_x_then_y_then_z c b) b = Suc (raw_id c b)"
  proof (cases "Suc (d_x c) < d_x b \<or> Suc (d_y c) < d_y b")
    case True
    then show ?thesis
      using in_b assms(2) carry_x
      by (auto simp: raw_id_def increment_x_then_y_then_z_def Let_def algebra_simps)
  next
    case False
    then have "d_x b = Suc (d_x c)" "d_y b = Suc (d_y c)" using carry_x carry_y by auto
    then show ?thesis
      using assms(2) by (simp add: raw_id_def increment_x_then_y_then_z_def Let_def algebra_simps)
  qed
  show "grid_pos (increment_x_then_y_then_z c b) b"
    using in_b assms
    by (auto simp: grid_pos_def increment_x_then_y_then_z_def Let_def)
qed

lemma raw_id_end_iff:
  assumes "grid_pos c b" "0 < d_x b" "0 < d_y b"
  shows "d_z c < d_z b \<longleftrightarrow> raw_id c b < grid_volume b"
  using assms raw_id_less[of c b]
  by (auto simp: grid_pos_def raw_id_def grid_volume_def)

definition zero3 :: dim3 where
  "zero3 = \<lparr>d_x = 0, d_y = 0, d_z = 0\<rparr>"

lemma walk_position:
  assumes "0 < d_x b" "0 < d_y b" "n \<le> grid_volume b"
  shows "grid_pos (((\<lambda>c. increment_x_then_y_then_z c b) ^^ n) zero3) b \<and>
    raw_id (((\<lambda>c. increment_x_then_y_then_z c b) ^^ n) zero3) b = n"
  using assms(3)
proof (induction n)
  case 0
  show ?case using assms(1,2) by (auto simp: grid_pos_def zero3_def raw_id_def)
next
  case (Suc n)
  then have IH: "grid_pos (((\<lambda>c. increment_x_then_y_then_z c b) ^^ n) zero3) b"
    "raw_id (((\<lambda>c. increment_x_then_y_then_z c b) ^^ n) zero3) b = n" by simp_all
  with Suc.prems have "d_z (((\<lambda>c. increment_x_then_y_then_z c b) ^^ n) zero3) < d_z b"
    by (simp add: raw_id_end_iff[OF IH(1) assms(1,2)])
  then show ?case using increment_step[OF IH(1) _ assms(1,2)] IH(2) by simp
qed

lemma increment_cta_id_walk:
  "ki_next_cta ((increment_cta_id ^^ n) k) =
     ((\<lambda>c. increment_x_then_y_then_z c (ki_grid_dim k)) ^^ n) (ki_next_cta k) \<and>
   ki_grid_dim ((increment_cta_id ^^ n) k) = ki_grid_dim k"
  by (induction n) (simp_all add: increment_cta_id_def)

lemma num_blocks_volume:
  "grid_volume (ki_grid_dim k) < 2 ^ 32 \<Longrightarrow> num_blocks k = grid_volume (ki_grid_dim k)"
  by (simp add: num_blocks_def wrap32_def grid_volume_def mod_mult_left_eq)

lemma at_end_iff:
  assumes "grid_pos c b" "0 < d_x b" "0 < d_y b"
  shows "(d_x c \<ge> d_x b \<or> d_y c \<ge> d_y b \<or> d_z c \<ge> d_z b) \<longleftrightarrow> raw_id c b = grid_volume b"
  using assms raw_id_less[of c b] by (auto simp: grid_pos_def raw_id_def grid_volume_def)

subsection \<open>Properties\<close>

definition small_kernel :: kernel_info where
  "small_kernel = \<lparr>ki_uid = 1, ki_streamID = 0,
     ki_entry = \<lparr>pi_lmem = 0, pi_smem = 0, pi_cmem = 0, pi_gmem = 0, pi_regs = 0,
       pi_maxthreads = 0, pi_ptx_version = 0, pi_sm_target = 0\<rparr>,
     ki_grid_dim = \<lparr>d_x = 3, d_y = 2, d_z = 2\<rparr>, ki_block_dim = \<lparr>d_x = 64, d_y = 1, d_z = 1\<rparr>,
     ki_next_cta = zero3, ki_next_tid = zero3, ki_num_cores_running = 0, ki_start_cycle = 0,
     ki_end_cycle = 0, ki_kernel_TB_latency = 0, ki_cache_config_set = False\<rparr>"

text \<open>C17. A kernel hands out its blocks exactly once and in order: after \<open>n\<close> blocks of a grid
  of fewer than \<open>2 ^ 32\<close> blocks, the next block has linear id \<open>n\<close>, and the kernel reports
  that no block is left if and only if \<open>n\<close> is the number of blocks.\<close>

theorem grid_enumeration:
  assumes "ki_next_cta k = zero3" "0 < d_x (ki_grid_dim k)" "0 < d_y (ki_grid_dim k)"
    and "grid_volume (ki_grid_dim k) < 2 ^ 32" "n \<le> num_blocks k"
  shows "get_next_cta_id_single ((increment_cta_id ^^ n) k) = n \<and>
    (no_more_ctas_to_run ((increment_cta_id ^^ n) k) \<longleftrightarrow> n = num_blocks k)"
proof -
  let ?b = "ki_grid_dim k"
  let ?c = "((\<lambda>c. increment_x_then_y_then_z c ?b) ^^ n) zero3"
  have vol: "num_blocks k = grid_volume ?b" by (rule num_blocks_volume[OF assms(4)])
  with assms(5) have n: "n \<le> grid_volume ?b" by simp
  have pos: "grid_pos ?c ?b" "raw_id ?c ?b = n" using walk_position[OF assms(2,3) n] by simp_all
  have c: "ki_next_cta ((increment_cta_id ^^ n) k) = ?c" "ki_grid_dim ((increment_cta_id ^^ n) k) = ?b"
    using increment_cta_id_walk[of n k] assms(1) by simp_all
  have "wrap32 n = n" using n assms(4) by (simp add: wrap32_small)
  then show ?thesis
    using at_end_iff[OF pos(1) assms(2,3)] pos(2)
    by (simp add: get_next_cta_id_single_def linear_id_def no_more_ctas_to_run_def c vol
        raw_id_def[symmetric])
qed

theorem grid_enumeration_witness:
  "get_next_cta_id_single ((increment_cta_id ^^ 7) small_kernel) = 7 \<and>
   \<not> no_more_ctas_to_run ((increment_cta_id ^^ 7) small_kernel)"
  using grid_enumeration[of small_kernel 7]
  by (simp add: small_kernel_def num_blocks_def wrap32_def grid_volume_def)

text \<open>\<open>dim3comp\<close>, the comparison of the maps keyed by \<open>dim3\<close>, is not the strict weak
  order that \<open>std::map\<close> requires: it orders some pairs both ways.\<close>

theorem dim3comp_not_asymmetric:
  "\<exists>a b. dim3comp a b \<and> dim3comp b a"
  by (rule exI[of _ "\<lparr>d_x = 0, d_y = 1, d_z = 0\<rparr>"], rule exI[of _ "\<lparr>d_x = 0, d_y = 0, d_z = 1\<rparr>"])
     (simp add: dim3comp_def)

end
