(* ===== verification/Core_Config.thy ===== *)
theory Core_Config
  imports Kernel_Grid
begin

section \<open>The configuration of a core: \<open>shader_core_config\<close>\<close>

text \<open>
  The options of \<open>shader_core_config\<close> that the modelled code reads, the metadata file
  that \<open>init\<close> reads (\<open>shader.h\<close>), and the functions that size the queues
  (\<open>shader.cc\<close>). An \<open>unsigned\<close> product is wrapped once at the end, which is the same
  as wrapping each factor.
\<close>

subsection \<open>Queue metadata\<close>

record queue_metadata =
  md_num_pipeline_stages :: nat
  md_producer_warps_per_cta :: nat
  md_queues_per_original_warp :: nat
  md_payload_words_per_lane :: nat
  md_element_bits :: nat

definition queue_metadata_init :: queue_metadata where
  "queue_metadata_init = \<lparr>md_num_pipeline_stages = 2, md_producer_warps_per_cta = 0,
     md_queues_per_original_warp = 1, md_payload_words_per_lane = 3, md_element_bits = 96\<rparr>"

text \<open>The C library functions the parser uses: \<open>isspace\<close>, \<open>strchr\<close>, \<open>sscanf\<close>.\<close>

definition is_space :: "char \<Rightarrow> bool" where
  "is_space c \<longleftrightarrow> c \<in> {CHR '' '', CHR 0x09, CHR 0x0A, CHR 0x0B, CHR 0x0C, CHR 0x0D}"

definition is_digit :: "char \<Rightarrow> bool" where
  "is_digit c \<longleftrightarrow> 48 \<le> (of_char c :: nat) \<and> (of_char c :: nat) \<le> 57"

definition digit_value :: "char \<Rightarrow> nat" where
  "digit_value c = (of_char c :: nat) - 48"

definition skip_space :: "string \<Rightarrow> string" where
  "skip_space s = dropWhile is_space s"

definition wasp_metadata_trim :: "string \<Rightarrow> string" where
  "wasp_metadata_trim s = rev (dropWhile is_space (rev (dropWhile is_space s)))"

definition decimal_value :: "string \<Rightarrow> nat" where
  "decimal_value ds = foldl (\<lambda>v d. 10 * v + digit_value d) 0 ds"

text \<open>
  The conversion \<open>%u\<close>: white space, an optional sign and digits, read as \<open>strtoul\<close>
  does (64 bits, saturating, negated by a minus sign) and stored into an \<open>unsigned\<close>.
\<close>

definition scan_unsigned :: "string \<Rightarrow> nat option" where
  "scan_unsigned s =
     (let s = skip_space s;
          neg = (s \<noteq> [] \<and> hd s = CHR ''-'');
          s = (if s \<noteq> [] \<and> (hd s = CHR ''-'' \<or> hd s = CHR ''+'') then tl s else s);
          ds = takeWhile is_digit s
      in if ds = [] then None
         else let v = decimal_value ds;
                  u = (if v \<ge> 2 ^ 64 then 2 ^ 64 - 1 else v)
              in Some (wrap32 (if v < 2 ^ 64 \<and> neg \<and> u > 0 then 2 ^ 64 - u else u)))"

text \<open>\<open>sscanf(line, " %127[^=]= %u", lhs, &rhs)\<close>: both conversions, or nothing.\<close>

definition scan_assignment :: "string \<Rightarrow> (string \<times> nat) option" where
  "scan_assignment line =
     (let s = skip_space line;
          lhs = take 127 (takeWhile (\<lambda>c. c \<noteq> CHR ''='') s);
          rest = drop (length lhs) s
      in if lhs = [] \<or> rest = [] \<or> hd rest \<noteq> CHR ''='' then None
         else map_option (\<lambda>v. (lhs, v)) (scan_unsigned (tl rest)))"

definition wasp_parse_metadata_value :: "string \<Rightarrow> string \<Rightarrow> nat \<Rightarrow> nat" where
  "wasp_parse_metadata_value line key old =
     (case scan_assignment line of
        None \<Rightarrow> old
      | Some (lhs, rhs) \<Rightarrow> if wasp_metadata_trim lhs = key then rhs else old)"

definition strip_comment :: "string \<Rightarrow> string" where
  "strip_comment line = takeWhile (\<lambda>c. c \<noteq> CHR ''#'') line"

definition metadata_line :: "string \<Rightarrow> queue_metadata \<Rightarrow> queue_metadata" where
  "metadata_line line0 md =
     (let line = strip_comment line0 in
      \<lparr>md_num_pipeline_stages =
         wasp_parse_metadata_value line ''num_pipeline_stages'' (md_num_pipeline_stages md),
       md_producer_warps_per_cta =
         wasp_parse_metadata_value line ''producer_warps_per_cta'' (md_producer_warps_per_cta md),
       md_queues_per_original_warp =
         wasp_parse_metadata_value line ''queues_per_original_warp'' (md_queues_per_original_warp md),
       md_payload_words_per_lane =
         wasp_parse_metadata_value line ''payload_words_per_lane'' (md_payload_words_per_lane md),
       md_element_bits =
         wasp_parse_metadata_value line ''element_bits'' (md_element_bits md)\<rparr>)"

text \<open>
  The metadata part of \<open>init\<close>, for the lines that \<open>fgets\<close> returned; \<open>None\<close> for
  the file when no file is configured.
\<close>

definition read_metadata :: "string list option \<Rightarrow> nat \<Rightarrow> queue_metadata option" where
  "read_metadata file max_stages = do {
     let md = fold metadata_line (case file of None \<Rightarrow> [] | Some ls \<Rightarrow> ls) queue_metadata_init;
     assert_that (md_num_pipeline_stages md \<le> max_stages);
     assert_that (md_queues_per_original_warp md > 0);
     assert_that (md_payload_words_per_lane md > 0);
     Some md
   }"

subsection \<open>The options\<close>

record shader_core_config =
  sc_warp_size :: nat
  sc_n_thread_per_shader :: nat
  sc_max_cta_per_core :: nat
  sc_gpgpu_shmem_size :: nat
  sc_gpgpu_shader_registers :: nat
  sc_n_simt_clusters :: nat
  sc_n_simt_cores_per_cluster :: nat
  sc_gpgpu_concurrent_kernel_sm :: bool
  sc_gpgpu_ignore_resources_limitation :: bool
  sc_adaptive_cache_config :: bool
  sc_shmem_opt_list :: "nat list"
  sc_unified_cache_size :: nat
  sc_gpgpu_wasp_enable :: bool
  sc_gpgpu_wasp_rfq_enable :: bool
  sc_gpgpu_wasp_rfq_count_register_pressure :: bool
  sc_gpgpu_wasp_rfq_entries :: nat
  sc_gpgpu_wasp_rfq_model_data :: bool
  sc_gpgpu_wasp_pc_coissue_enable :: bool
  sc_wasp_metadata :: queue_metadata
  sc_gpgpu_smemq_enable :: bool
  sc_gpgpu_smemq_entries :: nat
  sc_gpgpu_smemq_model_data :: bool
  sc_smemq_metadata :: queue_metadata
  sc_sub_core_model :: bool
  sc_max_warps_per_shader :: nat
  sc_max_barriers_per_cta :: nat
  sc_gpgpu_max_insn_issue_per_warp :: nat
  sc_gpgpu_dual_issue_diff_exec_units :: bool
  sc_gpgpu_num_sp_units :: nat
  sc_gpgpu_num_dp_units :: nat
  sc_gpgpu_num_int_units :: nat
  sc_gpgpu_num_tensor_core_units :: nat
  sc_gpgpu_num_sfu_units :: nat
  sc_specialized_unit_num :: "nat list"

definition num_shader :: "shader_core_config \<Rightarrow> nat" where
  "num_shader c = wrap32 (sc_n_simt_clusters c * sc_n_simt_cores_per_cluster c)"

text \<open>A division by zero has no result in C++.\<close>

definition sid_to_cluster :: "shader_core_config \<Rightarrow> nat \<Rightarrow> nat option" where
  "sid_to_cluster c sid = do {
     assert_that (sc_n_simt_cores_per_cluster c \<noteq> 0);
     Some (sid div sc_n_simt_cores_per_cluster c) }"

definition sid_to_cid :: "shader_core_config \<Rightarrow> nat \<Rightarrow> nat option" where
  "sid_to_cid c sid = do {
     assert_that (sc_n_simt_cores_per_cluster c \<noteq> 0);
     Some (sid mod sc_n_simt_cores_per_cluster c) }"

definition cid_to_sid :: "shader_core_config \<Rightarrow> nat \<Rightarrow> nat \<Rightarrow> nat" where
  "cid_to_sid c cid cluster_id = wrap32 (cluster_id * sc_n_simt_cores_per_cluster c + cid)"

subsection \<open>Sizes of the queues\<close>

definition padded_cta_size :: "shader_core_config \<Rightarrow> kernel_info \<Rightarrow> nat option" where
  "padded_cta_size c k = do {
     assert_that (sc_warp_size c \<noteq> 0);
     let t = threads_per_cta k;
     Some (if t mod sc_warp_size c \<noteq> 0 then wrap32 ((t div sc_warp_size c + 1) * sc_warp_size c) else t)
   }"

definition producer_warps_per_cta :: "queue_metadata \<Rightarrow> shader_core_config \<Rightarrow> kernel_info \<Rightarrow> nat option" where
  "producer_warps_per_cta md c k = do {
     padded \<leftarrow> padded_cta_size c k;
     let warps_per_cta = padded div sc_warp_size c;
     (if md_producer_warps_per_cta md > 0 then do {
        assert_that (md_producer_warps_per_cta md < warps_per_cta);
        Some (md_producer_warps_per_cta md)
      } else do {
        let producer_warps = warps_per_cta div 2;
        Some (if producer_warps \<noteq> 0 then producer_warps else 1)
      })
   }"

definition wasp_rfq_producer_warps_per_cta :: "shader_core_config \<Rightarrow> kernel_info \<Rightarrow> nat option" where
  "wasp_rfq_producer_warps_per_cta c k = producer_warps_per_cta (sc_wasp_metadata c) c k"

definition wasp_rfq_payload_words_per_lane :: "shader_core_config \<Rightarrow> nat" where
  "wasp_rfq_payload_words_per_lane c =
     (if md_payload_words_per_lane (sc_wasp_metadata c) \<noteq> 0
      then md_payload_words_per_lane (sc_wasp_metadata c) else 1)"

definition wasp_rfq_queues_per_original_warp :: "shader_core_config \<Rightarrow> nat" where
  "wasp_rfq_queues_per_original_warp c =
     (if md_queues_per_original_warp (sc_wasp_metadata c) \<noteq> 0
      then md_queues_per_original_warp (sc_wasp_metadata c) else 1)"

definition wasp_rfq_regs_per_cta :: "shader_core_config \<Rightarrow> kernel_info \<Rightarrow> nat option" where
  "wasp_rfq_regs_per_cta c k =
     (if \<not> (sc_gpgpu_wasp_enable c \<and> sc_gpgpu_wasp_rfq_enable c \<and>
            sc_gpgpu_wasp_rfq_count_register_pressure c)
      then Some 0
      else do {
        p \<leftarrow> wasp_rfq_producer_warps_per_cta c k;
        Some (wrap32 (p * wasp_rfq_queues_per_original_warp c * sc_gpgpu_wasp_rfq_entries c *
          wasp_rfq_payload_words_per_lane c * sc_warp_size c))
      })"

definition wasp_rfq_metadata_bits_per_cta :: "shader_core_config \<Rightarrow> kernel_info \<Rightarrow> nat option" where
  "wasp_rfq_metadata_bits_per_cta c k =
     (if \<not> (sc_gpgpu_wasp_enable c \<and> sc_gpgpu_wasp_rfq_enable c) then Some 0
      else do {
        p \<leftarrow> wasp_rfq_producer_warps_per_cta c k;
        Some (wrap32 (p * wasp_rfq_queues_per_original_warp c * 128))
      })"

definition smemq_producer_warps_per_cta :: "shader_core_config \<Rightarrow> kernel_info \<Rightarrow> nat option" where
  "smemq_producer_warps_per_cta c k = producer_warps_per_cta (sc_smemq_metadata c) c k"

definition smemq_payload_words_per_lane :: "shader_core_config \<Rightarrow> nat" where
  "smemq_payload_words_per_lane c =
     (if md_payload_words_per_lane (sc_smemq_metadata c) \<noteq> 0
      then md_payload_words_per_lane (sc_smemq_metadata c) else 1)"

definition smemq_queues_per_original_warp :: "shader_core_config \<Rightarrow> nat" where
  "smemq_queues_per_original_warp c =
     (if md_queues_per_original_warp (sc_smemq_metadata c) \<noteq> 0
      then md_queues_per_original_warp (sc_smemq_metadata c) else 1)"

definition smemq_shared_bytes_per_cta :: "shader_core_config \<Rightarrow> kernel_info \<Rightarrow> nat option" where
  "smemq_shared_bytes_per_cta c k =
     (if \<not> sc_gpgpu_smemq_enable c then Some 0
      else do {
        p \<leftarrow> smemq_producer_warps_per_cta c k;
        Some (wrap32 (p * smemq_queues_per_original_warp c * sc_gpgpu_smemq_entries c *
          smemq_payload_words_per_lane c * sc_warp_size c * 4))
      })"

definition smemq_metadata_bits_per_cta :: "shader_core_config \<Rightarrow> kernel_info \<Rightarrow> nat option" where
  "smemq_metadata_bits_per_cta c k =
     (if \<not> sc_gpgpu_smemq_enable c then Some 0
      else do {
        p \<leftarrow> smemq_producer_warps_per_cta c k;
        Some (wrap32 (p * smemq_queues_per_original_warp c * 128))
      })"

subsection \<open>Facts\<close>

lemma padded_cta_size_bound:
  assumes "padded_cta_size c k = Some p" "threads_per_cta k + sc_warp_size c < 2 ^ 32"
  shows "threads_per_cta k \<le> p \<and> p < threads_per_cta k + sc_warp_size c \<and> p mod sc_warp_size c = 0"
proof -
  let ?t = "threads_per_cta k" and ?w = "sc_warp_size c"
  have w: "0 < ?w" using assms(1) by (auto simp: padded_cta_size_def split: if_splits)
  have d: "?t div ?w * ?w \<le> ?t" "?t < ?t div ?w * ?w + ?w" "?t mod ?w = 0 \<longrightarrow> ?t div ?w * ?w = ?t"
    using dividend_less_div_times[OF w, of ?t] by (simp_all add: add.commute) (metis add.right_neutral div_mult_mod_eq)
  show ?thesis
  proof (cases "?t mod ?w = 0")
    case True
    then show ?thesis using assms(1) w by (simp add: padded_cta_size_def)
  next
    case False
    then have "?t div ?w * ?w < ?t" using d(1) by (metis le_neq_implies_less mod_mult_self2_is_0)
    moreover from False have "p = wrap32 (?t div ?w * ?w + ?w)"
      using assms(1) w by (simp add: padded_cta_size_def algebra_simps)
    ultimately show ?thesis using d(1,2) assms(2) by (simp add: wrap32_small)
  qed
qed

end
