(* ===== verification/Cta_Resources.thy ===== *)
theory Cta_Resources
  imports Core_Config Inst_Model
begin

section \<open>How many CTAs a core holds\<close>

text \<open>
  \<open>shader_core_config::max_cta\<close> (\<open>shader.cc\<close>), which computes from the resources of a
  kernel how many of its CTAs fit on a core, the queues included; and the bookkeeping for
  several kernels on one core (\<open>gpu-sim.cc\<close>): \<open>find_available_hwtid\<close>,
  \<open>occupy_shader_resource_1block\<close>, \<open>release_shader_resource_1block\<close>.
\<close>

definition MAX_CTA_PER_SHADER :: nat where
  "MAX_CTA_PER_SHADER = 32"

text \<open>An \<open>int\<close> converted to \<open>unsigned\<close>; a register count rounded up to a multiple of 4.\<close>

definition u_of_int :: "int \<Rightarrow> nat" where
  "u_of_int i = nat (i mod 2 ^ 32)"

definition rounded_regs :: "int \<Rightarrow> int" where
  "rounded_regs r = (r + 3) AND NOT 3"

subsection \<open>\<open>max_cta\<close>\<close>

record cta_limits =
  cl_threads :: nat
  cl_shmem_before_smemq :: nat
  cl_shmem :: nat
  cl_regs_before_rfq :: nat
  cl_regs :: nat
  cl_cta :: nat

definition cta_limits_of :: "shader_core_config \<Rightarrow> kernel_info \<Rightarrow> cta_limits option" where
  "cta_limits_of c k = do {
     assert_that (\<not> (sc_gpgpu_wasp_enable c \<and> sc_gpgpu_wasp_rfq_enable c \<and> sc_gpgpu_smemq_enable c));
     padded \<leftarrow> padded_cta_size c k;
     assert_that (padded \<noteq> 0);
     let result_thread = sc_n_thread_per_shader c div padded;
     let smem = pi_smem (ki_entry k);
     smemq_shared_bytes \<leftarrow> smemq_shared_bytes_per_cta c k;
     let total_smem_per_cta = wrap32 (u_of_int smem + smemq_shared_bytes);
     let result_shmem_before_smemq =
       (if smem > 0 then sc_gpgpu_shmem_size c div u_of_int smem else UINT_MAX);
     let result_shmem =
       (if total_smem_per_cta > 0 then sc_gpgpu_shmem_size c div total_smem_per_cta else UINT_MAX);
     let normal_regs_per_cta =
       (if pi_regs (ki_entry k) > 0
        then wrap32 (padded * u_of_int (rounded_regs (pi_regs (ki_entry k)))) else 0);
     rfq_regs_per_cta \<leftarrow> wasp_rfq_regs_per_cta c k;
     let regs_per_cta = wrap32 (normal_regs_per_cta + rfq_regs_per_cta);
     let result_regs_before_rfq =
       (if normal_regs_per_cta > 0 then sc_gpgpu_shader_registers c div normal_regs_per_cta else UINT_MAX);
     let result_regs =
       (if regs_per_cta > 0 then sc_gpgpu_shader_registers c div regs_per_cta else UINT_MAX);
     Some \<lparr>cl_threads = result_thread, cl_shmem_before_smemq = result_shmem_before_smemq,
       cl_shmem = result_shmem, cl_regs_before_rfq = result_regs_before_rfq,
       cl_regs = result_regs, cl_cta = sc_max_cta_per_core c\<rparr>
   }"

definition limits_result :: "cta_limits \<Rightarrow> nat" where
  "limits_result l = min (min (min (cl_threads l) (cl_shmem l)) (cl_regs l)) (cl_cta l)"

definition limits_before_rfq :: "cta_limits \<Rightarrow> nat" where
  "limits_before_rfq l = min (min (min (cl_threads l) (cl_shmem l)) (cl_regs_before_rfq l)) (cl_cta l)"

definition limits_before_smemq :: "cta_limits \<Rightarrow> nat" where
  "limits_before_smemq l = min (min (min (cl_threads l) (cl_shmem_before_smemq l)) (cl_regs l)) (cl_cta l)"

text \<open>
  The choice of a shared memory carve-out by the adaptive cache configuration: the first
  option that holds the shared memory of the resident CTAs. The new associativity of the L1
  cache, which the code computes from the option in floating point, belongs to the cache
  model and is represented by the option chosen.
\<close>

definition adaptive_option :: "shader_core_config \<Rightarrow> nat \<Rightarrow> nat option" where
  "adaptive_option c total_shmem = do {
     assert_that (sc_shmem_opt_list c \<noteq> [] \<and> total_shmem \<le> last (sc_shmem_opt_list c));
     opt \<leftarrow> List.find (\<lambda>o'. total_shmem \<le> o') (sc_shmem_opt_list c);
     assert_that (wrap32 (sc_unified_cache_size c * 1024) \<noteq> 0);
     assert_that (opt \<le> wrap32 (sc_unified_cache_size c * 1024));
     Some opt
   }"

text \<open>The result, and the carve-out when the call chose one, which it does once per kernel.\<close>

definition max_cta :: "shader_core_config \<Rightarrow> kernel_info \<Rightarrow> (nat \<times> nat option \<times> kernel_info) option" where
  "max_cta c k = do {
     l \<leftarrow> cta_limits_of c k;
     let result = limits_result l;
     let result =
       (if num_blocks k < wrap32 (result * num_shader c)
        then num_blocks k div num_shader c + (if num_blocks k mod num_shader c \<noteq> 0 then 1 else 0)
        else result);
     assert_that (result \<le> MAX_CTA_PER_SHADER);
     (if result < 1 then do {
        assert_that (sc_gpgpu_ignore_resources_limitation c);
        Some (1, None, k)
      } else if sc_adaptive_cache_config c \<and> \<not> ki_cache_config_set k then do {
        opt \<leftarrow> adaptive_option c (wrap32 (u_of_int (pi_smem (ki_entry k)) * result));
        Some (result, Some opt, k\<lparr>ki_cache_config_set := True\<rparr>)
      } else Some (result, None, k))
   }"

text \<open>\<open>set_max_cta\<close>: the values that the local memory mapping and the dispatch use.\<close>

definition set_max_cta :: "shader_core_config \<Rightarrow> kernel_info \<Rightarrow> (nat \<times> nat \<times> kernel_info) option" where
  "set_max_cta c k = do {
     (kernel_max_cta_per_shader, opt, k') \<leftarrow> max_cta c k;
     kernel_padded_threads_per_cta \<leftarrow> padded_cta_size c k';
     Some (kernel_max_cta_per_shader, kernel_padded_threads_per_cta, k')
   }"

subsection \<open>Several kernels on one core\<close>

record occupancy =
  oc_n_threads :: nat
  oc_shmem :: nat
  oc_regs :: nat
  oc_ctas :: nat
  oc_hwtid :: "nat \<Rightarrow> bool"
  oc_cta_to_hwtid :: "nat \<Rightarrow> nat option"

definition occupancy_init :: occupancy where
  "occupancy_init = \<lparr>oc_n_threads = 0, oc_shmem = 0, oc_regs = 0, oc_ctas = 0,
     oc_hwtid = (\<lambda>_. False), oc_cta_to_hwtid = Map.empty\<rparr>"

text \<open>
  The scan of one range of hardware threads: true when it ends without meeting an occupied
  thread. \<open>test\<close> beyond the bit set of \<open>MAX_THREAD_PER_SM\<close> bits throws.
\<close>

fun scan_hwtids :: "(nat \<Rightarrow> bool) \<Rightarrow> nat \<Rightarrow> nat \<Rightarrow> bool option" where
  "scan_hwtids occ tid 0 = Some True"
| "scan_hwtids occ tid (Suc n) =
     (if tid \<ge> MAX_THREAD_PER_SM then None
      else if occ tid then Some False
      else scan_hwtids occ (Suc tid) n)"

function find_hwtid_from :: "(nat \<Rightarrow> bool) \<Rightarrow> nat \<Rightarrow> nat \<Rightarrow> nat \<Rightarrow> nat option option" where
  "find_hwtid_from occ n cta_size step =
     (if step \<ge> n then Some None
      else case scan_hwtids occ step cta_size of
             None \<Rightarrow> None
           | Some True \<Rightarrow> Some (Some step)
           | Some False \<Rightarrow> find_hwtid_from occ n cta_size (step + cta_size))"
  by pat_completeness auto
termination
proof (relation "measure (\<lambda>(occ, n, cta_size, step). n - step)", goal_cases)
  case (2 occ n cta_size step x2)
  then show ?case by (cases cta_size) auto
qed simp

declare find_hwtid_from.simps [simp del]

text \<open>\<open>None\<close> of the inner option is the result \<open>-1\<close>.\<close>

definition find_available_hwtid ::
  "shader_core_config \<Rightarrow> nat \<Rightarrow> bool \<Rightarrow> occupancy \<Rightarrow> (nat option \<times> occupancy) option" where
  "find_available_hwtid c cta_size occupy oc = do {
     r \<leftarrow> find_hwtid_from (oc_hwtid oc) (sc_n_thread_per_shader c) cta_size 0;
     (case r of
        None \<Rightarrow> Some (None, oc)
      | Some step \<Rightarrow> Some (Some step,
          if occupy then oc\<lparr>oc_hwtid := (\<lambda>t. oc_hwtid oc t \<or> step \<le> t \<and> t < step + cta_size)\<rparr> else oc))
   }"

text \<open>What one CTA of a kernel takes of the shared memory and of the registers.\<close>

definition cta_shmem :: "shader_core_config \<Rightarrow> kernel_info \<Rightarrow> nat option" where
  "cta_shmem c k = do {
     q \<leftarrow> smemq_shared_bytes_per_cta c k;
     Some (wrap32 (u_of_int (pi_smem (ki_entry k)) + q))
   }"

definition cta_regs :: "shader_core_config \<Rightarrow> kernel_info \<Rightarrow> nat option" where
  "cta_regs c k = do {
     padded \<leftarrow> padded_cta_size c k;
     q \<leftarrow> wasp_rfq_regs_per_cta c k;
     Some (wrap32 (padded * u_of_int (rounded_regs (pi_regs (ki_entry k))) + q))
   }"

definition occupy_shader_resource_1block ::
  "shader_core_config \<Rightarrow> kernel_info \<Rightarrow> bool \<Rightarrow> occupancy \<Rightarrow> (bool \<times> occupancy) option" where
  "occupy_shader_resource_1block c k occupy oc = do {
     padded \<leftarrow> padded_cta_size c k;
     (if wrap32 (oc_n_threads oc + padded) > sc_n_thread_per_shader c then Some (False, oc) else do {
       (t, _) \<leftarrow> find_available_hwtid c padded False oc;
       (if t = None then Some (False, oc) else do {
         smem \<leftarrow> cta_shmem c k;
         (if wrap32 (oc_shmem oc + smem) > sc_gpgpu_shmem_size c then Some (False, oc) else do {
           used_regs \<leftarrow> cta_regs c k;
           (if wrap32 (oc_regs oc + used_regs) > sc_gpgpu_shader_registers c then Some (False, oc)
            else if wrap32 (oc_ctas oc + 1) > sc_max_cta_per_core c then Some (False, oc)
            else Some (True, if occupy
              then oc\<lparr>oc_n_threads := wrap32 (oc_n_threads oc + padded),
                oc_shmem := wrap32 (oc_shmem oc + smem),
                oc_regs := wrap32 (oc_regs oc + used_regs), oc_ctas := wrap32 (oc_ctas oc + 1)\<rparr>
              else oc))
         })
       })
     })
   }"

definition can_issue_1block ::
  "shader_core_config \<Rightarrow> nat \<Rightarrow> occupancy \<Rightarrow> kernel_info \<Rightarrow> (bool \<times> kernel_info) option" where
  "can_issue_1block c n_active_cta oc k =
     (if sc_gpgpu_concurrent_kernel_sm c then do {
        (m, opt, k') \<leftarrow> max_cta c k;
        (if m < 1 then Some (False, k') else do {
           (b, _) \<leftarrow> occupy_shader_resource_1block c k' False oc;
           Some (b, k')
         })
      } else do {
        (m, opt, k') \<leftarrow> max_cta c k;
        Some (n_active_cta < m, k')
      })"

definition release_shader_resource_1block ::
  "shader_core_config \<Rightarrow> nat \<Rightarrow> kernel_info \<Rightarrow> occupancy \<Rightarrow> occupancy option" where
  "release_shader_resource_1block c hw_ctaid k oc =
     (if sc_gpgpu_concurrent_kernel_sm c then do {
        padded \<leftarrow> padded_cta_size c k;
        assert_that (oc_n_threads oc \<ge> padded);
        let start_thread = (case oc_cta_to_hwtid oc hw_ctaid of Some t \<Rightarrow> t | None \<Rightarrow> 0);
        assert_that (start_thread + padded \<le> MAX_THREAD_PER_SM \<or> padded = 0);
        smem \<leftarrow> cta_shmem c k;
        assert_that (oc_shmem oc \<ge> smem);
        used_regs \<leftarrow> cta_regs c k;
        assert_that (oc_regs oc \<ge> used_regs);
        assert_that (oc_ctas oc \<ge> 1);
        Some (oc\<lparr>oc_n_threads := oc_n_threads oc - padded,
          oc_hwtid := (\<lambda>t. oc_hwtid oc t \<and> \<not> (start_thread \<le> t \<and> t < start_thread + padded)),
          oc_cta_to_hwtid := (oc_cta_to_hwtid oc)(hw_ctaid := None),
          oc_shmem := oc_shmem oc - smem, oc_regs := oc_regs oc - used_regs,
          oc_ctas := oc_ctas oc - 1\<rparr>)
      } else Some oc)"

subsection \<open>Facts about \<open>max_cta\<close>\<close>

lemma rounded_regs_zero: "rounded_regs 0 = 0"
  by (simp add: rounded_regs_def)

lemma u_of_int_bounds: "u_of_int i < 2 ^ 32" "0 < i \<Longrightarrow> i < 2 ^ 31 \<Longrightarrow> 0 < u_of_int i" "u_of_int 0 = 0"
  by (simp_all add: u_of_int_def)

lemma min4_le:
  "limits_result l \<le> cl_threads l" "limits_result l \<le> cl_shmem l" "limits_result l \<le> cl_regs l"
  "limits_result l \<le> cl_cta l"
  by (simp_all add: limits_result_def)

lemma less_Suc_div_mult: "0 < b \<Longrightarrow> a < Suc (a div b) * b" for a b :: nat
  using dividend_less_div_times[of b a] by simp

lemma mult_le_of_div: "n \<le> a div b \<Longrightarrow> n * b \<le> a" for n a b :: nat
  by (meson div_times_less_eq_dividend le_trans mult_le_mono1)

lemma nested_if_Some: "(if a then if b then Some x else None else None) = Some y \<Longrightarrow> y = x"
  by (simp split: if_splits)

text \<open>The limits, in terms of what one CTA takes.\<close>

definition normal_regs_per_cta :: "nat \<Rightarrow> kernel_info \<Rightarrow> nat" where
  "normal_regs_per_cta padded k = (if pi_regs (ki_entry k) > 0
     then wrap32 (padded * u_of_int (rounded_regs (pi_regs (ki_entry k)))) else 0)"

definition limits_record :: "shader_core_config \<Rightarrow> kernel_info \<Rightarrow> nat \<Rightarrow> nat \<Rightarrow> nat \<Rightarrow> cta_limits" where
  "limits_record c k padded q r = \<lparr>cl_threads = sc_n_thread_per_shader c div padded,
      cl_shmem_before_smemq = (if pi_smem (ki_entry k) > 0
        then sc_gpgpu_shmem_size c div u_of_int (pi_smem (ki_entry k)) else UINT_MAX),
      cl_shmem = (let s = wrap32 (u_of_int (pi_smem (ki_entry k)) + q) in
        if s > 0 then sc_gpgpu_shmem_size c div s else UINT_MAX),
      cl_regs_before_rfq = (if normal_regs_per_cta padded k > 0
        then sc_gpgpu_shader_registers c div normal_regs_per_cta padded k else UINT_MAX),
      cl_regs = (let g = wrap32 (normal_regs_per_cta padded k + r) in
        if g > 0 then sc_gpgpu_shader_registers c div g else UINT_MAX),
      cl_cta = sc_max_cta_per_core c\<rparr>"

lemma cta_limits_of_eq:
  assumes "padded_cta_size c k = Some padded" "smemq_shared_bytes_per_cta c k = Some q"
    and "wasp_rfq_regs_per_cta c k = Some r"
  shows "cta_limits_of c k =
    (if \<not> (sc_gpgpu_wasp_enable c \<and> sc_gpgpu_wasp_rfq_enable c \<and> sc_gpgpu_smemq_enable c)
     then if padded \<noteq> 0 then Some (limits_record c k padded q r) else None else None)"
  unfolding cta_limits_of_def assms bind.bind_lunit Let_def bind_assert_that limits_record_def
    normal_regs_per_cta_def ..

lemma cta_limits_of_Some:
  assumes "cta_limits_of c k = Some l"
  obtains padded q r where "padded_cta_size c k = Some padded" "padded \<noteq> 0"
    "smemq_shared_bytes_per_cta c k = Some q" "wasp_rfq_regs_per_cta c k = Some r"
    "l = limits_record c k padded q r"
    "\<not> (sc_gpgpu_wasp_enable c \<and> sc_gpgpu_wasp_rfq_enable c \<and> sc_gpgpu_smemq_enable c)"
proof -
  obtain padded q r where p: "padded_cta_size c k = Some padded"
    and q: "smemq_shared_bytes_per_cta c k = Some q" and r: "wasp_rfq_regs_per_cta c k = Some r"
    using assms by (auto simp: cta_limits_of_def Let_def split: bind_splits if_splits)
  then show ?thesis using assms that[of padded q r] by (auto simp: cta_limits_of_eq split: if_splits)
qed

lemma cta_limits_ofD:
  assumes "cta_limits_of c k = Some l" "0 \<le> pi_regs (ki_entry k)"
  obtains padded smem regs where
    "padded_cta_size c k = Some padded" "padded \<noteq> 0" "cta_shmem c k = Some smem" "cta_regs c k = Some regs"
    "cl_threads l = sc_n_thread_per_shader c div padded"
    "cl_shmem l = (if smem > 0 then sc_gpgpu_shmem_size c div smem else UINT_MAX)"
    "cl_regs l = (if regs > 0 then sc_gpgpu_shader_registers c div regs else UINT_MAX)"
    "cl_cta l = sc_max_cta_per_core c"
proof -
  obtain padded q r where p: "padded_cta_size c k = Some padded" "padded \<noteq> 0"
    and q: "smemq_shared_bytes_per_cta c k = Some q" and r: "wasp_rfq_regs_per_cta c k = Some r"
    and l: "l = limits_record c k padded q r"
    by (rule cta_limits_of_Some[OF assms(1)])
  let ?regs = "wrap32 (padded * u_of_int (rounded_regs (pi_regs (ki_entry k))) + r)"
  have "pi_regs (ki_entry k) > 0 \<or> pi_regs (ki_entry k) = 0" using assms(2) by auto
  then have "wrap32 (normal_regs_per_cta padded k + r) = ?regs"
    by (auto simp: normal_regs_per_cta_def wrap32_def mod_simps rounded_regs_zero u_of_int_bounds)
  with p q r show ?thesis
    by (intro that[of padded "wrap32 (u_of_int (pi_smem (ki_entry k)) + q)" ?regs])
       (simp_all add: cta_shmem_def cta_regs_def l limits_record_def Let_def)
qed

lemma max_ctaD:
  assumes "max_cta c k = Some (n, opt, k')" "\<not> sc_gpgpu_ignore_resources_limitation c"
  obtains l where "cta_limits_of c k = Some l" "1 \<le> n" "n \<le> MAX_CTA_PER_SHADER"
    "n \<le> limits_result l" "n = limits_result l \<or>
      num_blocks k < wrap32 (limits_result l * num_shader c) \<and> num_blocks k \<le> n * num_shader c"
proof -
  obtain l where l: "cta_limits_of c k = Some l"
    using assms(1) by (auto simp: max_cta_def split: bind_splits)
  let ?r = "limits_result l" and ?s = "num_shader c" and ?b = "num_blocks k"
  let ?q = "?b div ?s + (if ?b mod ?s \<noteq> 0 then 1 else 0)"
  have n: "n = (if ?b < wrap32 (?r * ?s) then ?q else ?r)" "1 \<le> n" "n \<le> MAX_CTA_PER_SHADER"
    using assms by (auto simp: max_cta_def l Let_def split: bind_splits if_splits)
  have q: "?q \<le> ?r \<and> ?b \<le> ?q * ?s" if "?b < wrap32 (?r * ?s)"
  proof -
    have lt: "?b < ?r * ?s" using that mod_less_eq_dividend[of "?r * ?s" "2 ^ 32"] by (simp add: wrap32_def)
    then have s: "0 < ?s" by (cases ?s) auto
    have "?b = ?b div ?s * ?s + ?b mod ?s" by simp
    moreover have "?b div ?s < ?r" using lt s by (simp add: div_less_iff_less_mult)
    moreover have "?b mod ?s < ?s" using s by simp
    moreover have "?b \<le> ?b div ?s * ?s + ?s" using calculation(1,3) by linarith
    ultimately show ?thesis by (auto simp: algebra_simps)
  qed
  show ?thesis using that[OF l n(2,3)] n(1) q by (cases "?b < wrap32 (?r * ?s)") auto
qed

subsection \<open>Facts about the occupancy\<close>

lemma scan_hwtids_True:
  "scan_hwtids occ tid n = Some True \<longleftrightarrow>
    (\<forall>t. tid \<le> t \<and> t < tid + n \<longrightarrow> \<not> occ t) \<and> (n = 0 \<or> tid + n \<le> MAX_THREAD_PER_SM)"
proof (induction occ tid n rule: scan_hwtids.induct)
  case (2 occ tid n)
  have "(\<forall>t. tid \<le> t \<and> t < tid + Suc n \<longrightarrow> \<not> occ t) \<longleftrightarrow>
      \<not> occ tid \<and> (\<forall>t. Suc tid \<le> t \<and> t < Suc tid + n \<longrightarrow> \<not> occ t)"
    by (metis Suc_le_eq add_Suc add_Suc_right le_add1 le_eq_less_or_eq less_add_Suc1)
  then show ?case using 2 by auto
next
  case (1 occ tid)
  then show ?case by auto
qed

lemma find_hwtid_from_Some:
  "find_hwtid_from occ n cs step = Some (Some s) \<Longrightarrow>
   s < n \<and> scan_hwtids occ s cs = Some True \<and> step \<le> s \<and> cs dvd (s - step)"
proof (induction occ n cs step rule: find_hwtid_from.induct)
  case (1 occ n cs step)
  show ?case
  proof (cases "n \<le> step \<or> scan_hwtids occ step cs \<noteq> Some False")
    case True
    then show ?thesis
      using "1.prems" by (auto simp: find_hwtid_from.simps[of occ n cs step] split: option.splits bool.splits if_splits)
  next
    case False
    then have "find_hwtid_from occ n cs (step + cs) = Some (Some s)"
      using "1.prems" by (simp add: find_hwtid_from.simps[of occ n cs step])
    with "1.IH"[of False] False have IH: "s < n \<and> scan_hwtids occ s cs = Some True \<and> step + cs \<le> s \<and> cs dvd (s - (step + cs))"
      by simp
    then have "s - step = (s - (step + cs)) + cs" by simp
    with IH show ?thesis by (metis add_leD1 dvd_add dvd_refl)
  qed
qed

lemma occupyD:
  assumes "occupy_shader_resource_1block c k True oc = Some (True, oc')"
  obtains padded smem regs where
    "padded_cta_size c k = Some padded" "cta_shmem c k = Some smem" "cta_regs c k = Some regs"
    "wrap32 (oc_n_threads oc + padded) \<le> sc_n_thread_per_shader c"
    "wrap32 (oc_shmem oc + smem) \<le> sc_gpgpu_shmem_size c"
    "wrap32 (oc_regs oc + regs) \<le> sc_gpgpu_shader_registers c"
    "wrap32 (oc_ctas oc + 1) \<le> sc_max_cta_per_core c"
    "oc' = oc\<lparr>oc_n_threads := wrap32 (oc_n_threads oc + padded), oc_shmem := wrap32 (oc_shmem oc + smem),
      oc_regs := wrap32 (oc_regs oc + regs), oc_ctas := wrap32 (oc_ctas oc + 1)\<rparr>"
  using assms by (auto simp: occupy_shader_resource_1block_def split: bind_splits if_splits prod.splits)

subsection \<open>Properties\<close>

definition h200_config :: shader_core_config where
  "h200_config = \<lparr>sc_warp_size = 32, sc_n_thread_per_shader = 2048, sc_max_cta_per_core = 32,
     sc_gpgpu_shmem_size = 233472, sc_gpgpu_shader_registers = 65536, sc_n_simt_clusters = 132,
     sc_n_simt_cores_per_cluster = 1, sc_gpgpu_concurrent_kernel_sm = False,
     sc_gpgpu_ignore_resources_limitation = False, sc_adaptive_cache_config = True,
     sc_shmem_opt_list = map ((*) 1024) [0, 8, 16, 32, 64, 100, 132, 164, 196, 228], sc_unified_cache_size = 256, sc_gpgpu_wasp_enable = True,
     sc_gpgpu_wasp_rfq_enable = True, sc_gpgpu_wasp_rfq_count_register_pressure = True,
     sc_gpgpu_wasp_rfq_entries = 32, sc_gpgpu_wasp_rfq_model_data = True,
     sc_gpgpu_wasp_pc_coissue_enable = True, sc_wasp_metadata = queue_metadata_init,
     sc_gpgpu_smemq_enable = False, sc_gpgpu_smemq_entries = 0, sc_gpgpu_smemq_model_data = False,
     sc_smemq_metadata = queue_metadata_init, sc_sub_core_model = True, sc_max_warps_per_shader = 64,
     sc_max_barriers_per_cta = 16, sc_gpgpu_max_insn_issue_per_warp = 1,
     sc_gpgpu_dual_issue_diff_exec_units = True, sc_gpgpu_num_sp_units = 4,
     sc_gpgpu_num_dp_units = 4, sc_gpgpu_num_int_units = 4, sc_gpgpu_num_tensor_core_units = 4,
     sc_gpgpu_num_sfu_units = 4, sc_specialized_unit_num = []\<rparr>"

text \<open>A kernel of many CTAs of 256 threads with 24 registers each.\<close>

definition stream_kernel :: kernel_info where
  "stream_kernel = small_kernel\<lparr>
     ki_entry := (ki_entry small_kernel)\<lparr>pi_regs := 24, pi_smem := 0\<rparr>,
     ki_grid_dim := \<lparr>d_x = 4032, d_y = 1, d_z = 1\<rparr>, ki_block_dim := \<lparr>d_x = 256, d_y = 1, d_z = 1\<rparr>\<rparr>"

text \<open>C12. The CTAs that \<open>max_cta\<close> admits fit on the core: their padded threads, their
  shared memory with the queue storage, and their registers with the register-file queues
  stay within the core's resources and the configured limits. And none is left out without
  reason: the result is the smallest of the limits, or enough CTAs for the whole grid.\<close>

theorem max_cta_fits:
  assumes "max_cta c k = Some (n, opt, k')" "\<not> sc_gpgpu_ignore_resources_limitation c"
    and "0 \<le> pi_regs (ki_entry k)"
  shows "\<exists>padded smem regs. padded_cta_size c k = Some padded \<and> cta_shmem c k = Some smem \<and>
    cta_regs c k = Some regs \<and> 1 \<le> n \<and>
    n * padded \<le> sc_n_thread_per_shader c \<and> n * smem \<le> sc_gpgpu_shmem_size c \<and>
    n * regs \<le> sc_gpgpu_shader_registers c \<and> n \<le> sc_max_cta_per_core c \<and>
    n \<le> MAX_CTA_PER_SHADER \<and>
    (sc_n_thread_per_shader c < Suc n * padded \<or> sc_gpgpu_shmem_size c < Suc n * smem \<or>
     sc_gpgpu_shader_registers c < Suc n * regs \<or> n = sc_max_cta_per_core c \<or>
     num_blocks k \<le> n * num_shader c)"
proof -
  obtain l where l: "cta_limits_of c k = Some l" and n: "1 \<le> n" "n \<le> MAX_CTA_PER_SHADER" "n \<le> limits_result l"
    and q: "n = limits_result l \<or>
      num_blocks k < wrap32 (limits_result l * num_shader c) \<and> num_blocks k \<le> n * num_shader c"
    by (rule max_ctaD[OF assms(1,2)])
  obtain padded smem regs where p: "padded_cta_size c k = Some padded" "padded \<noteq> 0"
    and s: "cta_shmem c k = Some smem" and r: "cta_regs c k = Some regs"
    and lims: "cl_threads l = sc_n_thread_per_shader c div padded"
    "cl_shmem l = (if smem > 0 then sc_gpgpu_shmem_size c div smem else UINT_MAX)"
    "cl_regs l = (if regs > 0 then sc_gpgpu_shader_registers c div regs else UINT_MAX)"
    "cl_cta l = sc_max_cta_per_core c"
    by (rule cta_limits_ofD[OF l assms(3)])
  have le: "n \<le> cl_threads l" "n \<le> cl_shmem l" "n \<le> cl_regs l" "n \<le> cl_cta l"
    using n(3) min4_le[of l] by (blast intro: order_trans)+
  have 1: "n * padded \<le> sc_n_thread_per_shader c" using le(1) by (simp add: lims mult_le_of_div)
  have 2: "n * smem \<le> sc_gpgpu_shmem_size c" using le(2) by (cases "smem = 0") (simp_all add: lims mult_le_of_div)
  have 3: "n * regs \<le> sc_gpgpu_shader_registers c" using le(3) by (cases "regs = 0") (simp_all add: lims mult_le_of_div)
  have 4: "n \<le> sc_max_cta_per_core c" using le(4) by (simp add: lims)
  have small: "n < UINT_MAX" using n(2) by (simp add: UINT_MAX_def MAX_CTA_PER_SHADER_def)
  have 5: "sc_n_thread_per_shader c < Suc n * padded \<or> sc_gpgpu_shmem_size c < Suc n * smem \<or>
     sc_gpgpu_shader_registers c < Suc n * regs \<or> n = sc_max_cta_per_core c"
    if "n = limits_result l"
  proof -
    have "n = cl_threads l \<or> n = cl_shmem l \<or> n = cl_regs l \<or> n = cl_cta l"
      using that by (auto simp: limits_result_def min_def split: if_splits)
    then show ?thesis
      using p(2) small less_Suc_div_mult by (auto simp: lims split: if_splits)
  qed
  show ?thesis using p s r n(1,2) 1 2 3 4 5 q by auto
qed

lemmas max_cta_eval = max_cta_def cta_limits_of_def padded_cta_size_def threads_per_cta_def
  num_blocks_def wrap32_def smemq_shared_bytes_per_cta_def wasp_rfq_regs_per_cta_def
  wasp_rfq_producer_warps_per_cta_def producer_warps_per_cta_def queue_metadata_init_def
  wasp_rfq_queues_per_original_warp_def wasp_rfq_payload_words_per_lane_def
  limits_result_def num_shader_def MAX_CTA_PER_SHADER_def UINT_MAX_def u_of_int_def
  rounded_regs_def adaptive_option_def h200_config_def stream_kernel_def small_kernel_def

lemma stream_kernel_max_cta:
  "max_cta h200_config stream_kernel = Some (3, Some 0, stream_kernel\<lparr>ki_cache_config_set := True\<rparr>)"
  by (simp add: max_cta_eval)

theorem max_cta_fits_witness:
  "\<exists>regs. cta_regs h200_config stream_kernel = Some regs \<and> 3 * regs \<le> 65536"
  using max_cta_fits[OF stream_kernel_max_cta]
  by (auto simp: h200_config_def stream_kernel_def small_kernel_def)

text \<open>\<open>max_cta\<close> reproduces the published occupancy of both depth sweeps
  (\<open>results_rfq.md\<close>): the resident CTAs per core for the queue depths 1, 2, 4, 8, 16, 32,
  48, 64, 96, 128, 149 with 32 registers per thread, and for the depths 1, 2, 4, 8, 16, 24, 32,
  40, 48, 64 with 64 registers per thread.\<close>

theorem max_cta_depth_sweep:
  "map (\<lambda>d. map_option fst (max_cta (h200_config\<lparr>sc_gpgpu_wasp_rfq_entries := d\<rparr>)
       (stream_kernel\<lparr>ki_entry := (ki_entry stream_kernel)\<lparr>pi_regs := 32\<rparr>\<rparr>)))
     [1, 2, 4, 8, 16, 32, 48, 64, 96, 128, 149] =
   map Some [7, 7, 6, 5, 4, 3, 2, 2, 1, 1, 1] \<and>
   map (\<lambda>d. map_option fst (max_cta (h200_config\<lparr>sc_gpgpu_wasp_rfq_entries := d\<rparr>)
       (stream_kernel\<lparr>ki_entry := (ki_entry stream_kernel)\<lparr>pi_regs := 64\<rparr>\<rparr>)))
     [1, 2, 4, 8, 16, 24, 32, 40, 48, 64] =
   map Some [3, 3, 3, 3, 2, 2, 2, 2, 1, 1]"
  by (simp add: max_cta_eval)

lemma rfq_off:
  "padded_cta_size (c\<lparr>sc_gpgpu_wasp_rfq_enable := b\<rparr>) k = padded_cta_size c k"
  "smemq_shared_bytes_per_cta (c\<lparr>sc_gpgpu_wasp_rfq_enable := b\<rparr>) k = smemq_shared_bytes_per_cta c k"
  "wasp_rfq_regs_per_cta (c\<lparr>sc_gpgpu_wasp_rfq_enable := False\<rparr>) k = Some 0"
proof -
  show p: "padded_cta_size (c\<lparr>sc_gpgpu_wasp_rfq_enable := b\<rparr>) k = padded_cta_size c k"
    by (simp add: padded_cta_size_def cong: if_cong)
  show "smemq_shared_bytes_per_cta (c\<lparr>sc_gpgpu_wasp_rfq_enable := b\<rparr>) k = smemq_shared_bytes_per_cta c k"
    by (simp add: smemq_shared_bytes_per_cta_def smemq_producer_warps_per_cta_def producer_warps_per_cta_def
        smemq_queues_per_original_warp_def smemq_payload_words_per_lane_def p cong: if_cong)
  show "wasp_rfq_regs_per_cta (c\<lparr>sc_gpgpu_wasp_rfq_enable := False\<rparr>) k = Some 0"
    by (simp add: wasp_rfq_regs_per_cta_def)
qed

text \<open>C20. Register-file queues never raise the number of resident CTAs, and the "before RFQ"
  figure that the simulator reports is the limit of the same configuration with the queues
  turned off.\<close>

theorem rfq_only_lowers_occupancy:
  assumes "cta_limits_of c k = Some l" "padded_cta_size c k = Some padded"
    and "wasp_rfq_regs_per_cta c k = Some rfq" "normal_regs_per_cta padded k + rfq < 2 ^ 32"
    and "sc_gpgpu_shader_registers c \<le> UINT_MAX"
  shows "limits_result l \<le> limits_before_rfq l \<and>
    map_option limits_result (cta_limits_of (c\<lparr>sc_gpgpu_wasp_rfq_enable := False\<rparr>) k) =
      Some (limits_before_rfq l)"
proof -
  let ?c = "c\<lparr>sc_gpgpu_wasp_rfq_enable := False\<rparr>"
  obtain q where q: "smemq_shared_bytes_per_cta c k = Some q" and p: "padded \<noteq> 0"
    and l: "l = limits_record c k padded q rfq"
    using cta_limits_of_Some[OF assms(1)] assms(2,3) by (metis option.inject)
  let ?N = "normal_regs_per_cta padded k"
  have same: "padded_cta_size ?c k = Some padded" "smemq_shared_bytes_per_cta ?c k = Some q"
    "wasp_rfq_regs_per_cta ?c k = Some 0"
    using assms(2) q by (simp_all add: rfq_off)
  have off: "cta_limits_of ?c k = Some (limits_record ?c k padded q 0)"
    using p by (simp add: cta_limits_of_eq[OF same])
  have N: "wrap32 ?N = ?N" "wrap32 (?N + rfq) = ?N + rfq" using assms(4) by (simp_all add: wrap32_small)
  have "cl_regs l \<le> cl_regs_before_rfq l"
    using assms(5) div_le_mono2[of ?N "?N + rfq" "sc_gpgpu_shader_registers c"]
      div_le_dividend[of "sc_gpgpu_shader_registers c" rfq]
    by (auto simp: l limits_record_def N Let_def intro: order_trans[OF div_le_dividend])
  then have "limits_result l \<le> limits_before_rfq l"
    by (auto simp: limits_result_def limits_before_rfq_def)
  moreover have "limits_result (limits_record ?c k padded q 0) = limits_before_rfq l"
    by (simp add: l limits_record_def limits_result_def limits_before_rfq_def N Let_def)
  ultimately show ?thesis using off by simp
qed

theorem rfq_only_lowers_occupancy_witness:
  "\<exists>l. cta_limits_of h200_config stream_kernel = Some l \<and> limits_result l = 3 \<and> limits_before_rfq l = 8 \<and>
    map_option limits_result (cta_limits_of (h200_config\<lparr>sc_gpgpu_wasp_rfq_enable := False\<rparr>) stream_kernel) =
      Some (limits_before_rfq l)"
proof -
  have p: "padded_cta_size h200_config stream_kernel = Some 256"
    and r: "wasp_rfq_regs_per_cta h200_config stream_kernel = Some 12288"
    and q: "smemq_shared_bytes_per_cta h200_config stream_kernel = Some 0"
    by (simp_all add: max_cta_eval)
  have n: "normal_regs_per_cta 256 stream_kernel = 6144"
    by (simp add: normal_regs_per_cta_def max_cta_eval)
  have l: "cta_limits_of h200_config stream_kernel = Some (limits_record h200_config stream_kernel 256 0 12288)"
    by (simp add: cta_limits_of_eq[OF p q r]) (simp add: h200_config_def)
  have "limits_result (limits_record h200_config stream_kernel 256 0 12288) = 3 \<and>
      limits_before_rfq (limits_record h200_config stream_kernel 256 0 12288) = 8"
    by (simp add: limits_record_def limits_before_rfq_def n Let_def limits_result_def)
       (simp add: max_cta_eval)
  with rfq_only_lowers_occupancy[OF l p r] show ?thesis
    using l by (simp add: n) (simp add: h200_config_def UINT_MAX_def)
qed

text \<open>C21. With several kernels on one core, releasing the CTA that was just admitted restores
  the counters of threads, shared memory, registers and CTAs, as long as they do not wrap.\<close>

theorem occupy_release_roundtrip:
  assumes "occupy_shader_resource_1block c k True oc = Some (True, oc')"
    and "sc_gpgpu_concurrent_kernel_sm c" "oc_cta_to_hwtid oc h = None"
    and "find_available_hwtid c padded True oc' = Some (Some t, oc'')" "padded_cta_size c k = Some padded"
    and "cta_shmem c k = Some smem" "cta_regs c k = Some regs"
    and "oc_n_threads oc + padded < 2 ^ 32" "oc_shmem oc + smem < 2 ^ 32" "oc_regs oc + regs < 2 ^ 32"
      "oc_ctas oc + 1 < 2 ^ 32"
  shows "release_shader_resource_1block c h k (oc''\<lparr>oc_cta_to_hwtid := (oc_cta_to_hwtid oc'')(h \<mapsto> t)\<rparr>) = Some oc"
proof -
  from assms(4) have f: "find_hwtid_from (oc_hwtid oc') (sc_n_thread_per_shader c) padded 0 = Some (Some t)"
    and oc'': "oc'' = oc'\<lparr>oc_hwtid := (\<lambda>u. oc_hwtid oc' u \<or> t \<le> u \<and> u < t + padded)\<rparr>"
    by (auto simp: find_available_hwtid_def split: bind_splits option.splits)
  from find_hwtid_from_Some[OF f] have fr: "\<forall>u. t \<le> u \<and> u < t + padded \<longrightarrow> \<not> oc_hwtid oc' u"
    "t + padded \<le> MAX_THREAD_PER_SM \<or> padded = 0"
    by (auto simp: scan_hwtids_True)
  have oc': "oc' = oc\<lparr>oc_n_threads := oc_n_threads oc + padded, oc_shmem := oc_shmem oc + smem,
      oc_regs := oc_regs oc + regs, oc_ctas := oc_ctas oc + 1\<rparr>"
    using occupyD[OF assms(1)] assms(5-) by (metis option.inject wrap32_small)
  have 1: "(\<lambda>u. (oc_hwtid oc u \<or> t \<le> u \<and> u < t + padded) \<and> \<not> (t \<le> u \<and> u < t + padded)) = oc_hwtid oc"
    using fr(1) by (auto simp: oc' fun_eq_iff)
  have 2: "((oc_cta_to_hwtid oc)(h \<mapsto> t))(h := None) = oc_cta_to_hwtid oc"
    using assms(3) by (auto simp: fun_eq_iff)
  show ?thesis
    using fr(2) assms(2,5-7) 1 2
    by (simp add: release_shader_resource_1block_def oc'' oc' Let_def)
qed

definition shared_core_config :: shader_core_config where
  "shared_core_config = h200_config\<lparr>sc_gpgpu_concurrent_kernel_sm := True\<rparr>"

theorem occupy_release_roundtrip_witness:
  "\<exists>oc' oc''. occupy_shader_resource_1block shared_core_config stream_kernel True occupancy_init = Some (True, oc') \<and>
    oc_n_threads oc' = 256 \<and> find_available_hwtid shared_core_config 256 True oc' = Some (Some 0, oc'') \<and>
    release_shader_resource_1block shared_core_config 5 stream_kernel
      (oc''\<lparr>oc_cta_to_hwtid := (oc_cta_to_hwtid oc'')(5 \<mapsto> 0)\<rparr>) = Some occupancy_init"
proof -
  let ?c = shared_core_config and ?oc = occupancy_init
  have p: "padded_cta_size ?c stream_kernel = Some 256" and r: "cta_regs ?c stream_kernel = Some 18432"
    and s: "cta_shmem ?c stream_kernel = Some 0"
    by (simp_all add: shared_core_config_def cta_regs_def cta_shmem_def max_cta_eval)
  have scan: "scan_hwtids (\<lambda>_. False) 0 256 = Some True"
    by (simp add: scan_hwtids_True MAX_THREAD_PER_SM_def)
  have f: "find_hwtid_from (\<lambda>_. False) 2048 256 0 = Some (Some 0)"
    by (simp add: find_hwtid_from.simps[of _ 2048 256] scan)
  have cfg: "sc_n_thread_per_shader ?c = 2048" "sc_gpgpu_shmem_size ?c = 233472"
    "sc_gpgpu_shader_registers ?c = 65536" "sc_max_cta_per_core ?c = 32" "sc_gpgpu_concurrent_kernel_sm ?c"
    by (simp_all add: shared_core_config_def h200_config_def)
  obtain oc' where occ: "occupy_shader_resource_1block ?c stream_kernel True ?oc = Some (True, oc')"
    and oc': "oc_n_threads oc' = 256" "oc_hwtid oc' = (\<lambda>_. False)"
    by (simp add: occupy_shader_resource_1block_def find_available_hwtid_def occupancy_init_def p r s f cfg
        wrap32_def)
  obtain oc'' where f': "find_available_hwtid ?c 256 True oc' = Some (Some 0, oc'')"
    by (simp add: find_available_hwtid_def cfg oc' f)
  from occupy_release_roundtrip[OF occ cfg(5) _ f' p s r, of 5] occ oc' f'
  show ?thesis by (auto simp: occupancy_init_def)
qed

text \<open>The thread range that \<open>find_available_hwtid\<close> returns is free, starts at a multiple
  of the CTA size and, when the CTA size divides the threads of the core, ends within them.\<close>

theorem find_available_hwtid_free:
  assumes "find_available_hwtid c cs occupy oc = Some (Some s, oc')"
  shows "(\<forall>t. s \<le> t \<and> t < s + cs \<longrightarrow> \<not> oc_hwtid oc t) \<and> cs dvd s \<and> s < sc_n_thread_per_shader c \<and>
    (cs dvd sc_n_thread_per_shader c \<longrightarrow> s + cs \<le> sc_n_thread_per_shader c)"
proof -
  from assms have f: "find_hwtid_from (oc_hwtid oc) (sc_n_thread_per_shader c) cs 0 = Some (Some s)"
    by (auto simp: find_available_hwtid_def split: bind_splits option.splits)
  note f' = find_hwtid_from_Some[OF f]
  have "s + cs \<le> sc_n_thread_per_shader c" if "cs dvd sc_n_thread_per_shader c"
  proof -
    from f' have "cs dvd s" by simp
    then obtain a where a: "s = cs * a" by (elim dvdE)
    from that obtain b where b: "sc_n_thread_per_shader c = cs * b" by (elim dvdE)
    from f' a b have "cs * a < cs * b" by simp
    then have "Suc a \<le> b" by (metis Suc_leI mult_less_cancel1)
    then have "cs * Suc a \<le> cs * b" by (rule mult_le_mono2)
    with a b show ?thesis by simp
  qed
  with f' show ?thesis by (auto simp: scan_hwtids_True)
qed

text \<open>One core of 1536 threads with a resident CTA of 512 threads, and a CTA of 768.\<close>

definition config_1536 :: shader_core_config where
  "config_1536 = h200_config\<lparr>sc_n_thread_per_shader := 1536\<rparr>"

lemma scan_hwtids_False:
  "scan_hwtids occ tid n = Some False" if "tid \<le> u" "u < tid + n" "occ u" "tid + n \<le> MAX_THREAD_PER_SM"
  using that
proof (induction occ tid n rule: scan_hwtids.induct)
  case (2 occ tid n)
  then show ?case by (cases "tid = u") auto
qed simp

theorem find_available_hwtid_free_witness:
  "\<exists>oc'. find_available_hwtid config_1536 512 True
      (occupancy_init\<lparr>oc_hwtid := (\<lambda>t. t < 512)\<rparr>) = Some (Some 512, oc') \<and>
    (512 :: nat) dvd 1536 \<and> (512 :: nat) + 512 \<le> 1536"
proof -
  let ?oc = "occupancy_init\<lparr>oc_hwtid := (\<lambda>t. t < 512)\<rparr>"
  have "scan_hwtids (\<lambda>t. t < 512) 0 512 = Some False"
    by (rule scan_hwtids_False[of _ 0]) (simp_all add: MAX_THREAD_PER_SM_def)
  moreover have "scan_hwtids (\<lambda>t. t < 512) 512 512 = Some True"
    by (simp add: scan_hwtids_True MAX_THREAD_PER_SM_def)
  ultimately have "find_hwtid_from (\<lambda>t. t < 512) 1536 512 0 = Some (Some 512)"
    by (simp add: find_hwtid_from.simps[of _ 1536 512])
  then obtain oc' where r: "find_available_hwtid config_1536 512 True ?oc = Some (Some 512, oc')"
    by (simp add: find_available_hwtid_def config_1536_def h200_config_def)
  from find_available_hwtid_free[OF r] r show ?thesis by (simp add: config_1536_def)
qed

text \<open>The search can return a range that ends beyond the threads of the core: with 1536
  threads of which the first 256 are taken, a CTA of 896 threads is placed at 896 to 1791.\<close>

theorem find_available_hwtid_overruns:
  "\<exists>oc'. find_available_hwtid config_1536 896 True
      (occupancy_init\<lparr>oc_hwtid := (\<lambda>t. t < 256)\<rparr>) = Some (Some 896, oc') \<and>
    oc_hwtid oc' 1791 \<and> 1791 > sc_n_thread_per_shader config_1536"
proof -
  have "scan_hwtids (\<lambda>t. t < 256) 0 896 = Some False"
    by (rule scan_hwtids_False[of _ 0]) (simp_all add: MAX_THREAD_PER_SM_def)
  moreover have "scan_hwtids (\<lambda>t. t < 256) 896 896 = Some True"
    by (simp add: scan_hwtids_True MAX_THREAD_PER_SM_def)
  ultimately have "find_hwtid_from (\<lambda>t. t < 256) 1536 896 0 = Some (Some 896)"
    by (simp add: find_hwtid_from.simps[of _ 1536 896])
  then show ?thesis
    by (simp add: find_available_hwtid_def config_1536_def h200_config_def)
qed

end
