(* ===== verification/Queue_Issue.thy ===== *)
theory Queue_Issue
  imports Smem_Queue Cta_Resources Shd_Warp
begin

section \<open>Queue instructions on a core\<close>

text \<open>
  What \<open>shader_core_ctx\<close> does for loads into a queue (the producer) and moves out of one
  (the consumer), for the register-file queues and for those in shared memory (\<open>shader.cc\<close>):
  the test of the scheduler, the reservation at issue, the step after functional execution,
  and the responses of the memory. The members used are the base record of the core state.
  A reference to a queue is the queue and its key in the table; a changed queue is stored back.
\<close>

record queue_stats =
  qs_full_stalls :: nat
  qs_empty_stalls :: nat
  qs_head_not_ready_stalls :: nat
  qs_reservations :: nat
  qs_max_occupancy :: nat
  qs_consumes :: nat
  qs_memory_fills :: nat
  qs_producer_issues :: nat
  qs_consumer_issues :: nat

record core_queues =
  cq_config :: shader_core_config
  cq_warp :: "shd_warp list"
  cq_kernel_padded_threads_per_cta :: nat
  cq_rfq_table :: wasp_rfq_table
  cq_smemq_table :: smemq_table
  cq_rfq_stats :: queue_stats
  cq_smemq_stats :: queue_stats

text \<open>The key of the queue of a warp: the CTA, and the original warp that it was split from.\<close>

definition original_warp_of :: "queue_metadata \<Rightarrow> 'a core_queues_scheme \<Rightarrow> nat \<Rightarrow> nat option" where
  "original_warp_of md s warp_id = do {
     assert_that (warp_id < length (cq_warp s));
     assert_that (sc_warp_size (cq_config s) \<noteq> 0);
     let warps_per_cta = cq_kernel_padded_threads_per_cta s div sc_warp_size (cq_config s);
     let warps_per_cta = (if warps_per_cta = 0 then 8 else warps_per_cta);
     let local_warp = warp_id mod warps_per_cta;
     let producer_warps = (if md_producer_warps_per_cta md \<noteq> 0
       then md_producer_warps_per_cta md else warps_per_cta div 2);
     let producer_warps = (if producer_warps = 0 then 1 else producer_warps);
     assert_that (producer_warps < warps_per_cta);
     Some (if local_warp < producer_warps then local_warp else local_warp - producer_warps)
   }"

subsection \<open>Register-file queues\<close>

definition wasp_rfq_enabled :: "'a core_queues_scheme \<Rightarrow> bool" where
  "wasp_rfq_enabled s \<longleftrightarrow> sc_gpgpu_wasp_enable (cq_config s) \<and> sc_gpgpu_wasp_rfq_enable (cq_config s)"

definition wasp_rfq_key_for_warp :: "nat \<Rightarrow> nat \<Rightarrow> 'a core_queues_scheme \<Rightarrow> wasp_rfq_key option" where
  "wasp_rfq_key_for_warp warp_id queue_id s = do {
     original_warp_id \<leftarrow> original_warp_of (sc_wasp_metadata (cq_config s)) s warp_id;
     Some (Wasp_rfq_key (sw_cta_id (cq_warp s ! warp_id)) original_warp_id 0 1 queue_id)
   }"

definition wasp_rfq_token_from_inst :: "warp_inst \<Rightarrow> wasp_rfq_token" where
  "wasp_rfq_token_from_inst inst =
     \<lparr>rt_key = Wasp_rfq_key (wi_rfq_token_cta_hw_id inst) (wi_rfq_token_original_warp_id inst) 0 1
        (wi_rfq_queue_id inst),
      rt_slot_index = wi_rfq_token_slot_index inst, rt_sequence = wi_rfq_token_sequence inst,
      rt_payload_words_per_lane = wi_rfq_payload_words_per_lane inst,
      rt_valid = wi_rfq_token_valid inst\<rparr>"

definition wasp_rfq_write_token_to_inst :: "wasp_rfq_token \<Rightarrow> warp_inst \<Rightarrow> warp_inst" where
  "wasp_rfq_write_token_to_inst token inst = inst\<lparr>wi_rfq_token_valid := rt_valid token,
     wi_rfq_token_cta_hw_id := rk_cta_hw_id (rt_key token),
     wi_rfq_token_original_warp_id := rk_original_warp_id (rt_key token),
     wi_rfq_token_slot_index := rt_slot_index token, wi_rfq_token_sequence := rt_sequence token\<rparr>"

definition rfq_payload_words :: "warp_inst \<Rightarrow> nat" where
  "rfq_payload_words inst = (if wi_rfq_payload_words_per_lane inst \<noteq> 0
     then wi_rfq_payload_words_per_lane inst else 1)"

definition rfq_inst :: "warp_inst \<Rightarrow> bool" where
  "rfq_inst inst \<longleftrightarrow> wi_rfq_load inst \<or> wi_rfq_move inst"

text \<open>The queue that an instruction uses, created when it is the first to ask.\<close>

definition rfq_queue_for :: "nat \<Rightarrow> warp_inst \<Rightarrow> 'a core_queues_scheme \<Rightarrow>
    (wasp_rfq_key \<times> wasp_rfq \<times> 'a core_queues_scheme) option" where
  "rfq_queue_for warp_id inst s = do {
     key \<leftarrow> wasp_rfq_key_for_warp warp_id (wi_rfq_queue_id inst) s;
     (queue, t) \<leftarrow> rfq_get_or_create key (sc_gpgpu_wasp_rfq_entries (cq_config s)) (rfq_payload_words inst)
       (sc_warp_size (cq_config s)) (cq_rfq_table s);
     Some (key, queue, s\<lparr>cq_rfq_table := t\<rparr>)
   }"

definition wasp_rfq_can_issue :: "nat \<Rightarrow> warp_inst option \<Rightarrow> bool \<Rightarrow> 'a core_queues_scheme \<Rightarrow>
    (bool \<times> 'a core_queues_scheme) option" where
  "wasp_rfq_can_issue warp_id inst count_stall s =
     (case inst of None \<Rightarrow> Some (True, s)
      | Some inst \<Rightarrow>
        if \<not> rfq_inst inst then Some (True, s)
        else do {
          assert_that (wasp_rfq_enabled s);
          (key, queue, s) \<leftarrow> rfq_queue_for warp_id inst s;
          (if wi_rfq_load inst
           then Some (if rfq_full queue
             then (False, if count_stall then s\<lparr>cq_rfq_stats := (cq_rfq_stats s)
               \<lparr>qs_full_stalls := qs_full_stalls (cq_rfq_stats s) + 1\<rparr>\<rparr> else s)
             else (True, s))
           else if rfq_empty queue
           then Some (False, if count_stall then s\<lparr>cq_rfq_stats := (cq_rfq_stats s)
               \<lparr>qs_empty_stalls := qs_empty_stalls (cq_rfq_stats s) + 1\<rparr>\<rparr> else s)
           else do {
             ready \<leftarrow> rfq_head_ready queue;
             Some (if \<not> ready
               then (False, if count_stall then s\<lparr>cq_rfq_stats := (cq_rfq_stats s)
                 \<lparr>qs_head_not_ready_stalls := qs_head_not_ready_stalls (cq_rfq_stats s) + 1\<rparr>\<rparr> else s)
               else (True, s))
           })
        })"

definition wasp_rfq_prepare_issue :: "warp_inst \<Rightarrow> 'a core_queues_scheme \<Rightarrow>
    (warp_inst \<times> 'a core_queues_scheme) option" where
  "wasp_rfq_prepare_issue inst s =
     (if \<not> wasp_rfq_enabled s \<or> \<not> rfq_inst inst then Some (inst, s)
      else do {
        warp_id \<leftarrow> warp_id_of inst;
        (key, queue, s) \<leftarrow> rfq_queue_for warp_id inst s;
        (if wi_rfq_load inst then do {
           assert_that (\<not> rfq_full queue);
           (token, queue) \<leftarrow> rfq_reserve_tail key (wi_active_mask inst) 0 queue;
           let st = (cq_rfq_stats s)\<lparr>qs_reservations := qs_reservations (cq_rfq_stats s) + 1\<rparr>;
           let st = (if rfq_occupancy queue > qs_max_occupancy st
             then st\<lparr>qs_max_occupancy := rfq_occupancy queue\<rparr> else st);
           Some (wasp_rfq_write_token_to_inst token inst,
             s\<lparr>cq_rfq_table := (cq_rfq_table s)(key \<mapsto> queue),
               cq_rfq_stats := st\<lparr>qs_producer_issues := qs_producer_issues st + 1\<rparr>\<rparr>)
         } else do {
           let token = wasp_rfq_token_init\<lparr>rt_key := key,
             rt_payload_words_per_lane := rfq_payload_words inst, rt_valid := True\<rparr>;
           Some (wasp_rfq_write_token_to_inst token inst,
             s\<lparr>cq_rfq_stats := (cq_rfq_stats s)
               \<lparr>qs_consumer_issues := qs_consumer_issues (cq_rfq_stats s) + 1\<rparr>\<rparr>)
         })
      })"

definition wasp_rfq_after_func_exec :: "warp_inst \<Rightarrow> 'a core_queues_scheme \<Rightarrow> 'a core_queues_scheme option" where
  "wasp_rfq_after_func_exec inst s =
     (if \<not> wasp_rfq_enabled s \<or> \<not> rfq_inst inst then Some s
      else do {
        let token = wasp_rfq_token_from_inst inst;
        queue \<leftarrow> rfq_find (rt_key token) (cq_rfq_table s);
        (if wi_rfq_load inst then do {
           queue \<leftarrow> rfq_set_pending_responses token (accessq_count inst) queue;
           Some (s\<lparr>cq_rfq_table := (cq_rfq_table s)(rt_key token \<mapsto> queue)\<rparr>)
         } else do {
           ready \<leftarrow> rfq_head_ready queue;
           assert_that ready;
           queue \<leftarrow> rfq_consume_head (rt_key token) queue;
           Some (s\<lparr>cq_rfq_table := (cq_rfq_table s)(rt_key token \<mapsto> queue),
             cq_rfq_stats := (cq_rfq_stats s)\<lparr>qs_consumes := qs_consumes (cq_rfq_stats s) + 1\<rparr>\<rparr>)
         })
      })"

definition wasp_rfq_load_pending :: "warp_inst \<Rightarrow> 'a core_queues_scheme \<Rightarrow> bool option" where
  "wasp_rfq_load_pending inst s =
     (if \<not> wasp_rfq_enabled s \<or> \<not> wi_rfq_load inst then Some False
      else do {
        let token = wasp_rfq_token_from_inst inst;
        queue \<leftarrow> rfq_find (rt_key token) (cq_rfq_table s);
        rfq_has_pending_responses token queue
      })"

definition wasp_rfq_mark_mem_response :: "warp_inst \<Rightarrow> 'a core_queues_scheme \<Rightarrow>
    (bool \<times> 'a core_queues_scheme) option" where
  "wasp_rfq_mark_mem_response inst s =
     (if \<not> wasp_rfq_enabled s \<or> \<not> wi_rfq_load inst then Some (True, s)
      else do {
        let token = wasp_rfq_token_from_inst inst;
        queue \<leftarrow> rfq_find (rt_key token) (cq_rfq_table s);
        (done_now, queue) \<leftarrow> rfq_mark_response token queue;
        Some (done_now, s\<lparr>cq_rfq_table := (cq_rfq_table s)(rt_key token \<mapsto> queue),
          cq_rfq_stats := (cq_rfq_stats s)\<lparr>qs_memory_fills := qs_memory_fills (cq_rfq_stats s) + 1\<rparr>\<rparr>)
      })"

definition wasp_rfq_functional_store_lane :: "warp_inst \<Rightarrow> nat \<Rightarrow> nat \<Rightarrow> u64 \<Rightarrow> 'a core_queues_scheme \<Rightarrow>
    'a core_queues_scheme option" where
  "wasp_rfq_functional_store_lane inst lane_id w value s =
     (if \<not> wasp_rfq_enabled s \<or> \<not> sc_gpgpu_wasp_rfq_model_data (cq_config s) then Some s
      else do {
        let token = wasp_rfq_token_from_inst inst;
        queue \<leftarrow> rfq_find (rt_key token) (cq_rfq_table s);
        queue \<leftarrow> rfq_set_lane_value token lane_id w value queue;
        Some (s\<lparr>cq_rfq_table := (cq_rfq_table s)(rt_key token \<mapsto> queue)\<rparr>)
      })"

definition wasp_rfq_functional_read_lane :: "warp_inst \<Rightarrow> nat \<Rightarrow> nat \<Rightarrow> 'a core_queues_scheme \<Rightarrow> u64 option" where
  "wasp_rfq_functional_read_lane inst lane_id w s =
     (if \<not> wasp_rfq_enabled s \<or> \<not> sc_gpgpu_wasp_rfq_model_data (cq_config s) then Some 0
      else do {
        let token = wasp_rfq_token_from_inst inst;
        queue \<leftarrow> rfq_find (rt_key token) (cq_rfq_table s);
        rfq_head_lane_value lane_id w queue
      })"

subsection \<open>Queues in shared memory\<close>

definition smemq_enabled :: "'a core_queues_scheme \<Rightarrow> bool" where
  "smemq_enabled s \<longleftrightarrow> sc_gpgpu_smemq_enable (cq_config s)"

definition smemq_key_for_warp :: "nat \<Rightarrow> nat \<Rightarrow> 'a core_queues_scheme \<Rightarrow> smemq_key option" where
  "smemq_key_for_warp warp_id queue_id s = do {
     original_warp_id \<leftarrow> original_warp_of (sc_smemq_metadata (cq_config s)) s warp_id;
     Some (Smemq_key (sw_cta_id (cq_warp s ! warp_id)) original_warp_id 0 1 queue_id)
   }"

definition smemq_token_from_inst :: "warp_inst \<Rightarrow> smemq_token" where
  "smemq_token_from_inst inst =
     \<lparr>st_key = Smemq_key (wi_smemq_token_cta_hw_id inst) (wi_smemq_token_original_warp_id inst) 0 1
        (wi_smemq_queue_id inst),
      st_slot_index = wi_smemq_token_slot_index inst, st_sequence = wi_smemq_token_sequence inst,
      st_payload_words_per_lane = wi_smemq_payload_words_per_lane inst,
      st_valid = wi_smemq_token_valid inst\<rparr>"

definition smemq_write_token_to_inst :: "smemq_token \<Rightarrow> warp_inst \<Rightarrow> warp_inst" where
  "smemq_write_token_to_inst token inst = inst\<lparr>wi_smemq_token_valid := st_valid token,
     wi_smemq_token_cta_hw_id := sk_cta_hw_id (st_key token),
     wi_smemq_token_original_warp_id := sk_original_warp_id (st_key token),
     wi_smemq_token_slot_index := st_slot_index token, wi_smemq_token_sequence := st_sequence token\<rparr>"

definition smemq_payload_words :: "warp_inst \<Rightarrow> nat" where
  "smemq_payload_words inst = (if wi_smemq_payload_words_per_lane inst \<noteq> 0
     then wi_smemq_payload_words_per_lane inst else 1)"

definition smemq_inst :: "warp_inst \<Rightarrow> bool" where
  "smemq_inst inst \<longleftrightarrow> wi_smemq_load inst \<or> wi_smemq_move inst"

definition smemq_queue_for :: "nat \<Rightarrow> warp_inst \<Rightarrow> 'a core_queues_scheme \<Rightarrow>
    (smemq_key \<times> smemq \<times> 'a core_queues_scheme) option" where
  "smemq_queue_for warp_id inst s = do {
     key \<leftarrow> smemq_key_for_warp warp_id (wi_smemq_queue_id inst) s;
     (queue, t) \<leftarrow> smemq_get_or_create key (sc_gpgpu_smemq_entries (cq_config s)) (smemq_payload_words inst)
       (sc_warp_size (cq_config s)) (cq_smemq_table s);
     Some (key, queue, s\<lparr>cq_smemq_table := t\<rparr>)
   }"

definition smemq_can_issue :: "nat \<Rightarrow> warp_inst option \<Rightarrow> bool \<Rightarrow> 'a core_queues_scheme \<Rightarrow>
    (bool \<times> 'a core_queues_scheme) option" where
  "smemq_can_issue warp_id inst count_stall s =
     (case inst of None \<Rightarrow> Some (True, s)
      | Some inst \<Rightarrow>
        if \<not> smemq_inst inst then Some (True, s)
        else do {
          assert_that (smemq_enabled s);
          (key, queue, s) \<leftarrow> smemq_queue_for warp_id inst s;
          (if wi_smemq_load inst
           then Some (if smemq_full queue
             then (False, if count_stall then s\<lparr>cq_smemq_stats := (cq_smemq_stats s)
               \<lparr>qs_full_stalls := qs_full_stalls (cq_smemq_stats s) + 1\<rparr>\<rparr> else s)
             else (True, s))
           else if smemq_empty queue
           then Some (False, if count_stall then s\<lparr>cq_smemq_stats := (cq_smemq_stats s)
               \<lparr>qs_empty_stalls := qs_empty_stalls (cq_smemq_stats s) + 1\<rparr>\<rparr> else s)
           else do {
             ready \<leftarrow> smemq_head_ready queue;
             Some (if \<not> ready
               then (False, if count_stall then s\<lparr>cq_smemq_stats := (cq_smemq_stats s)
                 \<lparr>qs_head_not_ready_stalls := qs_head_not_ready_stalls (cq_smemq_stats s) + 1\<rparr>\<rparr> else s)
               else (True, s))
           })
        })"

definition smemq_prepare_issue :: "warp_inst \<Rightarrow> 'a core_queues_scheme \<Rightarrow>
    (warp_inst \<times> 'a core_queues_scheme) option" where
  "smemq_prepare_issue inst s =
     (if \<not> smemq_enabled s \<or> \<not> smemq_inst inst then Some (inst, s)
      else do {
        warp_id \<leftarrow> warp_id_of inst;
        (key, queue, s) \<leftarrow> smemq_queue_for warp_id inst s;
        (if wi_smemq_load inst then do {
           assert_that (\<not> smemq_full queue);
           (token, queue) \<leftarrow> smemq_reserve_tail key (wi_active_mask inst) 0 queue;
           let st = (cq_smemq_stats s)\<lparr>qs_reservations := qs_reservations (cq_smemq_stats s) + 1\<rparr>;
           let st = (if smemq_occupancy queue > qs_max_occupancy st
             then st\<lparr>qs_max_occupancy := smemq_occupancy queue\<rparr> else st);
           Some (smemq_write_token_to_inst token inst,
             s\<lparr>cq_smemq_table := (cq_smemq_table s)(key \<mapsto> queue),
               cq_smemq_stats := st\<rparr>)
         } else do {
           let token = smemq_token_init\<lparr>st_key := key,
             st_payload_words_per_lane := smemq_payload_words inst, st_valid := True\<rparr>;
           Some (smemq_write_token_to_inst token inst,
             s)
         })
      })"

definition smemq_after_func_exec :: "warp_inst \<Rightarrow> 'a core_queues_scheme \<Rightarrow> 'a core_queues_scheme option" where
  "smemq_after_func_exec inst s =
     (if \<not> smemq_enabled s \<or> \<not> smemq_inst inst then Some s
      else do {
        let token = smemq_token_from_inst inst;
        queue \<leftarrow> smemq_find (st_key token) (cq_smemq_table s);
        (if wi_smemq_load inst then do {
           queue \<leftarrow> smemq_set_pending_responses token (accessq_count inst) queue;
           Some (s\<lparr>cq_smemq_table := (cq_smemq_table s)(st_key token \<mapsto> queue)\<rparr>)
         } else do {
           ready \<leftarrow> smemq_head_ready queue;
           assert_that ready;
           queue \<leftarrow> smemq_consume_head (st_key token) queue;
           Some (s\<lparr>cq_smemq_table := (cq_smemq_table s)(st_key token \<mapsto> queue),
             cq_smemq_stats := (cq_smemq_stats s)\<lparr>qs_consumes := qs_consumes (cq_smemq_stats s) + 1\<rparr>\<rparr>)
         })
      })"

definition smemq_load_pending :: "warp_inst \<Rightarrow> 'a core_queues_scheme \<Rightarrow> bool option" where
  "smemq_load_pending inst s =
     (if \<not> smemq_enabled s \<or> \<not> wi_smemq_load inst then Some False
      else do {
        let token = smemq_token_from_inst inst;
        queue \<leftarrow> smemq_find (st_key token) (cq_smemq_table s);
        smemq_has_pending_responses token queue
      })"

definition smemq_mark_mem_response :: "warp_inst \<Rightarrow> 'a core_queues_scheme \<Rightarrow>
    (bool \<times> 'a core_queues_scheme) option" where
  "smemq_mark_mem_response inst s =
     (if \<not> smemq_enabled s \<or> \<not> wi_smemq_load inst then Some (True, s)
      else do {
        let token = smemq_token_from_inst inst;
        queue \<leftarrow> smemq_find (st_key token) (cq_smemq_table s);
        (done_now, queue) \<leftarrow> smemq_mark_response token queue;
        Some (done_now, s\<lparr>cq_smemq_table := (cq_smemq_table s)(st_key token \<mapsto> queue),
          cq_smemq_stats := (cq_smemq_stats s)\<lparr>qs_memory_fills := qs_memory_fills (cq_smemq_stats s) + 1\<rparr>\<rparr>)
      })"

definition smemq_functional_store_lane :: "warp_inst \<Rightarrow> nat \<Rightarrow> nat \<Rightarrow> u64 \<Rightarrow> 'a core_queues_scheme \<Rightarrow>
    'a core_queues_scheme option" where
  "smemq_functional_store_lane inst lane_id w value s =
     (if \<not> smemq_enabled s \<or> \<not> sc_gpgpu_smemq_model_data (cq_config s) then Some s
      else do {
        let token = smemq_token_from_inst inst;
        queue \<leftarrow> smemq_find (st_key token) (cq_smemq_table s);
        queue \<leftarrow> smemq_set_lane_value token lane_id w value queue;
        Some (s\<lparr>cq_smemq_table := (cq_smemq_table s)(st_key token \<mapsto> queue)\<rparr>)
      })"

definition smemq_functional_read_lane :: "warp_inst \<Rightarrow> nat \<Rightarrow> nat \<Rightarrow> 'a core_queues_scheme \<Rightarrow> u64 option" where
  "smemq_functional_read_lane inst lane_id w s =
     (if \<not> smemq_enabled s \<or> \<not> sc_gpgpu_smemq_model_data (cq_config s) then Some 0
      else do {
        let token = smemq_token_from_inst inst;
        queue \<leftarrow> smemq_find (st_key token) (cq_smemq_table s);
        smemq_head_lane_value lane_id w queue
      })"


subsection \<open>The tables\<close>

definition rfq_table_ok :: "wasp_rfq_table \<Rightarrow> bool" where
  "rfq_table_ok t \<longleftrightarrow> (\<forall>q \<in> ran t. rfq_invar q)"

text \<open>The copy of an instruction that \<open>issue\<close> puts in a pipeline register.\<close>

definition issued_copy :: "nat \<Rightarrow> active_mask_t \<Rightarrow> warp_inst \<Rightarrow> warp_inst" where
  "issued_copy w m inst = inst\<lparr>wi_empty := False, wi_warp_id := w, wi_active_mask := m\<rparr>"

lemma rfq_table_ok_upd: "rfq_table_ok t \<Longrightarrow> rfq_invar q \<Longrightarrow> rfq_table_ok (t(k \<mapsto> q))"
  by (auto simp: rfq_table_ok_def ran_def)

lemma rfq_table_okD: "rfq_table_ok t \<Longrightarrow> t k = Some q \<Longrightarrow> rfq_invar q"
  by (auto simp: rfq_table_ok_def ran_def)

lemma rfq_configure_again:
  assumes "rfq_configure e p w q0 = Some q" "rfq_invar q0 \<or> q0 = wasp_rfq_init" "w * p < 2 ^ 32"
  shows "rfq_invar q \<and> rfq_configure e p w q = Some q"
proof (cases "rfq_invar q0")
  case True
  then have c: "rfq_configured q0" by (simp add: rfq_configured_def rfq_invar_def)
  with assms(1) have "q = q0" by (simp add: rfq_configure_def split: if_splits)
  with assms(1) True show ?thesis by simp
next
  case False
  with assms have i: "rfq_configure e p w wasp_rfq_init = Some q" by simp
  then have "rq_entries q = e \<and> rq_payload_words_per_lane q = p \<and> rq_warp_size q = w \<and> 0 < e"
    by (auto simp: rfq_configure_def rfq_configured_def wasp_rfq_init_def split: if_splits)
  moreover from this have "rfq_configure e p w q = Some q"
    by (simp add: rfq_configure_def rfq_configured_def)
  ultimately show ?thesis using rfq_configure_invar[OF i assms(3)] by simp
qed

lemma rfq_get_or_create_ok:
  assumes "rfq_table_ok t" "rfq_get_or_create key e p w t = Some (q, t')" "w * p < 2 ^ 32"
  shows "t' = t(key \<mapsto> q)" "rfq_invar q" "rfq_table_ok t'" "rfq_get_or_create key e p w t' = Some (q, t')"
proof -
  let ?q0 = "case t key of None \<Rightarrow> wasp_rfq_init | Some q \<Rightarrow> q"
  from assms(2) have c: "rfq_configure e p w ?q0 = Some q" and t: "t' = t(key \<mapsto> q)"
    by (auto simp: rfq_get_or_create_def Let_def split: bind_splits)
  have "rfq_invar ?q0 \<or> ?q0 = wasp_rfq_init" using assms(1) by (auto dest: rfq_table_okD split: option.splits)
  note q = rfq_configure_again[OF c this assms(3)]
  from t show "t' = t(key \<mapsto> q)" .
  from q show "rfq_invar q" ..
  with t assms(1) show "rfq_table_ok t'" by (simp add: rfq_table_ok_upd)
  from q t show "rfq_get_or_create key e p w t' = Some (q, t')"
    by (simp add: rfq_get_or_create_def Let_def)
qed

lemma key_for_warp_upd [simp]:
  "wasp_rfq_key_for_warp w i (s\<lparr>cq_rfq_table := t\<rparr>) = wasp_rfq_key_for_warp w i s"
  "wasp_rfq_key_for_warp w i (s\<lparr>cq_rfq_stats := st\<rparr>) = wasp_rfq_key_for_warp w i s"
  by (simp_all add: wasp_rfq_key_for_warp_def original_warp_of_def Let_def)

lemma rfq_enabled_upd [simp]:
  "wasp_rfq_enabled (s\<lparr>cq_rfq_table := t\<rparr>) = wasp_rfq_enabled s"
  "wasp_rfq_enabled (s\<lparr>cq_rfq_stats := st\<rparr>) = wasp_rfq_enabled s"
  by (simp_all add: wasp_rfq_enabled_def)

lemma issued_copy_simps [simp]:
  "wi_rfq_load (issued_copy w m i) = wi_rfq_load i" "wi_rfq_move (issued_copy w m i) = wi_rfq_move i"
  "wi_rfq_queue_id (issued_copy w m i) = wi_rfq_queue_id i"
  "wi_rfq_payload_words_per_lane (issued_copy w m i) = wi_rfq_payload_words_per_lane i"
  "warp_id_of (issued_copy w m i) = Some w" "rfq_inst (issued_copy w m i) = rfq_inst i"
  "rfq_payload_words (issued_copy w m i) = rfq_payload_words i"
  by (simp_all add: issued_copy_def warp_id_of_def rfq_inst_def rfq_payload_words_def)

lemma write_token_simps [simp]:
  "wi_rfq_load (wasp_rfq_write_token_to_inst t i) = wi_rfq_load i"
  "wi_rfq_move (wasp_rfq_write_token_to_inst t i) = wi_rfq_move i"
  "rfq_inst (wasp_rfq_write_token_to_inst t i) = rfq_inst i"
  by (simp_all add: wasp_rfq_write_token_to_inst_def rfq_inst_def)

lemma rfq_queue_for_ok:
  assumes "rfq_table_ok (cq_rfq_table s)" "rfq_queue_for w inst s = Some (key, q, s1)"
    "sc_warp_size (cq_config s) * rfq_payload_words inst < 2 ^ 32"
  shows "s1 = s\<lparr>cq_rfq_table := (cq_rfq_table s)(key \<mapsto> q)\<rparr>" "rfq_invar q"
    "rfq_table_ok (cq_rfq_table s1)" "cq_rfq_table s1 key = Some q"
    "rfq_queue_for w (issued_copy v m inst) s1 = Some (key, q, s1)"
    "\<exists>c ow. key = Wasp_rfq_key c ow 0 1 (wi_rfq_queue_id inst)"
proof -
  from assms(2) obtain t where k: "wasp_rfq_key_for_warp w (wi_rfq_queue_id inst) s = Some key"
    and g: "rfq_get_or_create key (sc_gpgpu_wasp_rfq_entries (cq_config s)) (rfq_payload_words inst)
      (sc_warp_size (cq_config s)) (cq_rfq_table s) = Some (q, t)" and s1: "s1 = s\<lparr>cq_rfq_table := t\<rparr>"
    by (auto simp: rfq_queue_for_def split: bind_splits)
  note ok = rfq_get_or_create_ok[OF assms(1) g assms(3)]
  from ok s1 show "s1 = s\<lparr>cq_rfq_table := (cq_rfq_table s)(key \<mapsto> q)\<rparr>" "rfq_invar q"
    "rfq_table_ok (cq_rfq_table s1)" "cq_rfq_table s1 key = Some q" by auto
  from k show "\<exists>c ow. key = Wasp_rfq_key c ow 0 1 (wi_rfq_queue_id inst)"
    by (auto simp: wasp_rfq_key_for_warp_def split: bind_splits)
  from k ok(4) show "rfq_queue_for w (issued_copy v m inst) s1 = Some (key, q, s1)"
    by (simp add: rfq_queue_for_def s1)
qed

text \<open>The state that the test of the scheduler leaves, when it says yes.\<close>

lemma rfq_can_issue_ok:
  assumes "rfq_table_ok (cq_rfq_table s)" "wasp_rfq_can_issue w (Some inst) cs s = Some (True, s1)"
    "rfq_inst inst" "sc_warp_size (cq_config s) * rfq_payload_words inst < 2 ^ 32"
  obtains key q where "wasp_rfq_enabled s1" "rfq_invar q" "cq_rfq_table s1 key = Some q"
    "rfq_table_ok (cq_rfq_table s1)" "rfq_queue_for w (issued_copy v m inst) s1 = Some (key, q, s1)"
    "\<exists>c ow. key = Wasp_rfq_key c ow 0 1 (wi_rfq_queue_id inst)"
    "if wi_rfq_load inst then \<not> rfq_full q else rfq_head_ready q = Some True"
proof -
  from assms(2,3) obtain key q where en: "wasp_rfq_enabled s"
    and f: "rfq_queue_for w inst s = Some (key, q, s1)"
    and r: "if wi_rfq_load inst then \<not> rfq_full q else rfq_head_ready q = Some True"
    by (auto simp: wasp_rfq_can_issue_def split: bind_splits if_splits)
  note ok = rfq_queue_for_ok[OF assms(1) f assms(4)]
  from en ok(1) have "wasp_rfq_enabled s1" by simp
  with ok(2,3,4,6) ok(5)[of v m] r show ?thesis by (intro that)
qed


lemma token_roundtrip:
  assumes "rt_key t = Wasp_rfq_key c ow 0 1 (wi_rfq_queue_id i)"
  shows "rt_key (wasp_rfq_token_from_inst (wasp_rfq_write_token_to_inst t i)) = rt_key t"
    "rfq_tok_id (wasp_rfq_token_from_inst (wasp_rfq_write_token_to_inst t i)) = rfq_tok_id t"
    "rt_valid (wasp_rfq_token_from_inst (wasp_rfq_write_token_to_inst t i)) = rt_valid t"
  using assms by (simp_all add: wasp_rfq_token_from_inst_def wasp_rfq_write_token_to_inst_def rfq_tok_id_def)

lemma token_from_inst_accessq [simp]:
  "wasp_rfq_token_from_inst (i\<lparr>wi_accessq := acc\<rparr>) = wasp_rfq_token_from_inst i"
  by (simp add: wasp_rfq_token_from_inst_def)

lemma rfq_reserve_key:
  "rfq_invar q \<Longrightarrow> rfq_reserve_tail k m p q = Some (t, q') \<Longrightarrow> rt_key t = k"
  by (auto simp: rfq_reserve_eq split: if_splits)

text \<open>
  The state after a load has been issued: its queue holds the slot that the token of the
  instruction names.
\<close>

definition rfq_load_in_flight :: "warp_inst \<Rightarrow> 'a core_queues_scheme \<Rightarrow> bool" where
  "rfq_load_in_flight inst s \<longleftrightarrow> wasp_rfq_enabled s \<and> wi_rfq_load inst \<and>
     rfq_table_ok (cq_rfq_table s) \<and> rt_valid (wasp_rfq_token_from_inst inst) \<and>
     (\<exists>q. cq_rfq_table s (rt_key (wasp_rfq_token_from_inst inst)) = Some q \<and>
        rfq_tok_id (wasp_rfq_token_from_inst inst) \<in> set (fifo_ids (rfq_abs q)))"

definition rfq_expects :: "nat \<Rightarrow> warp_inst \<Rightarrow> 'a core_queues_scheme \<Rightarrow> bool" where
  "rfq_expects n inst s \<longleftrightarrow> rfq_load_in_flight inst s \<and>
     (\<exists>q e. cq_rfq_table s (rt_key (wasp_rfq_token_from_inst inst)) = Some q \<and>
        fifo_get (rfq_tok_id (wasp_rfq_token_from_inst inst)) (rfq_abs q) = Some e \<and> fs_pending e = n)"

lemma rfq_prepare_load:
  assumes "wasp_rfq_enabled s" "rfq_table_ok (cq_rfq_table s)" "rfq_invar q" "\<not> rfq_full q"
    "rfq_queue_for w inst s = Some (key, q, s)" "warp_id_of inst = Some w" "wi_rfq_load inst"
    "\<exists>c ow. key = Wasp_rfq_key c ow 0 1 (wi_rfq_queue_id inst)"
  obtains i2 s2 where "wasp_rfq_prepare_issue inst s = Some (i2, s2)" "rfq_load_in_flight i2 s2"
proof -
  obtain t q' where r: "rfq_reserve_tail key (wi_active_mask inst) 0 q = Some (t, q')" "rfq_invar q'"
    "rt_valid t" "fifo_ids (rfq_abs q') = fifo_ids (rfq_abs q) @ [rfq_tok_id t]"
    using rfq.load_reserved[OF assms(3,4)] by blast
  have k: "rt_key t = key" by (rule rfq_reserve_key[OF assms(3) r(1)])
  let ?i = "wasp_rfq_write_token_to_inst t inst"
  obtain s2 where s2: "wasp_rfq_prepare_issue inst s = Some (?i, s2)" "wasp_rfq_enabled s2"
    "cq_rfq_table s2 = (cq_rfq_table s)(key \<mapsto> q')"
    using assms r(1) by (simp add: wasp_rfq_prepare_issue_def rfq_inst_def Let_def)
  have t: "rt_key (wasp_rfq_token_from_inst ?i) = key" "rfq_tok_id (wasp_rfq_token_from_inst ?i) = rfq_tok_id t"
    "rt_valid (wasp_rfq_token_from_inst ?i)"
    using token_roundtrip[of t _ _ inst] assms(8) k r(3) by auto
  have "rfq_load_in_flight ?i s2"
    using s2 t r assms(2,7) by (simp add: rfq_load_in_flight_def rfq_table_ok_upd)
  with s2(1) show ?thesis by (rule that)
qed

lemma rfq_store_in_flight:
  assumes "rfq_load_in_flight inst s" "wasp_rfq_functional_store_lane inst l w v s = Some s'"
  shows "rfq_load_in_flight inst s'"
proof -
  let ?t = "wasp_rfq_token_from_inst inst"
  obtain q where q: "cq_rfq_table s (rt_key ?t) = Some q" "rfq_tok_id ?t \<in> set (fifo_ids (rfq_abs q))"
    "rt_valid ?t" "wasp_rfq_enabled s" "rfq_table_ok (cq_rfq_table s)" "wi_rfq_load inst"
    using assms(1) by (auto simp: rfq_load_in_flight_def)
  show ?thesis
  proof (cases "sc_gpgpu_wasp_rfq_model_data (cq_config s)")
    case False
    with assms q(4) show ?thesis by (simp add: wasp_rfq_functional_store_lane_def)
  next
    case True
    with assms(2) q obtain q' where st: "rfq_set_lane_value ?t l w v q = Some q'"
      "s' = s\<lparr>cq_rfq_table := (cq_rfq_table s)(rt_key ?t \<mapsto> q')\<rparr>"
      by (auto simp: wasp_rfq_functional_store_lane_def rfq_find_def Let_def split: bind_splits)
    from rfq.lane_stored[OF rfq_table_okD[OF q(5,1)] q(3,2) st(1)] st(2) q show ?thesis
      by (simp add: rfq_load_in_flight_def rfq_table_ok_upd)
  qed
qed

lemma rfq_after_exec_load:
  assumes "rfq_load_in_flight inst s"
  obtains s' where "wasp_rfq_after_func_exec inst s = Some s'" "rfq_expects (accessq_count inst) inst s'"
proof -
  let ?t = "wasp_rfq_token_from_inst inst"
  obtain q where q: "cq_rfq_table s (rt_key ?t) = Some q" "rfq_tok_id ?t \<in> set (fifo_ids (rfq_abs q))"
    "rt_valid ?t" "wasp_rfq_enabled s" "rfq_table_ok (cq_rfq_table s)" "wi_rfq_load inst"
    using assms by (auto simp: rfq_load_in_flight_def)
  obtain q' e where r: "rfq_set_pending_responses ?t (accessq_count inst) q = Some q'" "rfq_invar q'"
    "fifo_ids (rfq_abs q') = fifo_ids (rfq_abs q)" "fifo_get (rfq_tok_id ?t) (rfq_abs q') = Some e"
    "fs_pending e = accessq_count inst"
    using rfq.pending_set[OF rfq_table_okD[OF q(5,1)] q(3,2)] by blast
  let ?s = "s\<lparr>cq_rfq_table := (cq_rfq_table s)(rt_key ?t \<mapsto> q')\<rparr>"
  have "wasp_rfq_after_func_exec inst s = Some ?s"
    using q r(1) by (simp add: wasp_rfq_after_func_exec_def rfq_inst_def rfq_find_def Let_def)
  moreover have "rfq_expects (accessq_count inst) inst ?s"
    using q r by (simp add: rfq_expects_def rfq_load_in_flight_def rfq_table_ok_upd)
  ultimately show ?thesis by (rule that)
qed

lemma rfq_response:
  assumes "rfq_expects (Suc n) inst s"
  obtains s' where "wasp_rfq_mark_mem_response inst s = Some (n = 0, s')" "rfq_expects n inst s'"
proof -
  let ?t = "wasp_rfq_token_from_inst inst"
  obtain q e where q: "cq_rfq_table s (rt_key ?t) = Some q" "rt_valid ?t" "wasp_rfq_enabled s"
    "rfq_table_ok (cq_rfq_table s)" "wi_rfq_load inst"
    "fifo_get (rfq_tok_id ?t) (rfq_abs q) = Some e" "fs_pending e = Suc n"
    "rfq_tok_id ?t \<in> set (fifo_ids (rfq_abs q))"
    using assms by (auto simp: rfq_expects_def rfq_load_in_flight_def)
  obtain q' e' where r: "rfq_mark_response ?t q = Some (n = 0, q')" "rfq_invar q'"
    "fifo_ids (rfq_abs q') = fifo_ids (rfq_abs q)" "fifo_get (rfq_tok_id ?t) (rfq_abs q') = Some e'"
    "fs_pending e' = n"
    using rfq.marked[OF rfq_table_okD[OF q(4,1)] q(2,6,7)] by blast
  let ?s = "s\<lparr>cq_rfq_table := (cq_rfq_table s)(rt_key ?t \<mapsto> q'),
    cq_rfq_stats := (cq_rfq_stats s)\<lparr>qs_memory_fills := qs_memory_fills (cq_rfq_stats s) + 1\<rparr>\<rparr>"
  have "wasp_rfq_mark_mem_response inst s = Some (n = 0, ?s)"
    using q r(1) by (simp add: wasp_rfq_mark_mem_response_def rfq_find_def Let_def)
  moreover have "rfq_expects n inst ?s"
    using q r by (simp add: rfq_expects_def rfq_load_in_flight_def rfq_table_ok_upd)
  ultimately show ?thesis by (rule that)
qed

lemma rfq_no_more_responses:
  assumes "rfq_expects 0 inst s"
  shows "wasp_rfq_mark_mem_response inst s = None" "wasp_rfq_load_pending inst s = Some False"
proof -
  let ?t = "wasp_rfq_token_from_inst inst"
  obtain q e where q: "cq_rfq_table s (rt_key ?t) = Some q" "rt_valid ?t" "wasp_rfq_enabled s"
    "rfq_table_ok (cq_rfq_table s)" "wi_rfq_load inst"
    "fifo_get (rfq_tok_id ?t) (rfq_abs q) = Some e" "fs_pending e = 0"
    using assms by (auto simp: rfq_expects_def rfq_load_in_flight_def)
  note inv = rfq_table_okD[OF q(4,1)]
  show "wasp_rfq_mark_mem_response inst s = None"
    using q rfq.mark_refused[OF inv q(2,6,7)]
    by (simp add: wasp_rfq_mark_mem_response_def rfq_find_def Let_def)
  show "wasp_rfq_load_pending inst s = Some False"
    using q rfq_has_pending_law[OF inv q(2,6)]
    by (simp add: wasp_rfq_load_pending_def rfq_find_def Let_def)
qed

lemma rfq_load_pending_expects:
  assumes "rfq_expects n inst s"
  shows "wasp_rfq_load_pending inst s = Some (0 < n)"
proof -
  let ?t = "wasp_rfq_token_from_inst inst"
  obtain q e where q: "cq_rfq_table s (rt_key ?t) = Some q" "rt_valid ?t" "wasp_rfq_enabled s"
    "rfq_table_ok (cq_rfq_table s)" "wi_rfq_load inst"
    "fifo_get (rfq_tok_id ?t) (rfq_abs q) = Some e" "fs_pending e = n"
    using assms by (auto simp: rfq_expects_def rfq_load_in_flight_def)
  then show ?thesis using rfq_has_pending_law[OF rfq_table_okD[OF q(4,1)] q(2,6)]
    by (simp add: wasp_rfq_load_pending_def rfq_find_def Let_def)
qed


lemma in_flight_accessq [simp]:
  "rfq_load_in_flight (i\<lparr>wi_accessq := acc\<rparr>) s = rfq_load_in_flight i s"
  by (simp add: rfq_load_in_flight_def)

lemma rfq_stores_in_flight:
  "run_calls (\<lambda>s (l, w, v). wasp_rfq_functional_store_lane inst l w v s) s stores = Some s' \<Longrightarrow>
   rfq_load_in_flight inst s \<Longrightarrow> rfq_load_in_flight inst s'"
  by (erule run_calls_invariant) (auto intro: rfq_store_in_flight)

text \<open>As many responses as told, one after the other; the result lists what each returned.\<close>

fun rfq_responses :: "nat \<Rightarrow> warp_inst \<Rightarrow> 'a core_queues_scheme \<Rightarrow> (bool list \<times> 'a core_queues_scheme) option" where
  "rfq_responses 0 inst s = Some ([], s)"
| "rfq_responses (Suc n) inst s = do {
     (b, s) \<leftarrow> wasp_rfq_mark_mem_response inst s;
     (bs, s) \<leftarrow> rfq_responses n inst s;
     Some (b # bs, s)
   }"

lemma rfq_responses_expected:
  "rfq_expects n inst s \<Longrightarrow>
   \<exists>s'. rfq_responses n inst s = Some (map (\<lambda>k. Suc k = n) [0..<n], s') \<and> rfq_expects 0 inst s'"
proof (induction n arbitrary: s)
  case (Suc n)
  obtain s1 where s1: "wasp_rfq_mark_mem_response inst s = Some (n = 0, s1)" "rfq_expects n inst s1"
    using rfq_response[OF Suc.prems] by blast
  have "map (\<lambda>k. Suc k = Suc n) [0..<Suc n] = (n = 0) # map (\<lambda>k. Suc k = n) [0..<n]"
    by (simp add: upt_0_Suc comp_def del: upt_Suc)
  with Suc.IH[OF s1(2)] s1(1) show ?case by (auto simp del: upt_Suc)
qed simp

subsection \<open>A small core\<close>

text \<open>One CTA of a producer and a consumer warp of four lanes, with queues of two slots.\<close>

definition small_queue_core :: core_queues where
  "small_queue_core = \<lparr>cq_config = h200_config\<lparr>sc_warp_size := 4, sc_gpgpu_wasp_rfq_entries := 2\<rparr>,
     cq_warp = replicate 2 (the (shd_warp_new 4)), cq_kernel_padded_threads_per_cta = 8,
     cq_rfq_table = Map.empty, cq_smemq_table = Map.empty,
     cq_rfq_stats = \<lparr>qs_full_stalls = 0, qs_empty_stalls = 0, qs_head_not_ready_stalls = 0,
       qs_reservations = 0, qs_max_occupancy = 0, qs_consumes = 0, qs_memory_fills = 0,
       qs_producer_issues = 0, qs_consumer_issues = 0\<rparr>,
     cq_smemq_stats = \<lparr>qs_full_stalls = 0, qs_empty_stalls = 0, qs_head_not_ready_stalls = 0,
       qs_reservations = 0, qs_max_occupancy = 0, qs_consumes = 0, qs_memory_fills = 0,
       qs_producer_issues = 0, qs_consumer_issues = 0\<rparr>\<rparr>"

definition small_load :: warp_inst where
  "small_load = warp_inst_init\<lparr>wi_rfq_load := True, wi_rfq_payload_words_per_lane := 1\<rparr>"

definition small_access :: "nat \<Rightarrow> mem_access" where
  "small_access a = \<lparr>ma_addr = a, ma_write = False, ma_req_size = 32, ma_type = GLOBAL_ACC_R,
    ma_warp_mask = 0\<rparr>"

definition small_core_after_test :: core_queues where
  "small_core_after_test = small_queue_core\<lparr>cq_rfq_table := [Wasp_rfq_key 0 0 0 1 0 \<mapsto> rfq_small]\<rparr>"

lemma new_warp_cta: "sw_cta_id (the (shd_warp_new n)) = 0"
  by (simp add: shd_warp_new_def sw_reset_def sw_clear_depbar_def)

lemma small_key: "w < 2 \<Longrightarrow> wasp_rfq_key_for_warp w i small_queue_core = Some (Wasp_rfq_key 0 0 0 1 i)"
  by (auto simp: wasp_rfq_key_for_warp_def original_warp_of_def small_queue_core_def new_warp_cta
      h200_config_def queue_metadata_init_def less_2_cases_iff replicate_two)

lemma small_queue_for:
  "rfq_queue_for 0 small_load small_queue_core = Some (Wasp_rfq_key 0 0 0 1 0, rfq_small, small_core_after_test)"
proof -
  have "rfq_get_or_create (Wasp_rfq_key 0 0 0 1 0) 2 1 4 Map.empty =
      Some (rfq_small, [Wasp_rfq_key 0 0 0 1 0 \<mapsto> rfq_small])"
    using rfq_small_configure by (simp add: rfq_get_or_create_def)
  moreover have "cq_rfq_table small_queue_core = Map.empty"
    "sc_gpgpu_wasp_rfq_entries (cq_config small_queue_core) = 2" "sc_warp_size (cq_config small_queue_core) = 4"
    "wi_rfq_queue_id warp_inst_init = 0"
    by (simp_all add: small_queue_core_def h200_config_def warp_inst_init_def)
  ultimately show ?thesis
    using small_key[of 0 0]
    by (simp add: rfq_queue_for_def rfq_payload_words_def small_load_def small_core_after_test_def)
qed

lemma small_can_issue:
  "wasp_rfq_can_issue 0 (Some small_load) c small_queue_core = Some (True, small_core_after_test)"
proof -
  have "\<not> rfq_full rfq_small" "wasp_rfq_enabled small_queue_core" "wi_rfq_load small_load"
    by (simp_all add: rfq_full_def rfq_small_def small_queue_core_def wasp_rfq_enabled_def h200_config_def
        small_load_def)
  then show ?thesis using small_queue_for by (simp add: wasp_rfq_can_issue_def rfq_inst_def)
qed

lemma small_facts:
  "rfq_table_ok (cq_rfq_table small_queue_core)" "wi_rfq_load small_load"
  "sc_warp_size (cq_config small_queue_core) * rfq_payload_words small_load < 2 ^ 32"
  by (simp_all add: rfq_table_ok_def small_queue_core_def small_load_def rfq_payload_words_def)

subsection \<open>Properties\<close>

text \<open>C29. The test of the scheduler is sufficient: when \<open>wasp_rfq_can_issue\<close> says yes, the
  issue of the instruction that follows cannot fail any of its assertions. The reservation (or,
  for a move, the token) is made, the step after functional execution succeeds with whatever
  memory accesses the execution generated, and the queues of the core stay well formed.\<close>

theorem queue_issue_sound:
  assumes "rfq_table_ok (cq_rfq_table s)" "wasp_rfq_can_issue w (Some inst) cs s = Some (True, s1)"
    "rfq_inst inst" "sc_warp_size (cq_config s) * rfq_payload_words inst < 2 ^ 32"
  shows "\<exists>i2 s2 s3. wasp_rfq_prepare_issue (issued_copy w m inst) s1 = Some (i2, s2) \<and>
    wasp_rfq_after_func_exec (i2\<lparr>wi_accessq := acc\<rparr>) s2 = Some s3 \<and> rfq_table_ok (cq_rfq_table s3)"
proof -
  let ?i = "issued_copy w m inst"
  obtain key q where q: "wasp_rfq_enabled s1" "rfq_invar q" "cq_rfq_table s1 key = Some q"
    "rfq_table_ok (cq_rfq_table s1)" "rfq_queue_for w ?i s1 = Some (key, q, s1)"
    "\<exists>c ow. key = Wasp_rfq_key c ow 0 1 (wi_rfq_queue_id inst)"
    "if wi_rfq_load inst then \<not> rfq_full q else rfq_head_ready q = Some True"
    by (rule rfq_can_issue_ok[OF assms])
  show ?thesis
  proof (cases "wi_rfq_load inst")
    case True
    obtain i2 s2 where "wasp_rfq_prepare_issue ?i s1 = Some (i2, s2)" "rfq_load_in_flight i2 s2"
      by (rule rfq_prepare_load[OF q(1,4,2) _ q(5)]) (use q(6,7) True in simp_all)
    moreover from this obtain s3 where "wasp_rfq_after_func_exec (i2\<lparr>wi_accessq := acc\<rparr>) s2 = Some s3"
      "rfq_table_ok (cq_rfq_table s3)"
      using rfq_after_exec_load[of "i2\<lparr>wi_accessq := acc\<rparr>" s2]
      by (auto simp: rfq_expects_def rfq_load_in_flight_def)
    ultimately show ?thesis by blast
  next
    case False
    let ?t = "wasp_rfq_token_init\<lparr>rt_key := key, rt_payload_words_per_lane := rfq_payload_words inst,
      rt_valid := True\<rparr>"
    let ?i2 = "wasp_rfq_write_token_to_inst ?t ?i"
    obtain s2 where s2: "wasp_rfq_prepare_issue ?i s1 = Some (?i2, s2)"
      "cq_rfq_table s2 = cq_rfq_table s1" "wasp_rfq_enabled s2"
      using q(1,5) False assms(3) by (simp add: wasp_rfq_prepare_issue_def Let_def)
    have k: "rt_key (wasp_rfq_token_from_inst ?i2) = key"
      using q(6) token_roundtrip(1)[of ?t _ _ ?i] by auto
    obtain q' where "rfq_consume_head key q = Some q'" "rfq_invar q'"
      using rfq.head_consumed[OF q(2)] q(7) False by fastforce
    then obtain s3 where "wasp_rfq_after_func_exec (?i2\<lparr>wi_accessq := acc\<rparr>) s2 = Some s3"
      "cq_rfq_table s3 = (cq_rfq_table s1)(key \<mapsto> q')"
      using s2 q(3,7) k False assms(3)
      by (simp add: wasp_rfq_after_func_exec_def rfq_find_def Let_def rfq_inst_def)
    with s2(1) q(4) \<open>rfq_invar q'\<close> show ?thesis by (auto simp: rfq_table_ok_upd)
  qed
qed

text \<open>C30. A producer load is answered exactly: once issued, and after any values its lanes have
  stored in the slot, a load that generated \<open>n\<close> memory accesses takes exactly \<open>n\<close> responses. All
  but the last report that the load is still waiting, the last that it is complete; the load is
  pending in between and not after; and a further response is refused.\<close>

theorem queue_load_answered:
  assumes "rfq_table_ok (cq_rfq_table s)" "wasp_rfq_can_issue w (Some inst) cs s = Some (True, s1)"
    "wi_rfq_load inst" "sc_warp_size (cq_config s) * rfq_payload_words inst < 2 ^ 32"
    "wasp_rfq_prepare_issue (issued_copy w m inst) s1 = Some (i2, s2)"
    "run_calls (\<lambda>s (l, w, v). wasp_rfq_functional_store_lane i2 l w v s) s2 stores = Some s3"
  shows "\<exists>s4 s5. wasp_rfq_after_func_exec (i2\<lparr>wi_accessq := acc\<rparr>) s3 = Some s4 \<and>
    wasp_rfq_load_pending (i2\<lparr>wi_accessq := acc\<rparr>) s4 = Some (acc \<noteq> []) \<and>
    rfq_responses (length acc) (i2\<lparr>wi_accessq := acc\<rparr>) s4 =
      Some (map (\<lambda>k. Suc k = length acc) [0..<length acc], s5) \<and>
    wasp_rfq_load_pending (i2\<lparr>wi_accessq := acc\<rparr>) s5 = Some False \<and>
    wasp_rfq_mark_mem_response (i2\<lparr>wi_accessq := acc\<rparr>) s5 = None"
proof -
  let ?i = "issued_copy w m inst" and ?i2 = "i2\<lparr>wi_accessq := acc\<rparr>"
  have ri: "rfq_inst inst" using assms(3) by (simp add: rfq_inst_def)
  obtain key q where q: "wasp_rfq_enabled s1" "rfq_invar q" "rfq_table_ok (cq_rfq_table s1)"
    "rfq_queue_for w ?i s1 = Some (key, q, s1)" "\<exists>c ow. key = Wasp_rfq_key c ow 0 1 (wi_rfq_queue_id inst)"
    "if wi_rfq_load inst then \<not> rfq_full q else rfq_head_ready q = Some True"
    by (rule rfq_can_issue_ok[OF assms(1,2) ri assms(4)])
  from q(6) assms(3) have free: "\<not> rfq_full q" by simp
  have "rfq_load_in_flight i2 s2"
    by (rule rfq_prepare_load[OF q(1,3,2) free q(4)]) (use assms(3,5) q(5) in simp_all)
  then have "rfq_load_in_flight ?i2 s3" using rfq_stores_in_flight[OF assms(6)] by simp
  then obtain s4 where s4: "wasp_rfq_after_func_exec ?i2 s3 = Some s4" "rfq_expects (length acc) ?i2 s4"
    using rfq_after_exec_load[of ?i2 s3] by (auto simp: accessq_count_def)
  with rfq_responses_expected[OF s4(2)] rfq_load_pending_expects[OF s4(2)] rfq_no_more_responses
  show ?thesis by auto
qed


theorem queue_issue_sound_witness:
  "\<exists>i2 s2 s3. wasp_rfq_prepare_issue (issued_copy 0 15 small_load) small_core_after_test = Some (i2, s2) \<and>
     wasp_rfq_after_func_exec (i2\<lparr>wi_accessq := []\<rparr>) s2 = Some s3 \<and> rfq_table_ok (cq_rfq_table s3)"
  using small_facts by (intro queue_issue_sound[OF _ small_can_issue]) (simp_all add: rfq_inst_def)


theorem queue_load_answered_witness:
  "\<exists>i2 s2 s3 s4 s5. wasp_rfq_prepare_issue (issued_copy 0 15 small_load) small_core_after_test = Some (i2, s2) \<and>
     wasp_rfq_functional_store_lane i2 3 0 7 s2 = Some s3 \<and>
     wasp_rfq_after_func_exec (i2\<lparr>wi_accessq := [small_access 0, small_access 32]\<rparr>) s3 = Some s4 \<and>
     rfq_responses 2 (i2\<lparr>wi_accessq := [small_access 0, small_access 32]\<rparr>) s4 = Some ([False, True], s5) \<and>
     wasp_rfq_mark_mem_response (i2\<lparr>wi_accessq := [small_access 0, small_access 32]\<rparr>) s5 = None"
proof -
  let ?i = "issued_copy 0 15 small_load" and ?s = small_core_after_test
  let ?k = "Wasp_rfq_key 0 0 0 1 0"
  obtain q where q: "rfq_reserve_tail ?k 15 0 rfq_small = Some (\<lparr>rt_key = ?k, rt_slot_index = 0, rt_sequence = 1,
      rt_payload_words_per_lane = 1, rt_valid = True\<rparr>, q)"
    "rfq_occupancy q = 1" "\<exists>q'. rfq_set_lane_value \<lparr>rt_key = ?k, rt_slot_index = 0, rt_sequence = 1,
      rt_payload_words_per_lane = 1, rt_valid = True\<rparr> 3 0 7 q = Some q'"
    by (simp add: rfq_eval rfq_small_def rfq_occupancy_def)
  have f: "rfq_queue_for 0 ?i ?s = Some (?k, rfq_small, ?s)"
    by (rule rfq_queue_for_ok(5)[OF small_facts(1) small_queue_for small_facts(3)])
  have en: "wasp_rfq_enabled ?s" "\<not> rfq_full rfq_small"
    by (simp_all add: small_core_after_test_def small_queue_core_def wasp_rfq_enabled_def h200_config_def
        rfq_full_def rfq_small_def)
  obtain i2 s2 where p: "wasp_rfq_prepare_issue ?i ?s = Some (i2, s2)"
    "wasp_rfq_token_from_inst i2 = \<lparr>rt_key = ?k, rt_slot_index = 0, rt_sequence = 1,
      rt_payload_words_per_lane = 1, rt_valid = True\<rparr>"
    "cq_rfq_table s2 ?k = Some q" "wasp_rfq_enabled s2" "cq_config s2 = cq_config ?s"
    using q(1) f en small_facts(2)
    by (simp add: wasp_rfq_prepare_issue_def Let_def rfq_inst_def)
       (simp add: wasp_rfq_token_from_inst_def wasp_rfq_write_token_to_inst_def issued_copy_def small_load_def
          warp_inst_init_def small_core_after_test_def)
  have md: "sc_gpgpu_wasp_rfq_model_data (cq_config s2)"
    using p(5) by (simp add: small_core_after_test_def small_queue_core_def h200_config_def)
  from q(3) obtain q' where "rfq_set_lane_value (wasp_rfq_token_from_inst i2) 3 0 7 q = Some q'"
    using p(2) by auto
  then obtain s3 where s3: "wasp_rfq_functional_store_lane i2 3 0 7 s2 = Some s3"
    using p(2,3,4) md by (simp add: wasp_rfq_functional_store_lane_def rfq_find_def Let_def)
  from queue_load_answered[OF small_facts(1) small_can_issue small_facts(2,3) p(1), of "[(3, 0, 7)]" s3 "[small_access 0, small_access 32]"]
    p(1) s3 show ?thesis by (auto simp: numeral_2_eq_2 simp del: rfq_responses.simps)
qed

text \<open>C31. Which warps share a queue: with \<open>P\<close> producer warps and \<open>W\<close> warps in each CTA, two warps
  of one CTA use the same register-file queue exactly when they are the same warp of the CTA or
  one is a producer and the other the consumer \<open>P\<close> places after it. So a producer has one
  partner at most, and a consumer from place \<open>2 P\<close> on has none.\<close>

theorem rfq_key_pairing:
  assumes "md_producer_warps_per_cta (sc_wasp_metadata (cq_config s)) = P" "0 < P" "P < W"
    "cq_kernel_padded_threads_per_cta s = W * sc_warp_size (cq_config s)" "0 < sc_warp_size (cq_config s)"
    "a < length (cq_warp s)" "b < length (cq_warp s)" "sw_cta_id (cq_warp s ! a) = sw_cta_id (cq_warp s ! b)"
  shows "wasp_rfq_key_for_warp a i s \<noteq> None \<and>
    (wasp_rfq_key_for_warp a i s = wasp_rfq_key_for_warp b i s \<longleftrightarrow>
      a mod W = b mod W \<or> (a mod W < P \<and> b mod W = a mod W + P) \<or> (b mod W < P \<and> a mod W = b mod W + P))"
  using assms by (auto simp: wasp_rfq_key_for_warp_def original_warp_of_def Let_def)

theorem rfq_key_pairing_witness:
  "wasp_rfq_key_for_warp 0 5 (small_queue_core\<lparr>cq_config := (cq_config small_queue_core)
       \<lparr>sc_wasp_metadata := queue_metadata_init\<lparr>md_producer_warps_per_cta := 1\<rparr>\<rparr>\<rparr>) =
     wasp_rfq_key_for_warp 1 5 (small_queue_core\<lparr>cq_config := (cq_config small_queue_core)
       \<lparr>sc_wasp_metadata := queue_metadata_init\<lparr>md_producer_warps_per_cta := 1\<rparr>\<rparr>\<rparr>)"
  (is "wasp_rfq_key_for_warp 0 5 ?s = _")
  using rfq_key_pairing[of ?s 1 2 0 1 5]
  by (simp add: small_queue_core_def queue_metadata_init_def h200_config_def replicate_two)

end
