(* ===== verification/Barrier_Set.thy ===== *)
theory Barrier_Set
  imports Inst_Model
begin

section \<open>CTA barriers: \<open>barrier_set_t\<close>\<close>

text \<open>
  The barrier unit of a core (\<open>shader.cc\<close>, \<open>shader.h\<close>). A \<open>warp_set_t\<close> is a
  \<open>std::bitset<64>\<close>, here a 64-bit word; \<open>test\<close> and \<open>set\<close> of a bit outside it throw.
  \<open>m_cta_to_warps\<close> is a \<open>std::map\<close>, here the list of its pairs in key order;
  \<open>m_bar_id_to_warps\<close>, which is only read through \<open>[]\<close>, is a total function. A release
  with a reduction calls back into the core: the operation returns the set of warps for
  which it does.
\<close>

definition WARP_PER_CTA_MAX :: nat where
  "WARP_PER_CTA_MAX = 64"

definition MAX_BARRIERS_PER_CTA :: nat where
  "MAX_BARRIERS_PER_CTA = 16"

type_synonym warp_set_t = "64 word"

definition ws_test :: "warp_set_t \<Rightarrow> nat \<Rightarrow> bool option" where
  "ws_test s i = (if i < WARP_PER_CTA_MAX then Some (bit s i) else None)"

definition ws_set :: "warp_set_t \<Rightarrow> nat \<Rightarrow> warp_set_t option" where
  "ws_set s i = (if i < WARP_PER_CTA_MAX then Some (set_bit i s) else None)"

definition ws_reset :: "warp_set_t \<Rightarrow> nat \<Rightarrow> warp_set_t option" where
  "ws_reset s i = (if i < WARP_PER_CTA_MAX then Some (unset_bit i s) else None)"

definition ws_count :: "warp_set_t \<Rightarrow> nat" where
  "ws_count s = length (filter (\<lambda>i. bit s i) [0..<WARP_PER_CTA_MAX])"

record barrier_set =
  bs_max_warps_per_core :: nat
  bs_max_cta_per_core :: nat
  bs_max_barriers_per_cta :: nat
  bs_warp_size :: nat
  bs_cta_to_warps :: "(nat \<times> warp_set_t) list"
  bs_bar_id_to_warps :: "nat \<Rightarrow> warp_set_t"
  bs_warp_active :: warp_set_t
  bs_warp_at_barrier :: warp_set_t

definition barrier_set_new :: "nat \<Rightarrow> nat \<Rightarrow> nat \<Rightarrow> nat \<Rightarrow> barrier_set option" where
  "barrier_set_new max_warps max_cta max_barriers warp_size = do {
     assert_that (max_warps \<le> WARP_PER_CTA_MAX);
     assert_that (max_barriers \<le> MAX_BARRIERS_PER_CTA);
     Some \<lparr>bs_max_warps_per_core = max_warps, bs_max_cta_per_core = max_cta,
       bs_max_barriers_per_cta = max_barriers, bs_warp_size = warp_size,
       bs_cta_to_warps = [], bs_bar_id_to_warps = (\<lambda>_. 0),
       bs_warp_active = 0, bs_warp_at_barrier = 0\<rparr>
   }"

text \<open>The loop that clears the warps \<open>ws\<close> in the barriers \<open>0\<close> to \<open>n - 1\<close>.\<close>

definition clear_bars :: "nat \<Rightarrow> warp_set_t \<Rightarrow> (nat \<Rightarrow> warp_set_t) \<Rightarrow> nat \<Rightarrow> warp_set_t" where
  "clear_bars n ws bars = (\<lambda>i. if i < n then bars i AND NOT ws else bars i)"

definition allocate_barrier :: "nat \<Rightarrow> warp_set_t \<Rightarrow> barrier_set \<Rightarrow> barrier_set option" where
  "allocate_barrier cta_id warps b = do {
     assert_that (cta_id < bs_max_cta_per_core b);
     assert_that (map_of (bs_cta_to_warps b) cta_id = None);
     let m = smap_insert cta_id warps (bs_cta_to_warps b);
     assert_that (length m \<le> bs_max_cta_per_core b);
     Some (b\<lparr>bs_cta_to_warps := m,
       bs_warp_active := bs_warp_active b OR warps,
       bs_warp_at_barrier := bs_warp_at_barrier b AND NOT warps,
       bs_bar_id_to_warps := clear_bars (bs_max_barriers_per_cta b) warps (bs_bar_id_to_warps b)\<rparr>)
   }"

definition deallocate_barrier :: "nat \<Rightarrow> barrier_set \<Rightarrow> barrier_set option" where
  "deallocate_barrier cta_id b =
     (case map_of (bs_cta_to_warps b) cta_id of
        None \<Rightarrow> Some b
      | Some warps \<Rightarrow> do {
          assert_that (warps AND bs_warp_at_barrier b = 0);
          assert_that (warps AND bs_warp_active b = 0);
          assert_that (\<forall>i \<in> set [0..<bs_max_barriers_per_cta b]. warps AND bs_bar_id_to_warps b i = 0);
          Some (b\<lparr>bs_warp_active := bs_warp_active b AND NOT warps,
            bs_warp_at_barrier := bs_warp_at_barrier b AND NOT warps,
            bs_bar_id_to_warps := clear_bars (bs_max_barriers_per_cta b) warps (bs_bar_id_to_warps b),
            bs_cta_to_warps := smap_erase cta_id (bs_cta_to_warps b)\<rparr>)
        })"

text \<open>The release of both branches of \<open>warp_reaches_barrier\<close>.\<close>

definition release_barrier :: "nat \<Rightarrow> warp_set_t \<Rightarrow> barrier_set \<Rightarrow> barrier_set" where
  "release_barrier bar_id ws b =
     b\<lparr>bs_bar_id_to_warps := (bs_bar_id_to_warps b)(bar_id := bs_bar_id_to_warps b bar_id AND NOT ws),
       bs_warp_at_barrier := bs_warp_at_barrier b AND NOT ws\<rparr>"

definition warp_reaches_barrier ::
  "nat \<Rightarrow> nat \<Rightarrow> warp_inst \<Rightarrow> barrier_set \<Rightarrow> (warp_set_t option \<times> barrier_set) option" where
  "warp_reaches_barrier cta_id warp_id inst b = do {
     let bar_type = wi_bar_type inst;
     let bar_id = wi_bar_id inst;
     let bar_count = wi_bar_count inst;
     assert_that (bar_id \<noteq> UINT_MAX);
     warps_in_cta \<leftarrow> map_of (bs_cta_to_warps b) cta_id;
     t \<leftarrow> ws_test warps_in_cta warp_id;
     assert_that t;
     bs \<leftarrow> ws_set (bs_bar_id_to_warps b bar_id) warp_id;
     let b = b\<lparr>bs_bar_id_to_warps := (bs_bar_id_to_warps b)(bar_id := bs)\<rparr>;
     wab \<leftarrow> (if bar_type = SYNC \<or> bar_type = RED
            then ws_set (bs_warp_at_barrier b) warp_id else Some (bs_warp_at_barrier b));
     let b = b\<lparr>bs_warp_at_barrier := wab\<rparr>;
     let at_barrier = warps_in_cta AND bs_bar_id_to_warps b bar_id;
     let active = warps_in_cta AND bs_warp_active b;
     let released = (if bar_count = UINT_MAX then at_barrier = active
                     else ws_count at_barrier * bs_warp_size b = bar_count);
     Some (if released
           then (if bar_type = RED then Some at_barrier else None, release_barrier bar_id at_barrier b)
           else (None, b))
   }"

text \<open>
  The loop of \<open>warp_exit\<close> over the barriers. A warp of no CTA makes the code read through
  the end iterator of the map: that is a failure here.
\<close>

definition exit_release :: "warp_set_t \<Rightarrow> warp_set_t \<Rightarrow> nat \<Rightarrow> barrier_set \<Rightarrow> barrier_set" where
  "exit_release warps_in_cta active i b =
     (let at_bar = warps_in_cta AND bs_bar_id_to_warps b i
      in if at_bar = active then release_barrier i at_bar b else b)"

fun find_cta_of_warp :: "nat \<Rightarrow> (nat \<times> warp_set_t) list \<Rightarrow> warp_set_t option" where
  "find_cta_of_warp warp_id [] = None"
| "find_cta_of_warp warp_id ((c, ws) # m) =
     (if bit ws warp_id then Some ws else find_cta_of_warp warp_id m)"

definition bs_warp_exit :: "nat \<Rightarrow> barrier_set \<Rightarrow> barrier_set option" where
  "bs_warp_exit warp_id b = do {
     act \<leftarrow> ws_reset (bs_warp_active b) warp_id;
     let b = b\<lparr>bs_warp_active := act\<rparr>;
     warps_in_cta \<leftarrow> find_cta_of_warp warp_id (bs_cta_to_warps b);
     let active = warps_in_cta AND bs_warp_active b;
     Some (fold (exit_release warps_in_cta active) [0..<bs_max_barriers_per_cta b] b)
   }"

definition bs_warp_waiting_at_barrier :: "nat \<Rightarrow> barrier_set \<Rightarrow> bool option" where
  "bs_warp_waiting_at_barrier warp_id b = ws_test (bs_warp_at_barrier b) warp_id"

subsection \<open>Sequences of barrier operations\<close>

datatype bar_event =
    Bar_allocate nat warp_set_t
  | Bar_deallocate nat
  | Bar_reach nat nat warp_inst
  | Bar_exit nat

fun bar_step :: "barrier_set \<Rightarrow> bar_event \<Rightarrow> barrier_set option" where
  "bar_step b (Bar_allocate c ws) = allocate_barrier c ws b"
| "bar_step b (Bar_deallocate c) = deallocate_barrier c b"
| "bar_step b (Bar_reach c w inst) = map_option snd (warp_reaches_barrier c w inst b)"
| "bar_step b (Bar_exit w) = bs_warp_exit w b"

text \<open>
  What the callers keep: a new CTA takes warps that no resident CTA has, a running warp
  arrives at a barrier of the CTA without a thread count, and a warp does not exit while
  a barrier still counts it.
\<close>

fun bar_event_ok :: "barrier_set \<Rightarrow> bar_event \<Rightarrow> bool" where
  "bar_event_ok b (Bar_allocate c ws) = list_all (\<lambda>(d, vs). ws AND vs = 0) (bs_cta_to_warps b)"
| "bar_event_ok b (Bar_deallocate c) = True"
| "bar_event_ok b (Bar_reach c w inst) =
     (bit (bs_warp_active b) w \<and> wi_bar_count inst = UINT_MAX \<and>
      wi_bar_id inst < bs_max_barriers_per_cta b)"
| "bar_event_ok b (Bar_exit w) =
     (\<forall>i \<in> set [0..<bs_max_barriers_per_cta b]. \<not> bit (bs_bar_id_to_warps b i) w)"

inductive bar_reachable :: "barrier_set \<Rightarrow> barrier_set \<Rightarrow> bool" for b0 where
  bar_start: "bar_reachable b0 b0"
| bar_next: "bar_reachable b0 b \<Longrightarrow> bar_event_ok b e \<Longrightarrow> bar_step b e = Some b' \<Longrightarrow>
    bar_reachable b0 b'"

text \<open>
  The invariant, bit by bit: resident CTAs are disjoint; a warp counted at a barrier is
  active and belongs to a CTA; a waiting warp is counted at some barrier; and a barrier at
  which some warp of a CTA is counted is still short of an active warp of that CTA.
\<close>

definition bar_inv :: "barrier_set \<Rightarrow> bool" where
  "bar_inv b \<longleftrightarrow>
     smap_ok (bs_cta_to_warps b) \<and>
     (\<forall>c d ws vs v. map_of (bs_cta_to_warps b) c = Some ws \<longrightarrow> map_of (bs_cta_to_warps b) d = Some vs \<longrightarrow>
        bit ws v \<longrightarrow> bit vs v \<longrightarrow> c = d) \<and>
     (\<forall>i < bs_max_barriers_per_cta b. \<forall>v. bit (bs_bar_id_to_warps b i) v \<longrightarrow>
        bit (bs_warp_active b) v \<and> (\<exists>c ws. map_of (bs_cta_to_warps b) c = Some ws \<and> bit ws v)) \<and>
     (\<forall>v. bit (bs_warp_at_barrier b) v \<longrightarrow>
        (\<exists>i < bs_max_barriers_per_cta b. bit (bs_bar_id_to_warps b i) v)) \<and>
     (\<forall>c ws i v. map_of (bs_cta_to_warps b) c = Some ws \<longrightarrow> i < bs_max_barriers_per_cta b \<longrightarrow>
        bit ws v \<longrightarrow> bit (bs_bar_id_to_warps b i) v \<longrightarrow>
        (\<exists>u. bit ws u \<and> bit (bs_warp_active b) u \<and> \<not> bit (bs_bar_id_to_warps b i) u))"

lemma ws_bit_less: "bit ws v \<Longrightarrow> v < 64" for ws :: warp_set_t
  using bit_imp_le_length[of ws v] by simp

lemma and_eq_bits:
  "ws AND x = ws AND y \<longleftrightarrow> (\<forall>v. bit ws v \<longrightarrow> bit x v = bit y v)" for ws x y :: warp_set_t
  by (auto simp: bit_eq_iff bit_simps dest: ws_bit_less)

lemma and_zero_bits: "ws AND x = 0 \<longleftrightarrow> (\<forall>v. bit ws v \<longrightarrow> \<not> bit x v)" for ws x :: warp_set_t
  by (auto simp: bit_eq_iff bit_simps dest: ws_bit_less)

lemma bit_clear: "bit (x AND NOT y) v \<longleftrightarrow> bit x v \<and> \<not> bit y v" for x y :: warp_set_t
  using bit_imp_le_length[of x v] by (auto simp: bit_simps)

lemma bit_clear_and: "bit (x AND NOT (y AND z)) v \<longleftrightarrow> bit x v \<and> \<not> (bit y v \<and> bit z v)"
  for x y z :: warp_set_t
  unfolding bit_clear unfolding bit_and_iff ..

lemma bit_set_one: "v < 64 \<Longrightarrow> bit (set_bit v x) u \<longleftrightarrow> u = v \<or> bit x u" for x :: warp_set_t
  by (auto simp: bit_simps)

lemma bit_reset_one: "bit (unset_bit v x) u \<longleftrightarrow> u \<noteq> v \<and> bit x u" for x :: warp_set_t
  by (auto simp: bit_simps)

lemmas warp_bits = bit_clear bit_set_one bit_reset_one bit_or_iff bit_and_iff
  and_eq_bits and_zero_bits

lemma clear_bars_at: "clear_bars n ws bars i = (if i < n then bars i AND NOT ws else bars i)"
  by (simp add: clear_bars_def)

lemma release_barrier_fields [simp]:
  "bs_cta_to_warps (release_barrier i ws b) = bs_cta_to_warps b"
  "bs_warp_active (release_barrier i ws b) = bs_warp_active b"
  "bs_max_barriers_per_cta (release_barrier i ws b) = bs_max_barriers_per_cta b"
  "bs_warp_at_barrier (release_barrier i ws b) = bs_warp_at_barrier b AND NOT ws"
  "bs_bar_id_to_warps (release_barrier i ws b) =
    (bs_bar_id_to_warps b)(i := bs_bar_id_to_warps b i AND NOT ws)"
  by (simp_all add: release_barrier_def)

subsection \<open>What an arrival does\<close>

text \<open>The state of an arrival before the release test.\<close>

definition bar_arrive :: "nat \<Rightarrow> warp_inst \<Rightarrow> barrier_set \<Rightarrow> barrier_set" where
  "bar_arrive w inst b =
     b\<lparr>bs_bar_id_to_warps := (bs_bar_id_to_warps b)
         (wi_bar_id inst := set_bit w (bs_bar_id_to_warps b (wi_bar_id inst))),
       bs_warp_at_barrier := (if wi_bar_type inst = SYNC \<or> wi_bar_type inst = RED
         then set_bit w (bs_warp_at_barrier b) else bs_warp_at_barrier b)\<rparr>"

lemma bar_arrive_fields [simp]:
  "bs_cta_to_warps (bar_arrive w inst b) = bs_cta_to_warps b"
  "bs_warp_active (bar_arrive w inst b) = bs_warp_active b"
  "bs_max_barriers_per_cta (bar_arrive w inst b) = bs_max_barriers_per_cta b"
  by (simp_all add: bar_arrive_def)

lemma bar_arrive_bar:
  "bs_bar_id_to_warps (bar_arrive w inst b) (wi_bar_id inst) =
    set_bit w (bs_bar_id_to_warps b (wi_bar_id inst))"
  by (simp add: bar_arrive_def)

lemma warp_reaches_barrier_eq:
  assumes "wi_bar_id inst \<noteq> UINT_MAX" "map_of (bs_cta_to_warps b) c = Some ws" "bit ws w"
  shows "warp_reaches_barrier c w inst b =
    (let at = ws AND set_bit w (bs_bar_id_to_warps b (wi_bar_id inst)) in
     Some (if (if wi_bar_count inst = UINT_MAX then at = ws AND bs_warp_active b
               else ws_count at * bs_warp_size b = wi_bar_count inst)
           then (if wi_bar_type inst = RED then Some at else None,
                 release_barrier (wi_bar_id inst) at (bar_arrive w inst b))
           else (None, bar_arrive w inst b)))"
proof -
  have "w < 64" using bit_imp_le_length[OF assms(3)] by simp
  then show ?thesis
    using assms by (simp add: warp_reaches_barrier_def ws_test_def ws_set_def WARP_PER_CTA_MAX_def
        bar_arrive_def Let_def)
qed

lemma warp_reaches_barrier_Some:
  assumes "warp_reaches_barrier c w inst b = Some r"
  shows "wi_bar_id inst \<noteq> UINT_MAX \<and> (\<exists>ws. map_of (bs_cta_to_warps b) c = Some ws \<and> bit ws w)"
  using assms
  by (auto simp: warp_reaches_barrier_def ws_test_def Let_def split: bind_splits if_splits)

subsection \<open>Preservation\<close>

lemma bar_inv_new:
  "barrier_set_new mw mc mb s = Some b \<Longrightarrow> bar_inv b"
  by (auto simp: barrier_set_new_def bar_inv_def split: if_splits)

lemma bar_invD:
  assumes "bar_inv b"
  shows "smap_ok (bs_cta_to_warps b)"
    and "map_of (bs_cta_to_warps b) c = Some ws \<Longrightarrow> map_of (bs_cta_to_warps b) d = Some vs \<Longrightarrow>
        bit ws v \<Longrightarrow> bit vs v \<Longrightarrow> c = d"
    and "i < bs_max_barriers_per_cta b \<Longrightarrow> bit (bs_bar_id_to_warps b i) v \<Longrightarrow>
        bit (bs_warp_active b) v \<and> (\<exists>c ws. map_of (bs_cta_to_warps b) c = Some ws \<and> bit ws v)"
    and "bit (bs_warp_at_barrier b) v \<Longrightarrow>
        (\<exists>i < bs_max_barriers_per_cta b. bit (bs_bar_id_to_warps b i) v)"
    and "map_of (bs_cta_to_warps b) c = Some ws \<Longrightarrow> i < bs_max_barriers_per_cta b \<Longrightarrow>
        bit ws v \<Longrightarrow> bit (bs_bar_id_to_warps b i) v \<Longrightarrow>
        (\<exists>u. bit ws u \<and> bit (bs_warp_active b) u \<and> \<not> bit (bs_bar_id_to_warps b i) u)"
  using assms unfolding bar_inv_def by blast+

lemma bar_inv_allocate:
  assumes "bar_inv b" "bar_event_ok b (Bar_allocate c ws)" "allocate_barrier c ws b = Some b'"
  shows "bar_inv b'"
proof -
  have new: "map_of (bs_cta_to_warps b) c = None"
    and b': "bs_cta_to_warps b' = smap_insert c ws (bs_cta_to_warps b)"
      "bs_warp_active b' = bs_warp_active b OR ws"
      "bs_warp_at_barrier b' = bs_warp_at_barrier b AND NOT ws"
      "bs_max_barriers_per_cta b' = bs_max_barriers_per_cta b"
      "bs_bar_id_to_warps b' = clear_bars (bs_max_barriers_per_cta b) ws (bs_bar_id_to_warps b)"
    using assms(3) by (auto simp: allocate_barrier_def Let_def split: if_splits)
  note inv = bar_invD[OF assms(1)]
  have disj: "\<not> bit vs v" if "map_of (bs_cta_to_warps b) d = Some vs" "bit ws v" for d vs v
    using map_of_SomeD[OF that(1)] assms(2) that(2)
    by (fastforce simp: list_all_iff and_zero_bits)
  have bar: "bit (bs_bar_id_to_warps b' i) v \<longleftrightarrow> bit (bs_bar_id_to_warps b i) v \<and> \<not> bit ws v"
    if "i < bs_max_barriers_per_cta b" for i v
    using that by (simp add: b' clear_bars_at bit_clear)
  have 1: "smap_ok (bs_cta_to_warps b')" by (simp add: b' smap_ok_insert[OF inv(1)])
  have 2: "d = e" if "map_of (bs_cta_to_warps b') d = Some us" "map_of (bs_cta_to_warps b') e = Some vs"
    "bit us v" "bit vs v" for d e us vs v
    using that disj inv(2) by (auto simp: b' split: if_splits)
  have 3: "bit (bs_warp_active b') v \<and> (\<exists>d vs. map_of (bs_cta_to_warps b') d = Some vs \<and> bit vs v)"
    if "i < bs_max_barriers_per_cta b'" "bit (bs_bar_id_to_warps b' i) v" for i v
  proof -
    note prem = that
    obtain d vs where "map_of (bs_cta_to_warps b) d = Some vs" "bit vs v" "bit (bs_warp_active b) v"
      using prem inv(3)[of i v] bar[of i v] by (auto simp: b'(4))
    moreover from this(1) new have "d \<noteq> c" by auto
    ultimately show ?thesis by (auto simp: b'(1,2) bit_or_iff)
  qed
  have 4: "\<exists>i < bs_max_barriers_per_cta b'. bit (bs_bar_id_to_warps b' i) v"
    if "bit (bs_warp_at_barrier b') v" for v
    using that inv(4)[of v] bar by (auto simp: b'(3,4) bit_clear)
  have 5: "\<exists>u. bit us u \<and> bit (bs_warp_active b') u \<and> \<not> bit (bs_bar_id_to_warps b' i) u"
    if "map_of (bs_cta_to_warps b') d = Some us" "i < bs_max_barriers_per_cta b'"
      "bit us v" "bit (bs_bar_id_to_warps b' i) v" for d us i v
  proof (cases "d = c")
    case True
    then show ?thesis using that bar[of i v] by (simp add: b'(1,4))
  next
    case False
    with that have "map_of (bs_cta_to_warps b) d = Some us" by (simp add: b')
    with that inv(5)[OF this, of i v] bar show ?thesis by (auto simp: b'(2,4) bit_or_iff)
  qed
  show ?thesis unfolding bar_inv_def using 1 2 3 4 5 by blast
qed

lemma deallocate_barrier_Some:
  assumes "deallocate_barrier c b = Some b'" "map_of (bs_cta_to_warps b) c = Some ws"
  shows "bs_warp_active b' = bs_warp_active b" "bs_warp_at_barrier b' = bs_warp_at_barrier b"
    "bs_bar_id_to_warps b' = bs_bar_id_to_warps b"
    "bs_max_barriers_per_cta b' = bs_max_barriers_per_cta b"
    "bs_cta_to_warps b' = smap_erase c (bs_cta_to_warps b)"
    "bit ws v \<Longrightarrow> \<not> bit (bs_warp_active b) v"
proof -
  have keep: "x AND NOT ws = x" if "ws AND x = 0" for x :: warp_set_t
    by (rule bit_eqI) (use that in \<open>auto simp: bit_clear and_zero_bits\<close>)
  have z: "ws AND bs_warp_at_barrier b = 0" "ws AND bs_warp_active b = 0"
    "\<forall>i < bs_max_barriers_per_cta b. ws AND bs_bar_id_to_warps b i = 0"
    and b': "b' = b\<lparr>bs_warp_active := bs_warp_active b AND NOT ws,
       bs_warp_at_barrier := bs_warp_at_barrier b AND NOT ws,
       bs_bar_id_to_warps := clear_bars (bs_max_barriers_per_cta b) ws (bs_bar_id_to_warps b),
       bs_cta_to_warps := smap_erase c (bs_cta_to_warps b)\<rparr>"
    using assms by (auto simp: deallocate_barrier_def split: if_splits)
  show "bs_warp_active b' = bs_warp_active b" "bs_warp_at_barrier b' = bs_warp_at_barrier b"
    "bs_max_barriers_per_cta b' = bs_max_barriers_per_cta b"
    "bs_cta_to_warps b' = smap_erase c (bs_cta_to_warps b)"
    using z by (simp_all add: b' keep)
  show "bs_bar_id_to_warps b' = bs_bar_id_to_warps b"
    using z(3) keep by (auto simp: b' clear_bars_def fun_eq_iff)
  show "bit ws v \<Longrightarrow> \<not> bit (bs_warp_active b) v" using z(2) by (simp add: and_zero_bits)
qed

lemma bar_inv_deallocate:
  assumes "bar_inv b" "deallocate_barrier c b = Some b'"
  shows "bar_inv b'"
proof (cases "map_of (bs_cta_to_warps b) c")
  case None
  with assms show ?thesis by (simp add: deallocate_barrier_def)
next
  case (Some ws)
  note d = deallocate_barrier_Some[OF assms(2) Some]
  note inv = bar_invD[OF assms(1)]
  have m: "map_of (bs_cta_to_warps b') e = Some vs \<longleftrightarrow> e \<noteq> c \<and> map_of (bs_cta_to_warps b) e = Some vs" for e vs
    by (simp add: d(5))
  have 3: "bit (bs_warp_active b) v \<and> (\<exists>e vs. map_of (bs_cta_to_warps b') e = Some vs \<and> bit vs v)"
    if "i < bs_max_barriers_per_cta b" "bit (bs_bar_id_to_warps b i) v" for i v
    using inv(3)[OF that] d(6) Some m by (metis option.inject)
  show ?thesis
    unfolding bar_inv_def d(1-4) m
  proof (intro conjI)
    show "smap_ok (bs_cta_to_warps b')" unfolding d(5) by (rule smap_ok_erase[OF inv(1)])
  qed (use inv(2,4,5) 3 in \<open>(unfold m, blast)+\<close>)
qed

text \<open>
  An arrival and an exit first break the last clause, for the barriers \<open>S\<close> of one CTA, and
  the release test then restores it barrier by barrier.
\<close>

definition bar_inv_but :: "barrier_set \<Rightarrow> nat \<Rightarrow> nat set \<Rightarrow> bool" where
  "bar_inv_but b c0 S \<longleftrightarrow>
     smap_ok (bs_cta_to_warps b) \<and>
     (\<forall>c d ws vs v. map_of (bs_cta_to_warps b) c = Some ws \<longrightarrow> map_of (bs_cta_to_warps b) d = Some vs \<longrightarrow>
        bit ws v \<longrightarrow> bit vs v \<longrightarrow> c = d) \<and>
     (\<forall>i < bs_max_barriers_per_cta b. \<forall>v. bit (bs_bar_id_to_warps b i) v \<longrightarrow>
        bit (bs_warp_active b) v \<and> (\<exists>c ws. map_of (bs_cta_to_warps b) c = Some ws \<and> bit ws v)) \<and>
     (\<forall>v. bit (bs_warp_at_barrier b) v \<longrightarrow>
        (\<exists>i < bs_max_barriers_per_cta b. bit (bs_bar_id_to_warps b i) v)) \<and>
     (\<forall>c ws i v. \<not> (c = c0 \<and> i \<in> S) \<longrightarrow> map_of (bs_cta_to_warps b) c = Some ws \<longrightarrow>
        i < bs_max_barriers_per_cta b \<longrightarrow> bit ws v \<longrightarrow> bit (bs_bar_id_to_warps b i) v \<longrightarrow>
        (\<exists>u. bit ws u \<and> bit (bs_warp_active b) u \<and> \<not> bit (bs_bar_id_to_warps b i) u))"

lemma bar_inv_but_empty: "bar_inv_but b c {} = bar_inv b"
  by (simp add: bar_inv_but_def bar_inv_def)

lemma bar_inv_butD:
  assumes "bar_inv_but b c0 S"
  shows "smap_ok (bs_cta_to_warps b)"
    and "map_of (bs_cta_to_warps b) c = Some ws \<Longrightarrow> map_of (bs_cta_to_warps b) d = Some vs \<Longrightarrow>
        bit ws v \<Longrightarrow> bit vs v \<Longrightarrow> c = d"
    and "i < bs_max_barriers_per_cta b \<Longrightarrow> bit (bs_bar_id_to_warps b i) v \<Longrightarrow>
        bit (bs_warp_active b) v \<and> (\<exists>c ws. map_of (bs_cta_to_warps b) c = Some ws \<and> bit ws v)"
    and "bit (bs_warp_at_barrier b) v \<Longrightarrow>
        (\<exists>i < bs_max_barriers_per_cta b. bit (bs_bar_id_to_warps b i) v)"
    and "\<not> (c = c0 \<and> i \<in> S) \<Longrightarrow> map_of (bs_cta_to_warps b) c = Some ws \<Longrightarrow>
        i < bs_max_barriers_per_cta b \<Longrightarrow> bit ws v \<Longrightarrow> bit (bs_bar_id_to_warps b i) v \<Longrightarrow>
        (\<exists>u. bit ws u \<and> bit (bs_warp_active b) u \<and> \<not> bit (bs_bar_id_to_warps b i) u)"
  using assms unfolding bar_inv_but_def by blast+

lemma exit_release_fields [simp]:
  "bs_cta_to_warps (exit_release ws a i b) = bs_cta_to_warps b"
  "bs_warp_active (exit_release ws a i b) = bs_warp_active b"
  "bs_max_barriers_per_cta (exit_release ws a i b) = bs_max_barriers_per_cta b"
  by (simp_all add: exit_release_def Let_def)

lemma exit_release_step:
  assumes inv: "bar_inv_but b c S" and c: "map_of (bs_cta_to_warps b) c = Some ws"
  shows "bar_inv_but (exit_release ws (ws AND bs_warp_active b) i0 b) c (S - {i0})"
proof (cases "ws AND bs_bar_id_to_warps b i0 = ws AND bs_warp_active b")
  case False
  have short: "\<exists>u. bit ws u \<and> bit (bs_warp_active b) u \<and> \<not> bit (bs_bar_id_to_warps b i0) u"
    if "i0 < bs_max_barriers_per_cta b"
    using False bar_inv_butD(3)[OF inv that] by (auto simp: and_eq_bits)
  have "bar_inv_but b c (S - {i0})"
    unfolding bar_inv_but_def
  proof (intro conjI allI impI)
    fix d vs i v assume "\<not> (d = c \<and> i \<in> S - {i0})" "map_of (bs_cta_to_warps b) d = Some vs"
      "i < bs_max_barriers_per_cta b" "bit vs v" "bit (bs_bar_id_to_warps b i) v"
    with short c bar_inv_butD(5)[OF inv, of d i vs v]
    show "\<exists>u. bit vs u \<and> bit (bs_warp_active b) u \<and> \<not> bit (bs_bar_id_to_warps b i) u"
      by (cases "d = c \<and> i = i0") auto
  qed (use bar_inv_butD(1-4)[OF inv] in blast)+
  with False show ?thesis by (simp add: exit_release_def)
next
  case True
  let ?at = "ws AND bs_bar_id_to_warps b i0"
  let ?b = "release_barrier i0 ?at b"
  note inv' = bar_inv_butD[OF inv]
  have e: "exit_release ws (ws AND bs_warp_active b) i0 b = ?b"
    using True by (simp add: exit_release_def)
  have bar: "bit (bs_bar_id_to_warps ?b i) v \<longleftrightarrow>
      bit (bs_bar_id_to_warps b i) v \<and> \<not> (i = i0 \<and> bit ws v)" for i v
    by (auto simp: bit_clear_and simp del: bit.de_Morgan_conj)
  have wab: "bit (bs_warp_at_barrier ?b) v \<longleftrightarrow>
      bit (bs_warp_at_barrier b) v \<and> \<not> (bit ws v \<and> bit (bs_bar_id_to_warps b i0) v)" for v
    by (auto simp: bit_clear_and simp del: bit.de_Morgan_conj)
  have 4: "\<exists>i < bs_max_barriers_per_cta b. bit (bs_bar_id_to_warps ?b i) v"
    if "bit (bs_warp_at_barrier ?b) v" for v
    using that inv'(4)[of v] unfolding bar wab by blast
  have 5: "\<exists>u. bit vs u \<and> bit (bs_warp_active b) u \<and> \<not> bit (bs_bar_id_to_warps ?b i) u"
    if "\<not> (d = c \<and> i \<in> S - {i0})" "map_of (bs_cta_to_warps b) d = Some vs"
      "i < bs_max_barriers_per_cta b" "bit vs v" "bit (bs_bar_id_to_warps ?b i) v" for d vs i v
  proof (cases "d = c \<and> i = i0")
    case True
    with that c show ?thesis unfolding bar by auto
  next
    case False
    with that(1) have "\<not> (d = c \<and> i \<in> S)" by blast
    with inv'(5)[OF this that(2-4)] that(5) show ?thesis unfolding bar by blast
  qed
  show ?thesis
    unfolding bar_inv_but_def e
  proof (intro conjI allI impI)
    fix d vs i v assume "\<not> (d = c \<and> i \<in> S - {i0})" "map_of (bs_cta_to_warps ?b) d = Some vs"
      "i < bs_max_barriers_per_cta ?b" "bit vs v" "bit (bs_bar_id_to_warps ?b i) v"
    then show "\<exists>u. bit vs u \<and> bit (bs_warp_active ?b) u \<and> \<not> bit (bs_bar_id_to_warps ?b i) u"
      using 5 by (simp only: release_barrier_fields(1-3))
  next
    fix v assume "bit (bs_warp_at_barrier ?b) v"
    then show "\<exists>i<bs_max_barriers_per_cta ?b. bit (bs_bar_id_to_warps ?b i) v"
      using 4 by (simp only: release_barrier_fields(1-3))
  next
    fix i v assume "i < bs_max_barriers_per_cta ?b" "bit (bs_bar_id_to_warps ?b i) v"
    then have "i < bs_max_barriers_per_cta b" "bit (bs_bar_id_to_warps b i) v" using bar by auto
    note * = inv'(3)[OF this]
    then show "bit (bs_warp_active ?b) v"
      "\<exists>c ws. map_of (bs_cta_to_warps ?b) c = Some ws \<and> bit ws v" by simp_all
  next
    fix d e us vs v assume "map_of (bs_cta_to_warps ?b) d = Some us"
      "map_of (bs_cta_to_warps ?b) e = Some vs" "bit us v" "bit vs v"
    then show "d = e" using inv'(2)[of d us e vs v] by simp
  qed (use inv'(1) in simp)
qed

lemma exit_release_fold:
  assumes "bar_inv_but b c S" "map_of (bs_cta_to_warps b) c = Some ws" "a = ws AND bs_warp_active b"
  shows "bar_inv_but (fold (exit_release ws a) is b) c (S - set is)"
  using assms
proof (induction "is" arbitrary: b S)
  case (Cons i "is")
  then have "bar_inv_but (exit_release ws a i b) c (S - {i})" using exit_release_step by blast
  with Cons.IH[of "exit_release ws a i b" "S - {i}"] Cons.prems
  show ?case by (simp add: Diff_insert[symmetric] Diff_insert2[symmetric])
qed simp

lemma bar_inv_arrive:
  assumes inv: "bar_inv b" and c: "map_of (bs_cta_to_warps b) c = Some ws" "bit ws w"
    and ok: "bar_event_ok b (Bar_reach c w inst)"
  shows "bar_inv_but (bar_arrive w inst b) c {wi_bar_id inst}"
proof -
  let ?b = "bar_arrive w inst b"
  note inv' = bar_invD[OF inv]
  have w: "w < 64" using ws_bit_less[OF c(2)] .
  have bar: "bit (bs_bar_id_to_warps ?b i) v \<longleftrightarrow>
      bit (bs_bar_id_to_warps b i) v \<or> (i = wi_bar_id inst \<and> v = w)" for i v
    using w by (auto simp: bar_arrive_def bit_set_one)
  show ?thesis
    unfolding bar_inv_but_def
  proof (intro conjI allI impI)
    fix v assume "bit (bs_warp_at_barrier ?b) v"
    then have "bit (bs_warp_at_barrier b) v \<or> v = w"
      using w by (auto simp: bar_arrive_def bit_set_one split: if_splits)
    then show "\<exists>i<bs_max_barriers_per_cta ?b. bit (bs_bar_id_to_warps ?b i) v"
      using inv'(4)[of v] ok unfolding bar by auto
  next
    fix i v assume "i < bs_max_barriers_per_cta ?b" "bit (bs_bar_id_to_warps ?b i) v"
    then show "bit (bs_warp_active ?b) v"
      "\<exists>c ws. map_of (bs_cta_to_warps ?b) c = Some ws \<and> bit ws v"
      using ok c inv'(3)[of i v] by (auto simp: bar)
  next
    fix d e us vs v assume "map_of (bs_cta_to_warps ?b) d = Some us"
      "map_of (bs_cta_to_warps ?b) e = Some vs" "bit us v" "bit vs v"
    then show "d = e" using inv'(2)[of d us e vs v] by simp
  next
    fix d vs i v assume *: "\<not> (d = c \<and> i \<in> {wi_bar_id inst})" "map_of (bs_cta_to_warps ?b) d = Some vs"
      "i < bs_max_barriers_per_cta ?b" "bit vs v" "bit (bs_bar_id_to_warps ?b i) v"
    have ne: "\<not> (i = wi_bar_id inst \<and> u = w)" if "bit vs u" for u
      using *(1,2) inv'(2)[of d vs c ws w] c that by auto
    then have "bit (bs_bar_id_to_warps b i) v" using *(4,5) bar by blast
    with inv'(5)[of d vs i v] * ne
    show "\<exists>u. bit vs u \<and> bit (bs_warp_active ?b) u \<and> \<not> bit (bs_bar_id_to_warps ?b i) u"
      unfolding bar by (metis bar_arrive_fields)
  qed (use inv'(1) in simp)
qed

lemma bar_inv_reach:
  assumes inv: "bar_inv b" and ok: "bar_event_ok b (Bar_reach c w inst)"
    and r: "warp_reaches_barrier c w inst b = Some (r, b')"
  shows "bar_inv b'"
proof -
  from warp_reaches_barrier_Some[OF r] obtain ws
    where id: "wi_bar_id inst \<noteq> UINT_MAX" and c: "map_of (bs_cta_to_warps b) c = Some ws" "bit ws w"
    by blast
  have "b' = exit_release ws (ws AND bs_warp_active b) (wi_bar_id inst) (bar_arrive w inst b)"
    using r ok by (simp add: warp_reaches_barrier_eq[OF id c] exit_release_def Let_def bar_arrive_bar
        split: if_splits)
  moreover have "bar_inv_but (exit_release ws (ws AND bs_warp_active (bar_arrive w inst b))
      (wi_bar_id inst) (bar_arrive w inst b)) c ({wi_bar_id inst} - {wi_bar_id inst})"
    by (rule exit_release_step[OF bar_inv_arrive[OF inv c ok]]) (simp add: c)
  ultimately show ?thesis by (simp add: bar_inv_but_empty)
qed

lemma find_cta_of_warp_Some:
  "find_cta_of_warp w m = Some ws \<Longrightarrow> (\<exists>c. (c, ws) \<in> set m) \<and> bit ws w"
  by (induction w m rule: find_cta_of_warp.induct) (auto split: if_splits)

lemma bar_inv_exit:
  assumes inv: "bar_inv b" and ok: "bar_event_ok b (Bar_exit w)" and r: "bs_warp_exit w b = Some b'"
  shows "bar_inv b'"
proof -
  let ?b = "b\<lparr>bs_warp_active := unset_bit w (bs_warp_active b)\<rparr>"
  note inv' = bar_invD[OF inv]
  obtain ws where ws: "find_cta_of_warp w (bs_cta_to_warps b) = Some ws"
    and b': "b' = fold (exit_release ws (ws AND bs_warp_active ?b)) [0..<bs_max_barriers_per_cta b] ?b"
    using r by (auto simp: bs_warp_exit_def ws_reset_def Let_def split: bind_splits if_splits)
  obtain c where c: "map_of (bs_cta_to_warps b) c = Some ws" "bit ws w"
    using find_cta_of_warp_Some[OF ws] smap_lookup[OF inv'(1)] by blast
  have "bar_inv_but ?b c {0..<bs_max_barriers_per_cta b}"
    unfolding bar_inv_but_def
  proof (intro conjI allI impI)
    fix i v assume *: "i < bs_max_barriers_per_cta ?b" "bit (bs_bar_id_to_warps ?b i) v"
    then have "v \<noteq> w" using ok by auto
    with * show "bit (bs_warp_active ?b) v"
      "\<exists>c ws. map_of (bs_cta_to_warps ?b) c = Some ws \<and> bit ws v"
      using inv'(3)[of i v] by (auto simp: bit_reset_one)
  next
    fix d e us vs v assume "map_of (bs_cta_to_warps ?b) d = Some us"
      "map_of (bs_cta_to_warps ?b) e = Some vs" "bit us v" "bit vs v"
    then show "d = e" using inv'(2)[of d us e vs v] by simp
  next
    fix d vs i v assume *: "\<not> (d = c \<and> i \<in> {0..<bs_max_barriers_per_cta b})"
      "map_of (bs_cta_to_warps ?b) d = Some vs" "i < bs_max_barriers_per_cta ?b"
      "bit vs v" "bit (bs_bar_id_to_warps ?b i) v"
    then have "\<not> bit vs w" using inv'(2)[of d vs c ws w] c by auto
    then show "\<exists>u. bit vs u \<and> bit (bs_warp_active ?b) u \<and> \<not> bit (bs_bar_id_to_warps ?b i) u"
      using inv'(5)[of d vs i v] * by (auto simp: bit_reset_one)
  qed (use inv'(1,4) in auto)
  from exit_release_fold[OF this, of ws _ "[0..<bs_max_barriers_per_cta b]"] c
  show ?thesis by (simp add: b' bar_inv_but_empty)
qed

lemma bar_inv_step:
  "bar_inv b \<Longrightarrow> bar_event_ok b e \<Longrightarrow> bar_step b e = Some b' \<Longrightarrow> bar_inv b'"
  by (cases e) (auto intro: bar_inv_allocate bar_inv_deallocate bar_inv_reach bar_inv_exit
      simp del: bar_event_ok.simps)

lemma bar_inv_reachable: "bar_reachable b0 b \<Longrightarrow> bar_inv b0 \<Longrightarrow> bar_inv b"
  by (induction rule: bar_reachable.induct) (auto intro: bar_inv_step)

subsection \<open>A small instance\<close>

text \<open>One resident CTA of two running warps, and a barrier instruction.\<close>

definition two_warp_barriers :: barrier_set where
  "two_warp_barriers = \<lparr>bs_max_warps_per_core = 64, bs_max_cta_per_core = 4,
     bs_max_barriers_per_cta = 16, bs_warp_size = 32, bs_cta_to_warps = [(0, 3)],
     bs_bar_id_to_warps = (\<lambda>_. 0), bs_warp_active = 3, bs_warp_at_barrier = 0\<rparr>"

definition bar_inst :: "uarch_bar_t \<Rightarrow> nat \<Rightarrow> nat \<Rightarrow> warp_inst" where
  "bar_inst ty i n = warp_inst_init\<lparr>wi_bar_type := ty, wi_bar_id := i, wi_bar_count := n\<rparr>"

lemma bar_inst_fields [simp]:
  "wi_bar_type (bar_inst ty i n) = ty" "wi_bar_id (bar_inst ty i n) = i"
  "wi_bar_count (bar_inst ty i n) = n"
  by (simp_all add: bar_inst_def)

declare bit_numeral_word_iff [simp del]

lemma bit_one: "bit (1 :: warp_set_t) v \<longleftrightarrow> v = 0"
  by (simp add: bit_1_iff)

lemma bit_three: "bit (3 :: warp_set_t) v \<longleftrightarrow> v = 0 \<or> v = 1"
proof -
  have "bit (mask 2 :: warp_set_t) v \<longleftrightarrow> v < 64 \<and> v < 2"
    by (simp only: bit_mask_iff possible_bit_word) simp
  moreover have "(mask 2 :: warp_set_t) = 3" by (simp add: mask_eq_exp_minus_1)
  ultimately show ?thesis by auto
qed

lemma two_warp_new:
  "barrier_set_new 64 4 16 32 = Some (two_warp_barriers\<lparr>bs_cta_to_warps := [], bs_warp_active := 0\<rparr>)"
  by (simp add: barrier_set_new_def two_warp_barriers_def WARP_PER_CTA_MAX_def MAX_BARRIERS_PER_CTA_def)

lemma two_warp_allocate:
  "allocate_barrier 0 3 (two_warp_barriers\<lparr>bs_cta_to_warps := [], bs_warp_active := 0\<rparr>) =
    Some two_warp_barriers"
  by (simp add: allocate_barrier_def two_warp_barriers_def clear_bars_def fun_eq_iff)

lemma two_warp_reachable:
  "bar_reachable (two_warp_barriers\<lparr>bs_cta_to_warps := [], bs_warp_active := 0\<rparr>) two_warp_barriers"
proof (rule bar_next[OF bar_start, of _ "Bar_allocate 0 3"])
  show "bar_event_ok (two_warp_barriers\<lparr>bs_cta_to_warps := [], bs_warp_active := 0\<rparr>)
      (Bar_allocate 0 3)" by simp
  show "bar_step (two_warp_barriers\<lparr>bs_cta_to_warps := [], bs_warp_active := 0\<rparr>)
      (Bar_allocate 0 3) = Some two_warp_barriers" by (simp add: two_warp_allocate)
qed

lemma two_warp_sync:
  "warp_reaches_barrier 0 0 (bar_inst SYNC 1 UINT_MAX) two_warp_barriers =
    Some (None, bar_arrive 0 (bar_inst SYNC 1 UINT_MAX) two_warp_barriers)"
  by (subst warp_reaches_barrier_eq[where ws = 3])
     (simp_all add: two_warp_barriers_def UINT_MAX_def set_bit_def)

subsection \<open>Properties\<close>


lemma two_warp_waiting:
  "bar_reachable (two_warp_barriers\<lparr>bs_cta_to_warps := [], bs_warp_active := 0\<rparr>)
    (bar_arrive 0 (bar_inst SYNC 1 UINT_MAX) two_warp_barriers)"
proof (rule bar_next[OF two_warp_reachable, of "Bar_reach 0 0 (bar_inst SYNC 1 UINT_MAX)"])
  show "bar_event_ok two_warp_barriers (Bar_reach 0 0 (bar_inst SYNC 1 UINT_MAX))"
    by (simp add: two_warp_barriers_def)
  show "bar_step two_warp_barriers (Bar_reach 0 0 (bar_inst SYNC 1 UINT_MAX)) =
      Some (bar_arrive 0 (bar_inst SYNC 1 UINT_MAX) two_warp_barriers)"
    using two_warp_sync by simp
qed

lemma two_warp_waits:
  "bs_warp_waiting_at_barrier 0 (bar_arrive 0 (bar_inst SYNC 1 UINT_MAX) two_warp_barriers) = Some True"
  by (simp add: bs_warp_waiting_at_barrier_def ws_test_def WARP_PER_CTA_MAX_def bar_arrive_def
      bit_set_one)


text \<open>C16. An arrival at a barrier without a thread count is all or nothing. When every active
  warp of the CTA is then counted at the barrier and no other warp is, all of them are
  released: none of them waits and none stays counted there. Otherwise nobody is released:
  the waiting warps are those that waited before and, for a \<open>sync\<close> or a reduction, the
  arriving warp, and no reduction is broadcast.\<close>

theorem barrier_all_or_none:
  assumes "warp_reaches_barrier c w inst b = Some (br, b')" "wi_bar_count inst = UINT_MAX"
    and "map_of (bs_cta_to_warps b) c = Some ws"
  shows "if \<forall>v. bit ws v \<longrightarrow> (bit (bs_bar_id_to_warps b (wi_bar_id inst)) v \<or> v = w \<longleftrightarrow>
              bit (bs_warp_active b) v)
    then \<forall>v. bit ws v \<longrightarrow> bit (bs_warp_active b) v \<longrightarrow>
      \<not> bit (bs_warp_at_barrier b') v \<and> \<not> bit (bs_bar_id_to_warps b' (wi_bar_id inst)) v
    else br = None \<and>
      (\<forall>v. bit (bs_warp_at_barrier b') v \<longleftrightarrow> bit (bs_warp_at_barrier b) v \<or>
          v = w \<and> wi_bar_type inst \<in> {SYNC, RED}) \<and>
      (\<forall>v. bit (bs_bar_id_to_warps b' (wi_bar_id inst)) v \<longleftrightarrow>
          bit (bs_bar_id_to_warps b (wi_bar_id inst)) v \<or> v = w)"
proof -
  let ?old = "bs_bar_id_to_warps b (wi_bar_id inst)"
  from warp_reaches_barrier_Some[OF assms(1)] assms(3)
  have id: "wi_bar_id inst \<noteq> UINT_MAX" and w: "bit ws w" by auto
  have w64: "w < 64" using ws_bit_less[OF w] .
  have r: "(ws AND set_bit w ?old = ws AND bs_warp_active b) \<longleftrightarrow>
      (\<forall>v. bit ws v \<longrightarrow> (bit ?old v \<or> v = w \<longleftrightarrow> bit (bs_warp_active b) v))"
    using w64 by (auto simp: and_eq_bits bit_set_one)
  show ?thesis
  proof (cases "ws AND set_bit w ?old = ws AND bs_warp_active b")
    case True
    then have "b' = release_barrier (wi_bar_id inst) (ws AND set_bit w ?old) (bar_arrive w inst b)"
      using assms by (simp add: warp_reaches_barrier_eq[OF id assms(3) w] Let_def)
    with True show ?thesis
      using r by (simp add: bit_clear_and bit_set_one[OF w64] bar_arrive_bar del: bit.de_Morgan_conj)
  next
    case False
    then have "br = None" "b' = bar_arrive w inst b"
      using assms by (simp_all add: warp_reaches_barrier_eq[OF id assms(3) w] Let_def)
    moreover have "bit (bs_warp_at_barrier (bar_arrive w inst b)) v \<longleftrightarrow>
        bit (bs_warp_at_barrier b) v \<or> v = w \<and> wi_bar_type inst \<in> {SYNC, RED}" for v
      using w64 by (auto simp: bar_arrive_def bit_set_one)
    moreover have "bit (bs_bar_id_to_warps (bar_arrive w inst b) (wi_bar_id inst)) v \<longleftrightarrow>
        bit ?old v \<or> v = w" for v
      using w64 by (auto simp: bar_arrive_bar bit_set_one)
    ultimately show ?thesis by (subst if_not_P[OF False[unfolded r]]) simp
  qed
qed

definition two_warp_last :: barrier_set where
  "two_warp_last = two_warp_barriers\<lparr>bs_bar_id_to_warps := (\<lambda>_. 0)(1 := 1), bs_warp_at_barrier := 1\<rparr>"

lemma two_warp_last_arrives:
  "warp_reaches_barrier 0 1 (bar_inst SYNC 1 UINT_MAX) two_warp_last =
    Some (None, release_barrier 1 3 (bar_arrive 1 (bar_inst SYNC 1 UINT_MAX) two_warp_last))"
proof -
  have "set_bit (Suc 0) (1 :: warp_set_t) = 3"
    by (rule bit_eqI) (auto simp: bit_set_one bit_three bit_one)
  then show ?thesis
    by (subst warp_reaches_barrier_eq[where ws = 3])
       (simp_all add: two_warp_barriers_def two_warp_last_def UINT_MAX_def bit_three)
qed

theorem barrier_all_or_none_witness:
  "\<not> bit (bs_warp_at_barrier (release_barrier 1 3
      (bar_arrive 1 (bar_inst SYNC 1 UINT_MAX) two_warp_last))) 0"
proof -
  have m: "map_of (bs_cta_to_warps two_warp_last) 0 = Some 3" "bs_warp_active two_warp_last = 3"
    "bs_bar_id_to_warps two_warp_last 1 = 1"
    by (simp_all add: two_warp_last_def two_warp_barriers_def)
  have "\<forall>v. bit (3 :: warp_set_t) v \<longrightarrow> (bit (bs_bar_id_to_warps two_warp_last 1) v \<or> v = 1 \<longleftrightarrow>
      bit (bs_warp_active two_warp_last) v)"
    by (auto simp: m[simplified] bit_three bit_one)
  with barrier_all_or_none[OF two_warp_last_arrives _ m(1)]
  have "\<forall>v. bit (3 :: warp_set_t) v \<longrightarrow> bit (bs_warp_active two_warp_last) v \<longrightarrow>
    \<not> bit (bs_warp_at_barrier (release_barrier 1 3
      (bar_arrive 1 (bar_inst SYNC 1 UINT_MAX) two_warp_last))) v"
    unfolding bar_inst_fields by presburger
  then show ?thesis by (simp add: m bit_three del: release_barrier_fields)
qed

text \<open>C22. A warp can be released from a barrier whose warps have not all arrived. When a warp
  that waits at barrier \<open>j\<close> is also counted at barrier \<open>i\<close> (it went through a
  \<open>bar.arrive\<close> there) and the last arrival at \<open>i\<close> releases \<open>i\<close>, the waiting flag of
  the warp is cleared although it is still counted at \<open>j\<close>.\<close>

theorem barrier_release_clears_other_wait:
  assumes "map_of (bs_cta_to_warps b) c = Some ws" "bit ws u" "bit ws w"
    and "bit (bs_bar_id_to_warps b (wi_bar_id inst)) u" "j \<noteq> wi_bar_id inst"
    and "bit (bs_bar_id_to_warps b j) u" "wi_bar_id inst \<noteq> UINT_MAX" "wi_bar_count inst \<noteq> UINT_MAX"
    and "ws_count (ws AND set_bit w (bs_bar_id_to_warps b (wi_bar_id inst))) * bs_warp_size b =
      wi_bar_count inst"
  shows "\<exists>br b'. warp_reaches_barrier c w inst b = Some (br, b') \<and>
    bs_warp_waiting_at_barrier u b' = Some False \<and> bit (bs_bar_id_to_warps b' j) u"
proof -
  have w: "w < 64" "u < 64" using ws_bit_less assms(2,3) by auto
  have j: "bs_bar_id_to_warps (bar_arrive w inst b) j = bs_bar_id_to_warps b j"
    using assms(5) by (simp add: bar_arrive_def)
  show ?thesis
    using assms w
    by (simp add: warp_reaches_barrier_eq[OF assms(7,1,3)] Let_def j bs_warp_waiting_at_barrier_def
        ws_test_def WARP_PER_CTA_MAX_def bit_clear_and bit_set_one del: bit.de_Morgan_conj)
qed

definition two_warp_producer :: barrier_set where
  "two_warp_producer = two_warp_barriers\<lparr>bs_bar_id_to_warps := (\<lambda>_. 0)(1 := 1, 2 := 1),
     bs_warp_at_barrier := 1\<rparr>"

theorem barrier_release_clears_other_wait_witness:
  "\<exists>br b'. warp_reaches_barrier 0 1 (bar_inst SYNC 1 64) two_warp_producer = Some (br, b') \<and>
    bs_warp_waiting_at_barrier 0 b' = Some False \<and> bit (bs_bar_id_to_warps b' 2) 0"
proof (rule barrier_release_clears_other_wait[where ws = 3])
  have "set_bit (Suc 0) (1 :: warp_set_t) = 3"
    by (rule bit_eqI) (auto simp: bit_set_one bit_three bit_one)
  then show "ws_count (3 AND set_bit 1 (bs_bar_id_to_warps two_warp_producer (wi_bar_id (bar_inst SYNC 1 64))))
      * bs_warp_size two_warp_producer = wi_bar_count (bar_inst SYNC 1 64)"
    by (simp add: two_warp_producer_def two_warp_barriers_def ws_count_def bit_three upt_rec
        WARP_PER_CTA_MAX_def)
qed (simp_all add: two_warp_producer_def two_warp_barriers_def UINT_MAX_def bit_three)

end
