(* ===== verification/Scheduler.thy ===== *)
theory Scheduler
  imports Warp_Order Queue_Issue Barrier_Set
begin

section \<open>Issue: the cycle of a warp scheduler\<close>

text \<open>
  \<open>scheduler_unit::cycle\<close> with the producer-consumer co-issue, and \<open>issue_warp\<close> of the core
  (\<open>shader.cc\<close>). The scoreboard, the SIMT stack, the functional execution, the generation
  of memory accesses and the virtual functions of the scheduler are not in the repository or
  chosen at run time: they are the fields of \<open>issue_env\<close>, over an opaque state \<open>'x\<close>. Pointers
  to warps are indices into \<open>m_warp\<close> and never null; pointers to the register sets between
  issue and the operand collectors are values of \<open>issue_port\<close>. Calls of \<open>waiting()\<close> whose
  result is only printed are left out, as the same call follows.
\<close>

datatype exec_unit_type_t =
  EXEC_NONE | EXEC_SP | EXEC_SFU | EXEC_MEM | EXEC_DP | EXEC_INT | EXEC_TENSOR | EXEC_SPECIALIZED

datatype issue_port =
  Port_sp | Port_dp | Port_sfu | Port_int | Port_tensor_core | Port_spec nat | Port_mem

fun port_exec :: "issue_port \<Rightarrow> exec_unit_type_t" where
  "port_exec Port_sp = EXEC_SP"
| "port_exec Port_dp = EXEC_DP"
| "port_exec Port_sfu = EXEC_SFU"
| "port_exec Port_int = EXEC_INT"
| "port_exec Port_tensor_core = EXEC_TENSOR"
| "port_exec (Port_spec i) = EXEC_SPECIALIZED"
| "port_exec Port_mem = EXEC_MEM"

datatype pc_coissue_fail_reason =
    PC_COISSUE_FAIL_NONE
  | PC_COISSUE_FAIL_SCOREBOARD
  | PC_COISSUE_FAIL_FU_CONFLICT
  | PC_COISSUE_FAIL_LSU_LSU_CONFLICT
  | PC_COISSUE_FAIL_STRUCTURAL
  | PC_COISSUE_FAIL_DISPATCH_PORT
  | PC_COISSUE_FAIL_RESULT_BUS

record issue_stats =
  is_eligible_warp_count :: "nat list"
  is_eligible_warp_slot_count :: "nat list"
  is_eligible_warp_sample_count :: "nat list"
  is_single_issue_nums :: "nat list"
  is_dual_issue_nums :: "nat list"
  is_pc_coissue_attempts :: nat
  is_pc_coissue_success :: nat
  is_pc_coissue_fail_scoreboard :: nat
  is_pc_coissue_fail_fu_conflict :: nat
  is_pc_coissue_fail_lsu_lsu_conflict :: nat
  is_pc_coissue_fail_structural_conflict :: nat
  is_pc_coissue_fail_dispatch_port :: nat
  is_pc_coissue_fail_result_bus :: nat
  is_total_issue_count :: nat
  is_single_issue_count :: nat
  is_dual_issue_count :: nat
  is_single_issue_fallback :: nat
  is_same_warp_dual_issue_fallback :: nat
  is_shader_cycle_distro :: "nat list"

record 'x issue_core = core_queues +
  ic_port :: "issue_port \<Rightarrow> register_set"
  ic_barriers :: barrier_set
  ic_stats :: issue_stats
  ic_cycle :: nat
  ic_ext :: 'x

record scheduler =
  sd_id :: nat
  sd_prioritized :: "nat list"
  sd_supervised :: "nat list"
  sd_last_issued :: nat
  sd_num_issued_last_cycle :: nat

record 'x issue_env =
  ie_order_warps :: "scheduler \<Rightarrow> 'x issue_core \<Rightarrow> (scheduler \<times> 'x issue_core) option"
  ie_do_on_warp_issued :: "nat \<Rightarrow> scheduler \<Rightarrow> scheduler option"
  ie_pdom_top_pc :: "nat \<Rightarrow> 'x \<Rightarrow> u32"
  ie_active_mask :: "nat \<Rightarrow> 'x \<Rightarrow> active_mask_t"
  ie_check_collision :: "nat \<Rightarrow> warp_inst \<Rightarrow> 'x \<Rightarrow> bool"
  ie_pending_writes :: "nat \<Rightarrow> 'x \<Rightarrow> bool"
  ie_flush_l1 :: bool
  ie_cache_invalidate :: "'x \<Rightarrow> 'x"
  ie_inst_issue :: "active_mask_t \<Rightarrow> nat \<Rightarrow> nat \<Rightarrow> nat \<Rightarrow> nat \<Rightarrow> nat \<Rightarrow> warp_inst \<Rightarrow> warp_inst"
  ie_execute_warp_inst :: "warp_inst \<Rightarrow> 'x issue_core \<Rightarrow> (warp_inst \<times> 'x issue_core) option"
  ie_generate_mem_accesses :: "warp_inst \<Rightarrow> warp_inst"
  ie_update_simt_stack :: "nat \<Rightarrow> warp_inst \<Rightarrow> 'x \<Rightarrow> 'x"
  ie_reserve_registers :: "warp_inst \<Rightarrow> 'x \<Rightarrow> 'x"
  ie_broadcast_barrier_reduction :: "warp_inst \<Rightarrow> active_mask_t \<Rightarrow> 'x \<Rightarrow> 'x"
  ie_cdp_latency :: "nat list"

subsection \<open>Warps that wait\<close>

definition warp_waiting_at_mem_barrier :: "'x issue_env \<Rightarrow> nat \<Rightarrow> 'x issue_core \<Rightarrow> (bool \<times> 'x issue_core) option" where
  "warp_waiting_at_mem_barrier env warp_id s = do {
     w \<leftarrow> vec_at (cq_warp s) warp_id;
     Some (if \<not> sw_membar w then (False, s)
       else if \<not> ie_pending_writes env warp_id (ic_ext s) then
         (let s = s\<lparr>cq_warp := (cq_warp s)[warp_id := sw_clear_membar w]\<rparr>
          in (False, if ie_flush_l1 env then s\<lparr>ic_ext := ie_cache_invalidate env (ic_ext s)\<rparr> else s))
       else (True, s))
   }"

definition warp_waits :: "'x issue_env \<Rightarrow> nat \<Rightarrow> 'x issue_core \<Rightarrow> (bool \<times> 'x issue_core) option" where
  "warp_waits env p s = do {
     w \<leftarrow> vec_at (cq_warp s) p;
     (if sw_functional_done w then Some (True, s)
      else do {
        at_barrier \<leftarrow> bs_warp_waiting_at_barrier (sw_warp_id w) (ic_barriers s);
        (if at_barrier then Some (True, s)
         else do {
           (at_mem_barrier, s) \<leftarrow> warp_waiting_at_mem_barrier env (sw_warp_id w) s;
           Some (sw_waiting at_barrier at_mem_barrier w, s)
         })
      })
   }"

subsection \<open>Producers, consumers and issue targets\<close>

definition is_wasp_producer_warp :: "nat \<Rightarrow> 'a core_queues_scheme \<Rightarrow> bool option" where
  "is_wasp_producer_warp warp_id s = do {
     let c = cq_config s;
     assert_that (sc_warp_size c \<noteq> 0);
     let warps_per_cta = cq_kernel_padded_threads_per_cta s div sc_warp_size c;
     let warps_per_cta = (if warps_per_cta = 0 then 8 else warps_per_cta);
     let producer_warps =
       (if smemq_enabled s \<and> md_producer_warps_per_cta (sc_smemq_metadata c) \<noteq> 0
        then md_producer_warps_per_cta (sc_smemq_metadata c)
        else if wasp_rfq_enabled s \<and> md_producer_warps_per_cta (sc_wasp_metadata c) \<noteq> 0
        then md_producer_warps_per_cta (sc_wasp_metadata c)
        else warps_per_cta div 2);
     let producer_warps = (if producer_warps = 0 then 1 else producer_warps);
     assert_that (producer_warps < warps_per_cta);
     Some (warp_id mod warps_per_cta < producer_warps)
   }"

definition is_wasp_consumer_warp :: "nat \<Rightarrow> 'a core_queues_scheme \<Rightarrow> bool option" where
  "is_wasp_consumer_warp warp_id s = map_option Not (is_wasp_producer_warp warp_id s)"

definition record_pc_coissue_fail :: "pc_coissue_fail_reason \<Rightarrow> issue_stats \<Rightarrow> issue_stats" where
  "record_pc_coissue_fail reason st = (case reason of
     PC_COISSUE_FAIL_SCOREBOARD \<Rightarrow>
       st\<lparr>is_pc_coissue_fail_scoreboard := is_pc_coissue_fail_scoreboard st + 1\<rparr>
   | PC_COISSUE_FAIL_FU_CONFLICT \<Rightarrow>
       st\<lparr>is_pc_coissue_fail_fu_conflict := is_pc_coissue_fail_fu_conflict st + 1\<rparr>
   | PC_COISSUE_FAIL_LSU_LSU_CONFLICT \<Rightarrow>
       st\<lparr>is_pc_coissue_fail_lsu_lsu_conflict := is_pc_coissue_fail_lsu_lsu_conflict st + 1,
          is_pc_coissue_fail_fu_conflict := is_pc_coissue_fail_fu_conflict st + 1\<rparr>
   | PC_COISSUE_FAIL_STRUCTURAL \<Rightarrow>
       st\<lparr>is_pc_coissue_fail_structural_conflict := is_pc_coissue_fail_structural_conflict st + 1\<rparr>
   | PC_COISSUE_FAIL_DISPATCH_PORT \<Rightarrow>
       st\<lparr>is_pc_coissue_fail_dispatch_port := is_pc_coissue_fail_dispatch_port st + 1\<rparr>
   | PC_COISSUE_FAIL_RESULT_BUS \<Rightarrow>
       st\<lparr>is_pc_coissue_fail_result_bus := is_pc_coissue_fail_result_bus st + 1\<rparr>
   | PC_COISSUE_FAIL_NONE \<Rightarrow> st)"

definition is_mem_op :: "uarch_op_t \<Rightarrow> bool" where
  "is_mem_op p \<longleftrightarrow> p = LOAD_OP \<or> p = STORE_OP \<or> p = TENSOR_CORE_LOAD_OP \<or> p = TENSOR_CORE_STORE_OP"

definition is_sp_int_op :: "uarch_op_t \<Rightarrow> bool" where
  "is_sp_int_op p \<longleftrightarrow> p \<noteq> TENSOR_CORE_OP \<and> p \<noteq> SFU_OP \<and> p \<noteq> DP_OP \<and> \<not> is_spec_op p"

definition spec_id_of :: "uarch_op_t \<Rightarrow> nat" where
  "spec_id_of p = nat (op_code p - SPEC_UNIT_START_ID)"

definition port_free :: "'x issue_core \<Rightarrow> nat \<Rightarrow> issue_port \<Rightarrow> bool option" where
  "port_free s sch p = rs_has_free (sc_sub_core_model (cq_config s)) sch (ic_port s p)"

text \<open>\<open>classify_issue_target\<close>: its value, and the register set it stores (\<open>None\<close> for \<open>NULL\<close>).\<close>

definition classify_issue_target :: "nat \<Rightarrow> warp_inst \<Rightarrow> 'x issue_core \<Rightarrow> (bool \<times> issue_port option) option" where
  "classify_issue_target sch inst s = do {
     let c = cq_config s;
     let p = wi_op inst;
     let into = (\<lambda>port. do { f \<leftarrow> port_free s sch port; Some (f, Some port) });
     (if p = BARRIER_OP \<or> p = MEMORY_BARRIER_OP \<or> wi_is_cdp inst \<noteq> 0 then Some (False, None)
      else if is_mem_op p then into Port_mem
      else if is_sp_int_op p then
        (if sc_gpgpu_num_int_units c > 0 \<and> p \<noteq> SP_OP then into Port_int
         else if sc_gpgpu_num_sp_units c > 0 \<and> (sc_gpgpu_num_int_units c = 0 \<or> p = SP_OP) then into Port_sp
         else Some (False, None))
      else if p = DP_OP \<and> sc_gpgpu_num_dp_units c > 0 then into Port_dp
      else if (sc_gpgpu_num_dp_units c = 0 \<and> p = DP_OP) \<or> p = SFU_OP \<or> p = ALU_SFU_OP then into Port_sfu
      else if p = TENSOR_CORE_OP then into Port_tensor_core
      else if is_spec_op p then do {
        assert_that (spec_id_of p < length (sc_specialized_unit_num c));
        into (Port_spec (spec_id_of p))
      }
      else Some (False, None))
   }"


subsection \<open>Issuing one instruction\<close>

definition with_warp :: "nat \<Rightarrow> (shd_warp \<Rightarrow> shd_warp option) \<Rightarrow> 'a core_queues_scheme \<Rightarrow> 'a core_queues_scheme option" where
  "with_warp warp_id f s = do {
     w \<leftarrow> vec_at (cq_warp s) warp_id;
     w \<leftarrow> f w;
     Some (s\<lparr>cq_warp := (cq_warp s)[warp_id := w]\<rparr>)
   }"

definition func_exec_inst :: "'x issue_env \<Rightarrow> warp_inst \<Rightarrow> 'x issue_core \<Rightarrow> (warp_inst \<times> 'x issue_core) option" where
  "func_exec_inst env inst s = do {
     (inst, s) \<leftarrow> ie_execute_warp_inst env inst s;
     Some (if wi_is_load inst \<or> wi_is_store inst then ie_generate_mem_accesses env inst else inst, s)
   }"

text \<open>
  The reduction barrier hands its value to the instruction that each released warp stored when
  it arrived.
\<close>

definition broadcast_barrier_reduction :: "'x issue_env \<Rightarrow> warp_set_t \<Rightarrow> 'x issue_core \<Rightarrow> 'x issue_core option" where
  "broadcast_barrier_reduction env warps s =
     fold (\<lambda>i r. do {
         s \<leftarrow> r;
         t \<leftarrow> ws_test warps i;
         (if t then do {
            w \<leftarrow> vec_at (cq_warp s) i;
            Some (s\<lparr>ic_ext := ie_broadcast_barrier_reduction env (sw_inst_at_barrier w)
              (wi_active_mask (sw_inst_at_barrier w)) (ic_ext s)\<rparr>)
          } else Some s) })
       [0..<sc_max_warps_per_shader (cq_config s)] (Some s)"

text \<open>
  What the issued instruction does to its warp: entries of the \<open>LDGSTS\<close> buffer, the barriers,
  the memory barrier, \<open>LDGDEPBAR\<close> and \<open>DEPBAR\<close>. \<open>inst\<close> is the copy in the pipeline register.
\<close>

definition issue_warp_effects :: "'x issue_env \<Rightarrow> warp_inst \<Rightarrow> warp_inst \<Rightarrow> nat \<Rightarrow> 'x issue_core \<Rightarrow> 'x issue_core option" where
  "issue_warp_effects env next_inst inst warp_id s = do {
     s \<leftarrow> (if wi_is_ldgsts next_inst then with_warp warp_id (sw_issue_ldgsts next_inst) s else Some s);
     (if wi_op next_inst = BARRIER_OP then do {
        s \<leftarrow> with_warp warp_id (Some \<circ> sw_store_info_of_last_inst_at_barrier inst) s;
        w \<leftarrow> vec_at (cq_warp s) warp_id;
        (red, b) \<leftarrow> warp_reaches_barrier (sw_cta_id w) warp_id next_inst (ic_barriers s);
        let s = s\<lparr>ic_barriers := b\<rparr>;
        (case red of None \<Rightarrow> Some s | Some warps \<Rightarrow> broadcast_barrier_reduction env warps s)
      }
      else if wi_op next_inst = MEMORY_BARRIER_OP then with_warp warp_id (Some \<circ> sw_set_membar) s
      else if wi_is_ldgdepbar next_inst then with_warp warp_id sw_issue_ldgdepbar s
      else if wi_is_depbar next_inst then with_warp warp_id (sw_issue_depbar next_inst) s
      else Some s)
   }"

definition issue_warp :: "'x issue_env \<Rightarrow> issue_port \<Rightarrow> warp_inst \<Rightarrow> active_mask_t \<Rightarrow> nat \<Rightarrow> nat \<Rightarrow>
    'x issue_core \<Rightarrow> 'x issue_core option" where
  "issue_warp env port next_inst active_mask warp_id sch_id s = do {
     pipe_reg \<leftarrow> rs_get_free (sc_sub_core_model (cq_config s)) sch_id (ic_port s port);
     s \<leftarrow> with_warp warp_id (Some \<circ> sw_ibuffer_free) s;
     assert_that (wi_decoded next_inst);
     w \<leftarrow> vec_at (cq_warp s) warp_id;
     let inst = ie_inst_issue env active_mask warp_id (ic_cycle s) (sw_dynamic_warp_id w) sch_id
       (sw_streamID w) next_inst;
     let k = 2 + mask_count (wi_active_mask inst);
     n \<leftarrow> vec_at (is_shader_cycle_distro (ic_stats s)) k;
     let s = s\<lparr>ic_stats := (ic_stats s)\<lparr>is_shader_cycle_distro :=
       (is_shader_cycle_distro (ic_stats s))[k := n + 1]\<rparr>\<rparr>;
     (inst, s) \<leftarrow> wasp_rfq_prepare_issue inst s;
     (inst, s) \<leftarrow> smemq_prepare_issue inst s;
     (inst, s) \<leftarrow> func_exec_inst env inst s;
     s \<leftarrow> wasp_rfq_after_func_exec inst s;
     s \<leftarrow> smemq_after_func_exec inst s;
     s \<leftarrow> issue_warp_effects env next_inst inst warp_id s;
     let s = s\<lparr>ic_ext := ie_reserve_registers env inst (ie_update_simt_stack env warp_id inst (ic_ext s)),
       ic_port := (ic_port s)(port := (ic_port s port)[pipe_reg := inst])\<rparr>;
     with_warp warp_id (Some \<circ> sw_set_next_pc (wi_pc next_inst + of_nat (wi_isize next_inst))) s
   }"

subsection \<open>Candidates\<close>

text \<open>
  The tests with which both the count of eligible warps and the co-issue begin: the warp runs,
  does not wait, and has a next instruction at the program counter of the SIMT stack.
\<close>

definition next_valid_inst :: "'x issue_env \<Rightarrow> nat \<Rightarrow> 'x issue_core \<Rightarrow>
    ((nat \<times> warp_inst) option \<times> 'x issue_core) option" where
  "next_valid_inst env p s = do {
     w \<leftarrow> vec_at (cq_warp s) p;
     (if sw_done_exit w then Some (None, s)
      else do {
        let warp_id = sw_warp_id w;
        (waiting, s) \<leftarrow> warp_waits env warp_id s;
        w \<leftarrow> vec_at (cq_warp s) warp_id;
        Some (if waiting \<or> sw_ibuffer_empty w then (None, s)
          else case sw_ibuffer_next_inst w of
            None \<Rightarrow> (None, s)
          | Some inst \<Rightarrow> (if sw_ibuffer_next_valid w \<and> ucast (ie_pdom_top_pc env warp_id (ic_ext s)) = wi_pc inst
               then Some (warp_id, inst) else None, s))
      })
   }"

text \<open>Scoreboard, register-file queue, shared-memory queue, in this order.\<close>

definition passes_scoreboard :: "'x issue_env \<Rightarrow> nat \<Rightarrow> warp_inst \<Rightarrow> bool \<Rightarrow> 'x issue_core \<Rightarrow>
    (bool \<times> 'x issue_core) option" where
  "passes_scoreboard env warp_id inst count_stall s =
     (if ie_check_collision env warp_id inst (ic_ext s) then Some (False, s)
      else do {
        (rfq_ok, s) \<leftarrow> wasp_rfq_can_issue warp_id (Some inst) count_stall s;
        (if rfq_ok then smemq_can_issue warp_id (Some inst) count_stall s else Some (False, s))
      })"

primrec count_eligible :: "'x issue_env \<Rightarrow> nat list \<Rightarrow> 'x issue_core \<Rightarrow> (nat \<times> 'x issue_core) option" where
  "count_eligible env [] s = Some (0, s)"
| "count_eligible env (p # ps) s = do {
     (c, s) \<leftarrow> next_valid_inst env p s;
     (ok, s) \<leftarrow> (case c of None \<Rightarrow> Some (False, s)
       | Some (warp_id, inst) \<Rightarrow> passes_scoreboard env warp_id inst False s);
     (n, s) \<leftarrow> count_eligible env ps s;
     Some (if ok then n + 1 else n, s)
   }"

record issue_candidate =
  ca_ready :: bool
  ca_warp_id :: nat
  ca_inst :: warp_inst
  ca_active_mask :: active_mask_t
  ca_out :: "issue_port option"
  ca_fail_reason :: pc_coissue_fail_reason
  ca_prioritized_iter :: nat

definition candidate_exec :: "issue_candidate \<Rightarrow> exec_unit_type_t" where
  "candidate_exec c = (case ca_out c of None \<Rightarrow> EXEC_NONE | Some port \<Rightarrow> port_exec port)"

text \<open>\<open>None\<close> inside when the code returns false.\<close>

definition collect_issue_candidate :: "'x issue_env \<Rightarrow> nat \<Rightarrow> nat \<Rightarrow> nat \<Rightarrow> 'x issue_core \<Rightarrow>
    (issue_candidate option \<times> 'x issue_core) option" where
  "collect_issue_candidate env sch p iter s = do {
     (c, s) \<leftarrow> next_valid_inst env p s;
     (case c of None \<Rightarrow> Some (None, s)
      | Some (warp_id, inst) \<Rightarrow> do {
          let candidate = \<lparr>ca_ready = False, ca_warp_id = warp_id, ca_inst = inst, ca_active_mask = 0,
            ca_out = None, ca_fail_reason = PC_COISSUE_FAIL_NONE, ca_prioritized_iter = iter\<rparr>;
          (ok, s) \<leftarrow> passes_scoreboard env warp_id inst False s;
          (if \<not> ok then Some (Some (candidate\<lparr>ca_fail_reason := PC_COISSUE_FAIL_SCOREBOARD\<rparr>), s)
           else do {
             (target, out) \<leftarrow> classify_issue_target sch inst s;
             Some (Some (if \<not> target
               then candidate\<lparr>ca_fail_reason := (if out \<noteq> None then PC_COISSUE_FAIL_DISPATCH_PORT
                 else PC_COISSUE_FAIL_STRUCTURAL)\<rparr>
               else candidate\<lparr>ca_active_mask := ie_active_mask env warp_id (ic_ext s), ca_out := out,
                 ca_ready := True\<rparr>), s)
           })
        })
   }"

subsection \<open>Producer-consumer co-issue\<close>

record issue_flags =
  fl_valid :: bool
  fl_ready :: bool
  fl_issued :: bool

primrec collect_all :: "'x issue_env \<Rightarrow> nat \<Rightarrow> nat list \<Rightarrow> nat \<Rightarrow> issue_flags \<Rightarrow> 'x issue_core \<Rightarrow>
    (issue_candidate list \<times> issue_candidate list \<times> issue_flags \<times> 'x issue_core) option" where
  "collect_all env sch [] iter fl s = Some ([], [], fl, s)"
| "collect_all env sch (p # ps) iter fl s = do {
     (c, s) \<leftarrow> collect_issue_candidate env sch p iter s;
     (case c of None \<Rightarrow> collect_all env sch ps (iter + 1) fl s
      | Some c \<Rightarrow> do {
          let fl = fl\<lparr>fl_valid := True, fl_ready := fl_ready fl \<or> ca_ready c\<rparr>;
          producer \<leftarrow> is_wasp_producer_warp (ca_warp_id c) s;
          (prods, conss, fl, s) \<leftarrow> collect_all env sch ps (iter + 1) fl s;
          Some (if producer then (c # prods, conss, fl, s) else (prods, c # conss, fl, s))
        })
   }"

definition issue_candidate_now :: "'x issue_env \<Rightarrow> nat \<Rightarrow> issue_candidate \<Rightarrow> 'x issue_core \<Rightarrow> 'x issue_core option" where
  "issue_candidate_now env sch c s = do {
     port \<leftarrow> ca_out c;
     issue_warp env port (ca_inst c) (ca_active_mask c) (ca_warp_id c) sch s
   }"

text \<open>\<open>do_on_warp_issued\<close> of the base class steps the instruction buffer; a subclass adds to it.\<close>

definition do_on_warp_issued :: "'x issue_env \<Rightarrow> nat \<Rightarrow> nat \<Rightarrow> scheduler \<Rightarrow> 'x issue_core \<Rightarrow>
    (scheduler \<times> 'x issue_core) option" where
  "do_on_warp_issued env warp_id iter sd s = do {
     s \<leftarrow> with_warp warp_id (Some \<circ> sw_ibuffer_step) s;
     sd \<leftarrow> ie_do_on_warp_issued env iter sd;
     Some (sd, s)
   }"

definition bump :: "nat \<Rightarrow> nat list \<Rightarrow> nat list option" where
  "bump i xs = do { n \<leftarrow> vec_at xs i; vec_set xs i (n + 1) }"

text \<open>The first supervised warp with the id of the consumer becomes the last issued one.\<close>

definition supervised_position :: "scheduler \<Rightarrow> 'x issue_core \<Rightarrow> nat \<Rightarrow> nat option" where
  "supervised_position sd s warp_id =
     first_index (\<lambda>p. p < length (cq_warp s) \<and> sw_warp_id (cq_warp s ! p) = warp_id) 0 (sd_supervised sd)"

definition coissue_both :: "'x issue_env \<Rightarrow> issue_candidate \<Rightarrow> issue_candidate \<Rightarrow> scheduler \<Rightarrow> 'x issue_core \<Rightarrow>
    (scheduler \<times> 'x issue_core) option" where
  "coissue_both env pr co sd s = do {
     wp \<leftarrow> vec_at (cq_warp s) (ca_warp_id pr);
     assert_that (sw_inst_in_pipeline wp > 0);
     wc \<leftarrow> vec_at (cq_warp s) (ca_warp_id co);
     assert_that (sw_inst_in_pipeline wc > 0);
     s \<leftarrow> issue_candidate_now env (sd_id sd) pr s;
     s \<leftarrow> issue_candidate_now env (sd_id sd) co s;
     (sd, s) \<leftarrow> do_on_warp_issued env (ca_warp_id pr) (ca_prioritized_iter pr) sd s;
     (sd, s) \<leftarrow> do_on_warp_issued env (ca_warp_id co) (ca_prioritized_iter co) sd s;
     let sd = (case supervised_position sd s (ca_warp_id co) of None \<Rightarrow> sd
       | Some i \<Rightarrow> sd\<lparr>sd_last_issued := i\<rparr>);
     let st = ic_stats s;
     nums \<leftarrow> bump (sd_id sd) (is_dual_issue_nums st);
     Some (sd\<lparr>sd_num_issued_last_cycle := 2\<rparr>,
       s\<lparr>ic_stats := st\<lparr>is_pc_coissue_success := is_pc_coissue_success st + 1,
         is_dual_issue_nums := nums, is_total_issue_count := is_total_issue_count st + 1,
         is_dual_issue_count := is_dual_issue_count st + 1\<rparr>\<rparr>)
   }"

text \<open>Why a pair cannot be issued together; \<open>None\<close> when it can.\<close>

definition coissue_obstacle :: "issue_candidate \<Rightarrow> issue_candidate \<Rightarrow> pc_coissue_fail_reason option" where
  "coissue_obstacle pr co =
     (if \<not> ca_ready pr then Some (ca_fail_reason pr)
      else if \<not> ca_ready co then Some (ca_fail_reason co)
      else if candidate_exec pr = candidate_exec co then
        Some (if candidate_exec pr = EXEC_MEM then PC_COISSUE_FAIL_LSU_LSU_CONFLICT
          else PC_COISSUE_FAIL_FU_CONFLICT)
      else None)"

fun coissue_pairs :: "'x issue_env \<Rightarrow> (issue_candidate \<times> issue_candidate) list \<Rightarrow> scheduler \<Rightarrow> 'x issue_core \<Rightarrow>
    ((issue_candidate \<times> issue_candidate) option \<times> scheduler \<times> 'x issue_core) option" where
  "coissue_pairs env [] sd s = Some (None, sd, s)"
| "coissue_pairs env ((pr, co) # ps) sd s = (
     let s = s\<lparr>ic_stats := (ic_stats s)\<lparr>is_pc_coissue_attempts := is_pc_coissue_attempts (ic_stats s) + 1\<rparr>\<rparr>
     in (case coissue_obstacle pr co of
           Some reason \<Rightarrow>
             coissue_pairs env ps sd (s\<lparr>ic_stats := record_pc_coissue_fail reason (ic_stats s)\<rparr>)
         | None \<Rightarrow> do {
             (sd, s) \<leftarrow> coissue_both env pr co sd s;
             Some (Some (pr, co), sd, s)
           }))"

text \<open>The pair that was issued, if any, the flags, the scheduler and the core.\<close>

definition try_pc_coissue :: "'x issue_env \<Rightarrow> issue_flags \<Rightarrow> scheduler \<Rightarrow> 'x issue_core \<Rightarrow>
    ((issue_candidate \<times> issue_candidate) option \<times> issue_flags \<times> scheduler \<times> 'x issue_core) option" where
  "try_pc_coissue env fl sd s =
     (if \<not> sc_gpgpu_wasp_pc_coissue_enable (cq_config s) \<or> \<not> (wasp_rfq_enabled s \<or> smemq_enabled s)
      then Some (None, fl, sd, s)
      else do {
        (prods, conss, fl, s) \<leftarrow> collect_all env (sd_id sd) (sd_prioritized sd) 0 fl s;
        (pair, sd, s) \<leftarrow> coissue_pairs env (List.product prods conss) sd s;
        Some (pair, if pair \<noteq> None then fl\<lparr>fl_issued := True\<rparr> else fl, sd, s)
      })"


subsection \<open>The cycle\<close>

text \<open>
  The register set that the cycle issues an instruction to, given the unit of the instruction
  issued just before from the same warp; \<open>None\<close> inside when there is none this time.
\<close>

definition into_port :: "'x issue_core \<Rightarrow> nat \<Rightarrow> nat \<Rightarrow> issue_port \<Rightarrow> issue_port option option" where
  "into_port s sch num_units port = do {
     f \<leftarrow> (if num_units > 0 then port_free s sch port else Some False);
     Some (if f then Some port else None)
   }"

definition sp_int_target :: "exec_unit_type_t \<Rightarrow> nat \<Rightarrow> uarch_op_t \<Rightarrow> 'x issue_core \<Rightarrow> issue_port option option" where
  "sp_int_target previous sch p s = do {
     let c = cq_config s;
     let diff = sc_gpgpu_dual_issue_diff_exec_units c;
     sp_pipe_avail \<leftarrow> (if sc_gpgpu_num_sp_units c > 0 then port_free s sch Port_sp else Some False);
     int_pipe_avail \<leftarrow> (if sc_gpgpu_num_int_units c > 0 then port_free s sch Port_int else Some False);
     Some (if sc_gpgpu_num_int_units c > 0 \<and> int_pipe_avail \<and> p \<noteq> SP_OP \<and>
             \<not> (diff \<and> previous = EXEC_INT) then Some Port_int
           else if sp_pipe_avail \<and> (sc_gpgpu_num_int_units c = 0 \<or> sc_gpgpu_num_int_units c > 0 \<and> p = SP_OP) \<and>
             \<not> (diff \<and> previous = EXEC_SP) then Some Port_sp
           else None)
   }"

definition cycle_target :: "exec_unit_type_t \<Rightarrow> nat \<Rightarrow> warp_inst \<Rightarrow> 'x issue_core \<Rightarrow> issue_port option option" where
  "cycle_target previous sch inst s = (
     let c = cq_config s; p = wi_op inst; diff = sc_gpgpu_dual_issue_diff_exec_units c in
     (if is_mem_op p \<or> p = MEMORY_BARRIER_OP then do {
        f \<leftarrow> port_free s sch Port_mem;
        Some (if f \<and> (\<not> diff \<or> previous \<noteq> EXEC_MEM) then Some Port_mem else None)
      }
      else if is_sp_int_op p then sp_int_target previous sch p s
      else if sc_gpgpu_num_dp_units c > 0 \<and> p = DP_OP \<and> \<not> (diff \<and> previous = EXEC_DP) then
        into_port s sch (sc_gpgpu_num_dp_units c) Port_dp
      else if ((sc_gpgpu_num_dp_units c = 0 \<and> p = DP_OP) \<or> p = SFU_OP \<or> p = ALU_SFU_OP) \<and>
        \<not> (diff \<and> previous = EXEC_SFU) then into_port s sch (sc_gpgpu_num_sfu_units c) Port_sfu
      else if p = TENSOR_CORE_OP \<and> \<not> (diff \<and> previous = EXEC_TENSOR) then
        into_port s sch (sc_gpgpu_num_tensor_core_units c) Port_tensor_core
      else if is_spec_op p \<and> \<not> (diff \<and> previous = EXEC_SPECIALIZED) then do {
        n \<leftarrow> vec_at (sc_specialized_unit_num c) (spec_id_of p);
        into_port s sch n (Port_spec (spec_id_of p))
      }
      else Some None))"

text \<open>
  Device-runtime calls (CDP) on the SP and INT units wait for a latency first: the first visit
  sets it, and the visit that finds it elapsed goes on. The result says whether to go on.
\<close>

definition cdp_gate :: "'x issue_env \<Rightarrow> warp_inst \<Rightarrow> active_mask_t \<Rightarrow> nat \<Rightarrow> 'x issue_core \<Rightarrow>
    (bool \<times> 'x issue_core) option" where
  "cdp_gate env inst active_mask warp_id s = do {
     w \<leftarrow> vec_at (cq_warp s) warp_id;
     (if wi_is_cdp inst = 0 then Some (True, s)
      else if \<not> sw_cdp_dummy w then do {
        assert_that (sw_cdp_latency w = 0);
        assert_that (wi_is_cdp inst \<ge> 1);
        a \<leftarrow> vec_at (ie_cdp_latency env) (nat (wi_is_cdp inst) - 1);
        latency \<leftarrow> (if wi_is_cdp inst = 1 then Some a
          else do {
            b \<leftarrow> vec_at (ie_cdp_latency env) (nat (wi_is_cdp inst));
            Some (a + b * mask_count active_mask)
          });
        s \<leftarrow> with_warp warp_id (\<lambda>w. Some (w\<lparr>sw_cdp_latency := latency, sw_cdp_dummy := True\<rparr>)) s;
        Some (False, s)
      } else do {
        assert_that (sw_cdp_latency w = 0);
        s \<leftarrow> with_warp warp_id (\<lambda>w. Some (w\<lparr>sw_cdp_dummy := False\<rparr>)) s;
        Some (True, s)
      })
   }"

record 'x loop_state =
  ls_issued :: nat
  ls_previous :: exec_unit_type_t
  ls_flags :: issue_flags
  ls_sched :: scheduler
  ls_core :: "'x issue_core"
  ls_trace :: "(nat \<times> issue_port) list"

text \<open>
  One pass of the loop over the next instruction of a warp, from the inside out. The results
  say whether the loop goes on (it does not after a \<open>break\<close>). \<open>ls_trace\<close> lists what was
  issued, in order; the other members are the variables of the code.
\<close>

definition issue_to_port :: "'x issue_env \<Rightarrow> nat \<Rightarrow> nat \<Rightarrow> warp_inst \<Rightarrow> active_mask_t \<Rightarrow> issue_port \<Rightarrow>
    'x loop_state \<Rightarrow> (bool \<times> 'x loop_state) option" where
  "issue_to_port env iter warp_id inst active_mask port l = do {
     (go, s) \<leftarrow> (if port = Port_sp \<or> port = Port_int
       then cdp_gate env inst active_mask warp_id (ls_core l) else Some (True, ls_core l));
     (if \<not> go then Some (False, l\<lparr>ls_core := s\<rparr>)
      else do {
        s \<leftarrow> issue_warp env port inst active_mask warp_id (sd_id (ls_sched l)) s;
        (sd, s) \<leftarrow> do_on_warp_issued env warp_id iter (ls_sched l) s;
        Some (True, l\<lparr>ls_issued := ls_issued l + 1, ls_previous := port_exec port,
          ls_flags := (ls_flags l)\<lparr>fl_issued := True\<rparr>, ls_sched := sd, ls_core := s,
          ls_trace := ls_trace l @ [(warp_id, port)]\<rparr>)
      })
   }"

definition issue_ready :: "'x issue_env \<Rightarrow> nat \<Rightarrow> nat \<Rightarrow> warp_inst \<Rightarrow> 'x loop_state \<Rightarrow>
    (bool \<times> 'x loop_state) option" where
  "issue_ready env iter warp_id inst l = do {
     let l = l\<lparr>ls_flags := (ls_flags l)\<lparr>fl_ready := True\<rparr>\<rparr>;
     w \<leftarrow> vec_at (cq_warp (ls_core l)) warp_id;
     assert_that (sw_inst_in_pipeline w > 0);
     target \<leftarrow> cycle_target (ls_previous l) (sd_id (ls_sched l)) inst (ls_core l);
     (case target of None \<Rightarrow> Some (True, l)
      | Some port \<Rightarrow>
          issue_to_port env iter warp_id inst (ie_active_mask env warp_id (ic_ext (ls_core l))) port l)
   }"

definition issue_valid :: "'x issue_env \<Rightarrow> nat \<Rightarrow> nat \<Rightarrow> warp_inst \<Rightarrow> 'x loop_state \<Rightarrow>
    (bool \<times> 'x loop_state) option" where
  "issue_valid env iter warp_id inst l = do {
     let l = l\<lparr>ls_flags := (ls_flags l)\<lparr>fl_valid := True\<rparr>\<rparr>;
     (ok, s) \<leftarrow> passes_scoreboard env warp_id inst True (ls_core l);
     let l = l\<lparr>ls_core := s\<rparr>;
     (if ok then issue_ready env iter warp_id inst l else Some (True, l))
   }"

text \<open>A control hazard, or the return of a diverged warp: the instruction buffer is flushed.\<close>

definition flush_warp :: "u64 \<Rightarrow> nat \<Rightarrow> 'x loop_state \<Rightarrow> (bool \<times> 'x loop_state) option" where
  "flush_warp pc warp_id l = do {
     s \<leftarrow> with_warp warp_id (sw_ibuffer_flush \<circ> sw_set_next_pc pc) (ls_core l);
     Some (True, l\<lparr>ls_core := s\<rparr>)
   }"

definition issue_pass :: "'x issue_env \<Rightarrow> nat \<Rightarrow> nat \<Rightarrow> 'x loop_state \<Rightarrow> (bool \<times> 'x loop_state) option" where
  "issue_pass env iter warp_id l = do {
     w \<leftarrow> vec_at (cq_warp (ls_core l)) warp_id;
     let valid = sw_ibuffer_next_valid w;
     let pc = ucast (ie_pdom_top_pc env warp_id (ic_ext (ls_core l)));
     (case sw_ibuffer_next_inst w of
        None \<Rightarrow> (if valid then flush_warp pc warp_id l else Some (True, l))
      | Some inst \<Rightarrow>
        if wi_is_cdp inst \<noteq> 0 \<and> sw_cdp_latency w > 0 then do {
          assert_that (sw_cdp_dummy w);
          s \<leftarrow> with_warp warp_id (\<lambda>w. Some (w\<lparr>sw_cdp_latency := sw_cdp_latency w - 1\<rparr>)) (ls_core l);
          Some (False, l\<lparr>ls_core := s\<rparr>)
        }
        else do {
          assert_that valid;
          (if pc \<noteq> wi_pc inst then flush_warp pc warp_id l else issue_valid env iter warp_id inst l)
        })
   }"

text \<open>The loop of one warp; \<open>n\<close> is \<open>max_issue - checked\<close>, which its condition keeps positive.\<close>

primrec warp_issue_loop :: "nat \<Rightarrow> 'x issue_env \<Rightarrow> nat \<Rightarrow> nat \<Rightarrow> nat \<Rightarrow> nat \<Rightarrow> 'x loop_state \<Rightarrow> 'x loop_state option" where
  "warp_issue_loop 0 env iter warp_id max_issue checked l = do {
     (waiting, s) \<leftarrow> warp_waits env warp_id (ls_core l);
     Some (l\<lparr>ls_core := s\<rparr>)
   }"
| "warp_issue_loop (Suc n) env iter warp_id max_issue checked l = do {
     (waiting, s) \<leftarrow> warp_waits env warp_id (ls_core l);
     w \<leftarrow> vec_at (cq_warp s) warp_id;
     (if \<not> waiting \<and> \<not> sw_ibuffer_empty w \<and> checked < max_issue \<and> checked \<le> ls_issued l \<and>
         ls_issued l < max_issue
      then do {
        (go, l) \<leftarrow> issue_pass env iter warp_id (l\<lparr>ls_core := s\<rparr>);
        (if go then warp_issue_loop n env iter warp_id max_issue (checked + 1) l else Some l)
      }
      else Some (l\<lparr>ls_core := s\<rparr>))
   }"

definition count_issued :: "nat \<Rightarrow> scheduler \<Rightarrow> issue_stats \<Rightarrow> issue_stats option" where
  "count_issued issued sd st = do {
     let st = st\<lparr>is_total_issue_count := is_total_issue_count st + 1\<rparr>;
     (if issued = 1 then do {
        nums \<leftarrow> bump (sd_id sd) (is_single_issue_nums st);
        Some (st\<lparr>is_single_issue_nums := nums, is_single_issue_count := is_single_issue_count st + 1,
          is_single_issue_fallback := is_single_issue_fallback st + 1\<rparr>)
      } else do {
        assert_that (issued > 1);
        nums \<leftarrow> bump (sd_id sd) (is_dual_issue_nums st);
        Some (st\<lparr>is_dual_issue_nums := nums, is_dual_issue_count := is_dual_issue_count st + 1,
          is_same_warp_dual_issue_fallback := is_same_warp_dual_issue_fallback st + 1\<rparr>)
      })
   }"

primrec warps_loop :: "'x issue_env \<Rightarrow> nat list \<Rightarrow> nat \<Rightarrow> 'x loop_state \<Rightarrow> 'x loop_state option" where
  "warps_loop env [] iter l = Some l"
| "warps_loop env (p # ps) iter l = do {
     w \<leftarrow> vec_at (cq_warp (ls_core l)) p;
     (if sw_done_exit w then warps_loop env ps (iter + 1) l
      else do {
        let max_issue = sc_gpgpu_max_insn_issue_per_warp (cq_config (ls_core l));
        l \<leftarrow> warp_issue_loop max_issue env iter (sw_warp_id w) max_issue 0
          (l\<lparr>ls_issued := 0, ls_previous := EXEC_NONE\<rparr>);
        (if ls_issued l > 0 then do {
           let sd = (ls_sched l)\<lparr>sd_last_issued := last_supervised_issued (sd_supervised (ls_sched l)) p
               (sd_last_issued (ls_sched l)), sd_num_issued_last_cycle := ls_issued l\<rparr>;
           st \<leftarrow> count_issued (ls_issued l) sd (ic_stats (ls_core l));
           Some (l\<lparr>ls_sched := sd, ls_core := (ls_core l)\<lparr>ic_stats := st\<rparr>\<rparr>)
         } else warps_loop env ps (iter + 1) l)
      })
   }"

definition stall_statistics :: "issue_flags \<Rightarrow> issue_stats \<Rightarrow> issue_stats option" where
  "stall_statistics fl st =
     (if fl_issued fl then Some st
      else do {
        d \<leftarrow> bump (if \<not> fl_valid fl then 0 else if \<not> fl_ready fl then 1 else 2) (is_shader_cycle_distro st);
        Some (st\<lparr>is_shader_cycle_distro := d\<rparr>)
      })"

definition count_eligible_warps :: "nat \<Rightarrow> scheduler \<Rightarrow> issue_stats \<Rightarrow> issue_stats option" where
  "count_eligible_warps eligible sd st = do {
     n \<leftarrow> vec_at (is_eligible_warp_count st) (sd_id sd);
     m \<leftarrow> vec_at (is_eligible_warp_slot_count st) (sd_id sd);
     samples \<leftarrow> bump (sd_id sd) (is_eligible_warp_sample_count st);
     Some (st\<lparr>is_eligible_warp_count := (is_eligible_warp_count st)[sd_id sd := n + eligible],
       is_eligible_warp_slot_count := (is_eligible_warp_slot_count st)
         [sd_id sd := m + length (sd_supervised sd)],
       is_eligible_warp_sample_count := samples\<rparr>)
   }"

text \<open>The cycle; the result also lists the warps and register sets of the issued instructions.\<close>

definition scheduler_cycle :: "'x issue_env \<Rightarrow> scheduler \<Rightarrow> 'x issue_core \<Rightarrow>
    ((nat \<times> issue_port) list \<times> scheduler \<times> 'x issue_core) option" where
  "scheduler_cycle env sd s = do {
     let fl = \<lparr>fl_valid = False, fl_ready = False, fl_issued = False\<rparr>;
     (sd, s) \<leftarrow> ie_order_warps env sd s;
     (eligible, s) \<leftarrow> count_eligible env (sd_prioritized sd) s;
     st \<leftarrow> count_eligible_warps eligible sd (ic_stats s);
     (pair, fl, sd, s) \<leftarrow> try_pc_coissue env fl sd (s\<lparr>ic_stats := st\<rparr>);
     (case pair of
        Some (pr, co) \<Rightarrow> Some ([(ca_warp_id pr, the (ca_out pr)), (ca_warp_id co, the (ca_out co))], sd, s)
      | None \<Rightarrow> do {
          l \<leftarrow> warps_loop env (sd_prioritized sd) 0
            \<lparr>ls_issued = 0, ls_previous = EXEC_NONE, ls_flags = fl, ls_sched = sd, ls_core = s, ls_trace = []\<rparr>;
          st \<leftarrow> stall_statistics (ls_flags l) (ic_stats (ls_core l));
          Some (ls_trace l, ls_sched l, (ls_core l)\<lparr>ic_stats := st\<rparr>)
        })
   }"

subsection \<open>All schedulers of a core\<close>

text \<open>
  \<open>issue\<close> of the core runs the schedulers round robin: another one goes first in each cycle.
\<close>

primrec issue_turns :: "'x issue_env \<Rightarrow> nat list \<Rightarrow> scheduler list \<Rightarrow> 'x issue_core \<Rightarrow>
    (scheduler list \<times> 'x issue_core) option" where
  "issue_turns env [] schedulers s = Some (schedulers, s)"
| "issue_turns env (j # js) schedulers s = do {
     sd \<leftarrow> vec_at schedulers j;
     (trace, sd, s) \<leftarrow> scheduler_cycle env sd s;
     issue_turns env js (schedulers[j := sd]) s
   }"

definition issue_order :: "nat \<Rightarrow> nat \<Rightarrow> nat list" where
  "issue_order n issue_prio = map (\<lambda>i. (issue_prio + i) mod n) [0..<n]"

definition core_issue :: "'x issue_env \<Rightarrow> nat \<Rightarrow> scheduler list \<Rightarrow> 'x issue_core \<Rightarrow>
    (nat \<times> scheduler list \<times> 'x issue_core) option" where
  "core_issue env issue_prio schedulers s = do {
     (schedulers', s) \<leftarrow> issue_turns env (issue_order (length schedulers) issue_prio) schedulers s;
     assert_that (length schedulers \<noteq> 0);
     Some ((issue_prio + 1) mod length schedulers, schedulers', s)
   }"

end
