(* ===== verification/Scheduler_Props.thy ===== *)
theory Scheduler_Props
  imports Scheduler
begin

section \<open>Properties of a scheduler cycle\<close>

text \<open>
  What a cycle leaves alone, what one pass and one loop issue, and from these the bounds on the
  instructions of a cycle, the accounting of the issue counters and the agreement of the two
  ways to choose a register set. The example at the end is a core with a producer and a
  consumer warp whose instructions are issued together.
\<close>

subsection \<open>What the steps of a cycle leave alone\<close>

text \<open>The configuration, and the counters that only the end of a cycle changes.\<close>

definition issue_counters :: "issue_stats \<Rightarrow> nat list" where
  "issue_counters st = [is_total_issue_count st, is_single_issue_count st, is_dual_issue_count st,
     is_single_issue_fallback st, is_same_warp_dual_issue_fallback st, is_pc_coissue_success st]"

definition core_view :: "'x issue_core \<Rightarrow> shader_core_config \<times> nat \<times> nat list" where
  "core_view s = (cq_config s, cq_kernel_padded_threads_per_cta s, issue_counters (ic_stats s))"

text \<open>
  What the parts outside the model must leave alone too: functional execution and the virtual
  functions of the scheduler change neither the configuration nor these counters, and the
  latter keep the number of the scheduler.
\<close>

definition issue_frame :: "'x issue_env \<Rightarrow> bool" where
  "issue_frame env \<longleftrightarrow>
     (\<forall>inst s inst' s'. ie_execute_warp_inst env inst s = Some (inst', s') \<longrightarrow> core_view s' = core_view s) \<and>
     (\<forall>sd s sd' s'. ie_order_warps env sd s = Some (sd', s') \<longrightarrow>
        core_view s' = core_view s \<and> sd_id sd' = sd_id sd) \<and>
     (\<forall>i sd sd'. ie_do_on_warp_issued env i sd = Some sd' \<longrightarrow> sd_id sd' = sd_id sd)"

named_theorems frame \<open>what a step leaves alone\<close>

lemma core_view_simps [simp]:
  "core_view (s\<lparr>cq_warp := w\<rparr>) = core_view s" "core_view (s\<lparr>cq_rfq_table := t\<rparr>) = core_view s"
  "core_view (s\<lparr>cq_smemq_table := t2\<rparr>) = core_view s" "core_view (s\<lparr>cq_rfq_stats := st\<rparr>) = core_view s"
  "core_view (s\<lparr>cq_smemq_stats := st\<rparr>) = core_view s" "core_view (s\<lparr>ic_port := p\<rparr>) = core_view s"
  "core_view (s\<lparr>ic_barriers := b\<rparr>) = core_view s" "core_view (s\<lparr>ic_ext := x\<rparr>) = core_view s"
  by (simp_all add: core_view_def)

lemma with_warp_frame [frame]: "with_warp i f s = Some s' \<Longrightarrow> core_view s' = core_view s"
  by (auto simp: with_warp_def split: bind_splits)

lemma warp_waits_frame [frame]: "warp_waits env p s = Some (b, s') \<Longrightarrow> core_view s' = core_view s"
  by (auto simp: warp_waits_def warp_waiting_at_mem_barrier_def Let_def split: bind_splits if_splits)

lemma rfq_queue_for_frame [frame]: "rfq_queue_for w i s = Some (k, q, s') \<Longrightarrow> core_view s' = core_view s"
  by (auto simp: rfq_queue_for_def split: bind_splits)

lemma smemq_queue_for_frame [frame]: "smemq_queue_for w i s = Some (k, q, s') \<Longrightarrow> core_view s' = core_view s"
  by (auto simp: smemq_queue_for_def split: bind_splits)

lemma rfq_can_issue_frame [frame]:
  "wasp_rfq_can_issue w i c s = Some (b, s') \<Longrightarrow> core_view s' = core_view s"
  by (auto simp: wasp_rfq_can_issue_def split: bind_splits if_splits option.splits dest!: frame)

lemma smemq_can_issue_frame [frame]:
  "smemq_can_issue w i c s = Some (b, s') \<Longrightarrow> core_view s' = core_view s"
  by (auto simp: smemq_can_issue_def split: bind_splits if_splits option.splits dest!: frame)

lemma rfq_prepare_frame [frame]:
  "wasp_rfq_prepare_issue i s = Some (i', s') \<Longrightarrow> core_view s' = core_view s"
  by (auto simp: wasp_rfq_prepare_issue_def Let_def split: bind_splits if_splits dest!: frame)

lemma smemq_prepare_frame [frame]:
  "smemq_prepare_issue i s = Some (i', s') \<Longrightarrow> core_view s' = core_view s"
  by (auto simp: smemq_prepare_issue_def Let_def split: bind_splits if_splits dest!: frame)

lemma rfq_after_exec_frame [frame]:
  "wasp_rfq_after_func_exec i s = Some s' \<Longrightarrow> core_view s' = core_view s"
  by (auto simp: wasp_rfq_after_func_exec_def Let_def split: bind_splits if_splits)

lemma smemq_after_exec_frame [frame]:
  "smemq_after_func_exec i s = Some s' \<Longrightarrow> core_view s' = core_view s"
  by (auto simp: smemq_after_func_exec_def Let_def split: bind_splits if_splits)

lemma broadcast_frame [frame]:
  assumes "broadcast_barrier_reduction env warps s = Some s'"
  shows "core_view s' = core_view s"
proof -
  let ?f = "\<lambda>i r. do { s \<leftarrow> r; t \<leftarrow> ws_test warps i;
    (if t then do { w \<leftarrow> vec_at (cq_warp s) i; Some (s\<lparr>ic_ext := ie_broadcast_barrier_reduction env
      (sw_inst_at_barrier w) (wi_active_mask (sw_inst_at_barrier w)) (ic_ext s)\<rparr>) } else Some s) }"
  have "fold ?f is r = Some s' \<Longrightarrow> \<exists>s0. r = Some s0 \<and> core_view s' = core_view s0" for "is" r
    by (induction "is" arbitrary: r) (fastforce split: bind_splits if_splits)+
  from this[of _ "Some s"] assms show ?thesis by (auto simp: broadcast_barrier_reduction_def)
qed

lemma issue_warp_effects_frame [frame]:
  "issue_warp_effects env n i w s = Some s' \<Longrightarrow> core_view s' = core_view s"
  by (auto simp: issue_warp_effects_def Let_def split: bind_splits if_splits option.splits dest!: frame)

lemma func_exec_frame [frame]:
  "issue_frame env \<Longrightarrow> func_exec_inst env i s = Some (i', s') \<Longrightarrow> core_view s' = core_view s"
  by (auto simp: func_exec_inst_def issue_frame_def split: bind_splits)

lemma distro_view [simp]:
  "core_view (s\<lparr>ic_stats := (ic_stats s)\<lparr>is_shader_cycle_distro := d\<rparr>\<rparr>) = core_view s"
  by (simp add: core_view_def issue_counters_def)


lemma issue_warp_frame [frame]:
  assumes "issue_frame env" "issue_warp env port n m w sch s = Some s'"
  shows "core_view s' = core_view s"
  using assms(2)
  by (auto simp: issue_warp_def Let_def split: bind_splits if_splits dest!: frame func_exec_frame[OF assms(1)])

lemma passes_scoreboard_frame [frame]:
  "passes_scoreboard env w i c s = Some (b, s') \<Longrightarrow> core_view s' = core_view s"
  by (auto simp: passes_scoreboard_def split: bind_splits if_splits dest!: frame)

lemma next_valid_inst_frame [frame]:
  "next_valid_inst env p s = Some (c, s') \<Longrightarrow> core_view s' = core_view s"
  by (auto simp: next_valid_inst_def Let_def split: bind_splits if_splits option.splits dest!: warp_waits_frame)

lemma count_eligible_frame [frame]:
  "count_eligible env ps s = Some (n, s') \<Longrightarrow> core_view s' = core_view s"
proof (induction ps arbitrary: s n)
  case (Cons p ps)
  from Cons.prems obtain c s1 ok s2 m where 1: "next_valid_inst env p s = Some (c, s1)"
    "(case c of None \<Rightarrow> Some (False, s1) | Some (w, i) \<Rightarrow> passes_scoreboard env w i False s1) = Some (ok, s2)"
    "count_eligible env ps s2 = Some (m, s')"
    by (auto split: bind_splits)
  have "core_view s2 = core_view s1" using 1(2) by (auto split: option.splits dest!: passes_scoreboard_frame)
  with Cons.IH[OF 1(3)] next_valid_inst_frame[OF 1(1)] show ?case by simp
qed simp

lemma collect_candidate_frame [frame]:
  "collect_issue_candidate env sch p it s = Some (c, s') \<Longrightarrow> core_view s' = core_view s"
  by (auto simp: collect_issue_candidate_def Let_def split: bind_splits if_splits option.splits
      dest!: next_valid_inst_frame passes_scoreboard_frame)

lemma producer_view: "core_view s' = core_view s \<Longrightarrow> is_wasp_producer_warp w s' = is_wasp_producer_warp w s"
proof -
  assume "core_view s' = core_view s"
  then have "cq_config s' = cq_config s"
    "cq_kernel_padded_threads_per_cta s' = cq_kernel_padded_threads_per_cta s"
    by (simp_all add: core_view_def)
  moreover from this(1) have "smemq_enabled s' = smemq_enabled s" "wasp_rfq_enabled s' = wasp_rfq_enabled s"
    by (simp_all add: smemq_enabled_def wasp_rfq_enabled_def)
  ultimately show ?thesis unfolding is_wasp_producer_warp_def by (simp only:)
qed

lemma collect_all_producers:
  "collect_all env sch ps it fl s = Some (prods, conss, fl', s') \<Longrightarrow>
   core_view s' = core_view s \<and> (\<forall>c \<in> set prods. is_wasp_producer_warp (ca_warp_id c) s = Some True) \<and>
   (\<forall>c \<in> set conss. is_wasp_producer_warp (ca_warp_id c) s = Some False)"
proof (induction ps arbitrary: s it fl prods conss fl' s')
  case (Cons p ps)
  from Cons.prems obtain c s1 where c: "collect_issue_candidate env sch p it s = Some (c, s1)"
    by (auto split: bind_splits)
  note v = collect_candidate_frame[OF c]
  show ?case
  proof (cases c)
    case None
    with Cons.prems c have "collect_all env sch ps (it + 1) fl s1 = Some (prods, conss, fl', s')" by simp
    from Cons.IH[OF this] v producer_view[OF v] show ?thesis by simp
  next
    case (Some d)
    with Cons.prems c obtain pr prs cos where
      d: "is_wasp_producer_warp (ca_warp_id d) s1 = Some pr"
      "collect_all env sch ps (it + 1) (fl\<lparr>fl_valid := True, fl_ready := fl_ready fl \<or> ca_ready d\<rparr>) s1 =
        Some (prs, cos, fl', s')"
      "prods = (if pr then d # prs else prs)" "conss = (if pr then cos else d # cos)"
      by (auto simp: Let_def split: bind_splits if_splits)
    from Cons.IH[OF d(2)] v producer_view[OF v] d(1,3,4) show ?thesis by auto
  qed
qed simp

lemma coissue_obstacle_None:
  "coissue_obstacle pr co = None \<longleftrightarrow> ca_ready pr \<and> ca_ready co \<and> candidate_exec pr \<noteq> candidate_exec co"
  by (auto simp: coissue_obstacle_def)

lemma do_on_warp_issued_frame [frame]:
  "issue_frame env \<Longrightarrow> do_on_warp_issued env w it sd s = Some (sd', s') \<Longrightarrow>
   core_view s' = core_view s \<and> sd_id sd' = sd_id sd"
  by (auto simp: do_on_warp_issued_def issue_frame_def split: bind_splits dest!: with_warp_frame)

lemma candidate_now_frame [frame]:
  "issue_frame env \<Longrightarrow> issue_candidate_now env sch c s = Some s' \<Longrightarrow>
   core_view s' = core_view s \<and> (\<exists>port. ca_out c = Some port)"
  by (auto simp: issue_candidate_now_def split: bind_splits dest!: issue_warp_frame)

text \<open>What a pair adds to the counters.\<close>

definition add_counters :: "nat list \<Rightarrow> nat list \<Rightarrow> nat list" where
  "add_counters xs ys = map2 (+) xs ys"

lemma coissue_both_view:
  assumes "issue_frame env" "coissue_both env pr co sd s = Some (sd', s')"
  shows "cq_config s' = cq_config s" "sd_id sd' = sd_id sd"
    "issue_counters (ic_stats s') = add_counters (issue_counters (ic_stats s)) [1, 0, 1, 0, 0, 1]"
    "\<exists>p q. ca_out pr = Some p \<and> ca_out co = Some q"
proof -
  from assms(2) obtain s1 s2 sd3 s3 sd4 s4 nums where
    1: "issue_candidate_now env (sd_id sd) pr s = Some s1" and
    2: "issue_candidate_now env (sd_id sd) co s1 = Some s2" and
    3: "do_on_warp_issued env (ca_warp_id pr) (ca_prioritized_iter pr) sd s2 = Some (sd3, s3)" and
    4: "do_on_warp_issued env (ca_warp_id co) (ca_prioritized_iter co) sd3 s3 = Some (sd4, s4)" and
    5: "s' = s4\<lparr>ic_stats := (ic_stats s4)\<lparr>is_pc_coissue_success := is_pc_coissue_success (ic_stats s4) + 1,
         is_dual_issue_nums := nums, is_total_issue_count := is_total_issue_count (ic_stats s4) + 1,
         is_dual_issue_count := is_dual_issue_count (ic_stats s4) + 1\<rparr>\<rparr>" "sd_id sd' = sd_id sd4"
    by (auto simp: coissue_both_def Let_def split: bind_splits if_splits option.splits)
  note f = candidate_now_frame[OF assms(1) 1] candidate_now_frame[OF assms(1) 2]
    do_on_warp_issued_frame[OF assms(1) 3] do_on_warp_issued_frame[OF assms(1) 4]
  from f have v: "core_view s4 = core_view s" by simp
  from v 5 show "cq_config s' = cq_config s" by (simp add: core_view_def)
  from f 5 show "sd_id sd' = sd_id sd" by simp
  from v 5 show "issue_counters (ic_stats s') = add_counters (issue_counters (ic_stats s)) [1, 0, 1, 0, 0, 1]"
    by (simp add: core_view_def issue_counters_def add_counters_def)
  from f show "\<exists>p q. ca_out pr = Some p \<and> ca_out co = Some q" by simp
qed

lemma fail_view [simp]:
  "core_view (s\<lparr>ic_stats := record_pc_coissue_fail r (ic_stats s)\<rparr>) = core_view s"
  "core_view (s\<lparr>ic_stats := (ic_stats s)\<lparr>is_pc_coissue_attempts := n\<rparr>\<rparr>) = core_view s"
  by (auto simp: core_view_def issue_counters_def record_pc_coissue_fail_def split: pc_coissue_fail_reason.splits)

lemma coissue_pairs_view:
  assumes "issue_frame env"
  shows "coissue_pairs env ps sd s = Some (r, sd', s') \<Longrightarrow>
    (case r of None \<Rightarrow> sd' = sd \<and> core_view s' = core_view s
     | Some (pr, co) \<Rightarrow> (pr, co) \<in> set ps \<and> coissue_obstacle pr co = None \<and>
         (\<exists>p q. ca_out pr = Some p \<and> ca_out co = Some q) \<and> cq_config s' = cq_config s \<and>
         issue_counters (ic_stats s') = add_counters (issue_counters (ic_stats s)) [1, 0, 1, 0, 0, 1])"
proof (induction ps arbitrary: s)
  case (Cons x ps)
  obtain pr co where x: "x = (pr, co)" by (cases x)
  let ?s = "s\<lparr>ic_stats := (ic_stats s)\<lparr>is_pc_coissue_attempts := is_pc_coissue_attempts (ic_stats s) + 1\<rparr>\<rparr>"
  have v: "cq_config s1 = cq_config s \<and> issue_counters (ic_stats s1) = issue_counters (ic_stats s)"
    if "core_view s1 = core_view s" for s1 using that by (simp add: core_view_def)
  show ?case
  proof (cases "coissue_obstacle pr co")
    case None
    with Cons.prems x obtain sd1 s1 where "coissue_both env pr co sd ?s = Some (sd1, s1)"
      "r = Some (pr, co)" "sd' = sd1" "s' = s1"
      by (auto simp: Let_def split: bind_splits)
    with coissue_both_view[OF assms, of pr co sd ?s sd1 s1] None x v[of ?s] show ?thesis by simp
  next
    case (Some reason)
    let ?s2 = "?s\<lparr>ic_stats := record_pc_coissue_fail reason (ic_stats ?s)\<rparr>"
    have v2: "core_view ?s2 = core_view s" by (simp only: fail_view)
    from Cons.prems x Some have "coissue_pairs env ps sd ?s2 = Some (r, sd', s')" by (simp add: Let_def)
    from Cons.IH[OF this] v2 v[OF v2] x show ?thesis by (auto split: option.splits)
  qed
qed simp


lemma try_pc_coissue_view:
  assumes "issue_frame env" "try_pc_coissue env fl sd s = Some (pair, fl', sd', s')"
  shows "case pair of None \<Rightarrow> sd' = sd \<and> core_view s' = core_view s
    | Some (pr, co) \<Rightarrow> sc_gpgpu_wasp_pc_coissue_enable (cq_config s) \<and> coissue_obstacle pr co = None \<and>
        is_wasp_producer_warp (ca_warp_id pr) s = Some True \<and>
        is_wasp_producer_warp (ca_warp_id co) s = Some False \<and>
        (\<exists>p q. ca_out pr = Some p \<and> ca_out co = Some q) \<and> cq_config s' = cq_config s \<and>
        issue_counters (ic_stats s') = add_counters (issue_counters (ic_stats s)) [1, 0, 1, 0, 0, 1]"
proof (cases "sc_gpgpu_wasp_pc_coissue_enable (cq_config s) \<and> (wasp_rfq_enabled s \<or> smemq_enabled s)")
  case False
  with assms(2) show ?thesis by (auto simp: try_pc_coissue_def)
next
  case True
  with assms(2) obtain prods conss fl1 s1 where
    c: "collect_all env (sd_id sd) (sd_prioritized sd) 0 fl s = Some (prods, conss, fl1, s1)"
    "coissue_pairs env (List.product prods conss) sd s1 = Some (pair, sd', s')"
    by (auto simp: try_pc_coissue_def split: bind_splits)
  note a = collect_all_producers[OF c(1)] and b = coissue_pairs_view[OF assms(1) c(2)]
  have "cq_config s1 = cq_config s" "issue_counters (ic_stats s1) = issue_counters (ic_stats s)"
    using a by (simp_all add: core_view_def)
  with a b True show ?thesis by (auto split: option.splits)
qed

lemma into_port_Some: "into_port s sch n q = Some (Some port) \<Longrightarrow> port = q"
  by (auto simp: into_port_def split: bind_splits if_splits)

lemma sp_int_target_differs:
  "sp_int_target previous sch p s = Some (Some port) \<Longrightarrow>
   sc_gpgpu_dual_issue_diff_exec_units (cq_config s) \<Longrightarrow> previous \<noteq> port_exec port"
  by (auto simp: sp_int_target_def Let_def bind_eq_Some_conv split: if_split_asm)

lemma cycle_target_differs:
  "cycle_target previous sch inst s = Some (Some port) \<Longrightarrow>
   sc_gpgpu_dual_issue_diff_exec_units (cq_config s) \<Longrightarrow> previous \<noteq> port_exec port"
  by (auto simp: cycle_target_def Let_def bind_eq_Some_conv sp_int_target_differs
      dest!: into_port_Some split: if_split_asm)

lemma cdp_gate_frame [frame]: "cdp_gate env i m w s = Some (b, s') \<Longrightarrow> core_view s' = core_view s"
  by (auto simp: cdp_gate_def split: bind_splits if_splits dest!: with_warp_frame)

text \<open>One pass: nothing is issued, or one instruction, to a unit that \<open>cycle_target\<close> allows.\<close>

definition pass_spec :: "nat \<Rightarrow> bool \<Rightarrow> 'x loop_state \<Rightarrow> 'x loop_state \<Rightarrow> bool" where
  "pass_spec warp_id diff l l' \<longleftrightarrow> core_view (ls_core l') = core_view (ls_core l) \<and>
     sd_id (ls_sched l') = sd_id (ls_sched l) \<and>
     (ls_issued l' = ls_issued l \<and> ls_trace l' = ls_trace l \<and> ls_previous l' = ls_previous l \<or>
      (\<exists>port. ls_issued l' = ls_issued l + 1 \<and> ls_trace l' = ls_trace l @ [(warp_id, port)] \<and>
         ls_previous l' = port_exec port \<and> (diff \<longrightarrow> ls_previous l \<noteq> port_exec port)))"

lemma pass_spec_same:
  "core_view s = core_view (ls_core l) \<Longrightarrow> pass_spec w d l (l\<lparr>ls_core := s\<rparr>)"
  "core_view s = core_view (ls_core l) \<Longrightarrow> pass_spec w d l (l\<lparr>ls_flags := f, ls_core := s\<rparr>)"
  by (simp_all add: pass_spec_def)

lemma pass_spec_flags:
  "pass_spec w d (l\<lparr>ls_flags := f\<rparr>) l' = pass_spec w d l l'"
  "core_view s = core_view (ls_core l) \<Longrightarrow> pass_spec w d (l\<lparr>ls_core := s\<rparr>) l' = pass_spec w d l l'"
  by (simp_all add: pass_spec_def)

lemma issue_to_port_spec:
  assumes "issue_frame env" "issue_to_port env it w inst m port l = Some (go, l')"
    "d \<longrightarrow> ls_previous l \<noteq> port_exec port"
  shows "pass_spec w d l l'"
proof -
  let ?gate = "if port = Port_sp \<or> port = Port_int then cdp_gate env inst m w (ls_core l) else Some (True, ls_core l)"
  obtain g s where g: "?gate = Some (g, s)"
    using assms(2) by (auto simp only: issue_to_port_def bind_eq_Some_conv)
  have v: "core_view s = core_view (ls_core l)" using g by (auto split: if_splits dest!: cdp_gate_frame)
  show ?thesis
  proof (cases g)
    case False
    with assms(2) g v show ?thesis by (auto simp: issue_to_port_def pass_spec_same split: if_splits)
  next
    case True
    with assms(2) g obtain s3 sd4 s4 where
      i: "issue_warp env port inst m w (sd_id (ls_sched l)) s = Some s3"
      "do_on_warp_issued env w it (ls_sched l) s3 = Some (sd4, s4)"
      "l' = l\<lparr>ls_issued := ls_issued l + 1, ls_previous := port_exec port,
        ls_flags := (ls_flags l)\<lparr>fl_issued := True\<rparr>, ls_sched := sd4, ls_core := s4,
        ls_trace := ls_trace l @ [(w, port)]\<rparr>"
      by (auto simp: issue_to_port_def split: bind_splits)
    with issue_warp_frame[OF assms(1) i(1)] do_on_warp_issued_frame[OF assms(1) i(2)] v assms(3)
    show ?thesis by (simp add: pass_spec_def)
  qed
qed

lemma issue_ready_spec:
  assumes "issue_frame env" "issue_ready env it w inst l = Some (go, l')"
  shows "pass_spec w (sc_gpgpu_dual_issue_diff_exec_units (cq_config (ls_core l))) l l'"
proof -
  let ?l = "l\<lparr>ls_flags := (ls_flags l)\<lparr>fl_ready := True\<rparr>\<rparr>"
  obtain target where t: "cycle_target (ls_previous ?l) (sd_id (ls_sched ?l)) inst (ls_core ?l) = Some target"
    "(case target of None \<Rightarrow> Some (True, ?l) | Some port \<Rightarrow>
      issue_to_port env it w inst (ie_active_mask env w (ic_ext (ls_core ?l))) port ?l) = Some (go, l')"
    using assms(2) by (auto simp: issue_ready_def Let_def split: bind_splits if_splits)
  show ?thesis
  proof (cases target)
    case None
    with t(2) show ?thesis by (auto simp: pass_spec_def)
  next
    case (Some port)
    with t have p: "issue_to_port env it w inst (ie_active_mask env w (ic_ext (ls_core ?l))) port ?l = Some (go, l')"
      by simp
    have "sc_gpgpu_dual_issue_diff_exec_units (cq_config (ls_core l)) \<longrightarrow> ls_previous ?l \<noteq> port_exec port"
      using cycle_target_differs[OF t(1)[unfolded Some]] by simp
    from issue_to_port_spec[OF assms(1) p this] show ?thesis by (simp add: pass_spec_flags)
  qed
qed

lemma issue_valid_spec:
  assumes "issue_frame env" "issue_valid env it w inst l = Some (go, l')"
  shows "pass_spec w (sc_gpgpu_dual_issue_diff_exec_units (cq_config (ls_core l))) l l'"
proof -
  obtain ok s where s: "passes_scoreboard env w inst True (ls_core l) = Some (ok, s)"
    using assms(2) by (auto simp: issue_valid_def Let_def split: bind_splits)
  note v = passes_scoreboard_frame[OF s]
  then have c: "cq_config s = cq_config (ls_core l)" by (simp add: core_view_def)
  show ?thesis
  proof (cases ok)
    case True
    with assms(2) s have r: "issue_ready env it w inst (l\<lparr>ls_flags := (ls_flags l)\<lparr>fl_valid := True\<rparr>, ls_core := s\<rparr>) =
      Some (go, l')" by (simp add: issue_valid_def)
    from issue_ready_spec[OF assms(1) r] c v show ?thesis by (simp add: pass_spec_def)
  next
    case False
    with assms(2) s v show ?thesis by (auto simp: issue_valid_def pass_spec_def)
  qed
qed

lemma flush_warp_spec: "flush_warp pc w l = Some (go, l') \<Longrightarrow> pass_spec w d l l'"
  by (auto simp: flush_warp_def split: bind_splits dest!: with_warp_frame intro!: pass_spec_same)

lemma issue_pass_spec:
  assumes "issue_frame env" "issue_pass env it w l = Some (go, l')"
  shows "pass_spec w (sc_gpgpu_dual_issue_diff_exec_units (cq_config (ls_core l))) l l'"
proof -
  let ?w = "cq_warp (ls_core l) ! w"
  have w: "w < length (cq_warp (ls_core l))" using assms(2) by (auto simp: issue_pass_def split: bind_splits)
  have refl: "pass_spec w d l l" for d by (simp add: pass_spec_def)
  show ?thesis
  proof (cases "sw_ibuffer_next_inst ?w")
    case None
    with assms(2) w refl show ?thesis by (auto simp: issue_pass_def Let_def flush_warp_spec split: if_splits)
  next
    case (Some inst)
    show ?thesis
    proof (cases "wi_is_cdp inst \<noteq> 0 \<and> sw_cdp_latency ?w > 0")
      case True
      with assms(2) w Some obtain s where
        "with_warp w (\<lambda>w. Some (w\<lparr>sw_cdp_latency := sw_cdp_latency w - 1\<rparr>)) (ls_core l) = Some s"
        "l' = l\<lparr>ls_core := s\<rparr>"
        by (auto simp: issue_pass_def Let_def split: bind_splits if_splits)
      then show ?thesis by (simp add: pass_spec_same with_warp_frame)
    next
      case False
      with assms(2) w Some have "flush_warp (ucast (ie_pdom_top_pc env w (ic_ext (ls_core l)))) w l = Some (go, l') \<or>
          issue_valid env it w inst l = Some (go, l')"
        by (auto simp: issue_pass_def Let_def split: if_splits)
      then show ?thesis using flush_warp_spec issue_valid_spec[OF assms(1)] by blast
    qed
  qed
qed


text \<open>The loop of one warp: the instructions it adds, all of this warp.\<close>

definition loop_spec :: "nat \<Rightarrow> nat \<Rightarrow> 'x loop_state \<Rightarrow> 'x loop_state \<Rightarrow> bool" where
  "loop_spec w max_issue l l' \<longleftrightarrow> core_view (ls_core l') = core_view (ls_core l) \<and>
     (ls_issued l \<le> max_issue \<longrightarrow> ls_issued l' \<le> max_issue) \<and>
     (\<exists>ports. ls_trace l' = ls_trace l @ map (Pair w) ports \<and> ls_issued l' = ls_issued l + length ports \<and>
        (sc_gpgpu_dual_issue_diff_exec_units (cq_config (ls_core l)) \<longrightarrow>
           successively (\<noteq>) (ls_previous l # map port_exec ports)))"

lemma loop_spec_refl: "core_view s = core_view (ls_core l) \<Longrightarrow> loop_spec w m l (l\<lparr>ls_core := s\<rparr>)"
  by (auto simp: loop_spec_def intro!: exI[of _ "[]"])

lemma loop_spec_core:
  "core_view s = core_view (ls_core l) \<Longrightarrow> loop_spec w m (l\<lparr>ls_core := s\<rparr>) l' = loop_spec w m l l'"
  by (simp add: loop_spec_def core_view_def)

lemma loop_spec_pass:
  assumes "pass_spec w (sc_gpgpu_dual_issue_diff_exec_units (cq_config (ls_core l))) l l1"
    "ls_issued l < m" "loop_spec w m l1 l'"
  shows "loop_spec w m l l'"
proof -
  have v: "core_view (ls_core l1) = core_view (ls_core l)" using assms(1) by (simp add: pass_spec_def)
  then have c: "cq_config (ls_core l1) = cq_config (ls_core l)" by (simp add: core_view_def)
  obtain ports where p: "ls_trace l' = ls_trace l1 @ map (Pair w) ports" "ls_issued l' = ls_issued l1 + length ports"
    "sc_gpgpu_dual_issue_diff_exec_units (cq_config (ls_core l)) \<longrightarrow>
      successively (\<noteq>) (ls_previous l1 # map port_exec ports)"
    "core_view (ls_core l') = core_view (ls_core l)" "ls_issued l1 \<le> m \<longrightarrow> ls_issued l' \<le> m"
    using assms(3) v c by (auto simp: loop_spec_def)
  from assms(1) consider
      "ls_issued l1 = ls_issued l" "ls_trace l1 = ls_trace l" "ls_previous l1 = ls_previous l"
    | port where "ls_issued l1 = ls_issued l + 1" "ls_trace l1 = ls_trace l @ [(w, port)]"
      "ls_previous l1 = port_exec port"
      "sc_gpgpu_dual_issue_diff_exec_units (cq_config (ls_core l)) \<longrightarrow> ls_previous l \<noteq> port_exec port"
    by (auto simp: pass_spec_def)
  then show ?thesis
  proof cases
    case 1
    with p assms(2) show ?thesis unfolding loop_spec_def by (intro conjI exI[of _ ports]) auto
  next
    case (2 port)
    with p assms(2) show ?thesis
      unfolding loop_spec_def by (intro conjI exI[of _ "port # ports"]) auto
  qed
qed

lemma warp_issue_loop_spec:
  assumes "issue_frame env"
  shows "warp_issue_loop n env it w m checked l = Some l' \<Longrightarrow> loop_spec w m l l'"
proof (induction n arbitrary: checked l)
  case 0
  then show ?case by (auto split: bind_splits intro!: loop_spec_refl dest!: warp_waits_frame)
next
  case (Suc n)
  from Suc.prems obtain b s where s: "warp_waits env w (ls_core l) = Some (b, s)"
    by (auto split: bind_splits)
  note v = warp_waits_frame[OF s]
  let ?l = "l\<lparr>ls_core := s\<rparr>"
  have lw: "w < length (cq_warp s)" using Suc.prems s by (auto split: bind_splits)
  let ?go = "\<not> b \<and> \<not> sw_ibuffer_empty (cq_warp s ! w) \<and> checked < m \<and> checked \<le> ls_issued l \<and> ls_issued l < m"
  show ?case
  proof (cases ?go)
    case False
    with Suc.prems s lw have "l' = ?l" by (simp split: if_splits)
    with v loop_spec_refl show ?thesis by simp
  next
    case True
    with Suc.prems s lw obtain go l1 where p: "issue_pass env it w ?l = Some (go, l1)"
      "(if go then warp_issue_loop n env it w m (checked + 1) l1 else Some l1) = Some l'"
      by (auto split: bind_splits)
    have "loop_spec w m l1 l'"
      using p(2) Suc.IH[of "checked + 1" l1] loop_spec_refl[of "ls_core l1" l1] by (auto split: if_splits)
    with loop_spec_pass[OF issue_pass_spec[OF assms p(1)]] True v show ?thesis
      by (simp add: loop_spec_core)
  qed
qed

text \<open>What the instructions of a cycle add to the counters.\<close>

definition issue_delta :: "(nat \<times> issue_port) list \<Rightarrow> nat list" where
  "issue_delta trace =
     (if trace = [] then [0, 0, 0, 0, 0, 0]
      else if length trace = 1 then [1, 1, 0, 1, 0, 0]
      else if fst (trace ! 0) = fst (trace ! 1) then [1, 0, 1, 0, 1, 0]
      else [1, 0, 1, 0, 0, 1])"

definition one_warp_trace :: "nat \<Rightarrow> bool \<Rightarrow> (nat \<times> issue_port) list \<Rightarrow> bool" where
  "one_warp_trace max_issue diff trace \<longleftrightarrow> (\<exists>w ports. trace = map (Pair w) ports \<and>
     length ports \<le> max_issue \<and> (diff \<longrightarrow> successively (\<noteq>) (map port_exec ports)))"

lemma count_issued_counters:
  "count_issued n sd st = Some st' \<Longrightarrow> issue_counters st' = add_counters (issue_counters st)
    (if n = 1 then [1, 1, 0, 1, 0, 0] else [1, 0, 1, 0, 1, 0])"
  by (auto simp: count_issued_def Let_def issue_counters_def add_counters_def split: bind_splits if_splits)

lemma add_counters_zero: "length xs = 6 \<Longrightarrow> add_counters xs [0, 0, 0, 0, 0, 0] = xs"
  by (auto simp: add_counters_def eval_nat_numeral length_Suc_conv)

lemma length_issue_counters [simp]: "length (issue_counters st) = 6"
  by (simp add: issue_counters_def)

lemma warps_loop_spec:
  assumes "issue_frame env"
  shows "warps_loop env ps it l = Some l' \<Longrightarrow> ls_trace l = [] \<Longrightarrow>
    cq_config (ls_core l') = cq_config (ls_core l) \<and>
    one_warp_trace (sc_gpgpu_max_insn_issue_per_warp (cq_config (ls_core l)))
      (sc_gpgpu_dual_issue_diff_exec_units (cq_config (ls_core l))) (ls_trace l') \<and>
    issue_counters (ic_stats (ls_core l')) =
      add_counters (issue_counters (ic_stats (ls_core l))) (issue_delta (ls_trace l'))"
proof (induction ps arbitrary: it l)
  case Nil
  then show ?case
    by (auto simp: one_warp_trace_def issue_delta_def add_counters_zero intro!: exI[of _ "[]"])
next
  case (Cons p ps)
  let ?m = "sc_gpgpu_max_insn_issue_per_warp (cq_config (ls_core l))"
  have p: "p < length (cq_warp (ls_core l))" using Cons.prems(1) by (auto split: bind_splits)
  show ?case
  proof (cases "sw_done_exit (cq_warp (ls_core l) ! p)")
    case True
    with Cons p show ?thesis by simp
  next
    case False
    let ?l = "l\<lparr>ls_issued := 0, ls_previous := EXEC_NONE\<rparr>" and ?w = "sw_warp_id (cq_warp (ls_core l) ! p)"
    from False Cons.prems(1) p obtain l1 where l1: "warp_issue_loop ?m env it ?w ?m 0 ?l = Some l1"
      by (auto simp: Let_def split: bind_splits)
    note sp = warp_issue_loop_spec[OF assms l1]
    obtain ports where ports: "ls_trace l1 = map (Pair ?w) ports" "ls_issued l1 = length ports"
      "sc_gpgpu_dual_issue_diff_exec_units (cq_config (ls_core l)) \<longrightarrow>
        successively (\<noteq>) (EXEC_NONE # map port_exec ports)" "length ports \<le> ?m"
      using sp Cons.prems(2) by (auto simp: loop_spec_def)
    have v: "core_view (ls_core l1) = core_view (ls_core l)" using sp by (simp add: loop_spec_def)
    then have c: "cq_config (ls_core l1) = cq_config (ls_core l)"
      "issue_counters (ic_stats (ls_core l1)) = issue_counters (ic_stats (ls_core l))"
      by (simp_all add: core_view_def)
    show ?thesis
    proof (cases "ports = []")
      case True
      with ports l1 False p Cons.prems(1) have "warps_loop env ps (it + 1) l1 = Some l'"
        by (simp add: Let_def)
      from Cons.IH[OF this] ports True c show ?thesis by simp
    next
      case ne: False
      with ports l1 False p Cons.prems(1) obtain sd st where st:
        "count_issued (length ports) sd (ic_stats (ls_core l1)) = Some st"
        "l' = l1\<lparr>ls_sched := sd, ls_core := (ls_core l1)\<lparr>ic_stats := st\<rparr>\<rparr>"
        by (auto simp: Let_def split: bind_splits)
      have "issue_delta (ls_trace l') = (if length ports = 1 then [1, 1, 0, 1, 0, 0] else [1, 0, 1, 0, 1, 0])"
      proof (cases "length ports = 1")
        case True
        then show ?thesis using st(2) ports(1) by (auto simp: issue_delta_def)
      next
        case False
        with ne have "1 < length ports" by (cases ports) auto
        then show ?thesis using st(2) ports(1) ne by (auto simp: issue_delta_def)
      qed
      moreover have "one_warp_trace ?m (sc_gpgpu_dual_issue_diff_exec_units (cq_config (ls_core l))) (ls_trace l')"
        unfolding one_warp_trace_def using st(2) ports
        by (intro exI[of _ ?w] exI[of _ ports]) (auto simp: successively_Cons)
      ultimately show ?thesis using count_issued_counters[OF st(1)] st(2) c by simp
    qed
  qed
qed


lemma count_eligible_warps_counters:
  "count_eligible_warps n sd st = Some st' \<Longrightarrow> issue_counters st' = issue_counters st"
  by (auto simp: count_eligible_warps_def issue_counters_def split: bind_splits)

lemma stall_statistics_counters:
  "stall_statistics fl st = Some st' \<Longrightarrow> issue_counters st' = issue_counters st"
  by (auto simp: stall_statistics_def issue_counters_def Let_def split: bind_splits if_splits)

text \<open>A cycle up to the co-issue, and the two ways it can go on.\<close>

lemma scheduler_cycle_cases:
  assumes "issue_frame env" "scheduler_cycle env sd s = Some (trace, sd', s')"
  obtains (pair) pr co p q where "trace = [(ca_warp_id pr, p), (ca_warp_id co, q)]"
      "coissue_obstacle pr co = None" "ca_out pr = Some p" "ca_out co = Some q"
      "is_wasp_producer_warp (ca_warp_id pr) s = Some True" "is_wasp_producer_warp (ca_warp_id co) s = Some False"
      "sc_gpgpu_wasp_pc_coissue_enable (cq_config s)"
      "issue_counters (ic_stats s') = add_counters (issue_counters (ic_stats s)) [1, 0, 1, 0, 0, 1]"
    | (warp) "one_warp_trace (sc_gpgpu_max_insn_issue_per_warp (cq_config s))
        (sc_gpgpu_dual_issue_diff_exec_units (cq_config s)) trace"
      "issue_counters (ic_stats s') = add_counters (issue_counters (ic_stats s)) (issue_delta trace)"
proof -
  let ?fl = "\<lparr>fl_valid = False, fl_ready = False, fl_issued = False\<rparr>"
  from assms(2) obtain sd1 s1 n s2 st pair fl sd3 s3 where
    1: "ie_order_warps env sd s = Some (sd1, s1)" and
    2: "count_eligible env (sd_prioritized sd1) s1 = Some (n, s2)" and
    3: "count_eligible_warps n sd1 (ic_stats s2) = Some st" and
    4: "try_pc_coissue env ?fl sd1 (s2\<lparr>ic_stats := st\<rparr>) = Some (pair, fl, sd3, s3)"
    by (auto simp: scheduler_cycle_def Let_def split: bind_splits)
  have v1: "core_view s1 = core_view s" using assms(1) 1 by (auto simp: issue_frame_def)
  have v: "core_view (s2\<lparr>ic_stats := st\<rparr>) = core_view s"
    using count_eligible_frame[OF 2] v1 count_eligible_warps_counters[OF 3] by (simp add: core_view_def)
  note view = try_pc_coissue_view[OF assms(1) 4]
  have c: "cq_config (s2\<lparr>ic_stats := st\<rparr>) = cq_config s" "issue_counters st = issue_counters (ic_stats s)"
    using v by (simp_all add: core_view_def)
  show ?thesis
  proof (cases pair)
    case (Some x)
    obtain pr co where x: "x = (pr, co)" by (cases x)
    from view Some x obtain p q where pq: "ca_out pr = Some p" "ca_out co = Some q" by auto
    with assms(2) 1 2 3 4 Some x have t: "trace = [(ca_warp_id pr, p), (ca_warp_id co, q)]" "s' = s3"
      by (simp_all add: scheduler_cycle_def)
    from view Some x pq t c producer_view[OF v] show ?thesis
      by (intro pair[of pr p co q]) auto
  next
    case None
    let ?l = "\<lparr>ls_issued = 0, ls_previous = EXEC_NONE, ls_flags = fl, ls_sched = sd3, ls_core = s3, ls_trace = []\<rparr>"
    from assms(2) 1 2 3 4 None obtain l st' where l: "warps_loop env (sd_prioritized sd3) 0 ?l = Some l"
      "stall_statistics (ls_flags l) (ic_stats (ls_core l)) = Some st'" "trace = ls_trace l"
      "s' = (ls_core l)\<lparr>ic_stats := st'\<rparr>"
      by (auto simp: scheduler_cycle_def split: bind_splits)
    have "core_view s3 = core_view s" using view None v by simp
    then have "cq_config s3 = cq_config s" "issue_counters (ic_stats s3) = issue_counters (ic_stats s)"
      by (simp_all add: core_view_def)
    with warps_loop_spec[OF assms(1) l(1)] stall_statistics_counters[OF l(2)] l(3,4) show ?thesis
      by (intro warp) simp_all
  qed
qed

subsection \<open>A core that issues a pair\<close>

definition demo_inst :: "uarch_op_t \<Rightarrow> warp_inst" where
  "demo_inst p = warp_inst_init\<lparr>wi_decoded := True, wi_isize := 8, wi_pc := 64, wi_op := p\<rparr>"

definition demo_warp :: "nat \<Rightarrow> uarch_op_t \<Rightarrow> shd_warp" where
  "demo_warp i p = (the (shd_warp_new 4))\<lparr>sw_warp_id := i, sw_n_completed := 0, sw_done_exit := False,
     sw_inst_in_pipeline := 1, sw_ibuffer := [\<lparr>ib_inst = Some (demo_inst p), ib_valid = True\<rparr>, ibuffer_entry_init]\<rparr>"

definition demo_env :: "unit issue_env" where
  "demo_env = \<lparr>ie_order_warps = \<lambda>sd s. Some (sd, s), ie_do_on_warp_issued = \<lambda>i sd. Some sd,
     ie_pdom_top_pc = \<lambda>w x. 64, ie_active_mask = \<lambda>w x. 0, ie_check_collision = \<lambda>w i x. False,
     ie_pending_writes = \<lambda>w x. False, ie_flush_l1 = False, ie_cache_invalidate = id,
     ie_inst_issue = \<lambda>m w cyc dyn sch str i. i\<lparr>wi_empty := False, wi_warp_id := w, wi_active_mask := m\<rparr>,
     ie_execute_warp_inst = \<lambda>i s. Some (i, s), ie_generate_mem_accesses = id,
     ie_update_simt_stack = \<lambda>w i x. x, ie_reserve_registers = \<lambda>i x. x,
     ie_broadcast_barrier_reduction = \<lambda>i m x. x, ie_cdp_latency = []\<rparr>"

definition demo_stats :: issue_stats where
  "demo_stats = \<lparr>is_eligible_warp_count = [0], is_eligible_warp_slot_count = [0],
     is_eligible_warp_sample_count = [0], is_single_issue_nums = [0], is_dual_issue_nums = [0],
     is_pc_coissue_attempts = 0, is_pc_coissue_success = 0, is_pc_coissue_fail_scoreboard = 0,
     is_pc_coissue_fail_fu_conflict = 0, is_pc_coissue_fail_lsu_lsu_conflict = 0,
     is_pc_coissue_fail_structural_conflict = 0, is_pc_coissue_fail_dispatch_port = 0,
     is_pc_coissue_fail_result_bus = 0, is_total_issue_count = 0, is_single_issue_count = 0,
     is_dual_issue_count = 0, is_single_issue_fallback = 0, is_same_warp_dual_issue_fallback = 0,
     is_shader_cycle_distro = replicate 7 0\<rparr>"

definition demo_core :: "unit issue_core" where
  "demo_core = core_queues.extend
     (small_queue_core\<lparr>cq_config := (cq_config small_queue_core)\<lparr>sc_sub_core_model := False\<rparr>,
        cq_warp := [demo_warp 0 LOAD_OP, demo_warp 1 INTP_OP]\<rparr>)
     \<lparr>ic_port = \<lambda>p. [warp_inst_init], ic_barriers = \<lparr>bs_max_warps_per_core = 2, bs_max_cta_per_core = 1, bs_max_barriers_per_cta = 1, bs_warp_size = 4,
       bs_cta_to_warps = [], bs_bar_id_to_warps = \<lambda>_. 0, bs_warp_active = 0, bs_warp_at_barrier = 0\<rparr>,
      ic_stats = demo_stats, ic_cycle = 0, ic_ext = ()\<rparr>"

definition demo_sched :: scheduler where
  "demo_sched = \<lparr>sd_id = 0, sd_prioritized = [0, 1], sd_supervised = [0, 1], sd_last_issued = 2,
     sd_num_issued_last_cycle = 0\<rparr>"

lemma demo_warp_facts [simp]:
  "sw_warp_id (demo_warp i p) = i" "\<not> sw_done_exit (demo_warp i p)" "\<not> sw_functional_done (demo_warp i p)"
  "\<not> sw_membar (demo_warp i p)" "sw_n_atomic (demo_warp i p) = 0" "\<not> sw_waiting_ldgsts (demo_warp i p)"
  "sw_inst_in_pipeline (demo_warp i p) = 1" "\<not> sw_ibuffer_empty (demo_warp i p)"
  "sw_ibuffer_next_inst (demo_warp i p) = Some (demo_inst p)" "sw_ibuffer_next_valid (demo_warp i p)"
  by (simp_all add: demo_warp_def shd_warp_new_def sw_reset_def sw_clear_depbar_def sw_functional_done_def
      sw_ibuffer_empty_def sw_ibuffer_next_inst_def sw_ibuffer_next_valid_def)

lemma demo_inst_facts [simp]:
  "wi_decoded (demo_inst p)" "wi_pc (demo_inst p) = 64" "wi_op (demo_inst p) = p" "wi_is_cdp (demo_inst p) = 0"
  "\<not> rfq_inst (demo_inst p)" "\<not> smemq_inst (demo_inst p)" "\<not> wi_is_ldgsts (demo_inst p)"
  "\<not> wi_is_ldgdepbar (demo_inst p)" "\<not> wi_is_depbar (demo_inst p)"
  by (simp_all add: demo_inst_def warp_inst_init_def rfq_inst_def smemq_inst_def)

lemma demo_core_facts [simp]:
  "cq_warp demo_core = [demo_warp 0 LOAD_OP, demo_warp 1 INTP_OP]" "ic_port demo_core = (\<lambda>p. [warp_inst_init])"
  "ic_stats demo_core = demo_stats" "\<not> sc_sub_core_model (cq_config demo_core)"
  "0 < sc_gpgpu_num_int_units (cq_config demo_core)" "sc_gpgpu_wasp_pc_coissue_enable (cq_config demo_core)"
  "wasp_rfq_enabled demo_core" "bs_warp_at_barrier (ic_barriers demo_core) = 0"
  "\<not> smemq_enabled demo_core"
  "is_wasp_producer_warp 0 demo_core = Some True" "is_wasp_producer_warp (Suc 0) demo_core = Some False"
  by (simp_all add: demo_core_def core_queues.defs small_queue_core_def h200_config_def wasp_rfq_enabled_def
      smemq_enabled_def is_wasp_producer_warp_def queue_metadata_init_def Let_def)

lemma demo_frame: "issue_frame demo_env"
  by (auto simp: issue_frame_def demo_env_def)

lemma demo_env_facts [simp]:
  "ie_order_warps demo_env sd s = Some (sd, s)" "ie_do_on_warp_issued demo_env i sd = Some sd"
  "ie_pdom_top_pc demo_env w x = 64" "ie_active_mask demo_env w x = 0" "\<not> ie_check_collision demo_env w j x"
  "ie_execute_warp_inst demo_env j s = Some (j, s)" "ie_generate_mem_accesses demo_env j = j"
  "ie_inst_issue demo_env m w cyc dyn sch str j = j\<lparr>wi_empty := False, wi_warp_id := w, wi_active_mask := m\<rparr>"
  "ie_update_simt_stack demo_env w j x = x" "ie_reserve_registers demo_env j x = x"
  by (simp_all add: demo_env_def)

lemma demo_next:
  assumes "cq_warp s = cq_warp demo_core" "bs_warp_at_barrier (ic_barriers s) = 0"
  shows "next_valid_inst demo_env 0 s = Some (Some (0, demo_inst LOAD_OP), s)"
    "next_valid_inst demo_env (Suc 0) s = Some (Some (Suc 0, demo_inst INTP_OP), s)"
  using assms
  by (simp_all add: next_valid_inst_def warp_waits_def bs_warp_waiting_at_barrier_def ws_test_def
      WARP_PER_CTA_MAX_def warp_waiting_at_mem_barrier_def sw_waiting_def)

lemma demo_passes: "passes_scoreboard demo_env w (demo_inst p) c s = Some (True, s)"
  by (simp add: passes_scoreboard_def wasp_rfq_can_issue_def smemq_can_issue_def)

lemma demo_issue_warp:
  assumes "w < length (cq_warp s)" "ic_port s port = [warp_inst_init]" "\<not> sc_sub_core_model (cq_config s)"
    "2 < length (is_shader_cycle_distro (ic_stats s))" "p \<noteq> BARRIER_OP" "p \<noteq> MEMORY_BARRIER_OP"
  shows "\<exists>s'. issue_warp demo_env port (demo_inst p) 0 w 0 s = Some s' \<and> length (cq_warp s') = length (cq_warp s) \<and>
    (\<forall>q. q \<noteq> port \<longrightarrow> ic_port s' q = ic_port s q) \<and> cq_config s' = cq_config s \<and>
    (\<forall>v. v \<noteq> w \<longrightarrow> cq_warp s' ! v = cq_warp s ! v) \<and>
    length (is_shader_cycle_distro (ic_stats s')) = length (is_shader_cycle_distro (ic_stats s)) \<and>
    is_dual_issue_nums (ic_stats s') = is_dual_issue_nums (ic_stats s)"
proof -
  have m: "mask_count 0 = 0" by (simp add: mask_count_def)
  have ni: "\<not> rfq_inst (demo_inst p\<lparr>wi_empty := False, wi_warp_id := w, wi_active_mask := 0\<rparr>)"
    "\<not> smemq_inst (demo_inst p\<lparr>wi_empty := False, wi_warp_id := w, wi_active_mask := 0\<rparr>)"
    by (simp_all add: demo_inst_def warp_inst_init_def rfq_inst_def smemq_inst_def)
  show ?thesis
    using assms
    by (simp add: issue_warp_def rs_get_free_def rs_get_free_any_def with_warp_def m ni Let_def
        wasp_rfq_prepare_issue_def smemq_prepare_issue_def func_exec_inst_def wasp_rfq_after_func_exec_def
        smemq_after_func_exec_def issue_warp_effects_def warp_inst_init_def)
qed

definition demo_load :: issue_candidate where
  "demo_load = \<lparr>ca_ready = True, ca_warp_id = 0, ca_inst = demo_inst LOAD_OP, ca_active_mask = 0,
     ca_out = Some Port_mem, ca_fail_reason = PC_COISSUE_FAIL_NONE, ca_prioritized_iter = 0\<rparr>"

definition demo_alu :: issue_candidate where
  "demo_alu = \<lparr>ca_ready = True, ca_warp_id = 1, ca_inst = demo_inst INTP_OP, ca_active_mask = 0,
     ca_out = Some Port_int, ca_fail_reason = PC_COISSUE_FAIL_NONE, ca_prioritized_iter = 1\<rparr>"

lemma demo_coissue:
  assumes "length (cq_warp s) = 2" "cq_warp s ! 0 = demo_warp 0 LOAD_OP" "cq_warp s ! 1 = demo_warp 1 INTP_OP"
    "ic_port s = (\<lambda>p. [warp_inst_init])" "\<not> sc_sub_core_model (cq_config s)"
    "2 < length (is_shader_cycle_distro (ic_stats s))" "length (is_dual_issue_nums (ic_stats s)) = 1"
  shows "\<exists>sd' s'. coissue_both demo_env demo_load demo_alu demo_sched s = Some (sd', s')"
proof -
  obtain s1 where s1: "issue_warp demo_env Port_mem (demo_inst LOAD_OP) 0 0 0 s = Some s1"
    "length (cq_warp s1) = 2" "ic_port s1 Port_int = [warp_inst_init]" "\<not> sc_sub_core_model (cq_config s1)"
    "2 < length (is_shader_cycle_distro (ic_stats s1))" "length (is_dual_issue_nums (ic_stats s1)) = 1"
    using demo_issue_warp[of 0 s Port_mem LOAD_OP] assms by auto
  obtain s2 where s2: "issue_warp demo_env Port_int (demo_inst INTP_OP) 0 1 0 s1 = Some s2"
    "length (cq_warp s2) = 2" "length (is_dual_issue_nums (ic_stats s2)) = 1"
    using demo_issue_warp[of 1 s1 Port_int INTP_OP] s1 by auto
  have id: "sd_id demo_sched = 0" by (simp add: demo_sched_def)
  show ?thesis
    using s1(1) s2 assms(1-3)
    by (auto simp: coissue_both_def issue_candidate_now_def demo_load_def demo_alu_def id
        do_on_warp_issued_def with_warp_def bump_def Let_def split: option.splits)
qed

lemma enabled_stats [simp]:
  "wasp_rfq_enabled (s\<lparr>ic_stats := st\<rparr>) = wasp_rfq_enabled s"
  "smemq_enabled (s\<lparr>ic_stats := st\<rparr>) = smemq_enabled s"
  by (simp_all add: wasp_rfq_enabled_def smemq_enabled_def)

lemma producer_stats [simp]: "is_wasp_producer_warp w (s\<lparr>ic_stats := st\<rparr>) = is_wasp_producer_warp w s"
proof -
  have "cq_config (s\<lparr>ic_stats := st\<rparr>) = cq_config s"
    "cq_kernel_padded_threads_per_cta (s\<lparr>ic_stats := st\<rparr>) = cq_kernel_padded_threads_per_cta s" by simp_all
  then show ?thesis unfolding is_wasp_producer_warp_def enabled_stats by (simp only:)
qed

lemma demo_cycle: "\<exists>sd' s'. scheduler_cycle demo_env demo_sched demo_core = Some ([(0, Port_mem), (1, Port_int)], sd', s')"
proof -
  obtain st where st: "count_eligible_warps 2 demo_sched demo_stats = Some st"
    "2 < length (is_shader_cycle_distro st)" "length (is_dual_issue_nums st) = 1"
    by (simp add: count_eligible_warps_def demo_sched_def demo_stats_def bump_def)
  let ?s = "demo_core\<lparr>ic_stats := st\<rparr>"
  have b: "bs_warp_at_barrier (ic_barriers ?s) = 0" "cq_warp ?s = cq_warp demo_core"
    "is_wasp_producer_warp 0 ?s = Some True" "is_wasp_producer_warp (Suc 0) ?s = Some False"
    "port_free ?s 0 p = Some True" for p
    by (simp_all add: port_free_def rs_has_free_def rs_has_free_any_def warp_inst_init_def)
  have c: "collect_issue_candidate demo_env 0 0 0 ?s = Some (Some demo_load, ?s)"
    "collect_issue_candidate demo_env 0 (Suc 0) (Suc 0) ?s = Some (Some demo_alu, ?s)"
    using demo_next[of ?s] b
    by (simp_all add: collect_issue_candidate_def demo_passes classify_issue_target_def is_mem_op_def is_sp_int_op_def
        is_spec_op_def SPEC_UNIT_START_ID_def demo_load_def demo_alu_def Let_def)
  let ?fl = "\<lparr>fl_valid = False, fl_ready = False, fl_issued = False\<rparr>"
  obtain fl where a: "collect_all demo_env 0 [0, 1] 0 ?fl ?s = Some ([demo_load], [demo_alu], fl, ?s)"
    using c b by (simp add: demo_load_def demo_alu_def)
  let ?t = "?s\<lparr>ic_stats := st\<lparr>is_pc_coissue_attempts := is_pc_coissue_attempts st + 1\<rparr>\<rparr>"
  obtain sd' s' where "coissue_both demo_env demo_load demo_alu demo_sched ?t = Some (sd', s')"
    using demo_coissue[of ?t] st by auto
  moreover have "coissue_obstacle demo_load demo_alu = None"
    by (simp add: coissue_obstacle_def demo_load_def demo_alu_def candidate_exec_def)
  ultimately have "try_pc_coissue demo_env ?fl demo_sched ?s =
      Some (Some (demo_load, demo_alu), fl\<lparr>fl_issued := True\<rparr>, sd', s')"
    using a by (simp add: try_pc_coissue_def demo_sched_def)
  moreover have "ca_warp_id demo_load = 0" "ca_warp_id demo_alu = 1" "ca_out demo_load = Some Port_mem"
    "ca_out demo_alu = Some Port_int" by (simp_all add: demo_load_def demo_alu_def)
  moreover have "sd_prioritized demo_sched = [0, 1]" by (simp add: demo_sched_def)
  ultimately show ?thesis
    using demo_next[of demo_core] st(1) by (simp add: scheduler_cycle_def demo_passes numeral_2_eq_2)
qed

subsection \<open>Properties\<close>

text \<open>C32. What one cycle of a scheduler issues: either instructions of one warp, at most
  \<open>gpgpu_max_insn_issue_per_warp\<close> of them and, when dual issue asks for different units, no two
  in a row to the same unit; or, with co-issue enabled, exactly one instruction of a producer
  warp and one of a consumer warp, to different units.\<close>

theorem cycle_issues:
  assumes "issue_frame env" "scheduler_cycle env sd s = Some (trace, sd', s')"
  shows "one_warp_trace (sc_gpgpu_max_insn_issue_per_warp (cq_config s))
      (sc_gpgpu_dual_issue_diff_exec_units (cq_config s)) trace \<or>
    (\<exists>w p v q. trace = [(w, p), (v, q)] \<and> port_exec p \<noteq> port_exec q \<and>
       is_wasp_producer_warp w s = Some True \<and> is_wasp_producer_warp v s = Some False \<and>
       sc_gpgpu_wasp_pc_coissue_enable (cq_config s))"
  using assms
proof (cases rule: scheduler_cycle_cases)
  case (pair pr co p q)
  then have "port_exec p \<noteq> port_exec q" by (simp add: coissue_obstacle_None candidate_exec_def)
  with pair show ?thesis by blast
qed blast

theorem cycle_issues_witness:
  "\<exists>w p v q sd' s'. scheduler_cycle demo_env demo_sched demo_core = Some ([(w, p), (v, q)], sd', s') \<and>
     port_exec p \<noteq> port_exec q"
proof -
  obtain sd' s' where c: "scheduler_cycle demo_env demo_sched demo_core = Some ([(0, Port_mem), (1, Port_int)], sd', s')"
    using demo_cycle by blast
  from cycle_issues[OF demo_frame c] have "port_exec Port_mem \<noteq> port_exec Port_int" by simp
  with c show ?thesis by blast
qed

text \<open>C33. The issue counters of a scheduler add up: a cycle that issues counts one issue, as single
  or dual; a single issue is a fallback of the co-issue, and a dual issue is either a success of
  the co-issue or a second instruction of the same warp. So the totals stay equal to their parts.\<close>

theorem issue_accounting:
  assumes "issue_frame env" "scheduler_cycle env sd s = Some (trace, sd', s')"
  shows "issue_counters (ic_stats s') = add_counters (issue_counters (ic_stats s)) (issue_delta trace) \<and>
    (is_total_issue_count (ic_stats s) = is_single_issue_count (ic_stats s) + is_dual_issue_count (ic_stats s) \<and>
     is_dual_issue_count (ic_stats s) =
       is_same_warp_dual_issue_fallback (ic_stats s) + is_pc_coissue_success (ic_stats s) \<longrightarrow>
     is_total_issue_count (ic_stats s') = is_single_issue_count (ic_stats s') + is_dual_issue_count (ic_stats s') \<and>
     is_dual_issue_count (ic_stats s') =
       is_same_warp_dual_issue_fallback (ic_stats s') + is_pc_coissue_success (ic_stats s'))"
proof -
  have "issue_counters (ic_stats s') = add_counters (issue_counters (ic_stats s)) (issue_delta trace)"
    using assms
  proof (cases rule: scheduler_cycle_cases)
    case (pair pr co p q)
    then have "ca_warp_id pr \<noteq> ca_warp_id co" by auto
    with pair show ?thesis by (simp add: issue_delta_def)
  qed blast
  then show ?thesis by (auto simp: issue_counters_def add_counters_def issue_delta_def split: if_splits)
qed

theorem issue_accounting_witness:
  "\<exists>trace sd' s'. scheduler_cycle demo_env demo_sched demo_core = Some (trace, sd', s') \<and>
     issue_counters (ic_stats s') = [1, 0, 1, 0, 0, 1]"
proof -
  obtain sd' s' where c: "scheduler_cycle demo_env demo_sched demo_core = Some ([(0, Port_mem), (1, Port_int)], sd', s')"
    using demo_cycle by blast
  with issue_accounting[OF demo_frame c] show ?thesis
    by (auto simp: issue_delta_def issue_counters_def add_counters_def demo_stats_def)
qed

text \<open>C34. The co-issue and the ordinary cycle agree on where an instruction goes: for every
  operation that the co-issue takes (no barrier and no device-runtime call), when every kind of
  unit exists, the register set and the answer of \<open>classify_issue_target\<close> are the choice of the
  cycle for the first instruction of a warp, failures included.\<close>

theorem classify_matches_cycle:
  assumes "wi_op inst \<noteq> BARRIER_OP" "wi_op inst \<noteq> MEMORY_BARRIER_OP" "wi_is_cdp inst = 0"
    "0 < sc_gpgpu_num_int_units (cq_config s)" "0 < sc_gpgpu_num_sfu_units (cq_config s)"
    "0 < sc_gpgpu_num_tensor_core_units (cq_config s)" "\<forall>n \<in> set (sc_specialized_unit_num (cq_config s)). 0 < n"
    "0 < sc_gpgpu_num_sp_units (cq_config s)" "port_free s sch Port_sp \<noteq> None" "port_free s sch Port_int \<noteq> None"
  shows "cycle_target EXEC_NONE sch inst s =
    map_option (\<lambda>(free, out). if free then out else None) (classify_issue_target sch inst s)"
  using assms
  by (cases "wi_op inst")
     (auto simp: cycle_target_def classify_issue_target_def sp_int_target_def into_port_def is_mem_op_def
       is_sp_int_op_def is_spec_op_def SPEC_UNIT_START_ID_def spec_id_of_def vec_at_def Let_def
       split: bind_splits if_splits)

theorem classify_matches_cycle_witness:
  "cycle_target EXEC_NONE 0 (demo_inst DP_OP) demo_core = Some (Some Port_dp)"
proof -
  have c: "0 < sc_gpgpu_num_sfu_units (cq_config demo_core)" "0 < sc_gpgpu_num_dp_units (cq_config demo_core)"
    "0 < sc_gpgpu_num_tensor_core_units (cq_config demo_core)" "sc_specialized_unit_num (cq_config demo_core) = []"
    "0 < sc_gpgpu_num_sp_units (cq_config demo_core)"
    by (simp_all add: demo_core_def core_queues.defs small_queue_core_def h200_config_def)
  have f: "port_free demo_core 0 p = Some True" for p
    by (simp add: port_free_def rs_has_free_def rs_has_free_any_def warp_inst_init_def)
  show ?thesis
    using c f
    by (subst classify_matches_cycle)
       (simp_all add: classify_issue_target_def is_mem_op_def is_sp_int_op_def is_spec_op_def Let_def
          SPEC_UNIT_START_ID_def)
qed

end
