(* ===== verification/Ptx_Instruction.thy ===== *)
theory Ptx_Instruction
  imports Inst_Model Core_Config
begin

section \<open>PTX instructions: the constructor of \<open>ptx_instruction\<close>\<close>

text \<open>
  The opcodes, scalar types and options that the scanner (\<open>ptx.l\<close>) delivers, the
  instruction as \<open>ptx_instruction::ptx_instruction\<close> (\<open>ptx_ir.cc\<close>) builds it from them, and
  the size tables \<open>datatype2size\<close> and \<open>type_decode\<close>. The class itself is declared in a
  header of the simulator that the overlay does not contain: an operand is the record of what
  its accessors return, and a member that the constructor leaves uninitialised is \<open>None\<close>.
  Source text and line numbers, which only trace output uses, are left out.
\<close>

subsection \<open>Tokens\<close>

text \<open>The opcodes that the modelled code distinguishes; every other one is \<open>Plain_OP\<close> of its number.\<close>

datatype (plugins only: code size) ptx_opcode =
    ADD_OP | ADDP_OP | ADDC_OP | SUB_OP | SUBC_OP | MAX_OP | MIN_OP | MUL_OP | MUL24_OP | MAD_OP
  | MADC_OP | MADP_OP | MAD24_OP | FMA_OP | DIV_OP | REM_OP | RCP_OP | SQRT_OP | RSQRT_OP | SIN_OP
  | COS_OP | EX2_OP | LG2_OP | SHFL_OP | CVT_OP | SET_OP | SLCT_OP | MOV_OP | LD_OP | LDU_OP
  | ST_OP | MMA_OP | MMA_LD_OP | MMA_ST_OP | TEX_OP | ATOM_OP | BAR_OP | SST_OP | MEMBAR_OP
  | SSY_OP | NOP_OP | BRA_OP | BREAK_OP | BREAKADDR_OP | CALL_OP | CALLP_OP | RET_OP | RETP_OP
  | EXIT_OP | DP4A_OP | VMIN_OP | VMAX_OP | Plain_OP nat

datatype (plugins only: code size) scalar_type =
    S8_TYPE | S16_TYPE | S32_TYPE | S64_TYPE | U8_TYPE | U16_TYPE | U32_TYPE | U64_TYPE | F16_TYPE
  | F32_TYPE | F64_TYPE | FF64_TYPE | B8_TYPE | B16_TYPE | B32_TYPE | B64_TYPE | BB64_TYPE
  | BB128_TYPE | PRED_TYPE | TEXREF_TYPE | SAMPLERREF_TYPE | SURFREF_TYPE

datatype barrier_option = SYNC_OPTION | ARRIVE_OPTION | RED_OPTION

datatype (plugins only: code size) compare_option =
    EQU_OPTION | NEU_OPTION | LTU_OPTION | LEU_OPTION | GTU_OPTION | GEU_OPTION | EQ_OPTION
  | NE_OPTION | LT_OPTION | LE_OPTION | GT_OPTION | GE_OPTION | LS_OPTION | HS_OPTION | NUM_OPTION
  | NAN_OPTION | HI_OPTION | LO_OPTION

datatype rounding_option =
    RNI_OPTION | RZI_OPTION | RMI_OPTION | RPI_OPTION | RN_OPTION | RZ_OPTION | RM_OPTION | RP_OPTION

datatype geom_option = GEOM_MODIFIER_1D | GEOM_MODIFIER_2D | GEOM_MODIFIER_3D

datatype vector_option = V2_TYPE | V3_TYPE | V4_TYPE

datatype atomic_option =
    ATOMIC_POPC | ATOMIC_AND | ATOMIC_OR | ATOMIC_XOR | ATOMIC_CAS | ATOMIC_EXCH | ATOMIC_ADD
  | ATOMIC_INC | ATOMIC_DEC | ATOMIC_MIN | ATOMIC_MAX

datatype vote_mode = vote_any | vote_all | vote_ballot

datatype membar_option = GLOBAL_OPTION | CTA_OPTION | SYS_OPTION

datatype cache_option =
    CA_OPTION | NC_OPTION | CG_OPTION | CS_OPTION | LU_OPTION | CV_OPTION | WB_OPTION | WT_OPTION

datatype shfl_option = UP_OPTION | DOWN_OPTION | BFLY_OPTION | IDX_OPTION

datatype prmt_option =
    PRMT_F4E_MODE | PRMT_B4E_MODE | PRMT_RC8_MODE | PRMT_ECL_MODE | PRMT_ECR_MODE | PRMT_RC16_MODE

text \<open>An option token, grouped by the case label it falls under; \<open>Other_option\<close> is any other token.\<close>

datatype (plugins only: code size) ptx_option =
    RFQ_OPTION | SMEMQ_OPTION | Barrier_option barrier_option | Compare_option compare_option
  | SAT_OPTION | WRAP_OPTION | CLAMP_OPTION | LEFT_OPTION | RIGHT_OPTION
  | Rounding_option rounding_option | WIDE_OPTION | UNI_OPTION | Geom_option geom_option
  | Vector_option vector_option | Atomic_option atomic_option | APPROX_OPTION | FULL_OPTION
  | Vote_option vote_mode | Membar_option membar_option | FTZ_OPTION | EXIT_OPTION | ABS_OPTION
  | NEG_OPTION | TO_OPTION | Cache_option cache_option | HALF_OPTION | EXTP_OPTION
  | Shfl_option shfl_option | Prmt_option prmt_option | Other_option nat

datatype wmma_option =
    Wmma_sync | LOAD_A | LOAD_B | LOAD_C | STORE_D | MMA | ROW | COL
  | M16N16K16 | M32N8K16 | M8N32K16 | Other_wmma nat

datatype uarch_red_t = NOT_RED | POPC_RED | AND_RED | OR_RED

datatype (plugins only: code size) special_operations_t =
    OTHER_OP | INT__OP | INT_MUL24_OP | INT_MUL32_OP | INT_MUL_OP | INT_DIV_OP | FP_MUL_OP
  | FP_DIV_OP | FP__OP | FP_SQRT_OP | FP_LG_OP | FP_SIN_OP | FP_EXP_OP | DP_MUL_OP | DP_DIV_OP
  | DP___OP | TENSOR__OP | TEX__OP

datatype mem_operation_t = NOT_TEX | TEX

subsection \<open>Operands and instructions\<close>

text \<open>What the accessors of \<open>operand_info\<close> return.\<close>

record operand_info =
  po_is_literal :: bool
  po_literal_u32 :: nat
  po_is_double_literal :: bool
  po_is_reg :: bool
  po_is_label :: bool
  po_name :: string
  po_is_non_arch_reg :: bool
  po_reg_num :: nat
  po_arch_reg_num :: int
  po_is_vector :: bool
  po_vect_regs :: "nat list"
  po_vect_arch_regs :: "int list"
  po_addr_space :: mem_space_type
  po_is_memory_operand :: bool
  po_is_memory_operand2 :: bool
  po_double_operand_type :: nat
  po_reg1_num :: nat
  po_reg2_num :: nat
  po_is_immediate_address :: bool
  po_symbol_is_reg :: bool
  po_function :: "string option"

text \<open>The members that the options set.\<close>

record ptx_modifiers =
  mo_wide :: bool
  mo_hi :: bool
  mo_lo :: bool
  mo_uni :: bool
  mo_exit :: bool
  mo_abs :: bool
  mo_neg :: bool
  mo_to_option :: bool
  mo_cache_option :: "cache_option option"
  mo_rounding_mode :: rounding_option
  mo_compare_op :: "compare_option option"
  mo_saturation_mode :: nat
  mo_clamp_mode :: nat
  mo_left_mode :: nat
  mo_geom_spec :: "geom_option option"
  mo_vector_spec :: "vector_option option"
  mo_atomic_spec :: "atomic_option option"
  mo_membar_level :: "membar_option option"
  mo_inst_size :: nat
  mo_barrier_op :: "barrier_option option"
  mo_vote_mode :: "vote_mode option"
  mo_shfl_op :: "shfl_option option"
  mo_prmt_op :: "prmt_option option"
  mo_saw_rfq_option :: bool
  mo_saw_smemq_option :: bool

definition modifiers_init :: ptx_modifiers where
  "modifiers_init = \<lparr>mo_wide = False, mo_hi = False, mo_lo = False, mo_uni = False, mo_exit = False,
     mo_abs = False, mo_neg = False, mo_to_option = False, mo_cache_option = None,
     mo_rounding_mode = RN_OPTION, mo_compare_op = None, mo_saturation_mode = 0, mo_clamp_mode = 0,
     mo_left_mode = 0, mo_geom_spec = None, mo_vector_spec = None, mo_atomic_spec = None,
     mo_membar_level = None, mo_inst_size = 8, mo_barrier_op = None, mo_vote_mode = None,
     mo_shfl_op = None, mo_prmt_op = None, mo_saw_rfq_option = False, mo_saw_smemq_option = False\<rparr>"

text \<open>
  The instruction. The first ten fields are members of \<open>inst_t\<close> that the decoder sets and
  the modelled pipeline does not read.
\<close>

record ptx_instruction = warp_inst +
  px_reconvergence_pc :: int
  px_red_type :: uarch_red_t
  px_sp_op :: special_operations_t
  px_mem_op :: mem_operation_t
  px_num_operands :: nat
  px_num_regs :: nat
  px_outcount :: nat
  px_incount :: nat
  px_is_vectorin :: bool
  px_is_vectorout :: bool
  px_is_printf :: bool
  px_PC :: nat
  px_m_instr_mem_index :: nat
  px_opcode :: ptx_opcode
  px_has_pred :: bool
  px_pred_reg_num :: nat
  px_neg_pred :: int
  px_pred_mod :: int
  px_label :: "string option"
  px_operands :: "operand_info list"
  px_modifiers :: ptx_modifiers
  px_scalar_type :: "scalar_type list"
  px_space_spec :: memory_space_t
  px_wmma_type :: "wmma_option option"
  px_wmma_layout :: "wmma_option list"

abbreviation px_is_label :: "'a ptx_instruction_scheme \<Rightarrow> bool" where
  "px_is_label i \<equiv> px_label i \<noteq> None"

abbreviation px_inst_size :: "'a ptx_instruction_scheme \<Rightarrow> nat" where
  "px_inst_size i \<equiv> mo_inst_size (px_modifiers i)"

text \<open>\<open>dst()\<close> is the first operand; its name is the target of a branch.\<close>

definition px_dst :: "'a ptx_instruction_scheme \<Rightarrow> operand_info option" where
  "px_dst i = vec_at (px_operands i) 0"

subsection \<open>Sizes of types\<close>

definition datatype2size :: "scalar_type \<Rightarrow> nat option" where
  "datatype2size t =
     (if t \<in> {B8_TYPE, S8_TYPE, U8_TYPE} then Some 1
      else if t \<in> {B16_TYPE, S16_TYPE, U16_TYPE, F16_TYPE} then Some 2
      else if t \<in> {B32_TYPE, S32_TYPE, U32_TYPE, F32_TYPE} then Some 4
      else if t \<in> {B64_TYPE, BB64_TYPE, S64_TYPE, U64_TYPE, F64_TYPE, FF64_TYPE} then Some 8
      else if t = BB128_TYPE then Some 16
      else None)"

text \<open>\<open>type_decode\<close>: the size in bits, the basic type and the index that it returns.\<close>

fun type_decode :: "scalar_type \<Rightarrow> nat \<times> int \<times> nat" where
  "type_decode S8_TYPE = (8, 1, 0)"
| "type_decode S16_TYPE = (16, 1, 1)"
| "type_decode S32_TYPE = (32, 1, 2)"
| "type_decode S64_TYPE = (64, 1, 3)"
| "type_decode U8_TYPE = (8, 0, 4)"
| "type_decode U16_TYPE = (16, 0, 5)"
| "type_decode U32_TYPE = (32, 0, 6)"
| "type_decode U64_TYPE = (64, 0, 7)"
| "type_decode F16_TYPE = (16, -1, 8)"
| "type_decode F32_TYPE = (32, -1, 9)"
| "type_decode F64_TYPE = (64, -1, 10)"
| "type_decode FF64_TYPE = (64, -1, 10)"
| "type_decode PRED_TYPE = (1, 2, 11)"
| "type_decode B8_TYPE = (8, 0, 12)"
| "type_decode B16_TYPE = (16, 0, 13)"
| "type_decode B32_TYPE = (32, 0, 14)"
| "type_decode B64_TYPE = (64, 0, 15)"
| "type_decode BB64_TYPE = (64, 0, 15)"
| "type_decode BB128_TYPE = (128, 0, 16)"
| "type_decode TEXREF_TYPE = (32, 3, 16)"
| "type_decode SAMPLERREF_TYPE = (32, 3, 16)"
| "type_decode SURFREF_TYPE = (32, 3, 16)"

lemma datatype2size_type_decode:
  "datatype2size t = Some n \<Longrightarrow> fst (type_decode t) = 8 * n"
  by (cases t) (simp_all add: datatype2size_def split: if_splits)

subsection \<open>The constructor\<close>

text \<open>
  The loop over the options: every option sets its member; \<open>.hi\<close>, \<open>.lo\<close> and \<open>.wide\<close>
  exclude each other, and an option without a case label fails (\<open>.popc\<close> is one of them).
\<close>

definition apply_compare :: "compare_option \<Rightarrow> ptx_modifiers \<Rightarrow> ptx_modifiers option" where
  "apply_compare c m =
     (if c = HI_OPTION then do {
        assert_that (\<not> mo_lo m);
        assert_that (\<not> mo_wide m);
        Some (m\<lparr>mo_compare_op := Some c, mo_hi := True\<rparr>)
      } else if c = LO_OPTION then do {
        assert_that (\<not> mo_hi m);
        assert_that (\<not> mo_wide m);
        Some (m\<lparr>mo_compare_op := Some c, mo_lo := True\<rparr>)
      } else Some (m\<lparr>mo_compare_op := Some c\<rparr>))"

fun apply_option :: "ptx_modifiers \<Rightarrow> ptx_option \<Rightarrow> ptx_modifiers option" where
  "apply_option m RFQ_OPTION = Some (m\<lparr>mo_saw_rfq_option := True\<rparr>)"
| "apply_option m SMEMQ_OPTION = Some (m\<lparr>mo_saw_smemq_option := True\<rparr>)"
| "apply_option m (Barrier_option b) = Some (m\<lparr>mo_barrier_op := Some b\<rparr>)"
| "apply_option m (Compare_option c) = apply_compare c m"
| "apply_option m SAT_OPTION = Some (m\<lparr>mo_saturation_mode := 1\<rparr>)"
| "apply_option m WRAP_OPTION = Some (m\<lparr>mo_clamp_mode := 0\<rparr>)"
| "apply_option m CLAMP_OPTION = Some (m\<lparr>mo_clamp_mode := 1\<rparr>)"
| "apply_option m LEFT_OPTION = Some (m\<lparr>mo_left_mode := 1\<rparr>)"
| "apply_option m RIGHT_OPTION = Some (m\<lparr>mo_left_mode := 0\<rparr>)"
| "apply_option m (Rounding_option r) = Some (m\<lparr>mo_rounding_mode := r\<rparr>)"
| "apply_option m WIDE_OPTION = do {
     assert_that (\<not> mo_lo m);
     assert_that (\<not> mo_hi m);
     Some (m\<lparr>mo_wide := True\<rparr>)
   }"
| "apply_option m UNI_OPTION = Some (m\<lparr>mo_uni := True\<rparr>)"
| "apply_option m (Geom_option g) = Some (m\<lparr>mo_geom_spec := Some g\<rparr>)"
| "apply_option m (Vector_option v) = Some (m\<lparr>mo_vector_spec := Some v\<rparr>)"
| "apply_option m (Atomic_option a) =
     (if a = ATOMIC_POPC then None else Some (m\<lparr>mo_atomic_spec := Some a\<rparr>))"
| "apply_option m APPROX_OPTION = Some m"
| "apply_option m FULL_OPTION = Some m"
| "apply_option m (Vote_option v) = Some (m\<lparr>mo_vote_mode := Some v\<rparr>)"
| "apply_option m (Membar_option l) = Some (m\<lparr>mo_membar_level := Some l\<rparr>)"
| "apply_option m FTZ_OPTION = Some m"
| "apply_option m EXIT_OPTION = Some (m\<lparr>mo_exit := True\<rparr>)"
| "apply_option m ABS_OPTION = Some (m\<lparr>mo_abs := True\<rparr>)"
| "apply_option m NEG_OPTION = Some (m\<lparr>mo_neg := True\<rparr>)"
| "apply_option m TO_OPTION = Some (m\<lparr>mo_to_option := True\<rparr>)"
| "apply_option m (Cache_option c) = Some (m\<lparr>mo_cache_option := Some c\<rparr>)"
| "apply_option m HALF_OPTION = Some (m\<lparr>mo_inst_size := 4\<rparr>)"
| "apply_option m EXTP_OPTION = Some m"
| "apply_option m (Shfl_option s) = Some (m\<lparr>mo_shfl_op := Some s\<rparr>)"
| "apply_option m (Prmt_option p) = Some (m\<lparr>mo_prmt_op := Some p\<rparr>)"
| "apply_option m (Other_option n) = None"

fun apply_wmma :: "wmma_option option \<times> wmma_option list \<Rightarrow> wmma_option \<Rightarrow>
    (wmma_option option \<times> wmma_option list) option" where
  "apply_wmma (t, layout) (Other_wmma n) = None"
| "apply_wmma (t, layout) ROW = Some (t, layout @ [ROW])"
| "apply_wmma (t, layout) COL = Some (t, layout @ [COL])"
| "apply_wmma (t, layout) M16N16K16 = Some (t, layout)"
| "apply_wmma (t, layout) M32N8K16 = Some (t, layout)"
| "apply_wmma (t, layout) M8N32K16 = Some (t, layout)"
| "apply_wmma (t, layout) opt = Some (Some opt, layout)"

text \<open>
  \<open>check_operands\<close>: instructions with one scalar type have their double literals rounded to
  float for \<open>.f32\<close>; \<open>to_float\<close> builds that operand.
\<close>

definition two_type_opcode :: "ptx_opcode \<Rightarrow> bool" where
  "two_type_opcode p \<longleftrightarrow>
     p \<in> {CVT_OP, SET_OP, SLCT_OP, TEX_OP, MMA_OP, DP4A_OP, VMIN_OP, VMAX_OP}"

definition check_operands :: "(operand_info \<Rightarrow> operand_info) \<Rightarrow> ptx_opcode \<Rightarrow> scalar_type list \<Rightarrow>
    operand_info list \<Rightarrow> operand_info list option" where
  "check_operands to_float opcode types ops =
     (if two_type_opcode opcode then Some ops
      else do {
        assert_that (length types < 2);
        Some (case types of
            [t] \<Rightarrow> map (\<lambda>p. if po_is_literal p \<and> po_is_double_literal p \<and> t = F32_TYPE
                           then to_float p else p) ops
          | _ \<Rightarrow> ops)
      })"

text \<open>The space of the instruction: the one given, generic for an untagged access, or an operand's.\<close>

definition space_of_inst :: "ptx_opcode \<Rightarrow> memory_space_t \<Rightarrow> operand_info list \<Rightarrow> memory_space_t" where
  "space_of_inst opcode space ops =
     (let s = (if (opcode = ST_OP \<or> opcode = LD_OP \<or> opcode = LDU_OP) \<and> ms_type space = undefined_space
               then Memory_space generic_space 0 else space);
          s = foldl (\<lambda>s p. if po_addr_space p \<noteq> undefined_space then Memory_space (po_addr_space p) 0 else s) s ops
      in if opcode = TEX_OP then Memory_space tex_space 0 else s)"

text \<open>The number of words per lane that a queue instruction carries.\<close>

definition queue_payload_words :: "ptx_modifiers \<Rightarrow> nat" where
  "queue_payload_words m = (if mo_vector_spec m = Some V3_TYPE then 3 else 1)"

definition set_rfq_members :: "ptx_opcode \<Rightarrow> ptx_modifiers \<Rightarrow> 'a warp_inst_scheme \<Rightarrow> 'a warp_inst_scheme option" where
  "set_rfq_members opcode m i =
     (if mo_saw_rfq_option m then do {
        assert_that (\<not> mo_saw_smemq_option m);
        assert_that (opcode = LD_OP \<or> opcode = MOV_OP);
        Some (i\<lparr>wi_rfq_load := (opcode = LD_OP), wi_rfq_move := (opcode = MOV_OP),
          wi_rfq_payload_words_per_lane := queue_payload_words m\<rparr>)
      } else Some i)"

definition set_smemq_members :: "ptx_opcode \<Rightarrow> ptx_modifiers \<Rightarrow> 'a warp_inst_scheme \<Rightarrow> 'a warp_inst_scheme option" where
  "set_smemq_members opcode m i =
     (if mo_saw_smemq_option m then do {
        assert_that (opcode = LD_OP \<or> opcode = MOV_OP);
        Some (i\<lparr>wi_smemq_load := (opcode = LD_OP), wi_smemq_move := (opcode = MOV_OP),
          wi_smemq_payload_words_per_lane := queue_payload_words m\<rparr>)
      } else Some i)"

text \<open>A call to a function of the runtime: \<open>printf\<close> and the dynamic parallelism calls.\<close>

definition call_kind :: "string \<Rightarrow> bool \<times> int" where
  "call_kind fname =
     (fname = ''vprintf'',
      if fname = ''cudaStreamCreateWithFlags'' then 1
      else if fname = ''cudaGetParameterBufferV2'' then 2
      else if fname = ''cudaLaunchDeviceV2'' then 4 else 0)"

text \<open>
  The constructor. \<open>func\<close> is the name of the function that \<open>func_addr()\<close> gives for a call,
  \<open>None\<close> when that operand is no function address.
\<close>

record ptx_inst_args =
  pa_opcode :: ptx_opcode
  pa_pred :: "nat option"
  pa_neg_pred :: int
  pa_pred_mod :: int
  pa_label :: "string option"
  pa_operands :: "operand_info list"
  pa_options :: "ptx_option list"
  pa_wmma_options :: "wmma_option list"
  pa_scalar_type :: "scalar_type list"
  pa_space_spec :: memory_space_t
  pa_func :: "string option"

definition ptx_inst_base :: "ptx_inst_args \<Rightarrow> operand_info list \<Rightarrow> ptx_modifiers \<Rightarrow>
    wmma_option option \<times> wmma_option list \<Rightarrow> ptx_instruction" where
  "ptx_inst_base a ops m w = warp_inst.extend warp_inst_init
     \<lparr>px_reconvergence_pc = -1, px_red_type = NOT_RED, px_sp_op = OTHER_OP, px_mem_op = NOT_TEX,
      px_num_operands = 0, px_num_regs = 0, px_outcount = 0, px_incount = 0, px_is_vectorin = False,
      px_is_vectorout = False, px_is_printf = False, px_PC = 0, px_m_instr_mem_index = 0,
      px_opcode = pa_opcode a, px_has_pred = (pa_pred a \<noteq> None),
      px_pred_reg_num = (case pa_pred a of None \<Rightarrow> 0 | Some r \<Rightarrow> r), px_neg_pred = pa_neg_pred a,
      px_pred_mod = pa_pred_mod a, px_label = pa_label a, px_operands = ops, px_modifiers = m,
      px_scalar_type = pa_scalar_type a,
      px_space_spec = space_of_inst (pa_opcode a) (pa_space_spec a) ops,
      px_wmma_type = fst w, px_wmma_layout = snd w\<rparr>"

definition set_call_members :: "ptx_inst_args \<Rightarrow> ptx_instruction \<Rightarrow> ptx_instruction option" where
  "set_call_members a i =
     (if pa_opcode a = CALL_OP then do {
        fname \<leftarrow> pa_func a;
        Some (i\<lparr>px_is_printf := fst (call_kind fname), wi_is_cdp := snd (call_kind fname)\<rparr>)
      } else Some i)"

definition ptx_instruction_new :: "(operand_info \<Rightarrow> operand_info) \<Rightarrow> ptx_inst_args \<Rightarrow> ptx_instruction option" where
  "ptx_instruction_new to_float a = do {
     ops \<leftarrow> check_operands to_float (pa_opcode a) (pa_scalar_type a) (pa_operands a);
     w \<leftarrow> run_calls apply_wmma (None, []) (pa_wmma_options a);
     m \<leftarrow> run_calls apply_option modifiers_init (pa_options a);
     i \<leftarrow> set_rfq_members (pa_opcode a) m (ptx_inst_base a ops m w);
     i \<leftarrow> set_smemq_members (pa_opcode a) m i;
     set_call_members a i
   }"

end
