(* ===== verification/Flow_Graph.thy ===== *)
theory Flow_Graph
  imports Ptx_Instruction
begin

section \<open>The flow graph of a function: \<open>function_info\<close>\<close>

text \<open>
  How a parsed function becomes a graph of basic blocks: \<open>ptx_assemble\<close>
  (\<open>cuda-sim.cc\<close>) lays the instructions out in memory and resolves the branch labels,
  \<open>create_basic_blocks\<close> and \<open>connect_basic_blocks\<close> (\<open>ptx_ir.cc\<close>) build the blocks and
  their edges. A pointer to an instruction is its place in the list \<open>m_instructions\<close>, a
  pointer to a block its place in \<open>m_basic_blocks\<close>, and a \<open>std::set\<close> of block ids a set.
\<close>

text \<open>A cell of \<open>m_instr_mem\<close>: an array that \<open>new\<close> leaves uninitialised.\<close>

datatype mem_cell = Uninit | Null | Insn nat

record basic_block =
  bb_id :: nat
  bb_begin :: "nat option"
  bb_end :: "nat option"
  bb_is_entry :: bool
  bb_is_exit :: bool
  bb_preds :: "nat set"
  bb_succs :: "nat set"
  bb_dominators :: "nat set"
  bb_postdominators :: "nat set"
  bb_Tmp :: "nat set"
  bb_idom :: "nat option"
  bb_ipdom :: "nat option"

text \<open>\<open>new basic_block_t(id, begin, end, entry, exit)\<close>; the id \<open>-1\<close> of "no block" is \<open>None\<close>.\<close>

definition basic_block_new :: "nat \<Rightarrow> nat option \<Rightarrow> nat option \<Rightarrow> bool \<Rightarrow> bool \<Rightarrow> basic_block" where
  "basic_block_new i b e entry ex = \<lparr>bb_id = i, bb_begin = b, bb_end = e, bb_is_entry = entry,
     bb_is_exit = ex, bb_preds = {}, bb_succs = {}, bb_dominators = {}, bb_postdominators = {},
     bb_Tmp = {}, bb_idom = None, bb_ipdom = None\<rparr>"

text \<open>
  \<open>function_info\<close>, and what assembly shares between functions: the next free address and
  the instruction and the function at each address.
\<close>

record function_info =
  fi_uid :: nat
  fi_instructions :: "ptx_instruction list"
  fi_instr_mem :: "mem_cell list"
  fi_labels :: "string \<rightharpoonup> nat"
  fi_label_address :: "string \<rightharpoonup> nat"
  fi_start_PC :: nat
  fi_n :: nat
  fi_assembled :: bool
  fi_basic_blocks :: "basic_block list"
  fi_bb :: "nat list"
  fi_num_reconvergence_pairs :: nat

record code_space =
  cs_next_pc :: nat
  cs_pc_to_insn :: "(nat \<times> nat) option list"
  cs_pc_to_finfo :: "nat \<rightharpoonup> nat"

subsection \<open>Assembly\<close>

record assembly =
  as_PC :: nat
  as_n :: nat
  as_fi :: function_info
  as_cs :: code_space

definition null_cells :: "nat \<Rightarrow> nat \<Rightarrow> mem_cell list \<Rightarrow> mem_cell list option" where
  "null_cells n sz mem = run_calls (\<lambda>m i. vec_set m (n + i) Null) mem [1..<sz]"

definition assemble_insn :: "nat \<Rightarrow> nat \<Rightarrow> assembly \<Rightarrow> assembly option" where
  "assemble_insn max_size k a = do {
     pI \<leftarrow> vec_at (fi_instructions (as_fi a)) k;
     let mem = fi_instr_mem (as_fi a);
     let insns = cs_pc_to_insn (as_cs a) @ [Some (fi_uid (as_fi a), k)];
     mem \<leftarrow> vec_set mem (as_n a) (Insn k);
     at_pc \<leftarrow> vec_at insns (as_PC a);
     assert_that (at_pc = Some (fi_uid (as_fi a), k));
     assert_that (px_inst_size pI \<le> max_size);
     mem \<leftarrow> null_cells (as_n a) (px_inst_size pI) mem;
     Some \<lparr>as_PC = as_PC a + px_inst_size pI, as_n = as_n a + px_inst_size pI,
       as_fi = (as_fi a)\<lparr>fi_instr_mem := mem, fi_instructions := (fi_instructions (as_fi a))
         [k := pI\<lparr>px_m_instr_mem_index := as_n a, px_PC := as_PC a\<rparr>]\<rparr>,
       as_cs = (as_cs a)\<lparr>cs_pc_to_insn := insns @ replicate (px_inst_size pI - 1) None,
         cs_pc_to_finfo := (cs_pc_to_finfo (as_cs a))(as_PC a \<mapsto> fi_uid (as_fi a))\<rparr>\<rparr>
   }"

definition assemble_step :: "nat \<Rightarrow> assembly \<Rightarrow> nat \<Rightarrow> assembly option" where
  "assemble_step max_size a k = do {
     pI \<leftarrow> vec_at (fi_instructions (as_fi a)) k;
     (case px_label pI of
        Some l \<Rightarrow> Some (a\<lparr>as_fi := (as_fi a)\<lparr>fi_labels := (fi_labels (as_fi a))(l \<mapsto> as_n a)\<rparr>\<rparr>)
      | None \<Rightarrow> assemble_insn max_size k a)
   }"

text \<open>What dereferencing a cell gives: the place of the instruction.\<close>

definition insn_at :: "function_info \<Rightarrow> nat \<Rightarrow> (nat \<times> ptx_instruction) option" where
  "insn_at f addr = do {
     c \<leftarrow> vec_at (fi_instr_mem f) addr;
     (case c of Insn k \<Rightarrow> do { pI \<leftarrow> vec_at (fi_instructions f) k; Some (k, pI) } | _ \<Rightarrow> None)
   }"

text \<open>The loops \<open>for (ii = 0; ii < n; ii += inst_size)\<close>: the instructions in address order.\<close>

primrec walk_insns :: "nat \<Rightarrow> function_info \<Rightarrow> nat \<Rightarrow> nat \<Rightarrow> nat list option" where
  "walk_insns 0 f n ii = (if ii < n then None else Some [])"
| "walk_insns (Suc fuel) f n ii =
     (if ii < n then do {
        (k, pI) \<leftarrow> insn_at f ii;
        ks \<leftarrow> walk_insns fuel f n (ii + px_inst_size pI);
        Some (k # ks)
      } else Some [])"

text \<open>
  The target of a branch must be a label of the function, and the label gets the address of the
  instruction behind it. \<open>set_label_address\<close> finds the symbol of the label, which the
  operand itself carries.
\<close>

definition resolve_label :: "function_info \<Rightarrow> nat \<Rightarrow> function_info option" where
  "resolve_label f k = do {
     pI \<leftarrow> vec_at (fi_instructions f) k;
     (if px_opcode pI = BRA_OP \<or> px_opcode pI = BREAKADDR_OP \<or> px_opcode pI = CALLP_OP
      then do {
        target \<leftarrow> px_dst pI;
        index \<leftarrow> fi_labels f (po_name target);
        (_, t) \<leftarrow> insn_at f index;
        Some (f\<lparr>fi_label_address := (fi_label_address f)(po_name target \<mapsto> px_PC t)\<rparr>)
      } else Some f)
   }"

definition ptx_assemble :: "nat \<Rightarrow> function_info \<Rightarrow> code_space \<Rightarrow> (function_info \<times> code_space) option" where
  "ptx_assemble max_size f cs =
     (if fi_assembled f then Some (f, cs)
      else do {
        let num_inst = length (fi_instructions f);
        let pc = cs_next_pc cs;
        assert_that (max_size \<noteq> 0);
        let pad = pc mod max_size;
        let a = \<lparr>as_PC = pc + pad, as_n = 0,
          as_fi = f\<lparr>fi_instr_mem := replicate (max_size * (num_inst + 1)) Uninit, fi_start_PC := pc + pad\<rparr>,
          as_cs = cs\<lparr>cs_pc_to_insn := cs_pc_to_insn cs @ replicate pad None\<rparr>\<rparr>;
        a \<leftarrow> run_calls (assemble_step max_size) a [0..<num_inst];
        let cs = (as_cs a)\<lparr>cs_next_pc := as_PC a\<rparr>;
        ks \<leftarrow> walk_insns (as_n a) (as_fi a) (as_n a) 0;
        f \<leftarrow> run_calls resolve_label (as_fi a) ks;
        Some (f\<lparr>fi_n := as_n a\<rparr>, cs)
      })"

subsection \<open>Basic blocks\<close>

definition find_next_real_instruction :: "ptx_instruction list \<Rightarrow> nat \<Rightarrow> nat" where
  "find_next_real_instruction xs i = i + length (takeWhile px_is_label (drop i xs))"

text \<open>An instruction after which a block ends: a jump, or a predicated call.\<close>

definition ends_block :: "ptx_instruction \<Rightarrow> bool" where
  "ends_block pI \<longleftrightarrow> px_opcode pI \<in> {BRA_OP, RET_OP, EXIT_OP, RETP_OP, BREAK_OP} \<or>
     (px_opcode pI \<in> {CALL_OP, CALLP_OP} \<and> px_has_pred pI)"

function find_leaders :: "ptx_instruction list \<Rightarrow> nat \<Rightarrow> nat list" where
  "find_leaders xs i =
     (if i \<ge> length xs then []
      else if px_is_label (xs ! i) then i # find_leaders xs (find_next_real_instruction xs (i + 1))
      else if ends_block (xs ! i) then
        (if i + 1 < length xs then [i + 1] else []) @
          find_leaders xs (find_next_real_instruction xs (i + 1))
      else find_leaders xs (i + 1))"
  by pat_completeness auto
termination by (relation "measure (\<lambda>(xs, i). length xs - i)") (auto simp: find_next_real_instruction_def)

declare find_leaders.simps [simp del]

record block_builder =
  bl_blocks :: "basic_block list"
  bl_leaders :: "nat list"
  bl_last_real :: nat
  bl_bb :: "nat list"

definition set_last_end :: "nat \<Rightarrow> basic_block list \<Rightarrow> basic_block list" where
  "set_last_end k bbs = butlast bbs @ [(last bbs)\<lparr>bb_end := Some k\<rparr>]"

text \<open>At a leader: close the last block and open the next one, unless only labels follow.\<close>

definition start_block :: "ptx_instruction list \<Rightarrow> nat \<Rightarrow> block_builder \<Rightarrow> block_builder" where
  "start_block xs i b =
     (let bbs = set_last_end (bl_last_real b) (bl_blocks b);
          r = find_next_real_instruction xs i
      in if r < length xs
         then b\<lparr>bl_blocks := bbs @ [basic_block_new (length bbs) (Some r) None False False],
                bl_last_real := r, bl_leaders := tl (bl_leaders b)\<rparr>
         else b\<lparr>bl_blocks := bbs, bl_leaders := tl (bl_leaders b)\<rparr>)"

definition block_step :: "ptx_instruction list \<Rightarrow> nat \<Rightarrow> block_builder \<Rightarrow> block_builder" where
  "block_step xs i b =
     (let b = (case bl_leaders b of [] \<Rightarrow> b | l # _ \<Rightarrow> if l = i then start_block xs i b else b);
          b = b\<lparr>bl_bb := bl_bb b @ [length (bl_blocks b) - 1]\<rparr>
      in if px_is_label (xs ! i) then b else b\<lparr>bl_last_real := i\<rparr>)"

definition create_basic_blocks :: "function_info \<Rightarrow> function_info option" where
  "create_basic_blocks f = do {
     let xs = fi_instructions f;
     assert_that (xs \<noteq> []);
     let leaders = 0 # find_leaders xs 1;
     let first = find_next_real_instruction xs 0;
     assert_that (first < length xs);
     let b = fold (block_step xs) [0..<length xs]
       \<lparr>bl_blocks = [basic_block_new 0 (Some first) None True False], bl_leaders = tl leaders,
        bl_last_real = hd leaders, bl_bb = []\<rparr>;
     let bbs = set_last_end (bl_last_real b) (bl_blocks b);
     Some (f\<lparr>fi_basic_blocks := bbs @ [basic_block_new (length bbs) None None False True],
       fi_bb := bl_bb b\<rparr>)
   }"

subsection \<open>Edges\<close>

definition add_edge :: "nat \<Rightarrow> nat \<Rightarrow> basic_block list \<Rightarrow> basic_block list" where
  "add_edge a b bbs =
     (let bbs = bbs[a := (bbs ! a)\<lparr>bb_succs := insert b (bb_succs (bbs ! a))\<rparr>]
      in bbs[b := (bbs ! b)\<lparr>bb_preds := insert a (bb_preds (bbs ! b))\<rparr>])"

text \<open>The block of the instruction at an address.\<close>

definition block_at :: "function_info \<Rightarrow> nat \<Rightarrow> nat option" where
  "block_at f addr = do { (k, pI) \<leftarrow> insn_at f addr; vec_at (fi_bb f) k }"

text \<open>
  A branch target: \<open>labels[name]\<close>, where \<open>operator[]\<close> gives 0 for a name without a label.
\<close>

definition target_block :: "function_info \<Rightarrow> operand_info \<Rightarrow> nat option" where
  "target_block f target =
     block_at f (case fi_labels f (po_name target) of None \<Rightarrow> 0 | Some addr \<Rightarrow> addr)"

definition is_return :: "ptx_instruction \<Rightarrow> bool" where
  "is_return pI \<longleftrightarrow> px_opcode pI \<in> {RETP_OP, RET_OP, EXIT_OP}"

text \<open>A predicated return also goes on, if the next cell of the memory holds an instruction.\<close>

definition after_return :: "function_info \<Rightarrow> nat \<Rightarrow> nat option option" where
  "after_return f next_addr =
     (if next_addr < length (fi_instr_mem f)
      then (case fi_instr_mem f ! next_addr of
              Uninit \<Rightarrow> None
            | Null \<Rightarrow> Some None
            | Insn k \<Rightarrow> map_option Some (block_at f next_addr))
      else Some None)"

text \<open>The blocks to which a block that ends with \<open>pI\<close> is linked, in the order of the links.\<close>

definition block_targets :: "function_info \<Rightarrow> nat \<Rightarrow> ptx_instruction \<Rightarrow> nat list option" where
  "block_targets f exit_id pI =
     (let next_addr = px_m_instr_mem_index pI + px_inst_size pI in
      if is_return pI then
        (if px_has_pred pI
         then do {
           n \<leftarrow> after_return f next_addr;
           Some (exit_id # (case n of None \<Rightarrow> [] | Some b \<Rightarrow> [b]))
         } else Some [exit_id])
      else do {
        ts \<leftarrow> (if px_opcode pI = BRA_OP
               then do { target \<leftarrow> px_dst pI; b \<leftarrow> target_block f target; Some [b] } else Some []);
        (if \<not> (px_opcode pI = BRA_OP \<and> \<not> px_has_pred pI)
         then do { b \<leftarrow> block_at f next_addr; Some (ts @ [b]) } else Some ts)
      })"

definition block_end_insn :: "function_info \<Rightarrow> basic_block \<Rightarrow> ptx_instruction option" where
  "block_end_insn f bb = do { k \<leftarrow> bb_end bb; vec_at (fi_instructions f) k }"

definition connect_block :: "basic_block list \<Rightarrow> function_info \<Rightarrow> nat \<Rightarrow> function_info option" where
  "connect_block blocks f i = do {
     bb \<leftarrow> vec_at (fi_basic_blocks f) i;
     (if bb_is_exit bb then Some f
      else do {
        pI \<leftarrow> block_end_insn f bb;
        ts \<leftarrow> block_targets f (bb_id (last blocks)) pI;
        Some (f\<lparr>fi_basic_blocks := fold (add_edge (bb_id bb)) ts (fi_basic_blocks f)\<rparr>)
      })
   }"

definition connect_basic_blocks :: "function_info \<Rightarrow> function_info option" where
  "connect_basic_blocks f =
     run_calls (connect_block (fi_basic_blocks f)) f [0..<length (fi_basic_blocks f)]"

subsection \<open>Well-formed flow graphs\<close>

text \<open>
  What the analyses rely on: ids are places, edges are recorded at both ends and stay within
  the function, and the last block is the exit.
\<close>

definition graph_ok :: "basic_block list \<Rightarrow> bool" where
  "graph_ok bbs \<longleftrightarrow> 2 \<le> length bbs \<and>
     (\<forall>i < length bbs. bb_id (bbs ! i) = i \<and> bb_succs (bbs ! i) \<subseteq> {..<length bbs} \<and>
        bb_preds (bbs ! i) = {j. j < length bbs \<and> i \<in> bb_succs (bbs ! j)} \<and>
        (bb_is_exit (bbs ! i) \<longleftrightarrow> i = length bbs - 1)) \<and>
     bb_succs (bbs ! (length bbs - 1)) = {}"

lemma graph_okD:
  assumes "graph_ok bbs"
  shows "2 \<le> length bbs" "i < length bbs \<Longrightarrow> bb_id (bbs ! i) = i"
    "i < length bbs \<Longrightarrow> bb_succs (bbs ! i) \<subseteq> {..<length bbs}"
    "i < length bbs \<Longrightarrow> bb_preds (bbs ! i) = {j. j < length bbs \<and> i \<in> bb_succs (bbs ! j)}"
    "i < length bbs \<Longrightarrow> bb_is_exit (bbs ! i) \<longleftrightarrow> i = length bbs - 1"
    "bb_succs (bbs ! (length bbs - 1)) = {}"
  using assms by (auto simp: graph_ok_def)

lemma graph_ok_add_edge:
  assumes "graph_ok bbs" "a < length bbs - 1" "b < length bbs"
  shows "graph_ok (add_edge a b bbs)" "length (add_edge a b bbs) = length bbs"
proof -
  have a: "a < length bbs" using assms(2) by simp
  have *: "add_edge a b bbs ! i = (bbs ! i)\<lparr>bb_succs := (if i = a then insert b (bb_succs (bbs ! i)) else bb_succs (bbs ! i)),
      bb_preds := (if i = b then insert a (bb_preds (bbs ! i)) else bb_preds (bbs ! i))\<rparr>" if "i < length bbs" for i
    using that a assms(3) by (simp add: add_edge_def Let_def nth_list_update)
  show len: "length (add_edge a b bbs) = length bbs" by (simp add: add_edge_def Let_def)
  have preds: "bb_preds (add_edge a b bbs ! i) =
      {j. j < length bbs \<and> i \<in> bb_succs (add_edge a b bbs ! j)}" if "i < length bbs" for i
  proof -
    have "bb_preds (bbs ! i) = {j. j < length bbs \<and> i \<in> bb_succs (bbs ! j)}"
      using assms(1) that by (simp add: graph_ok_def)
    then show ?thesis using * that a assms(3) by (auto split: if_splits)
  qed
  show "graph_ok (add_edge a b bbs)"
    unfolding graph_ok_def len
  proof (intro conjI allI impI)
    fix i assume i: "i < length bbs"
    show "bb_id (add_edge a b bbs ! i) = i" "bb_is_exit (add_edge a b bbs ! i) \<longleftrightarrow> i = length bbs - 1"
      using *[OF i] graph_okD(2,5)[OF assms(1) i] by simp_all
    show "bb_succs (add_edge a b bbs ! i) \<subseteq> {..<length bbs}"
      using *[OF i] graph_okD(3)[OF assms(1) i] assms(3) by (cases "i = a") simp_all
    show "bb_preds (add_edge a b bbs ! i) = {j. j < length bbs \<and> i \<in> bb_succs (add_edge a b bbs ! j)}"
      by (rule preds[OF i])
  next
    show "2 \<le> length bbs" by (rule graph_okD(1)[OF assms(1)])
    show "bb_succs (add_edge a b bbs ! (length bbs - 1)) = {}"
      using *[of "length bbs - 1"] graph_okD(6)[OF assms(1)] assms(2) a by simp
  qed
qed

lemma graph_ok_add_edges:
  assumes "graph_ok bbs" "a < length bbs - 1" "\<forall>t \<in> set ts. t < length bbs"
  shows "graph_ok (fold (add_edge a) ts bbs) \<and> length (fold (add_edge a) ts bbs) = length bbs"
  using assms
proof (induction ts arbitrary: bbs)
  case (Cons t ts)
  then show ?case using graph_ok_add_edge[OF Cons.prems(1,2), of t] by simp
qed simp

text \<open>
  A function whose blocks are built: every instruction belongs to a block, and every block but
  the exit begins and ends with an instruction of the function.
\<close>

definition ends_ok :: "ptx_instruction list \<Rightarrow> basic_block list \<Rightarrow> bool" where
  "ends_ok xs bbs \<longleftrightarrow> (\<forall>bb \<in> set bbs. (\<exists>k < length xs. bb_begin bb = Some k) \<and> (\<exists>k < length xs. bb_end bb = Some k))"

definition blocks_ok :: "function_info \<Rightarrow> bool" where
  "blocks_ok f \<longleftrightarrow> graph_ok (fi_basic_blocks f) \<and> length (fi_bb f) = length (fi_instructions f) \<and>
     (\<forall>b \<in> set (fi_bb f). b < length (fi_basic_blocks f) - 1) \<and>
     ends_ok (fi_instructions f) (butlast (fi_basic_blocks f)) \<and> bb_begin (last (fi_basic_blocks f)) = None"

definition builder_ok :: "ptx_instruction list \<Rightarrow> block_builder \<Rightarrow> bool" where
  "builder_ok xs b \<longleftrightarrow> bl_blocks b \<noteq> [] \<and> (\<forall>x \<in> set (bl_bb b). x < length (bl_blocks b)) \<and>
     (\<forall>i < length (bl_blocks b). let bb = bl_blocks b ! i in bb_id bb = i \<and> bb_succs bb = {} \<and>
        bb_preds bb = {} \<and> \<not> bb_is_exit bb) \<and>
     bl_last_real b < length xs \<and> ends_ok xs (butlast (bl_blocks b)) \<and>
     (\<exists>k < length xs. bb_begin (last (bl_blocks b)) = Some k)"

lemma set_last_end_nth:
  "bbs \<noteq> [] \<Longrightarrow> length (set_last_end k bbs) = length bbs \<and>
    (\<forall>i < length bbs. set_last_end k bbs ! i = (if i = length bbs - 1 then (bbs ! i)\<lparr>bb_end := Some k\<rparr> else bbs ! i))"
  by (auto simp: set_last_end_def nth_append nth_butlast last_conv_nth)

lemma set_last_end_ends:
  "bbs \<noteq> [] \<Longrightarrow> ends_ok xs (butlast bbs) \<Longrightarrow> k < length xs \<Longrightarrow> \<exists>j < length xs. bb_begin (last bbs) = Some j \<Longrightarrow>
    ends_ok xs (set_last_end k bbs)"
  by (simp add: set_last_end_def ends_ok_def)

lemma builder_ok_set_last_end:
  assumes "builder_ok xs b" "k < length xs"
  shows "builder_ok xs (b\<lparr>bl_blocks := set_last_end k (bl_blocks b)\<rparr>)" "ends_ok xs (set_last_end k (bl_blocks b))"
proof -
  show "ends_ok xs (set_last_end k (bl_blocks b))"
    using assms by (auto simp: builder_ok_def intro: set_last_end_ends)
  show "builder_ok xs (b\<lparr>bl_blocks := set_last_end k (bl_blocks b)\<rparr>)"
    using assms set_last_end_nth[of "bl_blocks b" k] by (auto simp: builder_ok_def Let_def set_last_end_def)
qed

lemma builder_ok_start:
  assumes "builder_ok xs b"
  shows "builder_ok xs (start_block xs i b)"
proof -
  define bbs where "bbs = set_last_end (bl_last_real b) (bl_blocks b)"
  have last: "bl_last_real b < length xs" using assms by (simp add: builder_ok_def)
  have c: "builder_ok xs (b\<lparr>bl_blocks := bbs\<rparr>)" "ends_ok xs bbs"
    unfolding bbs_def by (rule builder_ok_set_last_end[OF assms last])+
  then have "builder_ok xs (b\<lparr>bl_blocks := bbs, bl_leaders := ls\<rparr>)" for ls by (simp add: builder_ok_def)
  moreover have "builder_ok xs (b\<lparr>bl_blocks := bbs @ [basic_block_new (length bbs) (Some r) None False False],
      bl_last_real := r, bl_leaders := ls\<rparr>)" if "r < length xs" for r ls
    using c that by (auto simp: builder_ok_def nth_append Let_def basic_block_new_def less_Suc_eq)
  ultimately show ?thesis by (simp add: start_block_def bbs_def Let_def)
qed

lemma builder_ok_step:
  assumes "builder_ok xs b" "i < length xs"
  shows "builder_ok xs (block_step xs i b)"
proof -
  have "builder_ok xs (c\<lparr>bl_bb := bl_bb c @ [length (bl_blocks c) - 1]\<rparr>)"
    "builder_ok xs (c\<lparr>bl_bb := bl_bb c @ [length (bl_blocks c) - 1], bl_last_real := i\<rparr>)" if "builder_ok xs c" for c
    using that assms(2) by (auto simp: builder_ok_def)
  then show ?thesis using builder_ok_start[OF assms(1)] assms(1)
    by (auto simp: block_step_def Let_def split: list.splits)
qed

lemma builder_ok_fold:
  "builder_ok xs b \<Longrightarrow> \<forall>i \<in> set js. i < length xs \<Longrightarrow> builder_ok xs (fold (block_step xs) js b)"
  by (induction js arbitrary: b) (simp_all add: builder_ok_step)

lemma bl_bb_fold: "length (bl_bb (fold (block_step xs) js b)) = length (bl_bb b) + length js"
  by (induction js arbitrary: b) (auto simp: block_step_def start_block_def Let_def split: list.splits)

lemma create_basic_blocks_ok:
  assumes "create_basic_blocks f = Some f1"
  shows "blocks_ok f1"
proof -
  let ?xs = "fi_instructions f"
  define b0 where "b0 = \<lparr>bl_blocks = [basic_block_new 0 (Some (find_next_real_instruction ?xs 0)) None True False],
    bl_leaders = find_leaders ?xs 1, bl_last_real = 0, bl_bb = []\<rparr>"
  define c where "c = fold (block_step ?xs) [0..<length ?xs] b0"
  define b where "b = c\<lparr>bl_blocks := set_last_end (bl_last_real c) (bl_blocks c)\<rparr>"
  have f1: "find_next_real_instruction ?xs 0 < length ?xs"
    "f1 = f\<lparr>fi_basic_blocks := bl_blocks b @ [basic_block_new (length (bl_blocks b)) None None False True],
       fi_bb := bl_bb b\<rparr>"
    using assms by (auto simp: create_basic_blocks_def Let_def b0_def b_def c_def split: if_splits)
  have "?xs \<noteq> []" using f1(1) by auto
  then have "builder_ok ?xs b0" using f1(1) by (simp add: b0_def builder_ok_def basic_block_new_def ends_ok_def Let_def)
  then have c: "builder_ok ?xs c" unfolding c_def by (rule builder_ok_fold) simp
  have last: "bl_last_real c < length ?xs" using c by (simp add: builder_ok_def)
  have b: "builder_ok ?xs b" unfolding b_def by (rule builder_ok_set_last_end(1)[OF c last])
  have ends: "ends_ok ?xs (bl_blocks b)" using builder_ok_set_last_end(2)[OF c last] by (simp add: b_def)
  have len: "length (bl_bb b) = length ?xs" by (simp add: b_def c_def bl_bb_fold b0_def)
  let ?bbs = "bl_blocks b @ [basic_block_new (length (bl_blocks b)) None None False True]"
  have "2 \<le> length ?bbs" using b by (cases "bl_blocks b") (auto simp: builder_ok_def)
  moreover have "?bbs ! i = bl_blocks b ! i" if "i < length (bl_blocks b)" for i using that by (simp add: nth_append)
  ultimately have "graph_ok ?bbs"
    using b by (auto simp: graph_ok_def builder_ok_def Let_def less_Suc_eq basic_block_new_def)
  then show ?thesis using b ends len f1(2) by (auto simp: blocks_ok_def builder_ok_def basic_block_new_def)
qed

lemma block_at_less: "blocks_ok f \<Longrightarrow> block_at f a = Some b \<Longrightarrow> b < length (fi_basic_blocks f)"
proof -
  assume f: "blocks_ok f" and "block_at f a = Some b"
  then have "b \<in> set (fi_bb f)" by (auto simp: block_at_def split: bind_splits)
  then show ?thesis using f by (fastforce simp: blocks_ok_def)
qed

lemma block_targets_less:
  assumes "blocks_ok f" "block_targets f e pI = Some ts" "e < length (fi_basic_blocks f)"
  shows "\<forall>t \<in> set ts. t < length (fi_basic_blocks f)"
  using assms block_at_less[OF assms(1)]
  by (auto simp: block_targets_def after_return_def target_block_def Let_def
      split: if_splits bind_splits mem_cell.splits option.splits)

lemma map_upd_same: "g y = g (xs ! i) \<Longrightarrow> map g (xs[i := y]) = map g xs"
  by (cases "i < length xs") (simp_all add: map_update list_update_same_conv list_update_beyond)

lemma add_edge_ends:
  "map bb_begin (fold (add_edge a) ts bbs) = map bb_begin bbs \<and> map bb_end (fold (add_edge a) ts bbs) = map bb_end bbs"
proof (induction ts arbitrary: bbs)
  case (Cons t ts)
  have "map bb_begin (add_edge a t bbs) = map bb_begin bbs \<and> map bb_end (add_edge a t bbs) = map bb_end bbs"
    by (simp add: add_edge_def Let_def map_upd_same)
  then show ?case using Cons.IH[of "add_edge a t bbs"] by simp
qed simp

lemma ends_ok_map: "ends_ok xs bbs \<longleftrightarrow>
    (\<forall>m \<in> set (map bb_begin bbs). \<exists>k < length xs. m = Some k) \<and> (\<forall>m \<in> set (map bb_end bbs). \<exists>k < length xs. m = Some k)"
  by (auto simp: ends_ok_def)

text \<open>A change of the edges alone.\<close>

lemma blocks_ok_edges:
  assumes "blocks_ok f" "graph_ok bbs" "length bbs = length (fi_basic_blocks f)"
    "map bb_begin bbs = map bb_begin (fi_basic_blocks f)" "map bb_end bbs = map bb_end (fi_basic_blocks f)"
  shows "blocks_ok (f\<lparr>fi_basic_blocks := bbs\<rparr>)"
proof -
  have ne: "bbs \<noteq> []" using graph_okD(1)[OF assms(2)] by auto
  then have ne': "fi_basic_blocks f \<noteq> []" using assms(3) by auto
  have "map bb_begin (butlast bbs) = map bb_begin (butlast (fi_basic_blocks f))"
    "map bb_end (butlast bbs) = map bb_end (butlast (fi_basic_blocks f))"
    using assms(4,5) by (simp_all add: map_butlast)
  moreover have "bb_begin (last bbs) = bb_begin (last (fi_basic_blocks f))"
    using arg_cong[OF assms(4), of last] ne ne' by (simp add: last_map)
  ultimately show ?thesis using assms(1,2,3) unfolding blocks_ok_def ends_ok_map by simp
qed

lemma connect_block_ok:
  assumes "blocks_ok f" "connect_block blocks f i = Some f1" "bb_id (last blocks) = length (fi_basic_blocks f) - 1"
  shows "blocks_ok f1 \<and> length (fi_basic_blocks f1) = length (fi_basic_blocks f)"
proof (cases "bb_is_exit (fi_basic_blocks f ! i)")
  case True
  then show ?thesis using assms by (auto simp: connect_block_def split: bind_splits)
next
  case False
  then obtain pI ts where ts: "i < length (fi_basic_blocks f)"
    "block_targets f (length (fi_basic_blocks f) - 1) pI = Some ts"
    "f1 = f\<lparr>fi_basic_blocks := fold (add_edge (bb_id (fi_basic_blocks f ! i))) ts (fi_basic_blocks f)\<rparr>"
    using assms(2,3) by (auto simp: connect_block_def split: bind_splits)
  have g: "graph_ok (fi_basic_blocks f)" using assms(1) by (simp add: blocks_ok_def)
  then have i: "i < length (fi_basic_blocks f) - 1" "bb_id (fi_basic_blocks f ! i) = i"
    "length (fi_basic_blocks f) - 1 < length (fi_basic_blocks f)"
    using False ts(1) by (auto simp: graph_ok_def)
  have "graph_ok (fi_basic_blocks f1) \<and> length (fi_basic_blocks f1) = length (fi_basic_blocks f)"
    using graph_ok_add_edges[OF g i(1) block_targets_less[OF assms(1) ts(2) i(3)]] ts(3) i(2) by simp
  then show ?thesis using blocks_ok_edges[OF assms(1)] add_edge_ends ts(3) by simp
qed

lemma connect_basic_blocks_ok:
  assumes "blocks_ok f" "connect_basic_blocks f = Some f1"
  shows "blocks_ok f1"
proof -
  let ?n = "length (fi_basic_blocks f)"
  have e: "bb_id (last (fi_basic_blocks f)) = ?n - 1"
  proof -
    have g: "graph_ok (fi_basic_blocks f)" using assms(1) by (simp add: blocks_ok_def)
    then have "fi_basic_blocks f \<noteq> []" using graph_okD(1) by force
    then show ?thesis using graph_okD(1,2)[OF g] by (simp add: last_conv_nth)
  qed
  have "blocks_ok f1 \<and> length (fi_basic_blocks f1) = ?n"
    by (rule run_calls_invariant[OF assms(2)[unfolded connect_basic_blocks_def],
          where P = "\<lambda>g. blocks_ok g \<and> length (fi_basic_blocks g) = ?n"])
      (use assms(1) in simp, use connect_block_ok e in metis)
  then show ?thesis by simp
qed

end
