(* ===== verification/Dominators.thy ===== *)
theory Dominators
  imports Flow_Graph
begin

section \<open>Dominators and reconvergence points\<close>

text \<open>
  The data flow analyses of \<open>function_info\<close> (\<open>ptx_ir.cc\<close>): \<open>find_dominators\<close>,
  \<open>find_postdominators\<close>, the immediate (post)dominators and \<open>get_reconvergence_pairs\<close>, which
  tells the SIMT stack where the threads of a warp that a branch split meet again. The first part
  is about a graph given by the predecessors of each node, the second one about the blocks.
  The analyses of dominators and postdominators are the same loops with the roles of entry and
  exit and of predecessors and successors exchanged; the model has them once.
\<close>

subsection \<open>The loops\<close>

definition intersect :: "nat set \<Rightarrow> nat set \<Rightarrow> nat set" where
  "intersect A B = A - {a \<in> A. a \<notin> B}"

text \<open>The set \<open>T\<close> of the loop body for the node \<open>h\<close>; \<open>nbrs\<close> are its neighbours towards the root.\<close>

definition meet_neighbours :: "nat set list \<Rightarrow> nat \<Rightarrow> nat set \<Rightarrow> nat set option" where
  "meet_neighbours doms h nbrs = do {
     T \<leftarrow> run_calls (\<lambda>T s. do { D \<leftarrow> vec_at doms s; Some (intersect T D) })
       {0..<length doms} (sorted_list_of_set nbrs);
     Some (insert h T)
   }"

definition dom_step :: "(nat \<Rightarrow> nat set) \<Rightarrow> bool \<times> nat set list \<Rightarrow> nat \<Rightarrow> (bool \<times> nat set list) option" where
  "dom_step nbrs = (\<lambda>(change, doms) h. do {
     T \<leftarrow> meet_neighbours doms h (nbrs h);
     D \<leftarrow> vec_at doms h;
     Some (if T \<noteq> D then (True, doms[h := T]) else (change, doms))
   })"

definition dom_sweep :: "(nat \<Rightarrow> nat set) \<Rightarrow> nat list \<Rightarrow> nat set list \<Rightarrow> (bool \<times> nat set list) option" where
  "dom_sweep nbrs hs doms = run_calls (dom_step nbrs) (False, doms) hs"

text \<open>\<open>while (change)\<close>: not returning is \<open>None\<close>, as is a failed access.\<close>

partial_function (option) dom_loop ::
  "(nat \<Rightarrow> nat set) \<Rightarrow> nat list \<Rightarrow> nat set list \<Rightarrow> nat set list option" where
  [code]: "dom_loop nbrs hs doms = do {
     (change, doms) \<leftarrow> dom_sweep nbrs hs doms;
     (if change then dom_loop nbrs hs doms else Some doms)
   }"

text \<open>Every set is full at first, except the one of the root.\<close>

definition dom_start :: "nat \<Rightarrow> nat \<Rightarrow> nat set list" where
  "dom_start n root = map (\<lambda>h. if h = root then {root} else {0..<n}) [0..<n]"

text \<open>
  The elimination that leaves the immediate dominator in \<open>Tmp\<close>: the outer loop visits the
  elements that are still there in ascending order, the inner loop erases the others that
  dominate the visited one.
\<close>

definition elim_step :: "nat set list \<Rightarrow> nat set \<Rightarrow> nat \<Rightarrow> nat set option" where
  "elim_step doms tmp s =
     (if s \<in> tmp then do { D \<leftarrow> vec_at doms s; Some {t \<in> tmp. t = s \<or> t \<notin> D} } else Some tmp)"

definition eliminate :: "nat set list \<Rightarrow> nat set \<Rightarrow> nat set option" where
  "eliminate doms tmp = run_calls (elim_step doms) tmp (sorted_list_of_set tmp)"

subsection \<open>The analyses of a function\<close>

definition find_dominators :: "function_info \<Rightarrow> function_info option" where
  "find_dominators f = do {
     let bbs = fi_basic_blocks f;
     let n = length bbs;
     assert_that (n \<ge> 2);
     assert_that (\<forall>h < n. h \<noteq> 0 \<longrightarrow> bb_id (bbs ! h) = h);
     doms \<leftarrow> dom_loop (\<lambda>h. bb_preds (bbs ! h)) [1..<n] (dom_start n 0);
     let doms = map (\<lambda>h. if h \<noteq> 0 \<and> bb_preds (bbs ! h) = {} then {} else doms ! h) [0..<n];
     Some (f\<lparr>fi_basic_blocks := map (\<lambda>h. (bbs ! h)\<lparr>bb_dominators := doms ! h\<rparr>) [0..<n]\<rparr>)
   }"

definition find_postdominators :: "function_info \<Rightarrow> function_info option" where
  "find_postdominators f = do {
     let bbs = fi_basic_blocks f;
     let n = length bbs;
     assert_that (n \<ge> 2);
     assert_that (\<forall>h < n - 1. bb_id (bbs ! h) = h);
     doms \<leftarrow> dom_loop (\<lambda>h. bb_succs (bbs ! h)) (rev [0..<n - 1]) (dom_start n (n - 1));
     Some (f\<lparr>fi_basic_blocks := map (\<lambda>h. (bbs ! h)\<lparr>bb_postdominators := doms ! h\<rparr>) [0..<n]\<rparr>)
   }"

text \<open>The blocks that get an immediate dominator, and its value.\<close>

definition the_least :: "nat set \<Rightarrow> nat option" where
  "the_least A = (if A = {} then None else Some (Min A))"

definition eliminate_all :: "nat set list \<Rightarrow> nat list \<Rightarrow> nat set list option" where
  "eliminate_all doms hs =
     run_calls (\<lambda>tmps h. do { T \<leftarrow> vec_at tmps h; T \<leftarrow> eliminate doms T; Some (tmps[h := T]) })
       (map (\<lambda>h. doms ! h - {h}) [0..<length doms]) hs"

definition find_idominators :: "function_info \<Rightarrow> function_info option" where
  "find_idominators f = do {
     let bbs = fi_basic_blocks f;
     let n = length bbs;
     assert_that (n \<ge> 2);
     assert_that (\<forall>h < n. bb_id (bbs ! h) = h);
     tmps \<leftarrow> eliminate_all (map bb_dominators bbs) [0..<n];
     let num_idoms = length (filter (\<lambda>h. tmps ! h \<noteq> {}) [0..<n]);
     let num_nopred = length (filter (\<lambda>h. tmps ! h = {} \<and> bb_preds (bbs ! h) = {}) [0..<n]);
     assert_that (num_idoms = n - num_nopred);
     Some (f\<lparr>fi_basic_blocks := map (\<lambda>h. (bbs ! h)\<lparr>bb_Tmp := tmps ! h, bb_idom :=
       (if tmps ! h \<noteq> {} then the_least (tmps ! h) else bb_idom (bbs ! h))\<rparr>) [0..<n]\<rparr>)
   }"

definition find_ipostdominators :: "function_info \<Rightarrow> function_info option" where
  "find_ipostdominators f = do {
     let bbs = fi_basic_blocks f;
     let n = length bbs;
     assert_that (n \<ge> 2);
     assert_that (\<forall>h < n. bb_id (bbs ! h) = h);
     tmps \<leftarrow> eliminate_all (map bb_postdominators bbs) (rev [0..<n - 1]);
     assert_that (\<forall>h < n. card (tmps ! h) \<le> 1);
     assert_that (length (filter (\<lambda>h. tmps ! h \<noteq> {}) [0..<n]) = n - 1);
     Some (f\<lparr>fi_basic_blocks := map (\<lambda>h. (bbs ! h)\<lparr>bb_Tmp := tmps ! h, bb_ipdom :=
       (if tmps ! h \<noteq> {} then the_least (tmps ! h) else bb_ipdom (bbs ! h))\<rparr>) [0..<n]\<rparr>)
   }"

subsection \<open>Paths from the root\<close>

text \<open>
  A path starts at the root and follows the edges; \<open>nbrs h\<close> are the nodes with an edge to \<open>h\<close>.
  A node dominates another when it lies on every path to it.
\<close>

inductive root_path :: "nat \<Rightarrow> nat \<Rightarrow> (nat \<Rightarrow> nat set) \<Rightarrow> nat list \<Rightarrow> nat \<Rightarrow> bool" for n root nbrs where
  rp_root: "root_path n root nbrs [root] root"
| rp_step: "root_path n root nbrs xs s \<Longrightarrow> s \<in> nbrs h \<Longrightarrow> h < n \<Longrightarrow> root_path n root nbrs (xs @ [h]) h"

inductive_cases root_pathE: "root_path n root nbrs xs h"

definition on_all_paths :: "nat \<Rightarrow> nat \<Rightarrow> (nat \<Rightarrow> nat set) \<Rightarrow> nat \<Rightarrow> nat \<Rightarrow> bool" where
  "on_all_paths n root nbrs d h \<longleftrightarrow> (\<forall>xs. root_path n root nbrs xs h \<longrightarrow> d \<in> set xs)"

definition rooted :: "nat \<Rightarrow> nat \<Rightarrow> (nat \<Rightarrow> nat set) \<Rightarrow> nat list \<Rightarrow> bool" where
  "rooted n root nbrs hs \<longleftrightarrow> root < n \<and> (\<forall>h < n. nbrs h \<subseteq> {..<n}) \<and> set hs = {..<n} - {root}"

lemma root_path_last: "root_path n root nbrs xs h \<Longrightarrow> xs \<noteq> [] \<and> last xs = h"
  by (induction rule: root_path.induct) auto

lemma root_path_root_in: "root_path n root nbrs xs h \<Longrightarrow> root \<in> set xs"
  by (induction rule: root_path.induct) auto

lemma on_all_paths_root: "on_all_paths n root nbrs d root \<Longrightarrow> d = root"
  using rp_root[of n root nbrs] by (auto simp: on_all_paths_def)

lemma on_all_paths_refl: "on_all_paths n root nbrs h h"
  using root_path_last[of n root nbrs _ h] last_in_set by (fastforce simp: on_all_paths_def)

lemma on_all_paths_nbr:
  assumes "on_all_paths n root nbrs d h" "d \<noteq> h" "s \<in> nbrs h" "h < n"
  shows "on_all_paths n root nbrs d s"
  unfolding on_all_paths_def
proof (intro allI impI)
  fix xs assume "root_path n root nbrs xs s"
  then have "root_path n root nbrs (xs @ [h]) h" using assms(3,4) by (rule rp_step)
  then have "d \<in> set (xs @ [h])" using assms(1) by (auto simp: on_all_paths_def)
  then show "d \<in> set xs" using assms(2) by simp
qed

subsection \<open>The data flow loop\<close>

definition meet :: "nat \<Rightarrow> (nat \<Rightarrow> nat set) \<Rightarrow> nat set list \<Rightarrow> nat \<Rightarrow> nat set" where
  "meet n nbrs doms h = insert h {d. d < n \<and> (\<forall>s \<in> nbrs h. d \<in> doms ! s)}"

lemma intersect_Int: "intersect A B = A \<inter> B"
  by (auto simp: intersect_def)

lemma run_intersect:
  "set ss \<subseteq> {..<length doms} \<Longrightarrow>
    run_calls (\<lambda>T s. do { D \<leftarrow> vec_at doms s; Some (intersect T D) }) T ss =
      Some {d \<in> T. \<forall>s \<in> set ss. d \<in> doms ! s}"
  by (induction ss arbitrary: T) (auto simp: intersect_Int intro!: arg_cong[where f = Some])

lemma meet_neighbours_eq:
  assumes "nbrs h \<subseteq> {..<length doms}"
  shows "meet_neighbours doms h (nbrs h) = Some (meet (length doms) nbrs doms h)"
proof -
  have "set (sorted_list_of_set (nbrs h)) = nbrs h"
    using assms finite_subset by (simp add: finite_subset[of _ "{..<length doms}"])
  then show ?thesis using assms
    by (auto simp: meet_neighbours_def run_intersect meet_def)
qed

definition dom_size :: "nat set list \<Rightarrow> nat" where
  "dom_size doms = sum_list (map card doms)"

lemma dom_size_update:
  assumes "h < length doms" "T \<subset> doms ! h" "finite (doms ! h)"
  shows "dom_size (doms[h := T]) < dom_size doms"
proof -
  have lt: "card T < card (doms ! h)" using assms(2,3) by (simp add: psubset_card_mono)
  have le: "card (doms ! h) \<le> sum_list (map card doms)"
    using assms(1) by (intro member_le_sum_list) auto
  have "dom_size (doms[h := T]) = sum_list (map card doms) + card T - card (doms ! h)"
    using assms(1) by (simp add: dom_size_def map_update sum_list_update)
  then show ?thesis using lt le by (simp add: dom_size_def)
qed

text \<open>Between two steps: the sets only shrink, and hold all the nodes on every path.\<close>

definition dom_inv :: "nat \<Rightarrow> nat \<Rightarrow> (nat \<Rightarrow> nat set) \<Rightarrow> nat list \<Rightarrow> nat set list \<Rightarrow> bool" where
  "dom_inv n root nbrs hs doms \<longleftrightarrow> length doms = n \<and> doms ! root = {root} \<and>
     (\<forall>h < n. doms ! h \<subseteq> {..<n}) \<and> (\<forall>h \<in> set hs. meet n nbrs doms h \<subseteq> doms ! h) \<and>
     (\<forall>h < n. \<forall>d < n. on_all_paths n root nbrs d h \<longrightarrow> d \<in> doms ! h)"

lemma dom_inv_start:
  assumes "rooted n root nbrs hs"
  shows "dom_inv n root nbrs hs (dom_start n root)"
proof -
  have "meet n nbrs (dom_start n root) h \<subseteq> dom_start n root ! h" if "h \<in> set hs" for h
    using assms that by (auto simp: rooted_def meet_def dom_start_def)
  moreover have "d \<in> dom_start n root ! h" if "h < n" "d < n" "on_all_paths n root nbrs d h" for d h
    using that on_all_paths_root by (auto simp: dom_start_def)
  ultimately show ?thesis using assms by (auto simp: dom_inv_def rooted_def dom_start_def)
qed

lemma dom_step_inv:
  assumes "rooted n root nbrs hs" "dom_inv n root nbrs hs doms" "h \<in> set hs"
  obtains doms' where "dom_step nbrs (c, doms) h = Some (c \<or> meet n nbrs doms h \<noteq> doms ! h, doms')"
    "dom_inv n root nbrs hs doms'" "doms' = doms[h := meet n nbrs doms h]"
    "meet n nbrs doms h \<noteq> doms ! h \<Longrightarrow> dom_size doms' < dom_size doms"
proof -
  let ?T = "meet n nbrs doms h" and ?d = "doms[h := meet n nbrs doms h]"
  have h: "h < n" "h \<noteq> root" "nbrs h \<subseteq> {..<n}" and len: "length doms = n"
    using assms by (auto simp: rooted_def dom_inv_def)
  have sub: "?T \<subseteq> doms ! h" using assms(2,3) by (auto simp: dom_inv_def)
  have fin: "finite (doms ! h)"
    using assms(2) h(1) finite_subset[of "doms ! h" "{..<n}"] by (auto simp: dom_inv_def)
  have below: "?d ! k \<subseteq> doms ! k" if "k < n" for k
    using that sub len by (cases "k = h") auto
  have mono: "meet n nbrs ?d k \<subseteq> meet n nbrs doms k" if "k < n" for k
    using that below assms(1) by (fastforce simp: meet_def rooted_def)
  have post: "meet n nbrs ?d k \<subseteq> ?d ! k" if "k \<in> set hs" for k
  proof (cases "k = h")
    case True
    then show ?thesis using mono[of h] h(1) len by auto
  next
    case False
    then show ?thesis using mono[of k] assms(1,2) that by (fastforce simp: dom_inv_def rooted_def)
  qed
  have paths: "d \<in> ?d ! k" if "k < n" "d < n" "on_all_paths n root nbrs d k" for d k
  proof (cases "k = h")
    case True
    have "d = h \<or> (\<forall>s \<in> nbrs h. d \<in> doms ! s)"
    proof (cases "d = h")
      case False
      have "d \<in> doms ! s" if "s \<in> nbrs h" for s
      proof -
        have "on_all_paths n root nbrs d s"
          using \<open>on_all_paths n root nbrs d k\<close> True False that h(1) by (auto intro: on_all_paths_nbr)
        then show ?thesis using that h(3) assms(2) \<open>d < n\<close> by (auto simp: dom_inv_def)
      qed
      then show ?thesis by simp
    qed simp
    then show ?thesis using True that(2) h(1) len by (auto simp: meet_def)
  next
    case False
    then show ?thesis using that assms(2) by (auto simp: dom_inv_def)
  qed
  have inv: "dom_inv n root nbrs hs ?d"
    unfolding dom_inv_def
  proof (intro conjI allI impI ballI)
    show "length ?d = n" "?d ! root = {root}" using len h(2) assms(2) by (simp_all add: dom_inv_def)
    show "?d ! k \<subseteq> {..<n}" if "k < n" for k
      using below[OF that] assms(2) that by (auto simp: dom_inv_def)
  qed (use post paths in simp_all)
  have eq: "dom_step nbrs (c, doms) h = Some (c \<or> ?T \<noteq> doms ! h, ?d)"
    using meet_neighbours_eq[of nbrs h doms] h len list_update_id[of doms h] by (auto simp: dom_step_def)
  show thesis
    by (rule that[OF eq inv refl]) (use sub fin h(1) len dom_size_update in blast)
qed

lemma changed_stays: "run_calls (dom_step nbrs) (True, doms) ks = Some (c', doms') \<Longrightarrow> c'"
  by (induction ks arbitrary: doms) (auto simp: dom_step_def split: bind_splits if_splits)

lemma dom_sweep_inv:
  assumes "rooted n root nbrs hs" "dom_inv n root nbrs hs doms" "set ks \<subseteq> set hs"
  shows "\<exists>c' doms'. run_calls (dom_step nbrs) (c, doms) ks = Some (c', doms') \<and>
    dom_inv n root nbrs hs doms' \<and> dom_size doms' \<le> dom_size doms \<and>
    (c' \<longrightarrow> c \<or> dom_size doms' < dom_size doms) \<and>
    (\<not> c' \<longrightarrow> doms' = doms \<and> (\<forall>k \<in> set ks. meet n nbrs doms k = doms ! k))"
  using assms(2,3)
proof (induction ks arbitrary: c doms)
  case Nil
  then show ?case by auto
next
  case (Cons k ks)
  have k: "k \<in> set hs" using Cons.prems(2) by simp
  obtain d where d: "dom_step nbrs (c, doms) k = Some (c \<or> meet n nbrs doms k \<noteq> doms ! k, d)"
    "dom_inv n root nbrs hs d" "d = doms[k := meet n nbrs doms k]"
    "meet n nbrs doms k \<noteq> doms ! k \<Longrightarrow> dom_size d < dom_size doms"
    using dom_step_inv[OF assms(1) Cons.prems(1) k, where c = c] by blast
  have same: "meet n nbrs doms k = doms ! k \<Longrightarrow> d = doms" using d(3) by (simp add: list_update_id)
  obtain c' d' where r: "run_calls (dom_step nbrs) (c \<or> meet n nbrs doms k \<noteq> doms ! k, d) ks = Some (c', d')"
    "dom_inv n root nbrs hs d'" "dom_size d' \<le> dom_size d"
    "c' \<Longrightarrow> (c \<or> meet n nbrs doms k \<noteq> doms ! k) \<or> dom_size d' < dom_size d"
    "\<not> c' \<Longrightarrow> d' = d \<and> (\<forall>k \<in> set ks. meet n nbrs d k = d ! k)"
    using Cons.IH[OF d(2), of "c \<or> meet n nbrs doms k \<noteq> doms ! k"] Cons.prems(2) by auto
  show ?case
  proof (cases "meet n nbrs doms k = doms ! k")
    case True
    then show ?thesis using r d(1) same by auto
  next
    case False
    have "run_calls (dom_step nbrs) (True, d) ks = Some (c', d')" using r(1) False by simp
    moreover from this have "c'" by (rule changed_stays)
    ultimately show ?thesis using r(2,3) d(1) d(4)[OF False] False by auto
  qed
qed

lemma dom_loop_inv:
  assumes "rooted n root nbrs hs" "dom_inv n root nbrs hs doms"
  shows "\<exists>d. dom_loop nbrs hs doms = Some d \<and> dom_inv n root nbrs hs d \<and>
    (\<forall>h \<in> set hs. meet n nbrs d h = d ! h)"
  using assms(2)
proof (induction doms rule: measure_induct_rule[where f = dom_size])
  case (less doms)
  obtain c d where s: "dom_sweep nbrs hs doms = Some (c, d)" "dom_inv n root nbrs hs d"
    "c \<Longrightarrow> dom_size d < dom_size doms" "\<not> c \<Longrightarrow> d = doms \<and> (\<forall>k \<in> set hs. meet n nbrs doms k = doms ! k)"
    using dom_sweep_inv[OF assms(1) less.prems order.refl, of False] unfolding dom_sweep_def
    by (elim exE conjE) blast
  show ?case
  proof (cases c)
    case True
    then show ?thesis using less.IH[of d] s by (simp add: dom_loop.simps)
  next
    case False
    then show ?thesis using s by (simp add: dom_loop.simps)
  qed
qed

lemma fixpoint_on_all_paths:
  assumes "rooted n root nbrs hs" "dom_inv n root nbrs hs doms" "\<forall>h \<in> set hs. meet n nbrs doms h = doms ! h"
    "root_path n root nbrs xs h" "d \<in> doms ! h"
  shows "d \<in> set xs"
  using assms(4,5)
proof (induction rule: root_path.induct)
  case rp_root
  then show ?case using assms(2) by (simp add: dom_inv_def)
next
  case (rp_step xs s h)
  show ?case
  proof (cases "h = root")
    case True
    then show ?thesis using rp_step.prems assms(2) by (auto simp: dom_inv_def)
  next
    case False
    then have "h \<in> set hs" using rp_step.hyps assms(1) by (auto simp: rooted_def)
    then have "d \<in> meet n nbrs doms h" using rp_step.prems assms(3) by simp
    then show ?thesis using rp_step by (auto simp: meet_def)
  qed
qed

lemma dom_loop_correct:
  assumes "rooted n root nbrs hs"
  shows "\<exists>doms. dom_loop nbrs hs (dom_start n root) = Some doms \<and> length doms = n \<and>
    (\<forall>h < n. doms ! h = {d. d < n \<and> on_all_paths n root nbrs d h})"
proof -
  obtain d where d: "dom_loop nbrs hs (dom_start n root) = Some d" "dom_inv n root nbrs hs d"
    "\<forall>h \<in> set hs. meet n nbrs d h = d ! h"
    using dom_loop_inv[OF assms dom_inv_start[OF assms]] by blast
  have "d ! h = {x. x < n \<and> on_all_paths n root nbrs x h}" if "h < n" for h
  proof -
    have "on_all_paths n root nbrs x h" if "x \<in> d ! h" for x
      using fixpoint_on_all_paths[OF assms d(2,3) _ that] by (auto simp: on_all_paths_def)
    then show ?thesis using that d(2) by (auto simp: dom_inv_def)
  qed
  then show ?thesis using d by (auto simp: dom_inv_def)
qed

text \<open>The same loop with a bound on its sweeps.\<close>

primrec dom_loop_within ::
  "nat \<Rightarrow> (nat \<Rightarrow> nat set) \<Rightarrow> nat list \<Rightarrow> nat set list \<Rightarrow> nat set list option" where
  "dom_loop_within 0 nbrs hs doms = None"
| "dom_loop_within (Suc k) nbrs hs doms = do {
     (change, doms) \<leftarrow> dom_sweep nbrs hs doms;
     (if change then dom_loop_within k nbrs hs doms else Some doms)
   }"

lemma dom_loop_within_eq:
  assumes "rooted n root nbrs hs" "dom_inv n root nbrs hs doms" "dom_size doms < k"
  shows "dom_loop_within k nbrs hs doms = dom_loop nbrs hs doms"
  using assms(2,3)
proof (induction k arbitrary: doms)
  case (Suc k)
  obtain c d where s: "dom_sweep nbrs hs doms = Some (c, d)" "dom_inv n root nbrs hs d"
    "c \<Longrightarrow> dom_size d < dom_size doms"
    using dom_sweep_inv[OF assms(1) Suc.prems(1) order.refl, of False] unfolding dom_sweep_def
    by (elim exE conjE) blast
  then show ?case using Suc.IH[of d] Suc.prems(2) by (auto simp: dom_loop.simps[of _ _ doms])
qed simp

lemma dom_size_start: "root < n \<Longrightarrow> dom_size (dom_start n root) \<le> n * n"
proof -
  assume "root < n"
  then have "sum_list (map card (dom_start n root)) \<le> sum_list (map (\<lambda>_. n) [0..<n])"
    unfolding dom_start_def map_map by (intro sum_list_mono) auto
  then show ?thesis by (simp add: dom_size_def sum_list_triv)
qed

subsection \<open>The closest dominator\<close>

lemma root_path_splice:
  assumes "root_path n root nbrs xs h" "xs = ys @ m # zs"
  shows "root_path n root nbrs (ys @ [m]) m \<and>
    (\<forall>ps. root_path n root nbrs ps m \<longrightarrow> root_path n root nbrs (ps @ zs) h)"
  using assms
proof (induction arbitrary: zs rule: root_path.induct)
  case rp_root
  then show ?case by (cases ys) (auto intro: root_path.rp_root)
next
  case (rp_step xs s h)
  show ?case
  proof (cases zs rule: rev_cases)
    case Nil
    then show ?thesis using rp_step by (auto intro: root_path.rp_step)
  next
    case (snoc zs' z)
    then have eq: "xs = ys @ m # zs'" "z = h" using rp_step.prems by simp_all
    then show ?thesis using rp_step.IH[OF eq(1)] rp_step.hyps snoc
      by (auto simp flip: append_assoc intro: root_path.rp_step)
  qed
qed

lemma on_all_paths_antisym:
  assumes "on_all_paths n root nbrs s m" "on_all_paths n root nbrs m s" "root_path n root nbrs xs m"
  shows "s = m"
  using assms(3)
proof (induction "length xs" arbitrary: xs rule: less_induct)
  case less
  show ?case
  proof (rule ccontr)
    assume ne: "s \<noteq> m"
    have "s \<in> set xs" using assms(1) less.prems by (auto simp: on_all_paths_def)
    then obtain ys zs where xs: "xs = ys @ s # zs" by (auto dest: split_list)
    have "root_path n root nbrs (ys @ [s]) s" using root_path_splice[OF less.prems xs] by simp
    then have "m \<in> set ys" using assms(2) ne by (auto simp: on_all_paths_def)
    then obtain as bs where ys: "ys = as @ m # bs" by (auto dest: split_list)
    then have "root_path n root nbrs (as @ [m]) m"
      using root_path_splice[OF less.prems, of as m "bs @ s # zs"] xs by simp
    then have "s = m" using less.hyps[of "as @ [m]"] xs ys by simp
    with ne show False by simp
  qed
qed

text \<open>
  The last of the strict dominators on any path is dominated by all the others: from there on the
  path avoids them, so every way to it must pass them.
\<close>

lemma closest_exists:
  assumes "root_path n root nbrs xs h" "h \<noteq> root" "C = {d. d \<noteq> h \<and> on_all_paths n root nbrs d h}"
  obtains m ps where "m \<in> C" "root_path n root nbrs ps m" "\<And>t. t \<in> C \<Longrightarrow> on_all_paths n root nbrs t m"
proof -
  have "root \<in> C" using assms(2,3) root_path_root_in by (auto simp: on_all_paths_def)
  moreover have "root \<in> set xs" using root_path_root_in[OF assms(1)] .
  ultimately obtain ys m zs where xs: "xs = ys @ m # zs" "m \<in> C" "\<forall>z \<in> set zs. z \<notin> C"
    using split_list_last_prop[of xs "\<lambda>x. x \<in> C"] by blast
  note sp = root_path_splice[OF assms(1) xs(1)]
  have "on_all_paths n root nbrs t m" if t: "t \<in> C" for t
    unfolding on_all_paths_def
  proof (intro allI impI)
    fix ps assume "root_path n root nbrs ps m"
    then have "root_path n root nbrs (ps @ zs) h" using sp by simp
    then have "t \<in> set (ps @ zs)" using t assms(3) by (auto simp: on_all_paths_def)
    then show "t \<in> set ps" using xs(3) t by auto
  qed
  then show thesis using that xs(2) sp by blast
qed

lemma run_elim_closest:
  assumes "m \<in> tmp" "tmp \<subseteq> {..<length doms}" "\<And>t. t \<in> tmp \<Longrightarrow> t \<in> doms ! m"
    "\<And>s. s \<in> tmp \<Longrightarrow> m \<in> doms ! s \<Longrightarrow> s = m"
  shows "\<exists>tmp'. run_calls (elim_step doms) tmp ss = Some tmp' \<and> m \<in> tmp' \<and> tmp' \<subseteq> tmp \<and>
    (m \<in> set ss \<longrightarrow> tmp' = {m})"
  using assms
proof (induction ss arbitrary: tmp)
  case Nil
  then show ?case by simp
next
  case (Cons s ss)
  define new where "new = (if s \<in> tmp then {t \<in> tmp. t = s \<or> t \<notin> doms ! s} else tmp)"
  have step: "elim_step doms tmp s = Some new"
    using Cons.prems(2) by (auto simp: elim_step_def new_def)
  have new: "m \<in> new" "new \<subseteq> tmp" "s = m \<Longrightarrow> new = {m}"
    using Cons.prems(1,3,4) by (auto simp: new_def)
  have "\<exists>tmp'. run_calls (elim_step doms) new ss = Some tmp' \<and> m \<in> tmp' \<and> tmp' \<subseteq> new \<and>
    (m \<in> set ss \<longrightarrow> tmp' = {m})"
    by (rule Cons.IH) (use new Cons.prems in auto)
  then show ?case using step new by auto
qed

lemma eliminate_closest:
  assumes "m \<in> tmp" "tmp \<subseteq> {..<length doms}" "\<And>t. t \<in> tmp \<Longrightarrow> t \<in> doms ! m"
    "\<And>s. s \<in> tmp \<Longrightarrow> m \<in> doms ! s \<Longrightarrow> s = m"
  shows "eliminate doms tmp = Some {m}"
proof -
  have "m \<in> set (sorted_list_of_set tmp)"
    using assms(1,2) finite_subset[of tmp] by simp
  then show ?thesis using run_elim_closest[OF assms, of "sorted_list_of_set tmp"] by (auto simp: eliminate_def)
qed

lemma run_elim_nonempty:
  assumes "tmp \<noteq> {}" "tmp \<subseteq> {..<length doms}"
  shows "\<exists>tmp'. run_calls (elim_step doms) tmp ss = Some tmp' \<and> tmp' \<noteq> {} \<and> tmp' \<subseteq> tmp"
  using assms
proof (induction ss arbitrary: tmp)
  case (Cons s ss)
  define new where "new = (if s \<in> tmp then {t \<in> tmp. t = s \<or> t \<notin> doms ! s} else tmp)"
  have "elim_step doms tmp s = Some new" "new \<noteq> {}" "new \<subseteq> tmp"
    using Cons.prems by (auto simp: elim_step_def new_def)
  moreover have "new \<subseteq> {..<length doms}" using \<open>new \<subseteq> tmp\<close> Cons.prems(2) by (rule order.trans)
  ultimately show ?case using Cons.IH[of new] by (auto dest: order.trans[of _ new tmp])
qed simp

lemma eliminate_empty: "eliminate doms {} = Some {}"
  by (simp add: eliminate_def)

lemma eliminate_nonempty:
  "tmp \<subseteq> {..<length doms} \<Longrightarrow> \<exists>tmp'. eliminate doms tmp = Some tmp' \<and> (tmp' = {} \<longleftrightarrow> tmp = {}) \<and> tmp' \<subseteq> tmp"
  using run_elim_nonempty[of tmp doms] by (cases "tmp = {}") (auto simp: eliminate_def)

lemma eliminate_all_run:
  assumes "\<And>h. h \<in> set hs \<Longrightarrow> h < length tmps \<and> eliminate doms (tmps ! h) = Some (f h)" "distinct hs"
  shows "run_calls (\<lambda>tmps h. do { T \<leftarrow> vec_at tmps h; T \<leftarrow> eliminate doms T; Some (tmps[h := T]) }) tmps hs =
    Some (map (\<lambda>h. if h \<in> set hs then f h else tmps ! h) [0..<length tmps])"
  using assms
proof (induction hs arbitrary: tmps)
  case Nil
  then show ?case by (simp add: map_nth)
next
  case (Cons h hs)
  let ?t = "tmps[h := f h]"
  have h: "h < length tmps" "eliminate doms (tmps ! h) = Some (f h)" using Cons.prems(1)[of h] by auto
  have "k < length ?t \<and> eliminate doms (?t ! k) = Some (f k)" if "k \<in> set hs" for k
    using that Cons.prems(1)[of k] Cons.prems(2) by (cases "k = h") auto
  then have "run_calls (\<lambda>tmps h. do { T \<leftarrow> vec_at tmps h; T \<leftarrow> eliminate doms T; Some (tmps[h := T]) }) ?t hs =
    Some (map (\<lambda>k. if k \<in> set hs then f k else ?t ! k) [0..<length ?t])"
    using Cons.IH[of ?t] Cons.prems(2) by simp
  then show ?case using h Cons.prems(2) by (auto intro!: nth_equalityI)
qed

lemma eliminate_all_eq:
  assumes "distinct hs" "\<And>h. h \<in> set hs \<Longrightarrow> h < length doms \<and> eliminate doms (doms ! h - {h}) = Some (f h)"
  shows "eliminate_all doms hs =
    Some (map (\<lambda>h. if h \<in> set hs then f h else doms ! h - {h}) [0..<length doms])"
  unfolding eliminate_all_def
  by (subst eliminate_all_run[where f = f]) (use assms in \<open>auto intro!: nth_equalityI\<close>)

subsection \<open>Paths of a flow graph\<close>

text \<open>An execution path from block \<open>a\<close> to block \<open>b\<close>.\<close>

definition flow_path :: "basic_block list \<Rightarrow> nat \<Rightarrow> nat list \<Rightarrow> nat \<Rightarrow> bool" where
  "flow_path bbs a xs b \<longleftrightarrow> xs \<noteq> [] \<and> hd xs = a \<and> last xs = b \<and> set xs \<subseteq> {..<length bbs} \<and>
     successively (\<lambda>i j. j \<in> bb_succs (bbs ! i)) xs"

definition dominates :: "basic_block list \<Rightarrow> nat \<Rightarrow> nat \<Rightarrow> bool" where
  "dominates bbs d h \<longleftrightarrow> (\<forall>xs. flow_path bbs 0 xs h \<longrightarrow> d \<in> set xs)"

definition postdominates :: "basic_block list \<Rightarrow> nat \<Rightarrow> nat \<Rightarrow> bool" where
  "postdominates bbs d h \<longleftrightarrow> (\<forall>xs. flow_path bbs h xs (length bbs - 1) \<longrightarrow> d \<in> set xs)"

lemma flow_path_snoc:
  assumes "flow_path bbs a xs s" "h < length bbs" "h \<in> bb_succs (bbs ! s)"
  shows "flow_path bbs a (xs @ [h]) h"
  using assms by (auto simp: flow_path_def successively_append_iff)

lemma flow_path_Cons:
  assumes "flow_path bbs s xs b" "h < length bbs" "s \<in> bb_succs (bbs ! h)"
  shows "flow_path bbs h (h # xs) b"
  using assms by (cases xs) (auto simp: flow_path_def)

lemma flow_path_root:
  assumes "graph_ok bbs" "flow_path bbs 0 xs h"
  shows "root_path (length bbs) 0 (\<lambda>h. bb_preds (bbs ! h)) xs h"
  using assms(2)
proof (induction xs arbitrary: h rule: rev_induct)
  case Nil
  then show ?case by (simp add: flow_path_def)
next
  case (snoc x xs)
  show ?case
  proof (cases "xs = []")
    case True
    then show ?thesis using snoc.prems by (auto simp: flow_path_def intro: rp_root)
  next
    case False
    have "set xs \<subseteq> {..<length bbs}" using snoc.prems by (auto simp: flow_path_def)
    then have "last xs < length bbs" using last_in_set[OF False] by blast
    moreover from False have "flow_path bbs 0 xs (last xs)" "h = x" "x \<in> bb_succs (bbs ! last xs)"
      "x < length bbs"
      using snoc.prems by (auto simp: flow_path_def successively_append_iff)
    ultimately show ?thesis using snoc.IH[of "last xs"] assms(1) by (auto simp: graph_ok_def intro!: rp_step)
  qed
qed

lemma root_flow_path:
  assumes "graph_ok bbs" "root_path (length bbs) 0 (\<lambda>h. bb_preds (bbs ! h)) xs h"
  shows "flow_path bbs 0 xs h"
  using assms(2)
proof (induction rule: root_path.induct)
  case rp_root
  then show ?case using assms(1) by (auto simp: flow_path_def graph_ok_def)
next
  case (rp_step xs s h)
  then show ?case using assms(1) by (auto simp: graph_ok_def intro!: flow_path_snoc)
qed

lemma flow_path_exit:
  assumes "flow_path bbs h xs (length bbs - 1)"
  shows "root_path (length bbs) (length bbs - 1) (\<lambda>h. bb_succs (bbs ! h)) (rev xs) h"
  using assms
proof (induction xs arbitrary: h)
  case Nil
  then show ?case by (simp add: flow_path_def)
next
  case (Cons x xs)
  show ?case
  proof (cases xs)
    case Nil
    then show ?thesis using Cons.prems by (auto simp: flow_path_def intro: rp_root)
  next
    case (Cons y ys)
    then have y: "flow_path bbs y xs (length bbs - 1)" "h = x" "y \<in> bb_succs (bbs ! h)" "h < length bbs"
      using Cons.prems by (auto simp: flow_path_def)
    show ?thesis using rp_step[OF Cons.IH[OF y(1)] y(3,4)] y(2) by simp
  qed
qed

lemma exit_flow_path:
  assumes "graph_ok bbs" "root_path (length bbs) (length bbs - 1) (\<lambda>h. bb_succs (bbs ! h)) xs h"
  shows "flow_path bbs h (rev xs) (length bbs - 1)"
  using assms(2)
proof (induction rule: root_path.induct)
  case rp_root
  then show ?case using assms(1) by (auto simp: flow_path_def graph_ok_def)
next
  case (rp_step xs s h)
  then show ?case by (auto intro!: flow_path_Cons)
qed

lemma on_all_paths_dominates:
  "graph_ok bbs \<Longrightarrow> on_all_paths (length bbs) 0 (\<lambda>h. bb_preds (bbs ! h)) d h = dominates bbs d h"
  using flow_path_root root_flow_path by (auto simp: on_all_paths_def dominates_def)

lemma on_all_paths_postdominates:
  assumes "graph_ok bbs"
  shows "on_all_paths (length bbs) (length bbs - 1) (\<lambda>h. bb_succs (bbs ! h)) d h = postdominates bbs d h"
  unfolding on_all_paths_def postdominates_def
proof (intro iffI allI impI)
  fix xs assume "\<forall>xs. root_path (length bbs) (length bbs - 1) (\<lambda>h. bb_succs (bbs ! h)) xs h \<longrightarrow> d \<in> set xs"
    "flow_path bbs h xs (length bbs - 1)"
  then show "d \<in> set xs" using flow_path_exit[of bbs h xs] by fastforce
next
  fix xs assume "\<forall>xs. flow_path bbs h xs (length bbs - 1) \<longrightarrow> d \<in> set xs"
    "root_path (length bbs) (length bbs - 1) (\<lambda>h. bb_succs (bbs ! h)) xs h"
  then show "d \<in> set xs" using exit_flow_path[OF assms, of xs h] by fastforce
qed

lemma rooted_entry:
  "graph_ok bbs \<Longrightarrow> rooted (length bbs) 0 (\<lambda>h. bb_preds (bbs ! h)) [1..<length bbs]"
  by (auto simp: graph_ok_def rooted_def)

lemma rooted_exit:
  "graph_ok bbs \<Longrightarrow> rooted (length bbs) (length bbs - 1) (\<lambda>h. bb_succs (bbs ! h)) (rev [0..<length bbs - 1])"
  by (auto simp: graph_ok_def rooted_def)

lemma find_dominators_eq:
  assumes "graph_ok (fi_basic_blocks f)"
  shows "find_dominators f = Some (f\<lparr>fi_basic_blocks := map (\<lambda>h. (fi_basic_blocks f ! h)\<lparr>bb_dominators :=
      (if h \<noteq> 0 \<and> bb_preds (fi_basic_blocks f ! h) = {} then {}
       else {d. d < length (fi_basic_blocks f) \<and> dominates (fi_basic_blocks f) d h})\<rparr>)
    [0..<length (fi_basic_blocks f)]\<rparr>)"
proof -
  let ?bbs = "fi_basic_blocks f"
  obtain doms where d: "dom_loop (\<lambda>h. bb_preds (?bbs ! h)) [1..<length ?bbs] (dom_start (length ?bbs) 0) = Some doms"
    "length doms = length ?bbs"
    "\<forall>h < length ?bbs. doms ! h = {d. d < length ?bbs \<and> dominates ?bbs d h}"
    using dom_loop_correct[OF rooted_entry[OF assms]] unfolding on_all_paths_dominates[OF assms] by blast
  have "2 \<le> length ?bbs" "\<forall>h < length ?bbs. h \<noteq> 0 \<longrightarrow> bb_id (?bbs ! h) = h"
    using assms by (auto simp: graph_ok_def)
  then show ?thesis using d by (auto simp: find_dominators_def Let_def)
qed

lemma find_postdominators_eq:
  assumes "graph_ok (fi_basic_blocks f)"
  shows "find_postdominators f = Some (f\<lparr>fi_basic_blocks := map (\<lambda>h. (fi_basic_blocks f ! h)\<lparr>bb_postdominators :=
      {d. d < length (fi_basic_blocks f) \<and> postdominates (fi_basic_blocks f) d h}\<rparr>)
    [0..<length (fi_basic_blocks f)]\<rparr>)"
proof -
  let ?bbs = "fi_basic_blocks f"
  obtain doms where d: "dom_loop (\<lambda>h. bb_succs (?bbs ! h)) (rev [0..<length ?bbs - 1])
      (dom_start (length ?bbs) (length ?bbs - 1)) = Some doms" "length doms = length ?bbs"
    "\<forall>h < length ?bbs. doms ! h = {d. d < length ?bbs \<and> postdominates ?bbs d h}"
    using dom_loop_correct[OF rooted_exit[OF assms]] unfolding on_all_paths_postdominates[OF assms] by blast
  have "2 \<le> length ?bbs" "\<forall>h < length ?bbs - 1. bb_id (?bbs ! h) = h"
    using assms by (auto simp: graph_ok_def)
  then show ?thesis using d by (auto simp: find_postdominators_def Let_def)
qed

subsection \<open>Immediate dominators and postdominators\<close>

lemma find_idominators_Tmp:
  assumes "graph_ok (fi_basic_blocks f)" "find_dominators f = Some f1"
  obtains tmps where "eliminate_all (map bb_dominators (fi_basic_blocks f1)) [0..<length (fi_basic_blocks f1)] = Some tmps"
    "\<And>h. h < length (fi_basic_blocks f) \<Longrightarrow>
      tmps ! h = {} \<longleftrightarrow> h = 0 \<or> bb_preds (fi_basic_blocks f ! h) = {}"
proof -
  let ?bbs = "fi_basic_blocks f" and ?bs = "fi_basic_blocks f1" and ?doms = "map bb_dominators (fi_basic_blocks f1)"
  have f1: "?bs = map (\<lambda>h. (?bbs ! h)\<lparr>bb_dominators := (if h \<noteq> 0 \<and> bb_preds (?bbs ! h) = {} then {}
      else {d. d < length ?bbs \<and> dominates ?bbs d h})\<rparr>) [0..<length ?bbs]"
    using assms(2) find_dominators_eq[OF assms(1)] by auto
  then have len: "length ?bs = length ?bbs" "length ?doms = length ?bbs" by simp_all
  have dom: "?doms ! h = (if h \<noteq> 0 \<and> bb_preds (?bbs ! h) = {} then {} else {d. d < length ?bbs \<and> dominates ?bbs d h})"
    if "h < length ?bbs" for h
    using that f1 by simp
  have "?doms ! h - {h} \<subseteq> {..<length ?doms}" if "h < length ?bbs" for h
    unfolding dom[OF that] len by auto
  then have "\<forall>h. h < length ?bbs \<longrightarrow> (\<exists>T. eliminate ?doms (?doms ! h - {h}) = Some T \<and> (T = {} \<longleftrightarrow> ?doms ! h - {h} = {}))"
    using eliminate_nonempty by blast
  then obtain T where T: "\<And>h. h < length ?bbs \<Longrightarrow> eliminate ?doms (?doms ! h - {h}) = Some (T h) \<and>
      (T h = {} \<longleftrightarrow> ?doms ! h - {h} = {})"
    by metis
  have all: "eliminate_all ?doms [0..<length ?bs] = Some (map (\<lambda>h. if h \<in> set [0..<length ?bs] then T h
      else ?doms ! h - {h}) [0..<length ?doms])"
    by (rule eliminate_all_eq) (use T len in auto)
  have dom0: "dominates ?bbs 0 h" for h
    unfolding dominates_def flow_path_def using hd_in_set by metis
  have self: "dominates ?bbs d 0 \<Longrightarrow> d = 0" for d
    using on_all_paths_root[of "length ?bbs" 0 "\<lambda>h. bb_preds (?bbs ! h)" d] on_all_paths_dominates[OF assms(1)] by simp
  have "(?doms ! h - {h} = {}) = (h = 0 \<or> bb_preds (?bbs ! h) = {})" if "h < length ?bbs" for h
  proof (cases "h = 0 \<or> bb_preds (?bbs ! h) \<noteq> {}")
    case True
    then have "?doms ! h = {d. d < length ?bbs \<and> dominates ?bbs d h}" using dom[OF that] by auto
    moreover have "0 \<in> {d. d < length ?bbs \<and> dominates ?bbs d h}" using dom0[of h] that by auto
    ultimately show ?thesis using True self by (cases "h = 0") auto
  next
    case False
    then show ?thesis using dom[OF that] by simp
  qed
  then show thesis using that[OF all] T len by simp
qed

lemma length_filter_upt: "length (filter P [0..<n]) = card {i. i < n \<and> P i}"
  by (subst length_filter_conv_card) (auto intro!: arg_cong[where f = card])

lemma find_idominators_entry:
  assumes "graph_ok (fi_basic_blocks f)" "find_dominators f = Some f1"
  shows "find_idominators f1 \<noteq> None \<longleftrightarrow> bb_preds (fi_basic_blocks f ! 0) = {}"
proof -
  let ?bbs = "fi_basic_blocks f" and ?bs = "fi_basic_blocks f1"
  let ?n = "length ?bbs"
  have f1: "?bs = map (\<lambda>h. (?bbs ! h)\<lparr>bb_dominators := (if h \<noteq> 0 \<and> bb_preds (?bbs ! h) = {} then {}
      else {d. d < ?n \<and> dominates ?bbs d h})\<rparr>) [0..<?n]"
    using assms(2) find_dominators_eq[OF assms(1)] by auto
  then have len: "length ?bs = ?n" and preds: "\<And>h. h < ?n \<Longrightarrow> bb_preds (?bs ! h) = bb_preds (?bbs ! h)"
    and ids: "\<forall>h < ?n. bb_id (?bs ! h) = h"
    using assms(1) by (auto simp: graph_ok_def)
  obtain tmps where t: "eliminate_all (map bb_dominators ?bs) [0..<length ?bs] = Some tmps"
    "\<And>h. h < ?n \<Longrightarrow> tmps ! h = {} \<longleftrightarrow> h = 0 \<or> bb_preds (?bbs ! h) = {}"
    using find_idominators_Tmp[OF assms] by blast
  have n2: "2 \<le> ?n" using assms(1) by (simp add: graph_ok_def)
  let ?A = "{h. h < ?n \<and> tmps ! h \<noteq> {}}" and ?B = "{h. h < ?n \<and> tmps ! h = {} \<and> bb_preds (?bs ! h) = {}}"
  have disj: "card (?A \<union> ?B) = card ?A + card ?B" by (rule card_Un_disjoint) auto
  have un: "?A \<union> ?B = (if bb_preds (?bbs ! 0) = {} then {..<?n} else {..<?n} - {0})"
    using t(2) preds n2 by auto
  have "{..<?n} - {0} = {1..<?n}" by auto
  then have c1: "card ({..<?n} - {0}) = ?n - 1" by simp
  have card: "card (?A \<union> ?B) = (if bb_preds (?bbs ! 0) = {} then ?n else ?n - 1)"
    unfolding un using c1 by simp
  have "find_idominators f1 \<noteq> None \<longleftrightarrow> card ?A = ?n - card ?B"
    using t(1) n2 ids len by (auto simp: find_idominators_def Let_def length_filter_upt)
  moreover have "card ?A = ?n - card ?B \<longleftrightarrow> card ?A + card ?B = ?n"
    using disj card n2 by (auto split: if_splits)
  ultimately show ?thesis using disj card n2 by (auto split: if_splits)
qed

text \<open>The nearest of the strict postdominators: the one that all the others postdominate.\<close>

definition nearest_postdominator :: "basic_block list \<Rightarrow> nat \<Rightarrow> nat \<Rightarrow> bool" where
  "nearest_postdominator bbs m h \<longleftrightarrow> m < length bbs \<and> m \<noteq> h \<and> postdominates bbs m h \<and>
     (\<forall>t < length bbs. t \<noteq> h \<and> postdominates bbs t h \<longrightarrow> postdominates bbs t m)"

lemma ipostdominator_elimination:
  assumes "graph_ok bbs" "h < length bbs - 1" "flow_path bbs h xs (length bbs - 1)"
    "length doms = length bbs" "\<And>k. k < length bbs \<Longrightarrow> doms ! k = {d. d < length bbs \<and> postdominates bbs d k}"
  obtains m where "nearest_postdominator bbs m h" "eliminate doms (doms ! h - {h}) = Some {m}"
proof -
  let ?n = "length bbs" and ?S = "\<lambda>h. bb_succs (bbs ! h)"
  note eq = on_all_paths_postdominates[OF assms(1)]
  have rp: "root_path ?n (?n - 1) ?S (rev xs) h" by (rule flow_path_exit[OF assms(3)])
  have ne: "h \<noteq> ?n - 1" using assms(2) by simp
  obtain m ps where m: "m \<in> {d. d \<noteq> h \<and> on_all_paths ?n (?n - 1) ?S d h}" "root_path ?n (?n - 1) ?S ps m"
    "\<And>t. t \<in> {d. d \<noteq> h \<and> on_all_paths ?n (?n - 1) ?S d h} \<Longrightarrow> on_all_paths ?n (?n - 1) ?S t m"
    by (rule closest_exists[OF rp ne refl]) blast
  have mn: "m < ?n"
  proof -
    have "m \<in> set xs" using m(1) assms(3) eq by (auto simp: postdominates_def)
    then show ?thesis using assms(3) by (auto simp: flow_path_def)
  qed
  have dh: "doms ! h = {d. d < ?n \<and> postdominates bbs d h}" "doms ! m = {d. d < ?n \<and> postdominates bbs d m}"
    using assms(2,5) mn by auto
  have anti: "s = m" if "s \<in> doms ! h - {h}" "m \<in> doms ! s" for s
  proof -
    have "s < ?n" using that(1) dh(1) by simp
    then have "postdominates bbs m s" using that(2) assms(5) by simp
    moreover have "postdominates bbs s m" using that(1) dh(1) m(3)[of s] eq by simp
    ultimately show ?thesis using on_all_paths_antisym[OF _ _ m(2), of s] eq by simp
  qed
  have "nearest_postdominator bbs m h" using m mn eq by (auto simp: nearest_postdominator_def)
  moreover have "eliminate doms (doms ! h - {h}) = Some {m}"
    by (rule eliminate_closest) (use m mn dh eq assms(4) anti in auto)
  ultimately show thesis by (rule that)
qed

lemma find_ipostdominators_nearest:
  assumes "graph_ok (fi_basic_blocks f)" "find_postdominators f = Some f1"
    "\<forall>h < length (fi_basic_blocks f). \<exists>xs. flow_path (fi_basic_blocks f) h xs (length (fi_basic_blocks f) - 1)"
  shows "\<exists>f2. find_ipostdominators f1 = Some f2 \<and> length (fi_basic_blocks f2) = length (fi_basic_blocks f) \<and>
    (\<forall>h < length (fi_basic_blocks f) - 1. \<exists>m. bb_ipdom (fi_basic_blocks f2 ! h) = Some m \<and>
       nearest_postdominator (fi_basic_blocks f) m h)"
proof -
  let ?bbs = "fi_basic_blocks f" and ?bs = "fi_basic_blocks f1"
  let ?n = "length ?bbs" and ?doms = "map bb_postdominators ?bs"
  have f1: "?bs = map (\<lambda>h. (?bbs ! h)\<lparr>bb_postdominators := {d. d < ?n \<and> postdominates ?bbs d h}\<rparr>) [0..<?n]"
    using assms(2) find_postdominators_eq[OF assms(1)] by auto
  then have len: "length ?bs = ?n" "length ?doms = ?n" and ids: "\<forall>h < ?n. bb_id (?bs ! h) = h"
    and doms: "\<And>k. k < ?n \<Longrightarrow> ?doms ! k = {d. d < ?n \<and> postdominates ?bbs d k}"
    using assms(1) by (auto simp: graph_ok_def)
  have n2: "2 \<le> ?n" using assms(1) by (simp add: graph_ok_def)
  have "\<forall>h. h < ?n - 1 \<longrightarrow> (\<exists>m. nearest_postdominator ?bbs m h \<and> eliminate ?doms (?doms ! h - {h}) = Some {m})"
    using ipostdominator_elimination[OF assms(1) _ _ len(2) doms] assms(3) by (metis diff_le_self order_less_le_trans)
  then obtain M where M: "\<And>h. h < ?n - 1 \<Longrightarrow> nearest_postdominator ?bbs (M h) h \<and>
      eliminate ?doms (?doms ! h - {h}) = Some {M h}"
    by metis
  define tmps where "tmps = map (\<lambda>h. if h \<in> set (rev [0..<length ?bs - 1]) then {M h} else ?doms ! h - {h}) [0..<length ?doms]"
  have all: "eliminate_all ?doms (rev [0..<length ?bs - 1]) = Some tmps"
    unfolding tmps_def by (rule eliminate_all_eq) (use M len in auto)
  have exit: "?doms ! (?n - 1) - {?n - 1} = {}"
    using doms[of "?n - 1"] n2 on_all_paths_root[of ?n "?n - 1" "\<lambda>h. bb_succs (?bbs ! h)"]
      on_all_paths_postdominates[OF assms(1)] by auto
  have tmps: "tmps ! h = (if h < ?n - 1 then {M h} else {})" if "h < ?n" for h
  proof (cases "h < ?n - 1")
    case True
    then show ?thesis using that len by (simp add: tmps_def)
  next
    case False
    then have "h = ?n - 1" using that by simp
    then show ?thesis using exit len n2 by (simp add: tmps_def)
  qed
  have "{h. h < ?n \<and> tmps ! h \<noteq> {}} = {..<?n - 1}" using tmps by auto
  then have cnt: "length (filter (\<lambda>h. tmps ! h \<noteq> {}) [0..<?n]) = ?n - 1" by (simp add: length_filter_upt)
  have le: "\<forall>h < ?n. card (tmps ! h) \<le> 1" using tmps by auto
  show ?thesis
    using all n2 ids len cnt le tmps M by (auto simp: find_ipostdominators_def Let_def the_least_def)
qed

end
