(* ===== verification/Reconvergence.thy ===== *)
theory Reconvergence
  imports Dominators
begin

section \<open>Break targets and reconvergence points\<close>

text \<open>
  The users of the analyses: \<open>connect_break_targets\<close>, which links a \<open>break\<close> to the label of
  the \<open>breakaddr\<close> that dominates it, the loop of \<open>do_pdom\<close> that repeats the dominators until
  the links are stable (\<open>ptx_ir.cc\<close>), and the reconvergence point of a branch
  (\<open>get_reconvergence_pairs\<close>; \<open>get_converge_point\<close> in \<open>cuda-sim.cc\<close>).
\<close>

subsection \<open>Break targets\<close>

fun search_breakaddr :: "function_info \<Rightarrow> nat list \<Rightarrow> operand_info option option" where
  "search_breakaddr f [] = Some None"
| "search_breakaddr f (addr # as) = do {
     c \<leftarrow> vec_at (fi_instr_mem f) addr;
     (case c of
        Uninit \<Rightarrow> None
      | Null \<Rightarrow> search_breakaddr f as
      | Insn k \<Rightarrow> do {
          pI \<leftarrow> vec_at (fi_instructions f) k;
          (if px_opcode pI = BREAKADDR_OP then map_option Some (px_dst pI) else search_breakaddr f as)
        })
   }"

text \<open>
  The walk up the dominator tree stops at a block without an immediate dominator before
  it looks into that block, and fails there. The search of a block goes down to the address
  of its first instruction; below address 0 the unsigned counter wraps, out of the memory.
  A chain of immediate dominators longer than the number of blocks is a cycle, which the code
  would follow for ever.
\<close>

primrec find_break_from :: "nat \<Rightarrow> function_info \<Rightarrow> nat \<Rightarrow> operand_info option" where
  "find_break_from 0 f i = None"
| "find_break_from (Suc fuel) f i = do {
     bb \<leftarrow> vec_at (fi_basic_blocks f) i;
     d \<leftarrow> bb_idom bb;
     e \<leftarrow> bb_end bb;
     b \<leftarrow> bb_begin bb;
     eI \<leftarrow> vec_at (fi_instructions f) e;
     bI \<leftarrow> vec_at (fi_instructions f) b;
     r \<leftarrow> search_breakaddr f (rev [px_m_instr_mem_index bI..<Suc (px_m_instr_mem_index eI)]);
     (case r of
        Some target \<Rightarrow> Some target
      | None \<Rightarrow> if px_m_instr_mem_index bI = 0 then None else find_break_from fuel f d)
   }"

definition find_break_target :: "function_info \<Rightarrow> nat \<Rightarrow> operand_info option" where
  "find_break_target f i = find_break_from (Suc (length (fi_basic_blocks f))) f i"

definition unlink_block :: "nat \<Rightarrow> basic_block list \<Rightarrow> basic_block list" where
  "unlink_block a bbs =
     map (\<lambda>bb. (if bb_id bb \<in> bb_succs (bbs ! a) then bb\<lparr>bb_preds := bb_preds bb - {a}\<rparr> else bb)
       \<lparr>bb_succs := (if bb_id bb = a then {} else bb_succs bb)\<rparr>) bbs"

definition break_targets :: "function_info \<Rightarrow> nat \<Rightarrow> ptx_instruction \<Rightarrow> nat list option" where
  "break_targets f i pI = do {
     target \<leftarrow> find_break_target f i;
     t \<leftarrow> target_block f target;
     (if px_has_pred pI
      then do { n \<leftarrow> block_at f (px_m_instr_mem_index pI + px_inst_size pI); Some [t, n] }
      else Some [t])
   }"

definition connect_break :: "bool \<times> function_info \<Rightarrow> nat \<Rightarrow> (bool \<times> function_info) option" where
  "connect_break = (\<lambda>(modified, f) i. do {
     bb \<leftarrow> vec_at (fi_basic_blocks f) i;
     (if bb_is_exit bb then Some (modified, f)
      else do {
        pI \<leftarrow> block_end_insn f bb;
        (if px_opcode pI = BREAK_OP
         then do {
           let f1 = f\<lparr>fi_basic_blocks := unlink_block (bb_id bb) (fi_basic_blocks f)\<rparr>;
           ts \<leftarrow> break_targets f1 i pI;
           let bbs = fold (add_edge (bb_id bb)) ts (fi_basic_blocks f1);
           Some (modified \<or> bb_succs bb \<noteq> bb_succs (bbs ! i), f1\<lparr>fi_basic_blocks := bbs\<rparr>)
         } else Some (modified, f))
      })
   })"

definition connect_break_targets :: "function_info \<Rightarrow> (bool \<times> function_info) option" where
  "connect_break_targets f = run_calls connect_break (False, f) [0..<length (fi_basic_blocks f)]"

text \<open>The loop of \<open>do_pdom\<close>, and its analyses.\<close>

partial_function (option) pdom_loop :: "function_info \<Rightarrow> function_info option" where
  [code]: "pdom_loop f = do {
     f \<leftarrow> find_dominators f;
     f \<leftarrow> find_idominators f;
     (modified, f) \<leftarrow> connect_break_targets f;
     (if modified then pdom_loop f else Some f)
   }"

definition pdom_analysis :: "function_info \<Rightarrow> function_info option" where
  "pdom_analysis f = do {
     f \<leftarrow> create_basic_blocks f;
     f \<leftarrow> connect_basic_blocks f;
     f \<leftarrow> pdom_loop f;
     f \<leftarrow> find_postdominators f;
     find_ipostdominators f
   }"

subsection \<open>Reconvergence points\<close>

definition ends_in_branch :: "function_info \<Rightarrow> nat \<Rightarrow> bool option" where
  "ends_in_branch f i = do {
     bb \<leftarrow> vec_at (fi_basic_blocks f) i;
     pI \<leftarrow> block_end_insn f bb;
     Some (px_opcode pI = BRA_OP)
   }"

definition count_branches :: "function_info \<Rightarrow> nat option" where
  "count_branches f =
     run_calls (\<lambda>c i. do { b \<leftarrow> ends_in_branch f i; Some (if b then c + 1 else c) }) 0
       [0..<length (fi_basic_blocks f) - 1]"

definition get_num_reconvergence_pairs :: "function_info \<Rightarrow> (nat \<times> function_info) option" where
  "get_num_reconvergence_pairs f =
     (if fi_num_reconvergence_pairs f = 0 then
        (if fi_basic_blocks f = [] then Some (0, f)
         else do { c \<leftarrow> count_branches f; Some (c, f\<lparr>fi_num_reconvergence_pairs := c\<rparr>) })
      else Some (fi_num_reconvergence_pairs f, f))"

text \<open>The target \<open>-2\<close> is the return of the function.\<close>

record gpgpu_recon =
  rp_source_pc :: nat
  rp_source_inst :: nat
  rp_target_pc :: int
  rp_target_inst :: "nat option"

definition recon_pair :: "function_info \<Rightarrow> nat \<Rightarrow> gpgpu_recon option" where
  "recon_pair f i = do {
     bb \<leftarrow> vec_at (fi_basic_blocks f) i;
     k \<leftarrow> bb_end bb;
     pI \<leftarrow> vec_at (fi_instructions f) k;
     d \<leftarrow> bb_ipdom bb;
     db \<leftarrow> vec_at (fi_basic_blocks f) d;
     (case bb_begin db of
        Some t \<Rightarrow> do {
          tI \<leftarrow> vec_at (fi_instructions f) t;
          Some \<lparr>rp_source_pc = px_PC pI, rp_source_inst = k, rp_target_pc = int (px_PC tI), rp_target_inst = Some t\<rparr>
        }
      | None \<Rightarrow> Some \<lparr>rp_source_pc = px_PC pI, rp_source_inst = k, rp_target_pc = -2, rp_target_inst = None\<rparr>)
   }"

definition get_reconvergence_pairs :: "function_info \<Rightarrow> gpgpu_recon list option" where
  "get_reconvergence_pairs f =
     run_calls (\<lambda>rs i. do {
       b \<leftarrow> ends_in_branch f i;
       (if b then do { r \<leftarrow> recon_pair f i; Some (rs @ [r]) } else Some rs)
     }) [] [0..<length (fi_basic_blocks f) - 1]"

text \<open>
  \<open>find_reconvergence_points\<close> remembers the pairs of a function in \<open>g_rpts\<close>.
  \<open>RECONVERGE_RETURN_PC\<close> and \<open>NO_BRANCH_DIVERGENCE\<close> are the values \<open>-2\<close> and \<open>-1\<close> that the
  comment on \<open>reconvergence_pc\<close> (\<open>abstract_hardware_model.h\<close>) names.
\<close>

definition RECONVERGE_RETURN_PC :: int where "RECONVERGE_RETURN_PC = -2"
definition NO_BRANCH_DIVERGENCE :: int where "NO_BRANCH_DIVERGENCE = -1"

text \<open>\<open>calloc(num_recon, ...)\<close>: the pairs that are not written are 0; writing more is an overrun.\<close>

definition recon_zero :: gpgpu_recon where
  "recon_zero = \<lparr>rp_source_pc = 0, rp_source_inst = 0, rp_target_pc = 0, rp_target_inst = None\<rparr>"

type_synonym rec_pts_table = "nat \<rightharpoonup> gpgpu_recon list"

definition find_reconvergence_points ::
  "function_info \<Rightarrow> rec_pts_table \<Rightarrow> (gpgpu_recon list \<times> function_info \<times> rec_pts_table) option" where
  "find_reconvergence_points f rpts =
     (case rpts (fi_uid f) of
        Some rs \<Rightarrow> Some (rs, f, rpts)
      | None \<Rightarrow> do {
          (num, f) \<leftarrow> get_num_reconvergence_pairs f;
          rs \<leftarrow> get_reconvergence_pairs f;
          assert_that (length rs \<le> num);
          let rs = rs @ replicate (num - length rs) recon_zero;
          Some (rs, f, rpts(fi_uid f \<mapsto> rs))
        })"

text \<open>\<open>get_converge_point(pc)\<close>, where \<open>f\<close> is the function that \<open>g_pc_to_finfo\<close> gives for \<open>pc\<close>.\<close>

definition get_converge_point :: "code_space \<Rightarrow> nat \<Rightarrow> function_info \<Rightarrow> rec_pts_table \<Rightarrow>
    (int \<times> function_info \<times> rec_pts_table) option" where
  "get_converge_point cs pc f rpts = do {
     assert_that (cs_pc_to_finfo cs pc = Some (fi_uid f));
     (rs, f, rpts) \<leftarrow> find_reconvergence_points f rpts;
     Some (case List.find (\<lambda>r. rp_source_pc r = pc) rs of
             None \<Rightarrow> NO_BRANCH_DIVERGENCE
           | Some r \<Rightarrow> if rp_target_pc r = -2 then RECONVERGE_RETURN_PC else rp_target_pc r, f, rpts)
   }"

subsection \<open>The analyses keep the graph\<close>

definition bb_shape :: "basic_block \<Rightarrow> nat \<times> nat option \<times> nat option \<times> bool \<times> nat set \<times> nat set" where
  "bb_shape bb = (bb_id bb, bb_begin bb, bb_end bb, bb_is_exit bb, bb_preds bb, bb_succs bb)"

lemma graph_ok_shape:
  assumes "graph_ok bbs" "map bb_shape bbs' = map bb_shape bbs"
  shows "graph_ok bbs'"
proof -
  have len: "length bbs' = length bbs" using assms(2) by (rule map_eq_imp_length_eq)
  have "bb_shape (bbs' ! i) = bb_shape (bbs ! i)" if "i < length bbs" for i
    using arg_cong[OF assms(2), of "\<lambda>xs. xs ! i"] that len by simp
  then have "bb_id (bbs' ! i) = bb_id (bbs ! i) \<and> bb_is_exit (bbs' ! i) = bb_is_exit (bbs ! i) \<and>
      bb_preds (bbs' ! i) = bb_preds (bbs ! i) \<and> bb_succs (bbs' ! i) = bb_succs (bbs ! i)"
    if "i < length bbs" for i
    using that by (simp add: bb_shape_def)
  moreover have "length bbs - 1 < length bbs" using graph_okD(1)[OF assms(1)] by simp
  ultimately show ?thesis using assms(1) unfolding graph_ok_def len by (simp cong: conj_cong)
qed

lemma blocks_ok_shape:
  assumes "blocks_ok f" "map bb_shape bbs = map bb_shape (fi_basic_blocks f)"
  shows "blocks_ok (f\<lparr>fi_basic_blocks := bbs\<rparr>)"
proof (rule blocks_ok_edges[OF assms(1)])
  show "graph_ok bbs" using assms graph_ok_shape by (auto simp: blocks_ok_def)
  show "length bbs = length (fi_basic_blocks f)" using assms(2) by (rule map_eq_imp_length_eq)
  show "map bb_begin bbs = map bb_begin (fi_basic_blocks f)" "map bb_end bbs = map bb_end (fi_basic_blocks f)"
    using arg_cong[OF assms(2), of "map (\<lambda>t. fst (snd t))"] arg_cong[OF assms(2), of "map (\<lambda>t. fst (snd (snd t)))"]
    by (simp_all add: bb_shape_def o_def)
qed

lemma map_nth_shape:
  "(\<And>h. bb_shape (g h (bbs ! h)) = bb_shape (bbs ! h)) \<Longrightarrow>
    map bb_shape (map (\<lambda>h. g h (bbs ! h)) [0..<length bbs]) = map bb_shape bbs"
  by (rule nth_equalityI) auto

lemma analyses_keep_blocks:
  "blocks_ok f \<Longrightarrow> find_dominators f = Some f1 \<Longrightarrow> blocks_ok f1"
  "blocks_ok f \<Longrightarrow> find_idominators f = Some f1 \<Longrightarrow> blocks_ok f1"
  "blocks_ok f \<Longrightarrow> find_postdominators f = Some f1 \<Longrightarrow> blocks_ok f1"
  "blocks_ok f \<Longrightarrow> find_ipostdominators f = Some f1 \<Longrightarrow> blocks_ok f1"
  by (auto simp: find_dominators_def find_idominators_def find_postdominators_def find_ipostdominators_def Let_def
      bb_shape_def split: bind_splits if_splits intro!: blocks_ok_shape nth_equalityI)

lemma unlink_block_ok:
  assumes "graph_ok bbs" "a < length bbs"
  shows "graph_ok (unlink_block a bbs) \<and> length (unlink_block a bbs) = length bbs \<and>
    map bb_begin (unlink_block a bbs) = map bb_begin bbs \<and> map bb_end (unlink_block a bbs) = map bb_end bbs"
proof -
  have len: "length (unlink_block a bbs) = length bbs" by (simp add: unlink_block_def)
  have nth: "bb_id (unlink_block a bbs ! i) = bb_id (bbs ! i) \<and> bb_is_exit (unlink_block a bbs ! i) = bb_is_exit (bbs ! i) \<and>
      bb_preds (unlink_block a bbs ! i) = bb_preds (bbs ! i) - (if i \<in> bb_succs (bbs ! a) then {a} else {}) \<and>
      bb_succs (unlink_block a bbs ! i) = (if i = a then {} else bb_succs (bbs ! i))" if "i < length bbs" for i
    using that graph_okD(2)[OF assms(1) that] by (auto simp: unlink_block_def)
  have "graph_ok (unlink_block a bbs)"
    unfolding graph_ok_def len
  proof (intro conjI allI impI)
    fix i assume i: "i < length bbs"
    show "bb_id (unlink_block a bbs ! i) = i" "bb_is_exit (unlink_block a bbs ! i) \<longleftrightarrow> i = length bbs - 1"
      "bb_succs (unlink_block a bbs ! i) \<subseteq> {..<length bbs}"
      using nth[OF i] graph_okD(2,3,5)[OF assms(1) i] by auto
    have "i \<in> bb_succs (unlink_block a bbs ! j) \<longleftrightarrow> j \<noteq> a \<and> i \<in> bb_succs (bbs ! j)" if "j < length bbs" for j
      using nth[OF that] by auto
    then show "bb_preds (unlink_block a bbs ! i) = {j. j < length bbs \<and> i \<in> bb_succs (unlink_block a bbs ! j)}"
      using nth[OF i] graph_okD(4)[OF assms(1) i] by auto
  next
    show "2 \<le> length bbs" by (rule graph_okD(1)[OF assms(1)])
    show "bb_succs (unlink_block a bbs ! (length bbs - 1)) = {}"
      using nth[of "length bbs - 1"] graph_okD(1,6)[OF assms(1)] by simp
  qed
  then show ?thesis using len by (auto simp: unlink_block_def)
qed

lemma break_targets_less:
  "blocks_ok f \<Longrightarrow> break_targets f i pI = Some ts \<Longrightarrow> \<forall>t \<in> set ts. t < length (fi_basic_blocks f)"
  by (auto simp: break_targets_def target_block_def split: bind_splits if_splits dest: block_at_less)

lemma connect_break_ok:
  assumes "blocks_ok f" "connect_break (m, f) i = Some (m1, f1)"
  shows "blocks_ok f1 \<and> length (fi_basic_blocks f1) = length (fi_basic_blocks f)"
proof (cases "f1 = f")
  case True
  then show ?thesis using assms by simp
next
  case False
  let ?a = "bb_id (fi_basic_blocks f ! i)"
  let ?f = "f\<lparr>fi_basic_blocks := unlink_block ?a (fi_basic_blocks f)\<rparr>"
  obtain pI ts where ts: "i < length (fi_basic_blocks f)" "\<not> bb_is_exit (fi_basic_blocks f ! i)"
    "break_targets ?f i pI = Some ts"
    "f1 = ?f\<lparr>fi_basic_blocks := fold (add_edge ?a) ts (fi_basic_blocks ?f)\<rparr>"
    using assms(2) False by (auto simp: connect_break_def Let_def split: bind_splits if_splits)
  have g: "graph_ok (fi_basic_blocks f)" using assms(1) by (simp add: blocks_ok_def)
  have a: "?a = i" "i < length (fi_basic_blocks f) - 1"
    using ts(1,2) graph_okD(2,5)[OF g ts(1)] by auto
  note u = unlink_block_ok[OF g ts(1)]
  have f: "blocks_ok ?f" using blocks_ok_edges[OF assms(1)] u a(1) by simp
  have "graph_ok (fold (add_edge i) ts (fi_basic_blocks ?f)) \<and>
      length (fold (add_edge i) ts (fi_basic_blocks ?f)) = length (fi_basic_blocks ?f)"
    by (rule graph_ok_add_edges) (use u a f break_targets_less[OF f ts(3)] in \<open>auto simp: blocks_ok_def\<close>)
  then show ?thesis using blocks_ok_edges[OF f] add_edge_ends ts(4) a(1) u by simp
qed

lemma connect_break_targets_ok:
  assumes "blocks_ok f" "connect_break_targets f = Some (m, f1)"
  shows "blocks_ok f1"
proof -
  have "blocks_ok (snd (m, f1))"
    by (rule run_calls_invariant[OF assms(2)[unfolded connect_break_targets_def], where P = "\<lambda>r. blocks_ok (snd r)"])
      (use assms(1) in simp, use connect_break_ok in \<open>metis prod.collapse\<close>)
  then show ?thesis by simp
qed

lemma pdom_loop_ok: "blocks_ok f \<longrightarrow> blocks_ok f1" if "pdom_loop f = Some f1"
proof (rule pdom_loop.raw_induct[OF _ that, of "\<lambda>f f1. blocks_ok f \<longrightarrow> blocks_ok f1"])
  fix loop :: "function_info \<Rightarrow> function_info option" and f f1
  assume IH: "\<And>f f1. loop f = Some f1 \<Longrightarrow> blocks_ok f \<longrightarrow> blocks_ok f1"
    and step: "do { f \<leftarrow> find_dominators f; f \<leftarrow> find_idominators f; (modified, f) \<leftarrow> connect_break_targets f;
      (if modified then loop f else Some f) } = Some f1"
  show "blocks_ok f \<longrightarrow> blocks_ok f1"
  proof
    assume f: "blocks_ok f"
    obtain g h m k where *: "find_dominators f = Some g" "find_idominators g = Some h"
      "connect_break_targets h = Some (m, k)" "(if m then loop k else Some k) = Some f1"
      using step by (auto split: bind_splits)
    have "blocks_ok k"
      using connect_break_targets_ok[OF analyses_keep_blocks(2)[OF analyses_keep_blocks(1)[OF f *(1)] *(2)] *(3)] .
    then show "blocks_ok f1" using *(4) IH by (auto split: if_splits)
  qed
qed

lemma pdom_analysis_ok:
  assumes "pdom_analysis f = Some f1"
  shows "blocks_ok f1"
proof -
  obtain a b c d where *: "create_basic_blocks f = Some a" "connect_basic_blocks a = Some b" "pdom_loop b = Some c"
    "find_postdominators c = Some d" "find_ipostdominators d = Some f1"
    using assms by (auto simp: pdom_analysis_def split: bind_splits)
  have "blocks_ok c"
    using pdom_loop_ok[OF *(3)] connect_basic_blocks_ok[OF create_basic_blocks_ok[OF *(1)] *(2)] by simp
  then show ?thesis using analyses_keep_blocks(3,4) *(4,5) by blast
qed

end
