(* ===== verification/Flow_Props.thy ===== *)
theory Flow_Props
  imports Reconvergence
begin

section \<open>What the flow analyses compute\<close>

text \<open>
  The properties of the flow graph: assembly and analysis keep it well formed, the sweeps end,
  dominators and postdominators are what the paths say, and a branch reconverges at its nearest
  postdominator. The examples at the end of each property use a function with one branch around
  one instruction.
\<close>

subsection \<open>Reading the pairs\<close>

lemma run_count:
  assumes "\<And>i. i \<in> set js \<Longrightarrow> ends_in_branch f i = Some (B i)"
  shows "run_calls (\<lambda>c i. do { b \<leftarrow> ends_in_branch f i; Some (if b then c + 1 else c) }) c js =
    Some (c + length (filter B js))"
  using assms by (induction js arbitrary: c) auto

lemma run_pairs:
  assumes "\<And>i. i \<in> set js \<Longrightarrow> ends_in_branch f i = Some (B i)"
    "\<And>i. i \<in> set js \<Longrightarrow> B i \<Longrightarrow> recon_pair f i = Some (R i)"
  shows "run_calls (\<lambda>rs i. do { b \<leftarrow> ends_in_branch f i;
      (if b then do { r \<leftarrow> recon_pair f i; Some (rs @ [r]) } else Some rs) }) rs js =
    Some (rs @ map R (filter B js))"
  using assms by (induction js arbitrary: rs) auto

lemma converge_point_eq:
  assumes "\<And>i. i < length (fi_basic_blocks f) - 1 \<Longrightarrow> ends_in_branch f i = Some (B i)"
    "\<And>i. i < length (fi_basic_blocks f) - 1 \<Longrightarrow> B i \<Longrightarrow> recon_pair f i = Some (R i)"
    "h < length (fi_basic_blocks f) - 1" "B h"
    "\<And>i. i < length (fi_basic_blocks f) - 1 \<Longrightarrow> B i \<Longrightarrow> rp_source_pc (R i) = rp_source_pc (R h) \<Longrightarrow> i = h"
    "cs_pc_to_finfo cs (rp_source_pc (R h)) = Some (fi_uid f)" "rpts (fi_uid f) = None"
    "fi_num_reconvergence_pairs f = 0"
  shows "\<exists>f' rpts'. get_converge_point cs (rp_source_pc (R h)) f rpts = Some (rp_target_pc (R h), f', rpts')"
proof -
  let ?n = "length (fi_basic_blocks f) - 1"
  let ?rs = "map R (filter B [0..<?n])"
  have cnt: "count_branches f = Some (length ?rs)"
    unfolding count_branches_def by (subst run_count[where B = B]) (use assms(1) in auto)
  define g where "g = f\<lparr>fi_num_reconvergence_pairs := length ?rs\<rparr>"
  have g: "ends_in_branch g i = ends_in_branch f i" "recon_pair g i = recon_pair f i"
    "fi_basic_blocks g = fi_basic_blocks f" "fi_uid g = fi_uid f" for i
    by (simp_all add: g_def ends_in_branch_def block_end_insn_def recon_pair_def cong: option.case_cong)
  have prs: "get_reconvergence_pairs g = Some ?rs"
    unfolding get_reconvergence_pairs_def g(3) by (subst run_pairs[where B = B and R = R]) (use assms(1,2) g in auto)
  have "fi_basic_blocks f \<noteq> []" using assms(3) by auto
  then have num: "get_num_reconvergence_pairs f = Some (length ?rs, g)"
    using cnt assms(8) by (simp add: get_num_reconvergence_pairs_def g_def)
  have "find_reconvergence_points f rpts = Some (?rs, g, rpts(fi_uid f \<mapsto> ?rs))"
    unfolding find_reconvergence_points_def assms(7) using num prs by (simp add: g(4) Let_def)
  moreover have "List.find (\<lambda>r. rp_source_pc r = rp_source_pc (R h)) ?rs = Some (R h)"
    by (rule find_unique) (use assms(3,4,5) in auto)
  ultimately show ?thesis
    using assms(6) by (simp add: get_converge_point_def RECONVERGE_RETURN_PC_def)
qed

text \<open>The instruction that ends a block, and where a block begins: \<open>-2\<close> for the exit.\<close>

definition end_insn :: "function_info \<Rightarrow> nat \<Rightarrow> ptx_instruction" where
  "end_insn f i = fi_instructions f ! the (bb_end (fi_basic_blocks f ! i))"

definition begin_pc :: "function_info \<Rightarrow> nat \<Rightarrow> int" where
  "begin_pc f i = (case bb_begin (fi_basic_blocks f ! i) of
     Some t \<Rightarrow> int (px_PC (fi_instructions f ! t)) | None \<Rightarrow> RECONVERGE_RETURN_PC)"

lemma blocks_ok_ends:
  assumes "blocks_ok f" "i < length (fi_basic_blocks f) - 1"
  obtains k where "bb_end (fi_basic_blocks f ! i) = Some k" "k < length (fi_instructions f)"
    "fi_instructions f ! k = end_insn f i"
proof -
  have "butlast (fi_basic_blocks f) ! i \<in> set (butlast (fi_basic_blocks f))"
    using assms(2) by (intro nth_mem) simp
  then have "fi_basic_blocks f ! i \<in> set (butlast (fi_basic_blocks f))"
    using assms(2) by (simp add: nth_butlast)
  then show thesis using assms(1) that by (auto simp: blocks_ok_def ends_ok_def end_insn_def)
qed

lemma blocks_ok_begins:
  assumes "blocks_ok f" "i < length (fi_basic_blocks f)" "bb_begin (fi_basic_blocks f ! i) = Some t"
  shows "t < length (fi_instructions f)"
proof -
  have ne: "fi_basic_blocks f \<noteq> []" using assms(2) by auto
  have "i \<noteq> length (fi_basic_blocks f) - 1"
    using assms(1,3) ne by (auto simp: blocks_ok_def last_conv_nth)
  then have i: "i < length (fi_basic_blocks f) - 1" using assms(2) by simp
  then have "butlast (fi_basic_blocks f) ! i \<in> set (butlast (fi_basic_blocks f))" by (intro nth_mem) simp
  then have "fi_basic_blocks f ! i \<in> set (butlast (fi_basic_blocks f))" using i by (simp add: nth_butlast)
  then show ?thesis using assms(1,3) by (auto simp: blocks_ok_def ends_ok_def)
qed

lemma recon_pair_eq:
  assumes "blocks_ok f" "i < length (fi_basic_blocks f) - 1" "bb_ipdom (fi_basic_blocks f ! i) = Some m"
    "m < length (fi_basic_blocks f)"
  shows "\<exists>r. recon_pair f i = Some r \<and> rp_source_pc r = px_PC (end_insn f i) \<and> rp_target_pc r = begin_pc f m"
proof -
  obtain k where k: "bb_end (fi_basic_blocks f ! i) = Some k" "k < length (fi_instructions f)"
    "fi_instructions f ! k = end_insn f i"
    by (rule blocks_ok_ends[OF assms(1,2)])
  have "t < length (fi_instructions f)" if "bb_begin (fi_basic_blocks f ! m) = Some t" for t
    by (rule blocks_ok_begins[OF assms(1,4) that])
  then show ?thesis
    using k assms(2-4) by (auto simp: recon_pair_def begin_pc_def RECONVERGE_RETURN_PC_def split: option.splits)
qed

lemma shape_end_insn:
  assumes "fi_instructions g = fi_instructions f" "map bb_shape (fi_basic_blocks g) = map bb_shape (fi_basic_blocks f)"
    "i < length (fi_basic_blocks f)"
  shows "end_insn g i = end_insn f i" "begin_pc g i = begin_pc f i"
proof -
  have "length (fi_basic_blocks g) = length (fi_basic_blocks f)" using assms(2) by (rule map_eq_imp_length_eq)
  then have "bb_shape (fi_basic_blocks g ! i) = bb_shape (fi_basic_blocks f ! i)"
    using arg_cong[OF assms(2), of "\<lambda>xs. xs ! i"] assms(3) by simp
  then show "end_insn g i = end_insn f i" "begin_pc g i = begin_pc f i"
    using assms(1) by (simp_all add: end_insn_def begin_pc_def bb_shape_def cong: option.case_cong)
qed

lemma postdom_keeps:
  assumes "find_postdominators f = Some f1 \<or> find_ipostdominators f = Some f1"
  shows "fi_instructions f1 = fi_instructions f" "map bb_shape (fi_basic_blocks f1) = map bb_shape (fi_basic_blocks f)"
    "fi_uid f1 = fi_uid f" "fi_num_reconvergence_pairs f1 = fi_num_reconvergence_pairs f"
  using assms
  by (auto simp: find_postdominators_def find_ipostdominators_def Let_def bb_shape_def
      split: bind_splits if_splits intro!: nth_equalityI)

subsection \<open>When the whole analysis returns\<close>

lemma connect_no_break:
  assumes "\<forall>i \<in> set js. i < length (fi_basic_blocks f) \<and> (bb_is_exit (fi_basic_blocks f ! i) \<or>
    (\<exists>pI. block_end_insn f (fi_basic_blocks f ! i) = Some pI \<and> px_opcode pI \<noteq> BREAK_OP))"
  shows "run_calls connect_break (m, f) js = Some (m, f)"
  using assms by (induction js) (auto simp: connect_break_def)

lemma idom_keeps:
  assumes "find_dominators f = Some f1 \<or> find_idominators f = Some f1"
  shows "fi_instructions f1 = fi_instructions f" "map bb_shape (fi_basic_blocks f1) = map bb_shape (fi_basic_blocks f)"
  using assms
  by (auto simp: find_dominators_def find_idominators_def Let_def bb_shape_def
      split: bind_splits if_splits intro!: nth_equalityI)

lemma flow_path_shape:
  assumes "map bb_shape bbs' = map bb_shape bbs"
  shows "flow_path bbs' a xs b = flow_path bbs a xs b"
proof -
  have len: "length bbs' = length bbs" using assms by (rule map_eq_imp_length_eq)
  have "bb_succs (bbs' ! i) = bb_succs (bbs ! i)" if "i < length bbs" for i
    using arg_cong[OF assms, of "\<lambda>xs. bb_shape (bbs' ! i) = xs ! i"] that len by (simp add: bb_shape_def)
  then have "successively (\<lambda>i j. j \<in> bb_succs (bbs' ! i)) xs = successively (\<lambda>i j. j \<in> bb_succs (bbs ! i)) xs"
    if "set xs \<subseteq> {..<length bbs}"
    using that by (auto intro!: successively_cong)
  then show ?thesis unfolding flow_path_def len by blast
qed

lemma pdom_loop_no_break:
  assumes "blocks_ok f" "bb_preds (fi_basic_blocks f ! 0) = {}"
    "\<forall>i < length (fi_basic_blocks f) - 1. px_opcode (end_insn f i) \<noteq> BREAK_OP"
  shows "\<exists>f1. pdom_loop f = Some f1 \<and> fi_instructions f1 = fi_instructions f \<and>
    map bb_shape (fi_basic_blocks f1) = map bb_shape (fi_basic_blocks f)"
proof -
  have g: "graph_ok (fi_basic_blocks f)" using assms(1) by (simp add: blocks_ok_def)
  obtain f1 where f1: "find_dominators f = Some f1" using find_dominators_eq[OF g] by blast
  obtain f2 where f2: "find_idominators f1 = Some f2" using find_idominators_entry[OF g f1] assms(2) by blast
  have k: "find_dominators f = Some f1 \<or> find_idominators f = Some f1"
    "find_dominators f1 = Some f2 \<or> find_idominators f1 = Some f2" using f1 f2 by simp_all
  note shape = idom_keeps[OF k(1)] idom_keeps[OF k(2)]
  have ok2: "blocks_ok f2" using analyses_keep_blocks(1,2) assms(1) f1 f2 by blast
  have len: "length (fi_basic_blocks f2) = length (fi_basic_blocks f)"
    using map_eq_imp_length_eq[OF shape(2)] map_eq_imp_length_eq[OF shape(4)] by simp
  have "bb_is_exit (fi_basic_blocks f2 ! i) \<or>
      (\<exists>pI. block_end_insn f2 (fi_basic_blocks f2 ! i) = Some pI \<and> px_opcode pI \<noteq> BREAK_OP)"
    if i: "i < length (fi_basic_blocks f2)" for i
  proof (cases "i < length (fi_basic_blocks f2) - 1")
    case True
    obtain k where "bb_end (fi_basic_blocks f2 ! i) = Some k" "k < length (fi_instructions f2)"
      "fi_instructions f2 ! k = end_insn f2 i"
      by (rule blocks_ok_ends[OF ok2 True])
    moreover have "end_insn f2 i = end_insn f i"
      using shape_end_insn(1)[of f2 f i] shape i len by simp
    ultimately show ?thesis using assms(3) True len by (auto simp: block_end_insn_def)
  next
    case False
    then show ?thesis using graph_okD(5)[of "fi_basic_blocks f2" i] ok2 i by (auto simp: blocks_ok_def)
  qed
  then have "connect_break_targets f2 = Some (False, f2)"
    unfolding connect_break_targets_def by (intro connect_no_break) simp
  then have "pdom_loop f = Some f2" using f1 f2 by (simp add: pdom_loop.simps)
  then show ?thesis using shape by simp
qed

lemma pdom_analysis_returns:
  assumes "create_basic_blocks f = Some a" "connect_basic_blocks a = Some b"
    "bb_preds (fi_basic_blocks b ! 0) = {}"
    "\<forall>i < length (fi_basic_blocks b) - 1. px_opcode (end_insn b i) \<noteq> BREAK_OP"
    "\<forall>i < length (fi_basic_blocks b). \<exists>xs. flow_path (fi_basic_blocks b) i xs (length (fi_basic_blocks b) - 1)"
  shows "\<exists>f1. pdom_analysis f = Some f1"
proof -
  have b: "blocks_ok b" using connect_basic_blocks_ok[OF create_basic_blocks_ok[OF assms(1)] assms(2)] .
  obtain c where c: "pdom_loop b = Some c" "map bb_shape (fi_basic_blocks c) = map bb_shape (fi_basic_blocks b)"
    using pdom_loop_no_break[OF b assms(3,4)] by blast
  have ok: "blocks_ok c" using pdom_loop_ok[OF c(1)] b by simp
  then have g: "graph_ok (fi_basic_blocks c)" by (simp add: blocks_ok_def)
  obtain d where d: "find_postdominators c = Some d" using find_postdominators_eq[OF g] by blast
  have "\<forall>i < length (fi_basic_blocks c). \<exists>xs. flow_path (fi_basic_blocks c) i xs (length (fi_basic_blocks c) - 1)"
    using assms(5) flow_path_shape[OF c(2)] map_eq_imp_length_eq[OF c(2)] by simp
  from find_ipostdominators_nearest[OF g d this] show ?thesis
    using assms(1,2) c(1) d by (auto simp: pdom_analysis_def)
qed

subsection \<open>The properties\<close>

text \<open>C35. Whatever a function looks like, when the analysis returns, its flow graph is well formed:
  ids are places, the edges agree at both ends and stay within the function, the exit comes last
  and leads nowhere, and every other block begins and ends at instructions of the function.\<close>

theorem pdom_analysis_well_formed:
  assumes "pdom_analysis f = Some f1"
  shows "blocks_ok f1"
  by (rule pdom_analysis_ok[OF assms])


text \<open>C38. \<open>find_dominators\<close> computes dominance: block \<open>d\<close> is in the set of block \<open>h\<close> exactly when
  every path from the entry to \<open>h\<close> goes through \<open>d\<close>; blocks without predecessors other than
  the entry have the empty set.\<close>

theorem find_dominators_correct:
  assumes "graph_ok (fi_basic_blocks f)" "h < length (fi_basic_blocks f)"
  shows "\<exists>f1. find_dominators f = Some f1 \<and> bb_dominators (fi_basic_blocks f1 ! h) =
    (if h \<noteq> 0 \<and> bb_preds (fi_basic_blocks f ! h) = {} then {}
     else {d. d < length (fi_basic_blocks f) \<and> (\<forall>xs. flow_path (fi_basic_blocks f) 0 xs h \<longrightarrow> d \<in> set xs)})"
  using find_dominators_eq[OF assms(1)] assms(2) by (cases "h = 0") (simp_all add: dominates_def)

text \<open>C40. \<open>find_idominators\<close> fails its assertion exactly when the entry block has a predecessor:
  a function whose first block is the head of a loop cannot be analysed.\<close>

theorem idominators_need_entry:
  assumes "graph_ok (fi_basic_blocks f)" "find_dominators f = Some f1"
  shows "find_idominators f1 = None \<longleftrightarrow> bb_preds (fi_basic_blocks f ! 0) \<noteq> {}"
  using find_idominators_entry[OF assms] by auto

text \<open>C39. The reconvergence point of a branch: if the exit can be reached from every block and no two
  blocks end with instructions of one address, \<open>get_converge_point\<close> gives for the address of a branch
  the address where its nearest postdominator begins: every path from the branch to the exit
  goes through that block, and it is the first such block. It is \<open>-2\<close> if that is the exit.\<close>

theorem branch_reconverges:
  assumes "blocks_ok f" "h < length (fi_basic_blocks f) - 1" "px_opcode (end_insn f h) = BRA_OP"
    and "\<forall>i < length (fi_basic_blocks f). \<exists>xs. flow_path (fi_basic_blocks f) i xs (length (fi_basic_blocks f) - 1)"
    and "inj_on (\<lambda>i. px_PC (end_insn f i)) {..<length (fi_basic_blocks f) - 1}"
    and "cs_pc_to_finfo cs (px_PC (end_insn f h)) = Some (fi_uid f)" "rpts (fi_uid f) = None"
    and "fi_num_reconvergence_pairs f = 0"
  shows "\<exists>f1 f2 f3 rpts' m. find_postdominators f = Some f1 \<and> find_ipostdominators f1 = Some f2 \<and>
    nearest_postdominator (fi_basic_blocks f) m h \<and>
    get_converge_point cs (px_PC (end_insn f h)) f2 rpts = Some (begin_pc f m, f3, rpts')"
proof -
  let ?n = "length (fi_basic_blocks f)"
  have g: "graph_ok (fi_basic_blocks f)" using assms(1) by (simp add: blocks_ok_def)
  obtain f1 where f1: "find_postdominators f = Some f1" using find_postdominators_eq[OF g] by blast
  obtain f2 where f2: "find_ipostdominators f1 = Some f2" "length (fi_basic_blocks f2) = ?n"
    "\<forall>h < ?n - 1. \<exists>m. bb_ipdom (fi_basic_blocks f2 ! h) = Some m \<and> nearest_postdominator (fi_basic_blocks f) m h"
    using find_ipostdominators_nearest[OF g f1 assms(4)] by blast
  have ok2: "blocks_ok f2" using analyses_keep_blocks(3,4) assms(1) f1 f2(1) by blast
  have k1: "find_postdominators f = Some f1 \<or> find_ipostdominators f = Some f1" using f1 by simp
  have k2: "find_postdominators f1 = Some f2 \<or> find_ipostdominators f1 = Some f2" using f2(1) by simp
  note keep = postdom_keeps[OF k1] postdom_keeps[OF k2]
  have shape: "fi_instructions f2 = fi_instructions f" "map bb_shape (fi_basic_blocks f2) = map bb_shape (fi_basic_blocks f)"
    using keep by simp_all
  obtain M where M: "\<And>h. h < ?n - 1 \<Longrightarrow> bb_ipdom (fi_basic_blocks f2 ! h) = Some (M h) \<and>
      nearest_postdominator (fi_basic_blocks f) (M h) h"
    using f2(3) by metis
  have "\<exists>r. recon_pair f2 i = Some r \<and> rp_source_pc r = px_PC (end_insn f i) \<and> rp_target_pc r = begin_pc f (M i)"
    if i: "i < ?n - 1" for i
  proof -
    have "M i < ?n" "i < ?n" using M[OF i] i by (simp_all add: nearest_postdominator_def)
    then show ?thesis
      using recon_pair_eq[OF ok2, of i "M i"] M[OF i] i f2(2) shape_end_insn[OF shape] by simp
  qed
  then obtain R where R: "\<And>i. i < ?n - 1 \<Longrightarrow> recon_pair f2 i = Some (R i) \<and>
      rp_source_pc (R i) = px_PC (end_insn f i) \<and> rp_target_pc (R i) = begin_pc f (M i)"
    by metis
  have ends: "ends_in_branch f2 i = Some (px_opcode (end_insn f i) = BRA_OP)" if i: "i < ?n - 1" for i
  proof -
    obtain k where "bb_end (fi_basic_blocks f2 ! i) = Some k" "k < length (fi_instructions f2)"
      "fi_instructions f2 ! k = end_insn f2 i"
      using blocks_ok_ends[OF ok2, of i] i f2(2) by auto
    then show ?thesis using i f2(2) shape_end_insn(1)[OF shape, of i]
      by (simp add: ends_in_branch_def block_end_insn_def)
  qed
  have "\<exists>f' rpts'. get_converge_point cs (rp_source_pc (R h)) f2 rpts = Some (rp_target_pc (R h), f', rpts')"
  proof (rule converge_point_eq[where B = "\<lambda>i. px_opcode (end_insn f i) = BRA_OP"])
    show "i = h" if "i < length (fi_basic_blocks f2) - 1" "rp_source_pc (R i) = rp_source_pc (R h)" for i
      using assms(2,5) that R f2(2) by (auto simp: inj_on_def)
  qed (use ends R f2(2) assms keep in auto)
  then show ?thesis using f1 f2(1) R[OF assms(2)] M[OF assms(2)] by metis
qed

subsection \<open>A function with one branch\<close>

text \<open>
  A branch around one instruction: block 0 ends with the branch at address 8, block 1 is the
  instruction at 16, block 2 the return at 24, and block 3 the exit.
\<close>

definition sample_insn :: "ptx_opcode \<Rightarrow> bool \<Rightarrow> nat \<Rightarrow> ptx_instruction" where
  "sample_insn opcode pred pc = warp_inst.extend warp_inst_init
     \<lparr>px_reconvergence_pc = -1, px_red_type = NOT_RED, px_sp_op = OTHER_OP, px_mem_op = NOT_TEX,
      px_num_operands = 0, px_num_regs = 0, px_outcount = 0, px_incount = 0, px_is_vectorin = False,
      px_is_vectorout = False, px_is_printf = False, px_PC = pc, px_m_instr_mem_index = pc,
      px_opcode = opcode, px_has_pred = pred, px_pred_reg_num = 0, px_neg_pred = 0,
      px_pred_mod = 0, px_label = None, px_operands = [], px_modifiers = modifiers_init,
      px_scalar_type = [], px_space_spec = Memory_space undefined_space 0,
      px_wmma_type = None, px_wmma_layout = []\<rparr>"

lemma sample_insn_sel [simp]:
  "px_opcode (sample_insn p b pc) = p" "px_PC (sample_insn p b pc) = pc" "px_label (sample_insn p b pc) = None"
  "px_has_pred (sample_insn p b pc) = b" "px_m_instr_mem_index (sample_insn p b pc) = pc"
  "mo_inst_size (px_modifiers (sample_insn p b pc)) = 8"
  by (simp_all add: sample_insn_def warp_inst.defs modifiers_init_def)

definition empty_function :: function_info where
  "empty_function = \<lparr>fi_uid = 0, fi_instructions = [], fi_instr_mem = [], fi_labels = Map.empty,
     fi_label_address = Map.empty, fi_start_PC = 0, fi_n = 0, fi_assembled = False, fi_basic_blocks = [],
     fi_bb = [], fi_num_reconvergence_pairs = 0\<rparr>"

definition sample_block :: "nat \<Rightarrow> nat \<Rightarrow> nat \<Rightarrow> nat set \<Rightarrow> nat set \<Rightarrow> basic_block" where
  "sample_block i b e ps ss = (basic_block_new i (Some b) (Some e) (i = 0) False)\<lparr>bb_preds := ps, bb_succs := ss\<rparr>"

definition branch_blocks :: "basic_block list" where
  "branch_blocks = [sample_block 0 0 1 {} {1, 2}, sample_block 1 2 2 {0} {2}, sample_block 2 3 3 {0, 1} {3},
     (basic_block_new 3 None None False True)\<lparr>bb_preds := {2}\<rparr>]"

definition branch_function :: function_info where
  "branch_function = empty_function\<lparr>fi_instructions := [sample_insn (Plain_OP 0) False 0,
     sample_insn BRA_OP True 8, sample_insn (Plain_OP 0) False 16, sample_insn RET_OP False 24],
     fi_basic_blocks := branch_blocks, fi_bb := [0, 0, 1, 2]\<rparr>"

lemma four: "(i::nat) < 4 \<longleftrightarrow> i = 0 \<or> i = 1 \<or> i = 2 \<or> i = 3"
  by auto

lemma all_four: "(\<forall>i<(4::nat). P i) \<longleftrightarrow> P 0 \<and> P 1 \<and> P 2 \<and> P 3"
  by (auto simp: four)

lemma branch_blocks_sel:
  "length branch_blocks = 4"
  "bb_id (branch_blocks ! 0) = 0" "bb_id (branch_blocks ! 1) = 1" "bb_id (branch_blocks ! 2) = 2" "bb_id (branch_blocks ! 3) = 3"
  "bb_succs (branch_blocks ! 0) = {1, 2}" "bb_succs (branch_blocks ! 1) = {2}" "bb_succs (branch_blocks ! 2) = {3}"
  "bb_succs (branch_blocks ! 3) = {}"
  "bb_preds (branch_blocks ! 0) = {}" "bb_preds (branch_blocks ! 1) = {0}" "bb_preds (branch_blocks ! 2) = {0, 1}"
  "bb_preds (branch_blocks ! 3) = {2}"
  "bb_is_exit (branch_blocks ! 0) = False" "bb_is_exit (branch_blocks ! 1) = False" "bb_is_exit (branch_blocks ! 2) = False"
  "bb_is_exit (branch_blocks ! 3) = True"
  by (simp_all add: branch_blocks_def sample_block_def basic_block_new_def)

lemma branch_succs: "i \<in> bb_succs (branch_blocks ! j) \<longleftrightarrow>
    (j = 0 \<and> (i = 1 \<or> i = 2)) \<or> (j = 1 \<and> i = 2) \<or> (j = 2 \<and> i = 3)" if "j < 4"
  using that unfolding four by (auto simp: branch_blocks_sel[simplified])

lemma branch_graph: "graph_ok branch_blocks"
proof -
  have "{j. j < 4 \<and> i \<in> bb_succs (branch_blocks ! j)} =
    {j. (j = 0 \<and> (i = 1 \<or> i = 2)) \<or> (j = 1 \<and> i = 2) \<or> (j = 2 \<and> i = 3)}" for i
    using branch_succs by auto
  then show ?thesis
    unfolding graph_ok_def branch_blocks_sel(1) all_four by (auto simp: branch_blocks_sel branch_blocks_sel[simplified])
qed

lemma branch_ok: "blocks_ok branch_function" "fi_basic_blocks branch_function = branch_blocks" "length branch_blocks = 4"
  using branch_graph
  by (simp_all add: blocks_ok_def branch_function_def empty_function_def branch_blocks_def ends_ok_def
      sample_block_def basic_block_new_def)

lemma branch_paths: "\<exists>xs. flow_path branch_blocks i xs 3" if "i < 4" for i
proof -
  have "flow_path branch_blocks 3 [3] 3" "flow_path branch_blocks 2 [2, 3] 3" "flow_path branch_blocks 1 [1, 2, 3] 3"
    "flow_path branch_blocks 0 [0, 2, 3] 3"
    by (simp_all add: flow_path_def branch_blocks_def sample_block_def)
  then show ?thesis using that unfolding four by blast
qed

text \<open>A function of one return: its analysis returns, as the lemmas on the parts say.\<close>

definition return_function :: function_info where
  "return_function = empty_function\<lparr>fi_instructions := [sample_insn RET_OP False 0],
     fi_instr_mem := [Insn 0]\<rparr>"

lemma return_connected:
  "\<exists>f1 f2. create_basic_blocks return_function = Some f1 \<and> connect_basic_blocks f1 = Some f2 \<and>
    fi_instructions f2 = [sample_insn RET_OP False 0] \<and>
    fi_basic_blocks f2 = [sample_block 0 0 0 {} {1}, (basic_block_new 1 None None False True)\<lparr>bb_preds := {0}\<rparr>]"
proof -
  have "create_basic_blocks return_function = Some (return_function\<lparr>fi_basic_blocks :=
      [sample_block 0 0 0 {} {}, basic_block_new 1 None None False True], fi_bb := [0]\<rparr>)"
    by (simp add: create_basic_blocks_def return_function_def empty_function_def find_next_real_instruction_def
        find_leaders.simps block_step_def set_last_end_def basic_block_new_def sample_block_def Let_def)
  moreover have "connect_basic_blocks (return_function\<lparr>fi_basic_blocks :=
      [sample_block 0 0 0 {} {}, basic_block_new 1 None None False True], fi_bb := [0]\<rparr>) =
    Some (return_function\<lparr>fi_basic_blocks :=
      [sample_block 0 0 0 {} {1}, (basic_block_new 1 None None False True)\<lparr>bb_preds := {0}\<rparr>], fi_bb := [0]\<rparr>)"
    by (simp add: connect_basic_blocks_def connect_block_def return_function_def empty_function_def sample_block_def
        basic_block_new_def block_end_insn_def block_targets_def is_return_def add_edge_def Let_def numeral_2_eq_2)
  ultimately show ?thesis by (simp add: return_function_def empty_function_def)
qed

lemma return_analysis: "\<exists>f1. pdom_analysis return_function = Some f1"
proof -
  obtain a b where ab: "create_basic_blocks return_function = Some a" "connect_basic_blocks a = Some b"
    "fi_instructions b = [sample_insn RET_OP False 0]"
    "fi_basic_blocks b = [sample_block 0 0 0 {} {1}, (basic_block_new 1 None None False True)\<lparr>bb_preds := {0}\<rparr>]"
    using return_connected by blast
  have "\<exists>xs. flow_path (fi_basic_blocks b) i xs (length (fi_basic_blocks b) - 1)" if "i < length (fi_basic_blocks b)" for i
  proof -
    have "flow_path (fi_basic_blocks b) 0 [0, 1] 1" "flow_path (fi_basic_blocks b) 1 [1] 1"
      by (simp_all add: ab(4) flow_path_def sample_block_def basic_block_new_def)
    then show ?thesis using that by (cases "i = 0") (auto simp: ab(4) less_Suc_eq)
  qed
  then show ?thesis
    by (intro pdom_analysis_returns[OF ab(1,2)])
      (simp_all add: ab(3,4) end_insn_def sample_block_def basic_block_new_def)
qed

theorem pdom_analysis_well_formed_witness: "\<exists>f1. pdom_analysis return_function = Some f1 \<and> blocks_ok f1"
  using return_analysis pdom_analysis_well_formed by blast


theorem find_dominators_correct_witness:
  "\<exists>f1. find_dominators branch_function = Some f1 \<and> bb_dominators (fi_basic_blocks f1 ! 2) =
     {d. d < 4 \<and> (\<forall>xs. flow_path branch_blocks 0 xs 2 \<longrightarrow> d \<in> set xs)}"
  using find_dominators_correct[of branch_function 2] branch_graph branch_ok(2,3)
  by (simp add: branch_blocks_sel)

theorem idominators_need_entry_witness:
  "\<exists>f1. find_dominators branch_function = Some f1 \<and> find_idominators f1 \<noteq> None"
proof -
  have g: "graph_ok (fi_basic_blocks branch_function)" using branch_graph branch_ok(2) by simp
  obtain f1 where "find_dominators branch_function = Some f1" using find_dominators_eq[OF g] by blast
  then show ?thesis using idominators_need_entry[OF g] branch_ok(2) branch_blocks_sel(10) by auto
qed

theorem branch_reconverges_witness:
  "\<exists>f1 f2 f3 rpts m. find_postdominators branch_function = Some f1 \<and> find_ipostdominators f1 = Some f2 \<and>
     nearest_postdominator branch_blocks m 0 \<and>
     get_converge_point \<lparr>cs_next_pc = 32, cs_pc_to_insn = [], cs_pc_to_finfo = [8 \<mapsto> 0]\<rparr> 8 f2 Map.empty =
       Some (begin_pc branch_function m, f3, rpts)"
proof -
  have e: "end_insn branch_function i = (if i = 0 then sample_insn BRA_OP True 8 else if i = 1 then sample_insn (Plain_OP 0) False 16
      else sample_insn RET_OP False 24)" if "i < 3" for i
    using that by (auto simp: end_insn_def branch_function_def empty_function_def branch_blocks_def sample_block_def
        basic_block_new_def less_Suc_eq numeral_3_eq_3)
  have f: "fi_uid branch_function = 0" "fi_num_reconvergence_pairs branch_function = 0"
    by (simp_all add: branch_function_def empty_function_def)
  have inj: "inj_on (\<lambda>i. px_PC (end_insn branch_function i)) {..<3}"
    using e by (auto simp: inj_on_def split: if_splits)
  have "\<exists>f1 f2 f3 rpts' m. find_postdominators branch_function = Some f1 \<and> find_ipostdominators f1 = Some f2 \<and>
    nearest_postdominator (fi_basic_blocks branch_function) m 0 \<and>
    get_converge_point \<lparr>cs_next_pc = 32, cs_pc_to_insn = [], cs_pc_to_finfo = [8 \<mapsto> 0]\<rparr> (px_PC (end_insn branch_function 0))
      f2 Map.empty = Some (begin_pc branch_function m, f3, rpts')"
    by (rule branch_reconverges) (use branch_ok branch_paths e f inj in simp_all)
  then show ?thesis using e[of 0] branch_ok(2) by simp
qed

end
