(* ===== verification/Ptx_Decode.thy ===== *)
theory Ptx_Decode
  imports Reconvergence
begin

section \<open>Decoding: \<open>ptx_instruction::pre_decode\<close>\<close>

text \<open>
  How a PTX instruction becomes the \<open>inst_t\<close> that the timing model schedules
  (\<open>cuda-sim.cc\<close>): its operation class and latencies (\<open>set_opcode_and_latency\<close>), the kind of
  operands (\<open>set_fp_or_int_archop\<close>, \<open>set_mul_div_or_other_archop\<close>), the barrier
  (\<open>set_bar_type\<close>), the registers, the memory operation, and for the queue instructions the
  queue that the operand names. What the headers outside the overlay provide is the record
  \<open>decode_env\<close>: the accessors of the class, the table \<open>opcodes.def\<close>, and the latencies as the
  numbers that \<open>sscanf\<close> reads from the options; reading a number that is missing fails.
\<close>

record latency_table =
  lt_int :: "nat list"
  lt_fp :: "nat list"
  lt_dp :: "nat list"

record decode_env =
  de_type :: "ptx_instruction \<Rightarrow> scalar_type"
  de_type2 :: "ptx_instruction \<Rightarrow> scalar_type"
  de_has_memory_read :: "ptx_instruction \<Rightarrow> bool"
  de_has_memory_write :: "ptx_instruction \<Rightarrow> bool"
  de_has_dst :: "ptx_opcode \<Rightarrow> bool"
  de_latency :: latency_table
  de_init :: latency_table
  de_sfu :: "nat \<times> nat"
  de_tensor :: "nat \<times> nat"
  de_converge_point :: "nat \<Rightarrow> int option"

subsection \<open>Operation class and latency\<close>

text \<open>The switch on the type: float, double, or the integer settings.\<close>

definition typed_timing :: "decode_env \<Rightarrow> nat \<Rightarrow> scalar_type \<Rightarrow> (uarch_op_t \<times> nat \<times> nat) option" where
  "typed_timing env k t =
     (if t = F32_TYPE then do {
        l \<leftarrow> vec_at (lt_fp (de_latency env)) k; c \<leftarrow> vec_at (lt_fp (de_init env)) k; Some (SP_OP, l, c) }
      else if t = F64_TYPE \<or> t = FF64_TYPE then do {
        l \<leftarrow> vec_at (lt_dp (de_latency env)) k; c \<leftarrow> vec_at (lt_dp (de_init env)) k; Some (DP_OP, l, c) }
      else do {
        l \<leftarrow> vec_at (lt_int (de_latency env)) k; c \<leftarrow> vec_at (lt_int (de_init env)) k; Some (INTP_OP, l, c) })"

definition int_timing :: "decode_env \<Rightarrow> nat \<Rightarrow> nat \<Rightarrow> (nat \<times> nat) option" where
  "int_timing env k extra = do {
     l \<leftarrow> vec_at (lt_int (de_latency env)) k; c \<leftarrow> vec_at (lt_int (de_init env)) k;
     Some (l + extra, c + extra) }"

text \<open>Operations without timings of their own: one cycle.\<close>

definition plain_class :: "decode_env \<Rightarrow> ptx_instruction \<Rightarrow> (uarch_op_t \<times> mem_operation_t) option" where
  "plain_class env i =
     (let p = px_opcode i in
      if p = MOV_OP then do {
        assert_that (\<not> (de_has_memory_read env i \<and> de_has_memory_write env i));
        Some (if de_has_memory_write env i then STORE_OP
              else if de_has_memory_read env i then LOAD_OP else ALU_OP, NOT_TEX)
      }
      else if p \<in> {LD_OP, LDU_OP, ATOM_OP} then Some (LOAD_OP, NOT_TEX)
      else if p = MMA_LD_OP then Some (TENSOR_CORE_LOAD_OP, NOT_TEX)
      else if p = ST_OP then Some (STORE_OP, NOT_TEX)
      else if p = MMA_ST_OP then Some (TENSOR_CORE_STORE_OP, NOT_TEX)
      else if p \<in> {BRA_OP, BREAKADDR_OP} then Some (BRANCH_OP, NOT_TEX)
      else if p = TEX_OP then Some (LOAD_OP, TEX)
      else if p \<in> {BAR_OP, SST_OP} then Some (BARRIER_OP, NOT_TEX)
      else if p = MEMBAR_OP then Some (MEMORY_BARRIER_OP, NOT_TEX)
      else if p \<in> {CALL_OP, CALLP_OP}
        then Some (if px_is_printf i \<or> wi_is_cdp i \<noteq> 0 then ALU_OP else CALL_OPS, NOT_TEX)
      else if p \<in> {RET_OP, RETP_OP} then Some (RET_OPS, NOT_TEX)
      else Some (ALU_OP, NOT_TEX))"

definition op_timing :: "decode_env \<Rightarrow> ptx_instruction \<Rightarrow> (uarch_op_t \<times> mem_operation_t \<times> nat \<times> nat) option" where
  "op_timing env i =
     (let p = px_opcode i; t = de_type env i;
          typed = (\<lambda>k. do { (c, l, n) \<leftarrow> typed_timing env k t; Some (c, NOT_TEX, l, n) })
      in if p \<in> {ADD_OP, ADDP_OP, ADDC_OP, SUB_OP, SUBC_OP} then typed 0
         else if p \<in> {MAX_OP, MIN_OP} then typed 1
         else if p = MUL_OP then typed 2
         else if p \<in> {MAD_OP, MADC_OP, MADP_OP, FMA_OP} then typed 3
         else if p = MUL24_OP then do { (l, n) \<leftarrow> int_timing env 2 1; Some (INTP_OP, NOT_TEX, l, n) }
         else if p = MAD24_OP then do { (l, n) \<leftarrow> int_timing env 3 1; Some (INTP_OP, NOT_TEX, l, n) }
         else if p \<in> {DIV_OP, REM_OP} then do { (c, l, n) \<leftarrow> typed_timing env 4 t; Some (SFU_OP, NOT_TEX, l, n) }
         else if p \<in> {SQRT_OP, SIN_OP, COS_OP, EX2_OP, LG2_OP, RSQRT_OP, RCP_OP}
           then Some (SFU_OP, NOT_TEX, fst (de_sfu env), snd (de_sfu env))
         else if p = MMA_OP then Some (TENSOR_CORE_OP, NOT_TEX, fst (de_tensor env), snd (de_tensor env))
         else if p = SHFL_OP then do { (l, n) \<leftarrow> int_timing env 5 0; Some (ALU_OP, NOT_TEX, l, n) }
         else do { (c, m) \<leftarrow> plain_class env i; Some (c, m, 1, 1) })"

text \<open>Opcodes without an operation on data.\<close>

definition no_data_op :: "ptx_opcode \<Rightarrow> bool" where
  "no_data_op p \<longleftrightarrow> p \<in> {MEMBAR_OP, SSY_OP, BRA_OP, BAR_OP, RET_OP, RETP_OP, NOP_OP, EXIT_OP, CALLP_OP, CALL_OP}"

definition is_float_type :: "scalar_type \<Rightarrow> bool" where
  "is_float_type t \<longleftrightarrow> t \<in> {F16_TYPE, F32_TYPE, F64_TYPE, FF64_TYPE}"

definition set_fp_or_int_archop :: "decode_env \<Rightarrow> ptx_instruction \<Rightarrow> types_of_operands" where
  "set_fp_or_int_archop env i =
     (if no_data_op (px_opcode i) then UN_OP
      else if px_opcode i \<in> {CVT_OP, SET_OP, SLCT_OP} then
        (if is_float_type (de_type2 env i) then FP_OP else INT_OP)
      else if is_float_type (de_type env i) then FP_OP else INT_OP)"

definition float_sp_op :: "special_operations_t \<Rightarrow> special_operations_t \<Rightarrow> special_operations_t \<Rightarrow>
    ptx_opcode \<Rightarrow> special_operations_t" where
  "float_sp_op mul quot other p =
     (if p \<in> {MUL_OP, MAD_OP, FMA_OP} then mul
      else if p \<in> {DIV_OP, REM_OP, RCP_OP} then quot
      else if p = LG2_OP then FP_LG_OP
      else if p \<in> {RSQRT_OP, SQRT_OP} then FP_SQRT_OP
      else if p \<in> {SIN_OP, COS_OP} then FP_SIN_OP
      else if p = EX2_OP then FP_EXP_OP
      else if p = MMA_OP then TENSOR__OP
      else if p = TEX_OP then TEX__OP
      else other)"

definition set_mul_div_or_other_archop :: "decode_env \<Rightarrow> ptx_instruction \<Rightarrow> special_operations_t" where
  "set_mul_div_or_other_archop env i =
     (let p = px_opcode i; t = de_type env i; c = wi_op i in
      if no_data_op p then OTHER_OP
      else if t \<in> {F64_TYPE, FF64_TYPE} then
        float_sp_op DP_MUL_OP DP_DIV_OP (if c = DP_OP \<or> c = ALU_OP then DP___OP else OTHER_OP) p
      else if t \<in> {F16_TYPE, F32_TYPE} then
        float_sp_op FP_MUL_OP FP_DIV_OP (if c = SP_OP \<or> c = ALU_OP then FP__OP else OTHER_OP) p
      else if p \<in> {MUL24_OP, MAD24_OP} then INT_MUL24_OP
      else if p \<in> {MUL_OP, MAD_OP, FMA_OP} then
        (if t \<in> {U32_TYPE, S32_TYPE, B32_TYPE} then INT_MUL32_OP else INT_MUL_OP)
      else if p \<in> {DIV_OP, REM_OP} then INT_DIV_OP
      else if p = MMA_OP then TENSOR__OP
      else if p = TEX_OP then TEX__OP
      else if c = INTP_OP \<or> c = ALU_OP then INT__OP
      else OTHER_OP)"

definition set_opcode_and_latency :: "decode_env \<Rightarrow> ptx_instruction \<Rightarrow> ptx_instruction option" where
  "set_opcode_and_latency env i = do {
     let ops = tl (px_operands i);
     let i = i\<lparr>px_num_operands := px_num_operands i + length ops,
       px_num_regs := px_num_regs i + length (filter (\<lambda>p. po_is_reg p \<or> po_is_vector p) ops)\<rparr>;
     (c, m, l, n) \<leftarrow> op_timing env i;
     let i = i\<lparr>wi_op := c, px_mem_op := m, wi_latency := l, wi_initiation_interval := n\<rparr>;
     let i = i\<lparr>wi_oprnd_type := set_fp_or_int_archop env i\<rparr>;
     Some (i\<lparr>px_sp_op := set_mul_div_or_other_archop env i\<rparr>)
   }"

text \<open>A reduction is \<open>popc\<close>, \<open>and\<close> or \<open>or\<close>; any other leaves the member as it was.\<close>

definition set_bar_type :: "ptx_instruction \<Rightarrow> ptx_instruction option" where
  "set_bar_type i =
     (if px_opcode i = BAR_OP then
        (case mo_barrier_op (px_modifiers i) of
           None \<Rightarrow> None
         | Some SYNC_OPTION \<Rightarrow> Some (i\<lparr>wi_bar_type := SYNC\<rparr>)
         | Some ARRIVE_OPTION \<Rightarrow> Some (i\<lparr>wi_bar_type := ARRIVE\<rparr>)
         | Some RED_OPTION \<Rightarrow> Some (i\<lparr>wi_bar_type := RED, px_red_type :=
             (case mo_atomic_spec (px_modifiers i) of
                Some ATOMIC_POPC \<Rightarrow> POPC_RED
              | Some ATOMIC_AND \<Rightarrow> AND_RED
              | Some ATOMIC_OR \<Rightarrow> OR_RED
              | _ \<Rightarrow> px_red_type i)\<rparr>))
      else if px_opcode i = SST_OP then Some (i\<lparr>wi_bar_type := SYNC\<rparr>)
      else Some i)"

subsection \<open>The queue of an operand\<close>

text \<open>A literal, or the decimal number that ends a name; a number that is no \<open>int\<close> is undefined.\<close>

definition trailing_digits :: "string \<Rightarrow> string" where
  "trailing_digits name = rev (takeWhile is_digit (rev name))"

definition wasp_queue_id_from_operand :: "operand_info \<Rightarrow> nat option" where
  "wasp_queue_id_from_operand p =
     (if po_is_literal p then Some (po_literal_u32 p)
      else if (po_is_reg p \<or> po_is_label p) \<and> trailing_digits (po_name p) \<noteq> [] then do {
        assert_that (decimal_value (trailing_digits (po_name p)) < 2 ^ 31);
        Some (decimal_value (trailing_digits (po_name p)))
      } else None)"

subsection \<open>Registers\<close>

definition cache_op_of :: "ptx_instruction \<Rightarrow> cache_operator_type" where
  "cache_op_of i =
     (case mo_cache_option (px_modifiers i) of
        Some CA_OPTION \<Rightarrow> CACHE_ALL
      | Some NC_OPTION \<Rightarrow> CACHE_L1
      | Some CG_OPTION \<Rightarrow> CACHE_GLOBAL
      | Some CS_OPTION \<Rightarrow> CACHE_STREAMING
      | Some LU_OPTION \<Rightarrow> CACHE_LAST_USE
      | Some CV_OPTION \<Rightarrow> CACHE_VOLATILE
      | Some WB_OPTION \<Rightarrow> CACHE_WRITE_BACK
      | Some WT_OPTION \<Rightarrow> CACHE_WRITE_THROUGH
      | None \<Rightarrow>
          (if px_opcode i \<in> {MMA_LD_OP, LD_OP, LDU_OP} then CACHE_ALL
           else if px_opcode i \<in> {MMA_ST_OP, ST_OP} then CACHE_WRITE_BACK
           else if px_opcode i = ATOM_OP then CACHE_GLOBAL
           else wi_cache_op i))"

definition reset_decode :: "decode_env \<Rightarrow> ptx_instruction \<Rightarrow> ptx_instruction option" where
  "reset_decode env i = do {
     let i = i\<lparr>wi_pc := of_nat (px_PC i), wi_isize := px_inst_size i,
       wi_out := replicate MAX_OUTPUT_VALUES 0, wi_in := replicate MAX_INPUT_VALUES 0,
       wi_arch_reg_src := replicate MAX_REG_OPERANDS (-1), wi_arch_reg_dst := replicate MAX_REG_OPERANDS (-1),
       wi_pred := 0, wi_ar1 := 0, wi_ar2 := 0, wi_space := px_space_spec i, wi_memory_op := no_memory_op,
       wi_data_size := 0, px_incount := 0, px_outcount := 0, px_is_vectorin := False, px_is_vectorout := False\<rparr>;
     (if de_has_memory_read env i \<or> de_has_memory_write env i then do {
        sz \<leftarrow> datatype2size (de_type env i);
        Some (i\<lparr>wi_data_size := sz,
          wi_memory_op := (if de_has_memory_read env i then memory_load else memory_store)\<rparr>)
      } else Some i)
   }"

text \<open>
  Writing the registers of a vector operand into an array from place \<open>m\<close> on. Only the first
  eight elements of a vector have register numbers.
\<close>

definition put_regs :: "nat \<Rightarrow> 'r list \<Rightarrow> 'r list \<Rightarrow> 'r list option" where
  "put_regs m rs arr = run_calls (\<lambda>a (k, r). vec_set a (m + k) r) arr (zip [0..<length rs] rs)"

definition decode_dst :: "operand_info \<Rightarrow> ptx_instruction \<Rightarrow> ptx_instruction option" where
  "decode_dst p i =
     (if po_is_reg p \<and> \<not> po_is_non_arch_reg p then
        Some (i\<lparr>wi_out := (wi_out i)[0 := po_reg_num p], wi_arch_reg_dst := (wi_arch_reg_dst i)[0 := po_arch_reg_num p]\<rparr>)
      else if po_is_vector p then do {
        outs \<leftarrow> put_regs 0 (take 8 (po_vect_regs p)) (wi_out i);
        dsts \<leftarrow> put_regs 0 (po_vect_arch_regs p) (wi_arch_reg_dst i);
        Some (i\<lparr>px_is_vectorin := True, wi_out := outs, wi_arch_reg_dst := dsts\<rparr>)
      } else Some i)"

definition decode_src :: "operand_info \<Rightarrow> nat \<times> ptx_instruction \<Rightarrow> (nat \<times> ptx_instruction) option" where
  "decode_src p = (\<lambda>(m, i).
     (if po_is_reg p \<and> \<not> po_is_non_arch_reg p then do {
        srcs \<leftarrow> vec_set (wi_arch_reg_src i) m (po_arch_reg_num p);
        Some (m + 1, i\<lparr>wi_arch_reg_src := srcs,
          wi_in := (if m < 3 then (wi_in i)[m := po_reg_num p] else wi_in i)\<rparr>)
      } else if po_is_vector p then do {
        ins \<leftarrow> put_regs m (take 8 (po_vect_regs p)) (wi_in i);
        srcs \<leftarrow> put_regs m (po_vect_arch_regs p) (wi_arch_reg_src i);
        Some (m + length (po_vect_regs p), i\<lparr>px_is_vectorout := True, wi_in := ins, wi_arch_reg_src := srcs\<rparr>)
      } else Some (m, i)))"

definition decode_operands :: "decode_env \<Rightarrow> ptx_instruction \<Rightarrow> ptx_instruction option" where
  "decode_operands env i = do {
     let ops = px_operands i;
     let dst = (de_has_dst env (px_opcode i) \<and> ops \<noteq> []);
     i \<leftarrow> (if dst then decode_dst (hd ops) i else Some i);
     (_, i) \<leftarrow> run_calls (\<lambda>s p. decode_src p s) (0, i) (if dst then tl ops else ops);
     Some (i\<lparr>px_outcount := length (filter (\<lambda>r. r > 0) (wi_out i)),
       px_incount := length (filter (\<lambda>r. r > 0) (wi_in i))\<rparr>)
   }"

subsection \<open>Queues, addresses and reconvergence\<close>

definition queue_operand_id :: "bool \<Rightarrow> ptx_instruction \<Rightarrow> nat option" where
  "queue_operand_id load i = do {
     p \<leftarrow> vec_at (px_operands i) (if load then 0 else 1);
     wasp_queue_id_from_operand p
   }"

definition decode_queues :: "ptx_instruction \<Rightarrow> ptx_instruction option" where
  "decode_queues i = do {
     i \<leftarrow> (if wi_rfq_load i \<or> wi_rfq_move i
           then do { q \<leftarrow> queue_operand_id (wi_rfq_load i) i; Some (i\<lparr>wi_rfq_queue_id := q\<rparr>) } else Some i);
     i \<leftarrow> (if wi_smemq_load i \<or> wi_smemq_move i
           then do { q \<leftarrow> queue_operand_id (wi_smemq_load i) i; Some (i\<lparr>wi_smemq_queue_id := q\<rparr>) } else Some i);
     Some (if wi_rfq_load i \<or> wi_smemq_load i
           then i\<lparr>wi_out := replicate MAX_OUTPUT_VALUES 0, wi_arch_reg_dst := replicate MAX_REG_OPERANDS (-1),
             px_outcount := 0\<rparr>
           else i)
   }"

text \<open>The address registers of a memory operand.\<close>

definition decode_address :: "ptx_instruction \<Rightarrow> operand_info \<Rightarrow> ptx_instruction option" where
  "decode_address i p =
     (if \<not> po_is_memory_operand p then Some i
      else do {
        assert_that (\<not> po_is_non_arch_reg p);
        Some (if po_is_memory_operand2 p then
            (if po_double_operand_type p \<in> {0, 3} then
               i\<lparr>wi_ar1 := int (po_reg_num p), wi_arch_reg_src := (wi_arch_reg_src i)[4 := po_arch_reg_num p]\<rparr>
             else if po_double_operand_type p \<in> {1, 2} then
               i\<lparr>wi_ar1 := int (po_reg1_num p), wi_ar2 := int (po_reg2_num p),
                 wi_arch_reg_src := (wi_arch_reg_src i)[4 := po_arch_reg_num p, 5 := po_arch_reg_num p]\<rparr>
             else i)
          else if po_is_immediate_address p then i
          else if po_symbol_is_reg p then
            i\<lparr>wi_ar1 := int (po_reg_num p), wi_arch_reg_src := (wi_arch_reg_src i)[4 := po_arch_reg_num p]\<rparr>
          else i)
      })"

definition decode_pred_address :: "decode_env \<Rightarrow> ptx_instruction \<Rightarrow> ptx_instruction option" where
  "decode_pred_address env i =
     (let i = (if px_has_pred i then i\<lparr>wi_pred := int (px_pred_reg_num i)\<rparr> else i)
      in if de_has_memory_read env i \<or> de_has_memory_write env i
         then run_calls decode_address i (px_operands i) else Some i)"

definition pre_decode :: "decode_env \<Rightarrow> ptx_instruction \<Rightarrow> ptx_instruction option" where
  "pre_decode env i = do {
     i \<leftarrow> reset_decode env i;
     let i = i\<lparr>wi_cache_op := cache_op_of i\<rparr>;
     i \<leftarrow> set_opcode_and_latency env i;
     i \<leftarrow> set_bar_type i;
     i \<leftarrow> decode_operands env i;
     i \<leftarrow> decode_queues i;
     i \<leftarrow> decode_pred_address env i;
     rpc \<leftarrow> de_converge_point env (px_PC i);
     Some (i\<lparr>px_reconvergence_pc := rpc, wi_decoded := True\<rparr>)
   }"

text \<open>
  \<open>do_pdom\<close>: the analysis, then the decoding of the instructions in address order. The
  reconvergence points are those of this function.
\<close>

definition decode_at :: "(function_info \<Rightarrow> decode_env) \<Rightarrow> function_info \<Rightarrow> nat \<Rightarrow> function_info option" where
  "decode_at env f k = do {
     pI \<leftarrow> vec_at (fi_instructions f) k;
     pI \<leftarrow> pre_decode (env f) pI;
     Some (f\<lparr>fi_instructions := (fi_instructions f)[k := pI]\<rparr>)
   }"

definition do_pdom :: "(function_info \<Rightarrow> decode_env) \<Rightarrow> function_info \<Rightarrow> function_info option" where
  "do_pdom env f = do {
     f \<leftarrow> pdom_analysis f;
     ks \<leftarrow> walk_insns (fi_n f) f (fi_n f) 0;
     f \<leftarrow> run_calls (decode_at env) f ks;
     Some (f\<lparr>fi_assembled := True\<rparr>)
   }"

subsection \<open>What decoding keeps\<close>

definition queue_view :: "ptx_instruction \<Rightarrow> (bool \<times> bool \<times> nat) \<times> (bool \<times> bool \<times> nat) \<times> operand_info list \<times> ptx_modifiers \<times> ptx_opcode" where
  "queue_view i = ((wi_rfq_load i, wi_rfq_move i, wi_rfq_payload_words_per_lane i),
     (wi_smemq_load i, wi_smemq_move i, wi_smemq_payload_words_per_lane i), px_operands i, px_modifiers i, px_opcode i)"

lemma reset_decode_view:
  "reset_decode env i = Some j \<Longrightarrow> queue_view j = queue_view i"
  by (auto simp: reset_decode_def queue_view_def Let_def split: bind_splits if_splits)

lemma opcode_view:
  "set_opcode_and_latency env i = Some j \<Longrightarrow> queue_view j = queue_view i \<and> wi_memory_op j = wi_memory_op i"
  by (auto simp: set_opcode_and_latency_def queue_view_def Let_def split: bind_splits)

lemma bar_type_view:
  "set_bar_type i = Some j \<Longrightarrow> queue_view j = queue_view i \<and> wi_op j = wi_op i \<and> wi_memory_op j = wi_memory_op i"
  by (auto simp: set_bar_type_def queue_view_def split: if_splits option.splits barrier_option.splits)

lemma decode_dst_view:
  "decode_dst p i = Some j \<Longrightarrow> queue_view j = queue_view i \<and> wi_op j = wi_op i \<and> wi_memory_op j = wi_memory_op i"
  by (auto simp: decode_dst_def queue_view_def split: if_splits bind_splits)

lemma decode_src_view:
  "decode_src p (m, i) = Some (n, j) \<Longrightarrow> queue_view j = queue_view i \<and> wi_op j = wi_op i \<and> wi_memory_op j = wi_memory_op i"
  by (auto simp: decode_src_def queue_view_def split: if_splits bind_splits)

lemma decode_srcs_view:
  "run_calls (\<lambda>s p. decode_src p s) (m, i) ps = Some (n, j) \<Longrightarrow>
    queue_view j = queue_view i \<and> wi_op j = wi_op i \<and> wi_memory_op j = wi_memory_op i"
  by (induction ps arbitrary: m i) (fastforce split: bind_splits dest: decode_src_view)+

lemma decode_operands_view:
  assumes "decode_operands env i = Some j"
  shows "queue_view j = queue_view i \<and> wi_op j = wi_op i \<and> wi_memory_op j = wi_memory_op i"
proof -
  obtain k m l where *: "(if de_has_dst env (px_opcode i) \<and> px_operands i \<noteq> [] then decode_dst (hd (px_operands i)) i else Some i) = Some k"
    "run_calls (\<lambda>s p. decode_src p s) (0, k)
      (if de_has_dst env (px_opcode i) \<and> px_operands i \<noteq> [] then tl (px_operands i) else px_operands i) = Some (m, l)"
    "j = l\<lparr>px_outcount := length (filter (\<lambda>r. r > 0) (wi_out l)), px_incount := length (filter (\<lambda>r. r > 0) (wi_in l))\<rparr>"
    using assms by (auto simp: decode_operands_def Let_def split: bind_splits)
  have "queue_view k = queue_view i \<and> wi_op k = wi_op i \<and> wi_memory_op k = wi_memory_op i"
    using *(1) decode_dst_view by (auto split: if_splits)
  moreover have "queue_view l = queue_view k \<and> wi_op l = wi_op k \<and> wi_memory_op l = wi_memory_op k"
    by (rule decode_srcs_view[OF *(2)])
  ultimately show ?thesis using *(3) by (simp add: queue_view_def)
qed

lemma decode_queues_view:
  "decode_queues i = Some j \<Longrightarrow> queue_view j = queue_view i \<and> wi_op j = wi_op i \<and> wi_memory_op j = wi_memory_op i"
  by (auto simp: decode_queues_def queue_view_def Let_def split: if_splits bind_splits)

lemma decode_queues_rfq:
  assumes "decode_queues i = Some j" "wi_rfq_load i \<or> wi_rfq_move i" "\<not> wi_smemq_load i"
  shows "queue_operand_id (wi_rfq_load i) i = Some (wi_rfq_queue_id j)"
    "wi_rfq_load i \<Longrightarrow> wi_out j = replicate MAX_OUTPUT_VALUES 0 \<and> px_outcount j = 0"
  using assms by (auto simp: decode_queues_def Let_def split: if_splits bind_splits)

lemma decode_address_view:
  "decode_address i p = Some j \<Longrightarrow> queue_view j = queue_view i \<and> wi_op j = wi_op i \<and> wi_memory_op j = wi_memory_op i \<and>
    wi_out j = wi_out i \<and> px_outcount j = px_outcount i \<and> wi_rfq_queue_id j = wi_rfq_queue_id i"
  by (auto simp: decode_address_def queue_view_def split: if_splits bind_splits)

lemma decode_addresses_view:
  "run_calls decode_address i ps = Some j \<Longrightarrow> queue_view j = queue_view i \<and> wi_op j = wi_op i \<and> wi_memory_op j = wi_memory_op i \<and>
    wi_out j = wi_out i \<and> px_outcount j = px_outcount i \<and> wi_rfq_queue_id j = wi_rfq_queue_id i"
  by (induction ps arbitrary: i) (auto split: bind_splits dest!: decode_address_view)

lemma decode_pred_address_view:
  "decode_pred_address env i = Some j \<Longrightarrow> queue_view j = queue_view i \<and> wi_op j = wi_op i \<and> wi_memory_op j = wi_memory_op i \<and>
    wi_out j = wi_out i \<and> px_outcount j = px_outcount i \<and> wi_rfq_queue_id j = wi_rfq_queue_id i"
  unfolding decode_pred_address_def Let_def
  by (cases "px_has_pred i") (auto split: if_splits dest!: decode_addresses_view simp: queue_view_def)

lemma reset_decode_memory:
  "reset_decode env i = Some j \<Longrightarrow> \<forall>k. px_opcode k = px_opcode i \<longrightarrow> de_has_memory_read env k \<Longrightarrow> wi_memory_op j = memory_load"
  by (auto simp: reset_decode_def Let_def split: bind_splits if_splits)

lemma opcode_class_of_ld:
  "set_opcode_and_latency env i = Some j \<Longrightarrow> px_opcode i = LD_OP \<Longrightarrow> wi_op j = LOAD_OP"
  by (auto simp: set_opcode_and_latency_def op_timing_def plain_class_def Let_def split: bind_splits)

text \<open>The steps of \<open>pre_decode\<close>, and what holds after the last one.\<close>

lemma pre_decode_view:
  assumes "pre_decode env i = Some d"
  obtains a b c e g where "reset_decode env i = Some a" "set_opcode_and_latency env (a\<lparr>wi_cache_op := cache_op_of a\<rparr>) = Some b"
    "set_bar_type b = Some c" "decode_operands env c = Some e" "decode_queues e = Some g"
    "queue_view d = queue_view g \<and> wi_op d = wi_op g \<and> wi_memory_op d = wi_memory_op g \<and> wi_out d = wi_out g \<and>
      px_outcount d = px_outcount g \<and> wi_rfq_queue_id d = wi_rfq_queue_id g"
proof -
  obtain a b c e g h where *: "reset_decode env i = Some a" "set_opcode_and_latency env (a\<lparr>wi_cache_op := cache_op_of a\<rparr>) = Some b"
    "set_bar_type b = Some c" "decode_operands env c = Some e" "decode_queues e = Some g"
    "decode_pred_address env g = Some h" "\<exists>rpc. d = h\<lparr>px_reconvergence_pc := rpc, wi_decoded := True\<rparr>"
    using assms by (auto simp: pre_decode_def Let_def split: bind_splits) blast
  have "queue_view h = queue_view g \<and> wi_op h = wi_op g \<and> wi_memory_op h = wi_memory_op g \<and> wi_out h = wi_out g \<and>
      px_outcount h = px_outcount g \<and> wi_rfq_queue_id h = wi_rfq_queue_id g"
    by (rule decode_pred_address_view[OF *(6)])
  then show thesis using that *(1-5,7) by (auto simp: queue_view_def)
qed

subsection \<open>Queue instructions\<close>

lemma apply_option_saw:
  "apply_option m x = Some m' \<Longrightarrow> mo_saw_rfq_option m' = (mo_saw_rfq_option m \<or> x = RFQ_OPTION)"
  by (cases x) (auto simp: apply_compare_def split: if_splits bind_splits)

lemma run_options_saw:
  "run_calls apply_option m xs = Some m' \<Longrightarrow> mo_saw_rfq_option m' = (mo_saw_rfq_option m \<or> RFQ_OPTION \<in> set xs)"
  by (induction xs arbitrary: m) (auto split: bind_splits simp: apply_option_saw)

lemma base_view: "queue_view (ptx_inst_base a ops m w) = ((False, False, 0), (False, False, 0), ops, m, pa_opcode a)"
  by (simp add: queue_view_def ptx_inst_base_def warp_inst.defs warp_inst_init_def)

lemma new_rfq_view:
  assumes "ptx_instruction_new to_float a = Some i" "RFQ_OPTION \<in> set (pa_options a)"
  shows "\<exists>ops m. (pa_opcode a = LD_OP \<or> pa_opcode a = MOV_OP) \<and> queue_view i =
    ((pa_opcode a = LD_OP, pa_opcode a = MOV_OP, queue_payload_words m), (False, False, 0), ops, m, pa_opcode a)"
proof -
  obtain ops w m j k where *: "run_calls apply_option modifiers_init (pa_options a) = Some m"
    "set_rfq_members (pa_opcode a) m (ptx_inst_base a ops m w) = Some j" "set_smemq_members (pa_opcode a) m j = Some k"
    "set_call_members a k = Some i"
    using assms(1) by (auto simp: ptx_instruction_new_def split: bind_splits)
  have "mo_saw_rfq_option m" using run_options_saw[OF *(1)] assms(2) by simp
  then have j: "\<not> mo_saw_smemq_option m" "pa_opcode a = LD_OP \<or> pa_opcode a = MOV_OP"
    "j = (ptx_inst_base a ops m w)\<lparr>wi_rfq_load := (pa_opcode a = LD_OP), wi_rfq_move := (pa_opcode a = MOV_OP),
      wi_rfq_payload_words_per_lane := queue_payload_words m\<rparr>"
    using *(2) by (auto simp: set_rfq_members_def split: if_splits)
  then have "i = j" using *(3,4) by (auto simp: set_smemq_members_def set_call_members_def)
  then show ?thesis using j base_view[of a ops m w] by (auto simp: queue_view_def)
qed

text \<open>C37. A queue instruction is decoded as the pipeline expects it. An instruction with the option
  \<open>.rfq\<close> is a load or a move. The load becomes a memory load whose queue is the one its first operand
  names, and it writes no register, so that nothing waits for its result in the scoreboard; the
  move pops the queue that its second operand names. Both carry three words per lane when the
  vector is \<open>.v3\<close>, one otherwise.\<close>

theorem rfq_instruction_decoded:
  assumes "ptx_instruction_new to_float a = Some i" "RFQ_OPTION \<in> set (pa_options a)" "pre_decode env i = Some d"
    and ld_reads: "\<forall>k. px_opcode k = LD_OP \<longrightarrow> de_has_memory_read env k"
  shows "(pa_opcode a = LD_OP \<and> wi_rfq_load d \<and> \<not> wi_rfq_move d \<and> wi_op d = LOAD_OP \<and> wi_memory_op d = memory_load \<and>
      wi_out d = replicate MAX_OUTPUT_VALUES 0 \<and> px_outcount d = 0 \<and> queue_operand_id True d = Some (wi_rfq_queue_id d)
    \<or> pa_opcode a = MOV_OP \<and> wi_rfq_move d \<and> \<not> wi_rfq_load d \<and> queue_operand_id False d = Some (wi_rfq_queue_id d)) \<and>
    \<not> wi_smemq_load d \<and> \<not> wi_smemq_move d \<and>
    wi_rfq_payload_words_per_lane d = (if mo_vector_spec (px_modifiers d) = Some V3_TYPE then 3 else 1)"
proof -
  obtain ops m where v: "pa_opcode a = LD_OP \<or> pa_opcode a = MOV_OP" "queue_view i =
    ((pa_opcode a = LD_OP, pa_opcode a = MOV_OP, queue_payload_words m), (False, False, 0), ops, m, pa_opcode a)"
    using new_rfq_view[OF assms(1,2)] by blast
  obtain p b c e g where *: "reset_decode env i = Some p" "set_opcode_and_latency env (p\<lparr>wi_cache_op := cache_op_of p\<rparr>) = Some b"
    "set_bar_type b = Some c" "decode_operands env c = Some e" "decode_queues e = Some g"
    "queue_view d = queue_view g \<and> wi_op d = wi_op g \<and> wi_memory_op d = wi_memory_op g \<and> wi_out d = wi_out g \<and>
      px_outcount d = px_outcount g \<and> wi_rfq_queue_id d = wi_rfq_queue_id g"
    using pre_decode_view[OF assms(3)] by metis
  have views: "queue_view p = queue_view i" "queue_view b = queue_view i" "queue_view e = queue_view i" "queue_view d = queue_view i"
    "wi_op e = wi_op b" "wi_memory_op e = wi_memory_op p" "wi_op d = wi_op e" "wi_memory_op d = wi_memory_op e"
    using reset_decode_view[OF *(1)] opcode_view[OF *(2)] bar_type_view[OF *(3)] decode_operands_view[OF *(4)]
      decode_queues_view[OF *(5)] *(6) by (simp_all add: queue_view_def)
  have q: "queue_operand_id (wi_rfq_load e) e = Some (wi_rfq_queue_id d)"
    "wi_rfq_load e \<Longrightarrow> wi_out d = replicate MAX_OUTPUT_VALUES 0 \<and> px_outcount d = 0"
    using decode_queues_rfq[OF *(5)] views(3) v *(6) by (auto simp: queue_view_def)
  moreover have "queue_operand_id l e = queue_operand_id l d" for l
    using views(3,4) by (simp add: queue_operand_id_def queue_view_def)
  moreover have "wi_op d = LOAD_OP" "wi_memory_op d = memory_load" if "pa_opcode a = LD_OP"
  proof -
    have "px_opcode p = LD_OP" using views(1) v(2) that by (simp add: queue_view_def)
    then show "wi_op d = LOAD_OP" using opcode_class_of_ld[OF *(2)] views by simp
    show "wi_memory_op d = memory_load"
      using reset_decode_memory[OF *(1)] ld_reads views v(2) that by (simp add: queue_view_def)
  qed
  ultimately show ?thesis using views(3,4) v by (auto simp: queue_view_def queue_payload_words_def)
qed

text \<open>The load \<open>ld.rfq.v3.f32 5, ...\<close>, with the queue as a literal.\<close>

definition literal_operand :: "nat \<Rightarrow> operand_info" where
  "literal_operand v = \<lparr>po_is_literal = True, po_literal_u32 = v, po_is_double_literal = False, po_is_reg = False,
     po_is_label = False, po_name = [], po_is_non_arch_reg = False, po_reg_num = 0, po_arch_reg_num = 0,
     po_is_vector = False, po_vect_regs = [], po_vect_arch_regs = [], po_addr_space = undefined_space,
     po_is_memory_operand = False, po_is_memory_operand2 = False, po_double_operand_type = 0,
     po_reg1_num = 0, po_reg2_num = 0, po_is_immediate_address = False, po_symbol_is_reg = False, po_function = None\<rparr>"

definition rfq_load_args :: ptx_inst_args where
  "rfq_load_args = \<lparr>pa_opcode = LD_OP, pa_pred = None, pa_neg_pred = 0, pa_pred_mod = 0, pa_label = None,
     pa_operands = [literal_operand 5], pa_options = [RFQ_OPTION, Vector_option V3_TYPE], pa_wmma_options = [],
     pa_scalar_type = [F32_TYPE], pa_space_spec = Memory_space global_space 0, pa_func = None\<rparr>"

definition sample_decode_env :: decode_env where
  "sample_decode_env = \<lparr>de_type = (\<lambda>_. F32_TYPE), de_type2 = (\<lambda>_. F32_TYPE),
     de_has_memory_read = (\<lambda>i. px_opcode i = LD_OP), de_has_memory_write = (\<lambda>i. px_opcode i = ST_OP),
     de_has_dst = (\<lambda>p. p = LD_OP), de_latency = \<lparr>lt_int = [], lt_fp = [], lt_dp = []\<rparr>,
     de_init = \<lparr>lt_int = [], lt_fp = [], lt_dp = []\<rparr>, de_sfu = (1, 1), de_tensor = (1, 1),
     de_converge_point = (\<lambda>_. Some NO_BRANCH_DIVERGENCE)\<rparr>"

lemma sample_load_new:
  "\<exists>i. ptx_instruction_new (\<lambda>p. p) rfq_load_args = Some i \<and> px_opcode i = LD_OP \<and> px_operands i = [literal_operand 5] \<and>
    px_has_pred i = False \<and> wi_rfq_load i \<and> \<not> wi_smemq_load i \<and> \<not> wi_smemq_move i"
  by (simp add: ptx_instruction_new_def rfq_load_args_def check_operands_def two_type_opcode_def set_rfq_members_def
      set_smemq_members_def set_call_members_def modifiers_init_def ptx_inst_base_def warp_inst.defs warp_inst_init_def)

lemma sample_pre_decode:
  assumes "px_opcode i = LD_OP" "px_operands i = [literal_operand 5]" "px_has_pred i = False"
    "wi_rfq_load i" "\<not> wi_smemq_load i" "\<not> wi_smemq_move i"
  shows "\<exists>d. pre_decode sample_decode_env i = Some d \<and> wi_rfq_queue_id d = 5"
  using assms
  by (simp add: pre_decode_def reset_decode_def sample_decode_env_def datatype2size_def set_opcode_and_latency_def
      op_timing_def plain_class_def set_bar_type_def decode_operands_def decode_dst_def literal_operand_def
      decode_queues_def queue_operand_id_def wasp_queue_id_from_operand_def decode_pred_address_def
      decode_address_def Let_def)

theorem rfq_instruction_decoded_witness:
  "\<exists>i d. ptx_instruction_new (\<lambda>p. p) rfq_load_args = Some i \<and> pre_decode sample_decode_env i = Some d \<and>
     wi_op d = LOAD_OP \<and> queue_operand_id True d = Some 5"
proof -
  obtain i d where i: "ptx_instruction_new (\<lambda>p. p) rfq_load_args = Some i" and
    d: "pre_decode sample_decode_env i = Some d" "wi_rfq_queue_id d = 5"
    using sample_load_new sample_pre_decode by blast
  have "RFQ_OPTION \<in> set (pa_options rfq_load_args)" "pa_opcode rfq_load_args = LD_OP"
    "\<forall>k. px_opcode k = LD_OP \<longrightarrow> de_has_memory_read sample_decode_env k"
    by (simp_all add: rfq_load_args_def sample_decode_env_def)
  with rfq_instruction_decoded[OF i _ d(1)] show ?thesis using i d by auto
qed

end
