(* ===== verification/Queue_Exec.thy ===== *)
theory Queue_Exec
  imports Queue_Issue Ptx_Decode
begin

section \<open>Functional execution of the queue instructions\<close>

text \<open>
  What a lane does when it executes a load into a queue or a move out of one
  (\<open>wasp_rfq_ld_exec\<close>, \<open>wasp_rfq_mov_exec\<close>, \<open>smemq_ld_exec\<close> and \<open>smemq_mov_exec\<close> of
  \<open>cuda-sim.cc\<close>). The value of an operand, the bytes of global memory and the accessors of the
  instruction class come from outside the overlay and are the record \<open>exec_env\<close>. A load returns
  the addresses of the lanes with the state of the core; a move returns what it writes to its
  destination.
\<close>

record exec_env =
  xe_operand_value :: "nat \<Rightarrow> operand_info \<Rightarrow> u64"
  xe_get_type :: "ptx_instruction \<Rightarrow> scalar_type"
  xe_get_space :: "ptx_instruction \<Rightarrow> memory_space_t"
  xe_get_num_operands :: "ptx_instruction \<Rightarrow> nat"
  xe_global_read :: "nat \<Rightarrow> nat \<Rightarrow> 8 word list"

subsection \<open>Addresses and data\<close>

definition wasp_rfq_effective_address :: "exec_env \<Rightarrow> ptx_instruction \<Rightarrow> nat \<Rightarrow> operand_info \<Rightarrow> nat option" where
  "wasp_rfq_effective_address env pI lane src = do {
     let addr = unat (xe_operand_value env lane src);
     let generic = (ms_type (xe_get_space env pI) = generic_space);
     let space = (if generic then whichspace addr else ms_type (xe_get_space env pI));
     let addr = (if generic \<and> space = global_space then generic_to_global addr else addr);
     assert_that (space = global_space);
     Some addr
   }"

text \<open>
  The register that is zeroed before the memory writes into it: its 64 bits are the first eight
  bytes, lowest first, those not written being 0.
\<close>

definition u64_of_bytes :: "8 word list \<Rightarrow> u64" where
  "u64_of_bytes bs = word_rcat (rev (take 8 (bs @ replicate 8 0)))"

text \<open>
  The addresses of the lanes, \<open>m_per_scalar_thread\<close>: none before the first \<open>set_addr\<close>, which
  gives each lane eight places.
\<close>

type_synonym lane_addrs = "nat list list option"

definition set_lane_addrs :: "nat \<Rightarrow> nat \<Rightarrow> nat list \<Rightarrow> lane_addrs \<Rightarrow> lane_addrs option" where
  "set_lane_addrs warp_size n addrs t = do {
     let t = (case t of None \<Rightarrow> replicate warp_size (replicate MAX_ACCESSES_PER_INSN_PER_THREAD 0) | Some t \<Rightarrow> t);
     assert_that (length addrs \<le> MAX_ACCESSES_PER_INSN_PER_THREAD);
     old \<leftarrow> vec_at t n;
     Some (Some (t[n := addrs @ drop (length addrs) old]))
   }"

definition read_word :: "exec_env \<Rightarrow> ptx_instruction \<Rightarrow> nat \<Rightarrow> nat \<Rightarrow> (nat \<times> u64) option" where
  "read_word env pI lane w = do {
     src \<leftarrow> vec_at (px_operands pI) (w + 1);
     addr \<leftarrow> wasp_rfq_effective_address env pI lane src;
     Some (addr, u64_of_bytes (xe_global_read env addr (fst (type_decode (xe_get_type env pI)) div 8)))
   }"

definition or_one :: "nat \<Rightarrow> nat" where
  "or_one payload_words = (if payload_words = 0 then 1 else payload_words)"

subsection \<open>Register-file queues\<close>

definition wasp_rfq_ld_word :: "exec_env \<Rightarrow> ptx_instruction \<Rightarrow> warp_inst \<Rightarrow> nat \<Rightarrow>
    nat list \<times> 'a core_queues_scheme \<Rightarrow> nat \<Rightarrow> (nat list \<times> 'a core_queues_scheme) option" where
  "wasp_rfq_ld_word env pI inst lane = (\<lambda>(addrs, s) w. do {
     (addr, data) \<leftarrow> read_word env pI lane w;
     s \<leftarrow> wasp_rfq_functional_store_lane inst lane w data s;
     Some (addrs @ [addr], s)
   })"

definition wasp_rfq_ld_exec :: "exec_env \<Rightarrow> ptx_instruction \<Rightarrow> warp_inst \<Rightarrow> nat \<Rightarrow>
    lane_addrs \<times> 'a core_queues_scheme \<Rightarrow> (lane_addrs \<times> 'a core_queues_scheme) option" where
  "wasp_rfq_ld_exec env pI inst lane = (\<lambda>(t, s). do {
     let payload_words = or_one (wi_rfq_payload_words_per_lane inst);
     assert_that (payload_words \<le> MAX_ACCESSES_PER_INSN_PER_THREAD);
     assert_that (xe_get_num_operands env pI \<ge> payload_words + 1);
     (addrs, s) \<leftarrow> run_calls (wasp_rfq_ld_word env pI inst lane) ([], s) [0..<payload_words];
     t \<leftarrow> set_lane_addrs (sc_warp_size (cq_config s)) lane addrs t;
     Some (t, s)
   })"

text \<open>What a move writes: a vector of four registers, or the scalar destination.\<close>

datatype dst_write =
    Vector_values u64 u64 u64 u64
  | Scalar_value u64

definition write_dst :: "ptx_instruction \<Rightarrow> u64 list \<Rightarrow> dst_write option" where
  "write_dst pI values = do {
     dst \<leftarrow> vec_at (px_operands pI) 0;
     let value = (\<lambda>k. if k < length values then values ! k else 0);
     Some (if po_is_vector dst then Vector_values (value 0) (value 1) (value 2) (value 3)
       else Scalar_value (value 0))
   }"

definition wasp_rfq_mov_exec :: "ptx_instruction \<Rightarrow> warp_inst \<Rightarrow> nat \<Rightarrow> 'a core_queues_scheme \<Rightarrow> dst_write option" where
  "wasp_rfq_mov_exec pI inst lane s = do {
     let payload_words = or_one (wi_rfq_payload_words_per_lane inst);
     assert_that (payload_words \<le> 4);
     values \<leftarrow> run_calls (\<lambda>vs w. do { v \<leftarrow> wasp_rfq_functional_read_lane inst lane w s; Some (vs @ [v]) })
       [] [0..<payload_words];
     write_dst pI values
   }"

subsection \<open>Queues in shared memory\<close>

definition smemq_ld_word :: "exec_env \<Rightarrow> ptx_instruction \<Rightarrow> warp_inst \<Rightarrow> nat \<Rightarrow>
    nat list \<times> 'a core_queues_scheme \<Rightarrow> nat \<Rightarrow> (nat list \<times> 'a core_queues_scheme) option" where
  "smemq_ld_word env pI inst lane = (\<lambda>(addrs, s) w. do {
     (addr, data) \<leftarrow> read_word env pI lane w;
     s \<leftarrow> smemq_functional_store_lane inst lane w data s;
     Some (addrs @ [addr], s)
   })"

definition smemq_ld_exec :: "exec_env \<Rightarrow> ptx_instruction \<Rightarrow> warp_inst \<Rightarrow> nat \<Rightarrow>
    lane_addrs \<times> 'a core_queues_scheme \<Rightarrow> (lane_addrs \<times> 'a core_queues_scheme) option" where
  "smemq_ld_exec env pI inst lane = (\<lambda>(t, s). do {
     let payload_words = or_one (wi_smemq_payload_words_per_lane inst);
     assert_that (payload_words \<le> MAX_ACCESSES_PER_INSN_PER_THREAD);
     assert_that (xe_get_num_operands env pI \<ge> payload_words + 1);
     (addrs, s) \<leftarrow> run_calls (smemq_ld_word env pI inst lane) ([], s) [0..<payload_words];
     t \<leftarrow> set_lane_addrs (sc_warp_size (cq_config s)) lane addrs t;
     Some (t, s)
   })"

definition smemq_mov_exec :: "ptx_instruction \<Rightarrow> warp_inst \<Rightarrow> nat \<Rightarrow> 'a core_queues_scheme \<Rightarrow> dst_write option" where
  "smemq_mov_exec pI inst lane s = do {
     let payload_words = or_one (wi_smemq_payload_words_per_lane inst);
     assert_that (payload_words \<le> 4);
     values \<leftarrow> run_calls (\<lambda>vs w. do { v \<leftarrow> smemq_functional_read_lane inst lane w s; Some (vs @ [v]) })
       [] [0..<payload_words];
     write_dst pI values
   }"

subsection \<open>A slot keeps its values until it is the head\<close>

fun writes_lane :: "slot_id \<Rightarrow> nat \<Rightarrow> fifo_call \<Rightarrow> bool" where
  "writes_lane d l (Set_lane d' l' w v) = (d' = d \<and> l' = l)"
| "writes_lane d l c = False"

fun consume_count :: "fifo_call list \<Rightarrow> nat" where
  "consume_count [] = 0"
| "consume_count (c # cs) = (if c = Consume then 1 else 0) + consume_count cs"

text \<open>The slot \<open>d\<close> with \<open>k\<close> older ones, and the words of lane \<open>l\<close> in it.\<close>

definition holds_words :: "slot_id \<Rightarrow> nat \<Rightarrow> nat \<Rightarrow> u64 list \<Rightarrow> fifo \<Rightarrow> bool" where
  "holds_words d k l vs f \<longleftrightarrow>
     (\<exists>A e B. ff_slots f = A @ e # B \<and> fs_id e = d \<and> length A = k \<and>
        (vs \<noteq> [] \<longrightarrow> length vs \<le> ff_words f \<and> l < ff_lanes f) \<and>
        length (fs_payload e) = ff_lanes f * ff_words f \<and>
        (\<forall>w < length vs. fs_payload e ! (l * ff_words f + w) = vs ! w))"

lemma holds_words_upd:
  assumes "holds_words d k l vs f" "\<And>s. fs_id (g s) = fs_id s"
    "\<And>s. fs_id s = d' \<Longrightarrow> length (fs_payload (g s)) = length (fs_payload s)"
    "\<And>s w. d' = d \<Longrightarrow> w < length vs \<Longrightarrow> length (fs_payload s) = ff_lanes f * ff_words f \<Longrightarrow>
       fs_payload (g s) ! (l * ff_words f + w) = fs_payload s ! (l * ff_words f + w)"
  shows "holds_words d k l vs (fifo_upd d' g f)"
proof -
  obtain A e B where *: "ff_slots f = A @ e # B" "fs_id e = d" "length A = k"
    "vs \<noteq> [] \<longrightarrow> length vs \<le> ff_words f \<and> l < ff_lanes f" "length (fs_payload e) = ff_lanes f * ff_words f"
    "\<forall>w < length vs. fs_payload e ! (l * ff_words f + w) = vs ! w"
    using assms(1) by (auto simp: holds_words_def)
  let ?h = "\<lambda>s. if fs_id s = d' then g s else s"
  have "ff_slots (fifo_upd d' g f) = map ?h A @ ?h e # map ?h B" by (simp add: fifo_upd_def *(1))
  moreover have "fs_id (?h e) = d" "length (fs_payload (?h e)) = ff_lanes f * ff_words f"
    using *(2,5) assms(2,3) by auto
  moreover have "\<forall>w < length vs. fs_payload (?h e) ! (l * ff_words f + w) = vs ! w"
    using *(2,5,6) assms(4) by auto
  ultimately show ?thesis using *(3,4) unfolding holds_words_def fifo_upd_simps
    by (intro exI[of _ "map ?h A"] exI[of _ "?h e"] exI[of _ "map ?h B"]) simp
qed

lemma lane_index_inj:
  assumes "w < n" "w' < n" "l * n + w = l' * n + (w' :: nat)"
  shows "l = l' \<and> w = w'"
proof -
  have "(l * n + w) div n = l" "(l' * n + w') div n = l'" using assms(1,2) by simp_all
  then show ?thesis using assms(3) by simp
qed

lemma holds_words_step:
  assumes "holds_words d k l vs f" "fifo_step f c = Some f'" "\<not> writes_lane d l c" "c = Consume \<Longrightarrow> k \<noteq> 0"
  shows "holds_words d (if c = Consume then k - 1 else k) l vs f'"
proof (cases c)
  case (Reserve m p)
  obtain A e B where *: "ff_slots f = A @ e # B" "fs_id e = d" "length A = k"
    "vs \<noteq> [] \<longrightarrow> length vs \<le> ff_words f \<and> l < ff_lanes f" "length (fs_payload e) = ff_lanes f * ff_words f"
    "\<forall>w < length vs. fs_payload e ! (l * ff_words f + w) = vs ! w"
    using assms(1) unfolding holds_words_def by blast
  obtain x where "ff_slots f' = A @ e # (B @ [x])" "ff_words f' = ff_words f" "ff_lanes f' = ff_lanes f"
    using assms(2) Reserve *(1) by (auto simp: fifo_reserve_def split: if_splits)
  with * Reserve show ?thesis unfolding holds_words_def by auto
next
  case (Set_pending d' n)
  with assms(2) have "f' = fifo_upd d' (fs_pending_update (\<lambda>_. n)) f"
    by (simp add: fifo_set_pending_def split: if_splits)
  then show ?thesis using holds_words_upd[OF assms(1), of "fs_pending_update (\<lambda>_. n)" d'] Set_pending by simp
next
  case (Mark d')
  with assms(2) have "f' = fifo_upd d' (fs_pending_update (\<lambda>n. n - 1)) f"
    by (auto simp: fifo_mark_def split: if_splits option.splits)
  then show ?thesis using holds_words_upd[OF assms(1), of "fs_pending_update (\<lambda>n. n - 1)" d'] Mark by simp
next
  case Consume
  obtain A e B where *: "ff_slots f = A @ e # B" "fs_id e = d" "length A = k"
    "vs \<noteq> [] \<longrightarrow> length vs \<le> ff_words f \<and> l < ff_lanes f" "length (fs_payload e) = ff_lanes f * ff_words f"
    "\<forall>w < length vs. fs_payload e ! (l * ff_words f + w) = vs ! w"
    using assms(1) by (auto simp: holds_words_def)
  then obtain a A' where "A = a # A'" using assms(4) Consume by (cases A) auto
  with * assms(2) Consume have "f' = f\<lparr>ff_slots := A' @ e # B\<rparr>" "length A' = k - 1"
    by (auto simp: fifo_consume_def split: if_splits)
  with * Consume show ?thesis by (auto simp: holds_words_def)
next
  case (Set_lane d' l' w' v)
  then have f': "f' = fifo_upd d' (fs_payload_update (\<lambda>p. p[l' * ff_words f + w' := v])) f" "w' < ff_words f"
    using assms(2) by (auto simp: fifo_set_lane_def split: if_splits)
  have len: "vs \<noteq> [] \<longrightarrow> length vs \<le> ff_words f" using assms(1) by (auto simp: holds_words_def)
  have "l' * ff_words f + w' \<noteq> l * ff_words f + w" if "d' = d" "w < length vs" for w
    using lane_index_inj[of w' "ff_words f" w l' l] f'(2) that len assms(3) Set_lane by fastforce
  then have "holds_words d k l vs f'"
    unfolding f'(1) by (intro holds_words_upd[OF assms(1)]) auto
  then show ?thesis using Set_lane by simp
qed

lemma holds_words_run:
  assumes "holds_words d k l vs f" "run_calls fifo_step f cs = Some f'" "\<forall>c \<in> set cs. \<not> writes_lane d l c"
    "consume_count cs \<le> k"
  shows "holds_words d (k - consume_count cs) l vs f'"
  using assms
proof (induction cs arbitrary: f k)
  case (Cons c cs)
  then obtain g where g: "fifo_step f c = Some g" "run_calls fifo_step g cs = Some f'"
    by (auto split: bind_splits)
  have "holds_words d (if c = Consume then k - 1 else k) l vs g"
    by (rule holds_words_step[OF Cons.prems(1) g(1)]) (use Cons.prems in auto)
  from Cons.IH[OF this g(2)] Cons.prems(3,4) show ?case by (auto split: if_splits)
qed simp

lemma holds_words_store:
  assumes "holds_words d k l vs f" "fifo_set_lane d l (length vs) v f = Some f'"
  shows "holds_words d k l (vs @ [v]) f'"
proof -
  let ?w = "length vs" and ?g = "fs_payload_update (\<lambda>p. p[l * ff_words f + length vs := v])"
  obtain A e B where *: "ff_slots f = A @ e # B" "fs_id e = d" "length A = k"
    "length (fs_payload e) = ff_lanes f * ff_words f"
    "\<forall>w < length vs. fs_payload e ! (l * ff_words f + w) = vs ! w"
    using assms(1) unfolding holds_words_def by blast
  have f': "f' = fifo_upd d ?g f" "l < ff_lanes f" "?w < ff_words f"
    using assms(2) by (auto simp: fifo_set_lane_def split: if_splits)
  let ?h = "\<lambda>s. if fs_id s = d then ?g s else s"
  have "ff_slots f' = map ?h A @ ?g e # map ?h B" by (simp add: f'(1) fifo_upd_def *(1,2))
  moreover have "l * ff_words f + ?w < length (fs_payload e)"
    using lane_index_less[OF f'(2,3)] *(4) by simp
  then have "\<forall>w < length (vs @ [v]). fs_payload (?g e) ! (l * ff_words f + w) = (vs @ [v]) ! w"
    using *(5) by (auto simp: nth_append nth_list_update less_Suc_eq)
  ultimately show ?thesis using * f' unfolding holds_words_def f'(1) fifo_upd_simps
    by (intro exI[of _ "map ?h A"] exI[of _ "?g e"] exI[of _ "map ?h B"]) simp
qed

lemma holds_words_start:
  assumes "d \<in> set (fifo_ids f)" "\<forall>e \<in> set (ff_slots f). length (fs_payload e) = ff_lanes f * ff_words f"
  shows "\<exists>k. holds_words d k l [] f"
proof -
  obtain e where e: "e \<in> set (ff_slots f)" "fs_id e = d" using assms(1) by (auto simp: fifo_ids_def)
  then obtain A B where "ff_slots f = A @ e # B" by (meson split_list)
  then show ?thesis using e assms(2) unfolding holds_words_def by fastforce
qed

lemma holds_words_place:
  assumes "holds_words d k l vs f" "fifo_ids f = older @ d # newer" "distinct (fifo_ids f)"
  shows "k = length older"
proof -
  obtain A e B where "ff_slots f = A @ e # B" "fs_id e = d" "length A = k"
    using assms(1) unfolding holds_words_def by blast
  then have "fifo_ids f ! k = d" "k < length (fifo_ids f)" by (auto simp: fifo_ids_def nth_append)
  moreover have "fifo_ids f ! length older = d" "length older < length (fifo_ids f)" using assms(2) by simp_all
  ultimately show ?thesis using assms(3) nth_eq_iff_index_eq by blast
qed

lemma holds_words_head:
  assumes "holds_words d 0 l vs f" "fs_pending (hd (ff_slots f)) = 0" "w < length vs"
  shows "fifo_head_lane l w f = Some (vs ! w)"
  using assms by (auto simp: holds_words_def fifo_head_lane_def)

subsection \<open>From the load to the move\<close>

text \<open>The slot of a load in flight, as the abstract queue has it.\<close>

definition load_holds :: "warp_inst \<Rightarrow> nat \<Rightarrow> nat \<Rightarrow> u64 list \<Rightarrow> 'a core_queues_scheme \<Rightarrow> bool" where
  "load_holds inst k lane vs s \<longleftrightarrow> rfq_load_in_flight inst s \<and> sc_gpgpu_wasp_rfq_model_data (cq_config s) \<and>
     (\<exists>q. cq_rfq_table s (rt_key (wasp_rfq_token_from_inst inst)) = Some q \<and>
        holds_words (rfq_tok_id (wasp_rfq_token_from_inst inst)) k lane vs (rfq_abs q))"

lemma load_holds_start:
  assumes "rfq_load_in_flight inst s" "sc_gpgpu_wasp_rfq_model_data (cq_config s)"
  shows "\<exists>k. load_holds inst k lane [] s"
proof -
  obtain q where q: "cq_rfq_table s (rt_key (wasp_rfq_token_from_inst inst)) = Some q"
    "rfq_tok_id (wasp_rfq_token_from_inst inst) \<in> set (fifo_ids (rfq_abs q))" "rfq_table_ok (cq_rfq_table s)"
    using assms(1) by (auto simp: rfq_load_in_flight_def)
  have inv: "rfq_invar q" by (rule rfq_table_okD[OF q(3,1)])
  have "\<forall>e \<in> set (ff_slots (rfq_abs q)). length (fs_payload e) = ff_lanes (rfq_abs q) * ff_words (rfq_abs q)"
    using rfq_invarD(6)[OF inv rfq_at_less[OF inv]] by (auto simp: rfq_abs_def rfq_slot_abs_def rfq_entry_ok_def)
  from holds_words_start[OF q(2) this] q(1) assms show ?thesis by (auto simp: load_holds_def)
qed

lemma load_holds_store:
  assumes "load_holds inst k lane vs s" "wasp_rfq_functional_store_lane inst lane (length vs) v s = Some s'"
  shows "load_holds inst k lane (vs @ [v]) s'"
proof -
  let ?t = "wasp_rfq_token_from_inst inst"
  obtain q where q: "cq_rfq_table s (rt_key ?t) = Some q" "rfq_tok_id ?t \<in> set (fifo_ids (rfq_abs q))"
    "rt_valid ?t" "wasp_rfq_enabled s" "rfq_table_ok (cq_rfq_table s)"
    "holds_words (rfq_tok_id ?t) k lane vs (rfq_abs q)" "sc_gpgpu_wasp_rfq_model_data (cq_config s)"
    "rfq_load_in_flight inst s"
    using assms(1) by (auto simp: load_holds_def rfq_load_in_flight_def)
  from assms(2) q obtain q' where st: "rfq_set_lane_value ?t lane (length vs) v q = Some q'"
    "s' = s\<lparr>cq_rfq_table := (cq_rfq_table s)(rt_key ?t \<mapsto> q')\<rparr>"
    by (auto simp: wasp_rfq_functional_store_lane_def rfq_find_def Let_def split: bind_splits)
  have "fifo_set_lane (rfq_tok_id ?t) lane (length vs) v (rfq_abs q) = Some (rfq_abs q')"
    using rfq_set_lane_law[OF rfq_table_okD[OF q(5,1)] q(3,2), of lane "length vs" v] st(1) by simp
  from holds_words_store[OF q(6) this] rfq_store_in_flight[OF q(8) assms(2)] st(2) q(7)
  show ?thesis by (simp add: load_holds_def)
qed

lemma ld_words_hold:
  assumes "run_calls (wasp_rfq_ld_word env pI inst lane) ([], s) [0..<n] = Some (addrs, s')"
    "load_holds inst k lane [] s"
  shows "\<exists>vs. length vs = n \<and> length addrs = n \<and> load_holds inst k lane vs s' \<and>
    (\<forall>w < n. read_word env pI lane w = Some (addrs ! w, vs ! w))"
  using assms(1)
proof (induction n arbitrary: addrs s')
  case 0
  then show ?case using assms(2) by simp
next
  case (Suc n)
  then obtain as u a v where r: "run_calls (wasp_rfq_ld_word env pI inst lane) ([], s) [0..<n] = Some (as, u)"
    "read_word env pI lane n = Some (a, v)" "wasp_rfq_functional_store_lane inst lane n v u = Some s'"
    "addrs = as @ [a]"
    by (auto simp: run_calls_append wasp_rfq_ld_word_def split: bind_splits)
  from Suc.IH[OF r(1)] obtain vs where vs: "length vs = n" "length as = n" "load_holds inst k lane vs u"
    "\<forall>w < n. read_word env pI lane w = Some (as ! w, vs ! w)" by blast
  have "load_holds inst k lane (vs @ [v]) s'" using load_holds_store[OF vs(3)] r(3) vs(1) by blast
  with vs r(2,4) show ?case by (intro exI[of _ "vs @ [v]"]) (auto simp: less_Suc_eq nth_append)
qed

lemma run_reads:
  assumes "\<And>w. w < n \<Longrightarrow> f w = Some (vs ! w)" "length vs = n"
  shows "run_calls (\<lambda>us w. do { v \<leftarrow> f w; Some (us @ [v]) }) [] [0..<n] = Some vs"
proof -
  have "m \<le> n \<Longrightarrow> run_calls (\<lambda>us w. do { v \<leftarrow> f w; Some (us @ [v]) }) [] [0..<m] = Some (take m vs)" for m
  proof (induction m)
    case (Suc m)
    then show ?case using assms by (simp add: run_calls_append take_Suc_conv_app_nth)
  qed simp
  from this[of n] assms(2) show ?thesis by simp
qed

text \<open>C15. What a producer loads is what the consumer receives. A load that has its slot executes
  for a lane, which reads its words from global memory. After any further calls on the queue
  that do not write this lane of the slot again, once as many slots have been consumed as were
  older than this one, and the head is ready, a move from that queue with the same number of words
  writes exactly those words to its destination; and the addresses recorded for the lane
  are those the words came from.\<close>

theorem queue_values_arrive:
  fixes s s' :: "'a core_queues_scheme" and s2 :: "'b core_queues_scheme"
  assumes "rfq_load_in_flight inst s" "sc_gpgpu_wasp_rfq_model_data (cq_config s)"
    "wasp_rfq_ld_exec env pI inst lane (t, s) = Some (t', s')"
    and "cq_rfq_table s' (rt_key (wasp_rfq_token_from_inst inst)) = Some q"
    "fifo_ids (rfq_abs q) = older @ rfq_tok_id (wasp_rfq_token_from_inst inst) # newer"
    and "calls_live (rfq_abs q) cs" "run_calls rfq_step q cs = Some q'" "consume_count cs = length older"
    "\<forall>c \<in> set cs. \<not> writes_lane (rfq_tok_id (wasp_rfq_token_from_inst inst)) lane c"
    and "rfq_head_ready q' = Some True" "wasp_rfq_enabled s2" "sc_gpgpu_wasp_rfq_model_data (cq_config s2)"
    "cq_rfq_table s2 (rt_key (wasp_rfq_token_from_inst mv)) = Some q'"
    "wi_rfq_payload_words_per_lane mv = wi_rfq_payload_words_per_lane inst"
    "or_one (wi_rfq_payload_words_per_lane inst) \<le> 4"
  shows "\<exists>addrs vs. length vs = or_one (wi_rfq_payload_words_per_lane inst) \<and>
    (\<forall>w < length vs. read_word env pI lane w = Some (addrs ! w, vs ! w) \<and> the t' ! lane ! w = addrs ! w) \<and>
    wasp_rfq_mov_exec pJ mv lane s2 = write_dst pJ vs"
proof -
  let ?n = "or_one (wi_rfq_payload_words_per_lane inst)" and ?d = "rfq_tok_id (wasp_rfq_token_from_inst inst)"
  obtain addrs where r: "run_calls (wasp_rfq_ld_word env pI inst lane) ([], s) [0..<?n] = Some (addrs, s')"
    "set_lane_addrs (sc_warp_size (cq_config s')) lane addrs t = Some t'"
    using assms(3) by (auto simp: wasp_rfq_ld_exec_def Let_def split: bind_splits if_splits)
  obtain k where "load_holds inst k lane [] s" using load_holds_start[OF assms(1,2)] by blast
  from ld_words_hold[OF r(1) this] obtain vs where vs: "length vs = ?n" "length addrs = ?n"
    "load_holds inst k lane vs s'" "\<forall>w < ?n. read_word env pI lane w = Some (addrs ! w, vs ! w)" by blast
  from vs(3) assms(4) have h: "holds_words ?d k lane vs (rfq_abs q)" and inv: "rfq_invar q"
    by (auto simp: load_holds_def rfq_load_in_flight_def intro: rfq_table_okD)
  have "k = length older" by (rule holds_words_place[OF h assms(5) rfq_ids_distinct[OF inv]])
  moreover have "run_calls fifo_step (rfq_abs q) cs = Some (rfq_abs q')"
    using rfq.run_refines[OF inv assms(6)] assms(7) by simp
  ultimately have h': "holds_words ?d 0 lane vs (rfq_abs q')"
    using holds_words_run[OF h _ assms(9)] assms(8) by simp
  have inv': "rfq_invar q'" by (rule rfq.run_invar[OF inv assms(6,7)])
  have "fs_pending (hd (ff_slots (rfq_abs q'))) = 0"
    using rfq_head_ready_law[OF inv'] assms(10) by (auto split: list.splits)
  then have "w < ?n \<Longrightarrow> wasp_rfq_functional_read_lane mv lane w s2 = Some (vs ! w)" for w
    using holds_words_head[OF h'] vs(1) rfq_head_lane_law[OF inv'] assms(11-13)
    by (simp add: wasp_rfq_functional_read_lane_def rfq_find_def Let_def)
  from run_reads[OF this vs(1)] assms(14,15) have "wasp_rfq_mov_exec pJ mv lane s2 = write_dst pJ vs"
    by (simp add: wasp_rfq_mov_exec_def Let_def)
  moreover have "the t' ! lane ! w = addrs ! w" if "w < ?n" for w
    using r(2) vs(2) that by (auto simp: set_lane_addrs_def Let_def nth_append vec_at_def split: bind_splits if_splits)
  ultimately show ?thesis using vs by (intro exI[of _ addrs] exI[of _ vs]) simp
qed

text \<open>A lane of a one-word load in the small core, and the move that follows it.\<close>

definition exec_load :: warp_inst where
  "exec_load = small_load\<lparr>wi_rfq_token_valid := True, wi_rfq_token_sequence := 1\<rparr>"

definition exec_env_7 :: exec_env where
  "exec_env_7 = \<lparr>xe_operand_value = (\<lambda>_ _. 64), xe_get_type = (\<lambda>_. U32_TYPE),
     xe_get_space = (\<lambda>_. Memory_space global_space 0), xe_get_num_operands = (\<lambda>i. length (px_operands i)),
     xe_global_read = (\<lambda>a n. 7 # replicate (n - 1) 0)\<rparr>"

definition exec_ptx :: ptx_instruction where
  "exec_ptx = (the (ptx_instruction_new (\<lambda>p. p) rfq_load_args))\<lparr>px_operands := [literal_operand 0, literal_operand 64]\<rparr>"

lemma small_reserved:
  "\<exists>q q2. rfq_invar q \<and> fifo_ids (rfq_abs q) = [(0, 1)] \<and>
     rfq_set_lane_value (wasp_rfq_token_from_inst exec_load) 3 0 7 q = Some q2 \<and> rfq_head_ready q2 = Some True"
proof -
  let ?k = "Wasp_rfq_key 0 0 0 1 0" and ?t = "wasp_rfq_token_from_inst exec_load"
  have inv: "rfq_invar rfq_small" using rfq_configure_invar[OF rfq_small_configure] by simp
  have f: "\<not> rfq_full rfq_small" "fifo_ids (rfq_abs rfq_small) = []"
    by (simp_all add: rfq_full_def rfq_small_def rfq_abs_def fifo_ids_def)
  have tok: "?t = \<lparr>rt_key = ?k, rt_slot_index = 0, rt_sequence = 1, rt_payload_words_per_lane = 1, rt_valid = True\<rparr>"
    by (simp add: wasp_rfq_token_from_inst_def exec_load_def small_load_def warp_inst_init_def)
  have "\<exists>q q2. rfq_reserve_tail ?k 15 0 rfq_small = Some (?t, q) \<and> rfq_set_lane_value ?t 3 0 7 q = Some q2 \<and>
      rfq_head_ready q2 = Some True"
    unfolding tok by (simp add: rfq_eval rfq_small_def)
  then obtain q q2 where q: "rfq_reserve_tail ?k 15 0 rfq_small = Some (?t, q)"
    "rfq_set_lane_value ?t 3 0 7 q = Some q2" "rfq_head_ready q2 = Some True" by blast
  have "rfq_invar q \<and> fifo_ids (rfq_abs q) = [] @ [rfq_tok_id ?t]"
    using rfq.load_reserved[OF inv f(1), of ?k 15 0] f(2) q(1) by auto
  with q show ?thesis by (auto simp: rfq_tok_id_def tok)
qed

theorem queue_values_arrive_witness:
  "\<exists>q t' s'. wasp_rfq_ld_exec exec_env_7 exec_ptx exec_load 3
      (None, small_core_after_test\<lparr>cq_rfq_table := [Wasp_rfq_key 0 0 0 1 0 \<mapsto> q]\<rparr>) = Some (t', s') \<and>
     wasp_rfq_mov_exec exec_ptx (exec_load\<lparr>wi_rfq_load := False, wi_rfq_move := True\<rparr>) 3 s' = Some (Scalar_value 7)"
proof -
  let ?k = "Wasp_rfq_key 0 0 0 1 0" and ?t = "wasp_rfq_token_from_inst exec_load"
  let ?mv = "exec_load\<lparr>wi_rfq_load := False, wi_rfq_move := True\<rparr>"
  obtain q q2 where q: "rfq_invar q" "fifo_ids (rfq_abs q) = [(0, 1)]" "rfq_set_lane_value ?t 3 0 7 q = Some q2"
    "rfq_head_ready q2 = Some True" using small_reserved by blast
  let ?s = "small_core_after_test\<lparr>cq_rfq_table := [?k \<mapsto> q]\<rparr>"
  have tok: "rt_key ?t = ?k" "rt_valid ?t" "rfq_tok_id ?t = (0, 1)" "wasp_rfq_token_from_inst ?mv = ?t"
    "wi_rfq_payload_words_per_lane exec_load = 1" "wi_rfq_load exec_load"
    by (simp_all add: wasp_rfq_token_from_inst_def exec_load_def small_load_def warp_inst_init_def rfq_tok_id_def)
  have core: "wasp_rfq_enabled ?s" "sc_gpgpu_wasp_rfq_model_data (cq_config ?s)" "sc_warp_size (cq_config ?s) = 4"
    by (simp_all add: small_core_after_test_def small_queue_core_def wasp_rfq_enabled_def h200_config_def)
  have fl: "rfq_load_in_flight exec_load ?s"
    using tok core q(1,2) by (simp add: rfq_load_in_flight_def rfq_table_ok_def)
  have b: "u64_of_bytes (7 # replicate 3 0) = 7"
  proof -
    have "rev (take 8 ((7 # replicate 3 0) @ replicate 8 0)) = [0, 0, 0, 0, 0, 0, 0, 7 :: 8 word]"
      by (simp add: eval_nat_numeral)
    then show ?thesis by (simp add: u64_of_bytes_def word_rcat_def)
  qed
  have ops: "px_operands exec_ptx = [literal_operand 0, literal_operand 64]" by (simp add: exec_ptx_def)
  have rw: "read_word exec_env_7 exec_ptx 3 0 = Some (64, 7)"
    using b by (simp add: read_word_def ops wasp_rfq_effective_address_def exec_env_7_def)
  let ?s' = "?s\<lparr>cq_rfq_table := (cq_rfq_table ?s)(?k \<mapsto> q2)\<rparr>"
  have st: "wasp_rfq_functional_store_lane exec_load 3 0 7 ?s = Some ?s'"
    using tok core q(3) by (simp add: wasp_rfq_functional_store_lane_def rfq_find_def)
  obtain t' where ld: "wasp_rfq_ld_exec exec_env_7 exec_ptx exec_load 3 (None, ?s) = Some (t', ?s')"
    using tok(5) core(3) rw st
    by (simp add: wasp_rfq_ld_exec_def or_one_def wasp_rfq_ld_word_def set_lane_addrs_def Let_def
        MAX_ACCESSES_PER_INSN_PER_THREAD_def exec_env_7_def ops)
  have ids: "fifo_ids (rfq_abs q2) = [] @ rfq_tok_id ?t # []"
    using rfq.lane_stored[OF q(1) tok(2) _ q(3)] q(2) tok(3) by simp
  have "\<exists>addrs vs. length vs = or_one 1 \<and> (\<forall>w < length vs. read_word exec_env_7 exec_ptx 3 w = Some (addrs ! w, vs ! w) \<and>
      the t' ! 3 ! w = addrs ! w) \<and> wasp_rfq_mov_exec exec_ptx ?mv 3 ?s' = write_dst exec_ptx vs"
    using queue_values_arrive[OF fl core(2) ld _ ids, of "[]" q2 ?s' ?mv exec_ptx] tok core q(4)
    by (simp add: or_one_def wasp_rfq_enabled_def)
  then have "wasp_rfq_mov_exec exec_ptx ?mv 3 ?s' = write_dst exec_ptx [7]"
    using rw by (auto simp: or_one_def length_Suc_conv)
  then show ?thesis using ld by (auto simp: write_dst_def ops literal_operand_def)
qed

end
