(* ===== verification/Kernel_Dispatch.thy ===== *)
theory Kernel_Dispatch
  imports Kernel_Grid
begin

section \<open>The running kernels of the GPU\<close>

text \<open>
  The slots of \<open>gpgpu_sim\<close> that hold the running kernels (\<open>gpu-sim.cc\<close>): launching, choosing
  the kernel that the next block comes from, and removing a finished one. A pointer to a kernel
  is its uid, and a null pointer is \<open>None\<close>. The two cycle counters occur only as their sum, the
  two counters of issued blocks also in \<open>active\<close>.
\<close>

record gpu_config =
  gc_max_concurrent_kernel :: nat
  gc_gpu_max_cycle_opt :: nat
  gc_gpu_max_insn_opt :: nat
  gc_gpu_max_cta_opt :: nat
  gc_gpu_max_completed_cta_opt :: nat
  gc_gpu_deadlock_detect :: bool
  gc_n_thread_per_shader :: nat

record gpu_kernels =
  gk_config :: gpu_config
  gk_running_kernels :: "kernel_info option list"
  gk_last_issued_kernel :: nat
  gk_executed_kernel_uids :: "nat list"
  gk_finished_kernel :: "nat list"
  gk_kernel_time :: "nat \<Rightarrow> nat \<Rightarrow> (nat \<times> nat) option"
  gk_last_uid :: nat
  gk_last_streamID :: nat
  gk_cycle :: nat
  gk_insn :: nat
  gk_tot_issued_cta :: nat
  gk_total_cta_launched :: nat
  gk_completed_cta :: nat
  gk_deadlock :: bool

definition gpu_kernels_new :: "gpu_config \<Rightarrow> gpu_kernels" where
  "gpu_kernels_new c = \<lparr>gk_config = c, gk_running_kernels = replicate (gc_max_concurrent_kernel c) None,
     gk_last_issued_kernel = 0, gk_executed_kernel_uids = [], gk_finished_kernel = [],
     gk_kernel_time = (\<lambda>_ _. None), gk_last_uid = 0, gk_last_streamID = 0, gk_cycle = 0, gk_insn = 0,
     gk_tot_issued_cta = 0, gk_total_cta_launched = 0, gk_completed_cta = 0, gk_deadlock = False\<rparr>"

subsection \<open>Launching\<close>

definition free_slot :: "kernel_info option \<Rightarrow> bool" where
  "free_slot r = (case r of None \<Rightarrow> True | Some k \<Rightarrow> kernel_done k)"

fun first_free_slot :: "kernel_info option list \<Rightarrow> nat option" where
  "first_free_slot [] = None"
| "first_free_slot (r # rs) = (if free_slot r then Some 0 else map_option Suc (first_free_slot rs))"

definition can_start_kernel :: "'a gpu_kernels_scheme \<Rightarrow> bool" where
  "can_start_kernel g \<longleftrightarrow> first_free_slot (gk_running_kernels g) \<noteq> None"

text \<open>The insertion into a \<open>std::map\<close> keeps an entry that is there.\<close>

definition gpu_launch :: "kernel_info \<Rightarrow> 'a gpu_kernels_scheme \<Rightarrow> 'a gpu_kernels_scheme option" where
  "gpu_launch k g = do {
     let times = gk_kernel_time g;
     let old = times (ki_streamID k) (ki_uid k);
     let times = times(ki_streamID k := (times (ki_streamID k))
       (ki_uid k := (if old = None then Some (gk_cycle g, 0) else old)));
     assert_that (threads_per_cta k \<le> gc_n_thread_per_shader (gk_config g));
     n \<leftarrow> first_free_slot (gk_running_kernels g);
     Some (g\<lparr>gk_kernel_time := times, gk_running_kernels := (gk_running_kernels g)[n := Some k]\<rparr>)
   }"

subsection \<open>Choosing a kernel\<close>

definition hit_max_cta_count :: "'a gpu_kernels_scheme \<Rightarrow> bool" where
  "hit_max_cta_count g \<longleftrightarrow> gc_gpu_max_cta_opt (gk_config g) \<noteq> 0 \<and>
     gk_tot_issued_cta g + gk_total_cta_launched g \<ge> gc_gpu_max_cta_opt (gk_config g)"

definition kernel_more_cta_left :: "kernel_info option \<Rightarrow> 'a gpu_kernels_scheme \<Rightarrow> bool" where
  "kernel_more_cta_left r g =
     (if hit_max_cta_count g then False
      else case r of None \<Rightarrow> False | Some k \<Rightarrow> \<not> no_more_ctas_to_run k)"

definition get_more_cta_left :: "'a gpu_kernels_scheme \<Rightarrow> bool" where
  "get_more_cta_left g =
     (if hit_max_cta_count g then False
      else list_ex (\<lambda>r. case r of None \<Rightarrow> False | Some k \<Rightarrow> \<not> no_more_ctas_to_run k) (gk_running_kernels g))"

definition decrement_kernel_latency :: "'a gpu_kernels_scheme \<Rightarrow> 'a gpu_kernels_scheme" where
  "decrement_kernel_latency g = g\<lparr>gk_running_kernels := map (map_option (\<lambda>k.
     if ki_kernel_TB_latency k \<noteq> 0 then k\<lparr>ki_kernel_TB_latency := ki_kernel_TB_latency k - 1\<rparr> else k))
     (gk_running_kernels g)\<rparr>"

text \<open>Recording that the kernel of a slot starts.\<close>

definition start_slot :: "nat \<Rightarrow> kernel_info \<Rightarrow> 'a gpu_kernels_scheme \<Rightarrow> 'a gpu_kernels_scheme" where
  "start_slot idx k g = g\<lparr>gk_running_kernels := (gk_running_kernels g)[idx := Some (k\<lparr>ki_start_cycle := gk_cycle g\<rparr>)],
     gk_executed_kernel_uids := gk_executed_kernel_uids g @ [ki_uid k]\<rparr>"

text \<open>The kernel of a slot that can be taken without a round over the slots.\<close>

definition continues :: "kernel_info option \<Rightarrow> bool" where
  "continues r = (case r of None \<Rightarrow> False
     | Some k \<Rightarrow> \<not> no_more_ctas_to_run k \<and> ki_kernel_TB_latency k = 0)"

fun select_round :: "nat list \<Rightarrow> 'a gpu_kernels_scheme \<Rightarrow> (nat option \<times> 'a gpu_kernels_scheme) option" where
  "select_round [] g = Some (None, g)"
| "select_round (idx # idxs) g = do {
     r \<leftarrow> vec_at (gk_running_kernels g) idx;
     (case r of
        Some k \<Rightarrow> if kernel_more_cta_left r g \<and> ki_kernel_TB_latency k = 0 then do {
            assert_that (ki_uid k \<notin> set (gk_executed_kernel_uids g));
            Some (Some (ki_uid k), start_slot idx k (g\<lparr>gk_last_issued_kernel := idx\<rparr>))
          } else select_round idxs g
      | None \<Rightarrow> select_round idxs g)
   }"

definition select_kernel :: "'a gpu_kernels_scheme \<Rightarrow> (nat option \<times> 'a gpu_kernels_scheme) option" where
  "select_kernel g = do {
     let last = gk_last_issued_kernel g;
     r \<leftarrow> vec_at (gk_running_kernels g) last;
     (if continues r then do {
        k \<leftarrow> r;
        Some (Some (ki_uid k),
          if ki_uid k \<notin> set (gk_executed_kernel_uids g) then start_slot last k g else g)
      } else select_round (map (\<lambda>n. (n + last + 1) mod gc_max_concurrent_kernel (gk_config g))
          [0..<length (gk_running_kernels g)]) g)
   }"

subsection \<open>Finishing\<close>

text \<open>The result 0 stands for no kernel.\<close>

definition finished_kernel :: "'a gpu_kernels_scheme \<Rightarrow> nat \<times> 'a gpu_kernels_scheme" where
  "finished_kernel g =
     (case gk_finished_kernel g of
        [] \<Rightarrow> (0, g\<lparr>gk_last_streamID := 2 ^ 64 - 1\<rparr>)
      | result # rest \<Rightarrow> (result, g\<lparr>gk_finished_kernel := rest\<rparr>))"

text \<open>The slot of the kernel with a given uid.\<close>

definition kernel_slot :: "nat \<Rightarrow> 'a gpu_kernels_scheme \<Rightarrow> (nat \<times> kernel_info) option" where
  "kernel_slot uid g =
     (case List.find (\<lambda>(n, r). case r of None \<Rightarrow> False | Some k \<Rightarrow> ki_uid k = uid)
        (zip [0..<length (gk_running_kernels g)] (gk_running_kernels g)) of
        Some (n, Some k) \<Rightarrow> Some (n, k)
      | _ \<Rightarrow> None)"

text \<open>The kernel that ends is returned with its last cycle: it is in no slot any more.\<close>

definition set_kernel_done :: "nat \<Rightarrow> nat \<Rightarrow> 'a gpu_kernels_scheme \<Rightarrow>
    (kernel_info \<times> 'a gpu_kernels_scheme) option" where
  "set_kernel_done uid streamID g = do {
     (start, stop) \<leftarrow> gk_kernel_time g streamID uid;
     (n, k) \<leftarrow> kernel_slot uid g;
     Some (k\<lparr>ki_end_cycle := gk_cycle g\<rparr>, g\<lparr>gk_last_uid := uid, gk_last_streamID := streamID,
       gk_kernel_time := (gk_kernel_time g)(streamID := (gk_kernel_time g streamID)(uid \<mapsto> (start, gk_cycle g))),
       gk_finished_kernel := gk_finished_kernel g @ [uid],
       gk_running_kernels := (gk_running_kernels g)[n := None]\<rparr>)
   }"

definition stop_slot :: "'a gpu_kernels_scheme \<Rightarrow> nat \<Rightarrow> 'a gpu_kernels_scheme option" where
  "stop_slot g n = do {
     r \<leftarrow> vec_at (gk_running_kernels g) n;
     (case r of None \<Rightarrow> Some g
      | Some k \<Rightarrow> do {
          (_, g) \<leftarrow> set_kernel_done (ki_uid k) (ki_streamID k) g;
          r \<leftarrow> vec_at (gk_running_kernels g) n;
          assert_that (r = None);
          Some g
        })
   }"

definition stop_all_running_kernels :: "'a gpu_kernels_scheme \<Rightarrow> 'a gpu_kernels_scheme option" where
  "stop_all_running_kernels g = run_calls stop_slot g [0..<length (gk_running_kernels g)]"

definition clear_executed_kernel_info :: "'a gpu_kernels_scheme \<Rightarrow> 'a gpu_kernels_scheme" where
  "clear_executed_kernel_info g = g\<lparr>gk_executed_kernel_uids := []\<rparr>"

text \<open>
  Whether the simulation goes on. What the clusters, the memory partitions and the network still
  have to do are arguments.
\<close>

definition cycle_limit_reached :: "'a gpu_kernels_scheme \<Rightarrow> bool" where
  "cycle_limit_reached g \<longleftrightarrow> (let c = gk_config g in
     (gc_gpu_max_cycle_opt c \<noteq> 0 \<and> gk_cycle g \<ge> gc_gpu_max_cycle_opt c) \<or>
     (gc_gpu_max_insn_opt c \<noteq> 0 \<and> gk_insn g \<ge> gc_gpu_max_insn_opt c) \<or>
     (gc_gpu_max_cta_opt c \<noteq> 0 \<and> gk_tot_issued_cta g \<ge> gc_gpu_max_cta_opt c) \<or>
     (gc_gpu_max_completed_cta_opt c \<noteq> 0 \<and> gk_completed_cta g \<ge> gc_gpu_max_completed_cta_opt c) \<or>
     (gc_gpu_deadlock_detect c \<and> gk_deadlock g))"

definition gpu_active :: "nat list \<Rightarrow> bool list \<Rightarrow> bool \<Rightarrow> 'a gpu_kernels_scheme \<Rightarrow> bool" where
  "gpu_active not_completed partition_busy icnt_busy g =
     (if cycle_limit_reached g then False
      else list_ex (\<lambda>n. n > 0) not_completed \<or> list_ex id partition_busy \<or> icnt_busy \<or> get_more_cta_left g)"

definition sst_gpu_active :: "nat list \<Rightarrow> 'a gpu_kernels_scheme \<Rightarrow> bool" where
  "sst_gpu_active not_completed g =
     (if cycle_limit_reached g then False
      else list_ex (\<lambda>n. n > 0) not_completed \<or> get_more_cta_left g)"

subsection \<open>Sequences of events\<close>

text \<open>
  What happens to the slots between two selections: launches, blocks taken from a kernel and
  finished, delays counted down, finished kernels removed, and statistics printed.
\<close>

datatype dispatch_event =
    Launch kernel_info
  | Select
  | Take_cta nat
  | Cta_done nat
  | Decrement_latency
  | Kernel_done nat nat
  | Clear_executed

definition with_kernel :: "nat \<Rightarrow> (kernel_info \<Rightarrow> kernel_info option) \<Rightarrow> 'a gpu_kernels_scheme \<Rightarrow>
    'a gpu_kernels_scheme option" where
  "with_kernel uid f g = do {
     (n, k) \<leftarrow> kernel_slot uid g;
     k \<leftarrow> f k;
     Some (g\<lparr>gk_running_kernels := (gk_running_kernels g)[n := Some k]\<rparr>)
   }"

fun dispatch_step :: "gpu_kernels \<Rightarrow> dispatch_event \<Rightarrow> gpu_kernels option" where
  "dispatch_step g (Launch k) = gpu_launch k g"
| "dispatch_step g Select = map_option snd (select_kernel g)"
| "dispatch_step g (Take_cta uid) = with_kernel uid (\<lambda>k. do {
     assert_that (\<not> no_more_ctas_to_run k); Some (increment_cta_id (inc_running k)) }) g"
| "dispatch_step g (Cta_done uid) = with_kernel uid dec_running g"
| "dispatch_step g Decrement_latency = Some (decrement_kernel_latency g)"
| "dispatch_step g (Kernel_done uid stream) = map_option snd (set_kernel_done uid stream g)"
| "dispatch_step g Clear_executed = Some (clear_executed_kernel_info g)"

text \<open>The uid of a kernel that is launched is new.\<close>

fun dispatch_ok :: "gpu_kernels \<Rightarrow> dispatch_event \<Rightarrow> bool" where
  "dispatch_ok g (Launch k) = (ki_uid k \<notin> set (gk_executed_kernel_uids g) \<and>
     list_all (\<lambda>r. case r of None \<Rightarrow> True | Some l \<Rightarrow> ki_uid l \<noteq> ki_uid k) (gk_running_kernels g))"
| "dispatch_ok g e = True"

fun dispatch_run_ok :: "gpu_kernels \<Rightarrow> dispatch_event list \<Rightarrow> bool" where
  "dispatch_run_ok g [] = True"
| "dispatch_run_ok g (e # es) =
     (dispatch_ok g e \<and> (case dispatch_step g e of None \<Rightarrow> True | Some g' \<Rightarrow> dispatch_run_ok g' es))"

definition slot_holds :: "gpu_kernels \<Rightarrow> nat \<Rightarrow> kernel_info \<Rightarrow> bool" where
  "slot_holds g n k \<longleftrightarrow> n < length (gk_running_kernels g) \<and> gk_running_kernels g ! n = Some k"

text \<open>A kernel that has started and has blocks left is the one that was chosen last.\<close>

definition kernels_ok :: "gpu_kernels \<Rightarrow> bool" where
  "kernels_ok g \<longleftrightarrow> 0 < gc_max_concurrent_kernel (gk_config g) \<and>
     length (gk_running_kernels g) = gc_max_concurrent_kernel (gk_config g) \<and>
     gk_last_issued_kernel g < length (gk_running_kernels g) \<and>
     (\<forall>i j k l. slot_holds g i k \<and> slot_holds g j l \<and> ki_uid k = ki_uid l \<longrightarrow> i = j) \<and>
     (\<forall>i k. slot_holds g i k \<and> ki_uid k \<in> set (gk_executed_kernel_uids g) \<and> \<not> no_more_ctas_to_run k \<longrightarrow>
        i = gk_last_issued_kernel g \<and> ki_kernel_TB_latency k = 0)"

lemma kernel_slot_Some:
  "kernel_slot uid g = Some (n, k) \<Longrightarrow> slot_holds g n k \<and> ki_uid k = uid"
  by (auto simp: kernel_slot_def slot_holds_def find_Some_iff split: option.splits)

lemma slot_holds_upd:
  "slot_holds (g\<lparr>gk_running_kernels := (gk_running_kernels g)[n := r]\<rparr>) i k \<longleftrightarrow>
     (if i = n \<and> n < length (gk_running_kernels g) then r = Some k else slot_holds g i k)"
  by (auto simp: slot_holds_def)

lemma first_free_slot_less: "first_free_slot rs = Some n \<Longrightarrow> n < length rs"
  by (induction rs arbitrary: n) (auto split: if_splits)

lemma kernels_ok_fields:
  "kernels_ok g \<Longrightarrow> gk_config h = gk_config g \<Longrightarrow> gk_running_kernels h = gk_running_kernels g \<Longrightarrow>
   gk_last_issued_kernel h = gk_last_issued_kernel g \<Longrightarrow>
   set (gk_executed_kernel_uids h) \<subseteq> set (gk_executed_kernel_uids g) \<Longrightarrow> kernels_ok h"
proof -
  assume a: "kernels_ok g" "gk_config h = gk_config g" "gk_running_kernels h = gk_running_kernels g"
    "gk_last_issued_kernel h = gk_last_issued_kernel g"
    "set (gk_executed_kernel_uids h) \<subseteq> set (gk_executed_kernel_uids g)"
  then have "slot_holds h i k = slot_holds g i k" for i k by (simp add: slot_holds_def)
  with a show ?thesis by (auto simp: kernels_ok_def)
qed

lemma kernels_okD:
  assumes "kernels_ok g"
  shows "0 < gc_max_concurrent_kernel (gk_config g)"
    "length (gk_running_kernels g) = gc_max_concurrent_kernel (gk_config g)"
    "gk_last_issued_kernel g < length (gk_running_kernels g)"
    "slot_holds g i k \<Longrightarrow> slot_holds g j l \<Longrightarrow> ki_uid k = ki_uid l \<Longrightarrow> i = j"
    "slot_holds g i k \<Longrightarrow> ki_uid k \<in> set (gk_executed_kernel_uids g) \<Longrightarrow> \<not> no_more_ctas_to_run k \<Longrightarrow>
      i = gk_last_issued_kernel g \<and> ki_kernel_TB_latency k = 0"
  using assms unfolding kernels_ok_def by blast+

lemma kernels_okI:
  assumes "0 < gc_max_concurrent_kernel (gk_config g)"
    "length (gk_running_kernels g) = gc_max_concurrent_kernel (gk_config g)"
    "gk_last_issued_kernel g < length (gk_running_kernels g)"
    "\<And>i j k l. slot_holds g i k \<Longrightarrow> slot_holds g j l \<Longrightarrow> ki_uid k = ki_uid l \<Longrightarrow> i = j"
    "\<And>i k. slot_holds g i k \<Longrightarrow> ki_uid k \<in> set (gk_executed_kernel_uids g) \<Longrightarrow> \<not> no_more_ctas_to_run k \<Longrightarrow>
      i = gk_last_issued_kernel g \<and> ki_kernel_TB_latency k = 0"
  shows "kernels_ok g"
  using assms unfolding kernels_ok_def by blast

text \<open>A slot is emptied, gets a new kernel, or its kernel goes on.\<close>

lemma kernels_ok_slot:
  assumes "kernels_ok g" "gk_config h = gk_config g"
    "gk_running_kernels h = (gk_running_kernels g)[n := r]"
    "gk_last_issued_kernel h = gk_last_issued_kernel g" "gk_executed_kernel_uids h = gk_executed_kernel_uids g"
    "\<And>k. r = Some k \<Longrightarrow>
      (\<exists>l. slot_holds g n l \<and> ki_uid k = ki_uid l \<and> ki_kernel_TB_latency k = ki_kernel_TB_latency l \<and>
        (no_more_ctas_to_run l \<longrightarrow> no_more_ctas_to_run k)) \<or>
      (ki_uid k \<notin> set (gk_executed_kernel_uids g) \<and> (\<forall>i l. slot_holds g i l \<longrightarrow> ki_uid l \<noteq> ki_uid k))"
  shows "kernels_ok h"
proof -
  have s: "slot_holds h i k \<longleftrightarrow> (if i = n \<and> n < length (gk_running_kernels g) then r = Some k else slot_holds g i k)" for i k
    using assms(3) by (auto simp: slot_holds_def)
  have old: "\<exists>l. slot_holds g i l \<and> ki_uid k = ki_uid l \<and> ki_kernel_TB_latency k = ki_kernel_TB_latency l \<and>
      (no_more_ctas_to_run l \<longrightarrow> no_more_ctas_to_run k)"
    if "slot_holds h i k" "ki_uid k \<in> set (gk_executed_kernel_uids g) \<or> (\<exists>j l. slot_holds g j l \<and> ki_uid l = ki_uid k)" for i k
  proof (cases "i = n \<and> n < length (gk_running_kernels g)")
    case True
    then show ?thesis using that s assms(6)[of k] by auto
  next
    case False
    then have "slot_holds g i k" using that(1) s by simp
    then show ?thesis by blast
  qed
  have "i = j" if e: "slot_holds h i k" "slot_holds h j l" "ki_uid k = ki_uid l" for i j k l
  proof (rule ccontr)
    assume "i \<noteq> j"
    then have "slot_holds g i k \<or> slot_holds g j l" using e(1,2) s by (metis (full_types))
    then obtain k' l' where "slot_holds g i k'" "ki_uid k = ki_uid k'" "slot_holds g j l'" "ki_uid l = ki_uid l'"
      using old[OF e(1)] old[OF e(2)] e(3) by metis
    then show False using kernels_okD(4)[OF assms(1)] e(3) \<open>i \<noteq> j\<close> by metis
  qed
  moreover have "i = gk_last_issued_kernel g \<and> ki_kernel_TB_latency k = 0"
    if "slot_holds h i k" "ki_uid k \<in> set (gk_executed_kernel_uids g)" "\<not> no_more_ctas_to_run k" for i k
    using old[OF that(1)] that(2,3) kernels_okD(5)[OF assms(1)] by metis
  ultimately show ?thesis
    using kernels_okD(1-3)[OF assms(1)] assms(2-5) unfolding kernels_ok_def by (metis length_list_update)
qed

lemma select_round_result:
  assumes "kernels_ok g" "\<not> continues (gk_running_kernels g ! gk_last_issued_kernel g)"
    "set idxs \<subseteq> {0..<length (gk_running_kernels g)}"
  shows "(select_round idxs g = Some (None, g) \<and>
      (\<forall>i \<in> set idxs. \<forall>k. slot_holds g i k \<longrightarrow> \<not> kernel_more_cta_left (Some k) g \<or> ki_kernel_TB_latency k \<noteq> 0)) \<or>
    (\<exists>i k. i \<in> set idxs \<and> slot_holds g i k \<and> kernel_more_cta_left (Some k) g \<and> ki_kernel_TB_latency k = 0 \<and>
      ki_uid k \<notin> set (gk_executed_kernel_uids g) \<and>
      select_round idxs g = Some (Some (ki_uid k), start_slot i k (g\<lparr>gk_last_issued_kernel := i\<rparr>)))"
  using assms(3)
proof (induction idxs)
  case (Cons i idxs)
  then have i: "i < length (gk_running_kernels g)" by simp
  note IH = Cons.IH[OF order_trans[OF set_subset_Cons Cons.prems]]
  show ?case
  proof (cases "gk_running_kernels g ! i")
    case None
    then have "\<not> slot_holds g i k" for k by (simp add: slot_holds_def)
    with IH i None show ?thesis by auto
  next
    case (Some k)
    then have k: "slot_holds g i l \<longleftrightarrow> l = k" for l using i by (auto simp: slot_holds_def)
    show ?thesis
    proof (cases "kernel_more_cta_left (Some k) g \<and> ki_kernel_TB_latency k = 0")
      case True
      then have left: "\<not> no_more_ctas_to_run k" by (auto simp: kernel_more_cta_left_def split: if_splits)
      have "ki_uid k \<notin> set (gk_executed_kernel_uids g)"
      proof
        assume "ki_uid k \<in> set (gk_executed_kernel_uids g)"
        then have "i = gk_last_issued_kernel g" using kernels_okD(5)[OF assms(1)] k left by blast
        then show False using assms(2) Some left True by (simp add: continues_def)
      qed
      with True i Some k show ?thesis by auto
    next
      case False
      then have "select_round (i # idxs) g = select_round idxs g" using i Some by auto
      with IH k False show ?thesis by auto
    qed
  qed
qed simp

lemma round_indices:
  assumes "0 < (n :: nat)"
  shows "set (map (\<lambda>i. (i + a + 1) mod n) [0..<n]) = {0..<n}"
proof -
  have "j \<in> (\<lambda>i. (i + a + 1) mod n) ` {0..<n}" if "j < n" for j
  proof
    let ?h = "(a + 1) mod n" and ?x = "(j + n - (a + 1) mod n) mod n"
    have "(?h + ?x) mod n = (?x + (a + 1)) mod n" by (metis add.commute mod_add_right_eq)
    then show "j = (?x + a + 1) mod n"
      using ring_pos[of ?h n j] that assms by (simp add: add.assoc)
    show "(j + n - (a + 1) mod n) mod n \<in> {0..<n}" using assms by simp
  qed
  then show ?thesis using assms by auto
qed

lemma kernels_ok_start:
  assumes "kernels_ok g" "slot_holds g i k" "ki_kernel_TB_latency k = 0"
    "i \<noteq> gk_last_issued_kernel g \<Longrightarrow> \<not> continues (gk_running_kernels g ! gk_last_issued_kernel g)"
  shows "kernels_ok (start_slot i k (g\<lparr>gk_last_issued_kernel := i\<rparr>))"
proof -
  let ?k = "k\<lparr>ki_start_cycle := gk_cycle g\<rparr>" and ?h = "start_slot i k (g\<lparr>gk_last_issued_kernel := i\<rparr>)"
  have i: "i < length (gk_running_kernels g)" using assms(2) by (simp add: slot_holds_def)
  have s: "slot_holds ?h j l \<longleftrightarrow> (if j = i then l = ?k else slot_holds g j l)" for j l
    using i by (auto simp: slot_holds_def start_slot_def)
  have s': "slot_holds ?h j l \<Longrightarrow> \<exists>m. slot_holds g j m \<and> ki_uid m = ki_uid l" for j l
    using assms(2) s by (auto split: if_splits)
  have "j = m" if e: "slot_holds ?h j l" "slot_holds ?h m n" "ki_uid l = ki_uid n" for j m l n
    using s'[OF e(1)] s'[OF e(2)] e(3) kernels_okD(4)[OF assms(1)] by metis
  moreover have "j = i \<and> ki_kernel_TB_latency l = 0"
    if e: "slot_holds ?h j l" "ki_uid l \<in> set (gk_executed_kernel_uids ?h)" "\<not> no_more_ctas_to_run l" for j l
  proof (cases "j = i")
    case True
    then show ?thesis using e(1) s assms(3) by simp
  next
    case False
    then have g: "slot_holds g j l" using e(1) s by simp
    moreover have "ki_uid l \<noteq> ki_uid k" using kernels_okD(4)[OF assms(1) g assms(2)] False by blast
    ultimately have l: "j = gk_last_issued_kernel g \<and> ki_kernel_TB_latency l = 0"
      using kernels_okD(5)[OF assms(1)] e(2,3) by (auto simp: start_slot_def)
    then have "continues (gk_running_kernels g ! gk_last_issued_kernel g)"
      using g e(3) by (auto simp: slot_holds_def continues_def)
    then show ?thesis using assms(4) False l by auto
  qed
  moreover have "gk_config ?h = gk_config g" "length (gk_running_kernels ?h) = length (gk_running_kernels g)"
    "gk_last_issued_kernel ?h = i" by (simp_all add: start_slot_def)
  ultimately show ?thesis
    using kernels_okD(1,2)[OF assms(1)] i by (intro kernels_okI) auto
qed

text \<open>What a selection gives, and the state after it.\<close>

definition selected :: "nat option \<Rightarrow> gpu_kernels \<Rightarrow> bool" where
  "selected r g \<longleftrightarrow> (case r of
     None \<Rightarrow> \<not> (\<exists>n k. slot_holds g n k \<and> kernel_more_cta_left (Some k) g \<and> ki_kernel_TB_latency k = 0)
   | Some uid \<Rightarrow> \<exists>n k. slot_holds g n k \<and> ki_uid k = uid \<and> \<not> no_more_ctas_to_run k \<and> ki_kernel_TB_latency k = 0)"

lemma select_kernel_ok:
  assumes "kernels_ok g"
  obtains r h where "select_kernel g = Some (r, h)" "kernels_ok h" "selected r g"
    "\<And>k. slot_holds g (gk_last_issued_kernel g) k \<Longrightarrow> continues (Some k) \<Longrightarrow> r = Some (ki_uid k)"
proof (cases "continues (gk_running_kernels g ! gk_last_issued_kernel g)")
  case True
  let ?l = "gk_last_issued_kernel g"
  obtain k where k: "gk_running_kernels g ! ?l = Some k" "\<not> no_more_ctas_to_run k" "ki_kernel_TB_latency k = 0"
    using True by (auto simp: continues_def split: option.splits)
  let ?h = "if ki_uid k \<notin> set (gk_executed_kernel_uids g) then start_slot ?l k g else g"
  have l: "?l < length (gk_running_kernels g)" by (rule kernels_okD(3)[OF assms])
  then have s: "slot_holds g ?l k" using k(1) by (simp add: slot_holds_def)
  have "select_kernel g = Some (Some (ki_uid k), ?h)"
    using l k True by (simp add: select_kernel_def Let_def)
  moreover have "kernels_ok ?h"
    using kernels_ok_start[OF assms s k(3)] assms by simp
  moreover have "selected (Some (ki_uid k)) g" using s k by (auto simp: selected_def)
  ultimately show ?thesis using that s by (auto simp: slot_holds_def)
next
  case False
  let ?n = "length (gk_running_kernels g)" and ?l = "gk_last_issued_kernel g"
  have nc: "\<not> continues (Some k)" if "slot_holds g ?l k" for k using that False by (simp add: slot_holds_def)
  let ?is = "map (\<lambda>n. (n + ?l + 1) mod gc_max_concurrent_kernel (gk_config g)) [0..<?n]"
  have set: "set ?is = {0..<?n}"
    using round_indices[of ?n ?l] kernels_okD(1,2)[OF assms] by simp
  have sel: "select_kernel g = select_round ?is g"
    using kernels_okD(3)[OF assms] False by (simp add: select_kernel_def Let_def)
  from select_round_result[OF assms False, of ?is] set
  consider (none) "select_round ?is g = Some (None, g)"
      "\<forall>i \<in> {0..<?n}. \<forall>k. slot_holds g i k \<longrightarrow> \<not> kernel_more_cta_left (Some k) g \<or> ki_kernel_TB_latency k \<noteq> 0"
    | (some) i k where "slot_holds g i k" "kernel_more_cta_left (Some k) g" "ki_kernel_TB_latency k = 0"
      "select_round ?is g = Some (Some (ki_uid k), start_slot i k (g\<lparr>gk_last_issued_kernel := i\<rparr>))"
    unfolding set by blast
  then show ?thesis
  proof cases
    case none
    then have "selected None g" by (auto simp: selected_def slot_holds_def)
    then show ?thesis by (rule that[rotated 2]) (use sel none(1) assms nc in auto)
  next
    case some
    have "selected (Some (ki_uid k)) g"
      using some(1-3) by (auto simp: selected_def kernel_more_cta_left_def split: if_splits)
    moreover have "kernels_ok (start_slot i k (g\<lparr>gk_last_issued_kernel := i\<rparr>))"
      using kernels_ok_start[OF assms some(1,3)] False by blast
    ultimately show ?thesis by (intro that[of "Some (ki_uid k)"]) (use sel some(4) nc in auto)
  qed
qed

lemma with_kernel_ok:
  assumes "kernels_ok g" "with_kernel uid f g = Some h"
    "\<And>k k'. f k = Some k' \<Longrightarrow> ki_uid k' = ki_uid k \<and> ki_kernel_TB_latency k' = ki_kernel_TB_latency k \<and>
      (no_more_ctas_to_run k \<longrightarrow> no_more_ctas_to_run k')"
  shows "kernels_ok h"
proof -
  obtain n k k' where *: "kernel_slot uid g = Some (n, k)" "f k = Some k'"
    "h = g\<lparr>gk_running_kernels := (gk_running_kernels g)[n := Some k']\<rparr>"
    using assms(2) by (auto simp: with_kernel_def split: bind_splits)
  show ?thesis
    by (rule kernels_ok_slot[OF assms(1), of h n "Some k'"])
       (use * kernel_slot_Some[OF *(1)] assms(3)[OF *(2)] in auto)
qed

lemma decrement_latency_ok:
  assumes "kernels_ok g"
  shows "kernels_ok (decrement_kernel_latency g)"
proof -
  have s: "\<exists>l. slot_holds g i l \<and> ki_uid l = ki_uid k \<and> (no_more_ctas_to_run l \<longleftrightarrow> no_more_ctas_to_run k) \<and>
      (ki_kernel_TB_latency l = 0 \<longrightarrow> ki_kernel_TB_latency k = 0)"
    if "slot_holds (decrement_kernel_latency g) i k" for i k
    using that by (auto simp: slot_holds_def decrement_kernel_latency_def no_more_ctas_to_run_def split: if_splits)
  have "i = j" if e: "slot_holds (decrement_kernel_latency g) i k" "slot_holds (decrement_kernel_latency g) j l"
      "ki_uid k = ki_uid l" for i j k l
    using s[OF e(1)] s[OF e(2)] e(3) kernels_okD(4)[OF assms] by metis
  moreover have "i = gk_last_issued_kernel g \<and> ki_kernel_TB_latency k = 0"
    if e: "slot_holds (decrement_kernel_latency g) i k" "ki_uid k \<in> set (gk_executed_kernel_uids g)"
      "\<not> no_more_ctas_to_run k" for i k
    using s[OF e(1)] e(2,3) kernels_okD(5)[OF assms] by metis
  ultimately show ?thesis
    using kernels_okD(1-3)[OF assms] by (intro kernels_okI) (auto simp: decrement_kernel_latency_def)
qed

lemma gpu_launch_ok:
  assumes "kernels_ok g" "gpu_launch k g = Some h" "dispatch_ok g (Launch k)"
  shows "kernels_ok h"
proof -
  obtain n where n: "first_free_slot (gk_running_kernels g) = Some n"
    "gk_config h = gk_config g" "gk_running_kernels h = (gk_running_kernels g)[n := Some k]"
    "gk_last_issued_kernel h = gk_last_issued_kernel g" "gk_executed_kernel_uids h = gk_executed_kernel_uids g"
    using assms(2) by (auto simp: gpu_launch_def Let_def split: bind_splits if_splits)
  have "ki_uid l \<noteq> ki_uid k" if "slot_holds g i l" for i l
    using assms(3) that by (force simp: slot_holds_def list_all_length)
  with assms(3) show ?thesis by (intro kernels_ok_slot[OF assms(1) n(2-5)]) auto
qed

lemma dispatch_step_ok:
  assumes "kernels_ok g" "dispatch_ok g e" "dispatch_step g e = Some h"
  shows "kernels_ok h"
proof (cases e)
  case (Launch k)
  then show ?thesis using gpu_launch_ok[OF assms(1)] assms(2,3) by simp
next
  case Select
  obtain r h' where "select_kernel g = Some (r, h')" "kernels_ok h'" by (rule select_kernel_ok[OF assms(1)])
  with Select assms(3) show ?thesis by simp
next
  case (Take_cta uid)
  with assms(3) show ?thesis
    by (intro with_kernel_ok[OF assms(1)]) (auto simp: increment_cta_id_def inc_running_def split: if_splits)
next
  case (Cta_done uid)
  with assms(3) have "with_kernel uid dec_running g = Some h" by simp
  then show ?thesis
    by (rule with_kernel_ok[OF assms(1)]) (auto simp: dec_running_def no_more_ctas_to_run_def split: if_splits)
next
  case Decrement_latency
  then show ?thesis using decrement_latency_ok[OF assms(1)] assms(3) by simp
next
  case (Kernel_done uid stream)
  with assms(3) obtain k where "set_kernel_done uid stream g = Some (k, h)" by auto
  then obtain n l where "kernel_slot uid g = Some (n, l)" "gk_config h = gk_config g"
    "gk_running_kernels h = (gk_running_kernels g)[n := None]"
    "gk_last_issued_kernel h = gk_last_issued_kernel g" "gk_executed_kernel_uids h = gk_executed_kernel_uids g"
    by (auto simp: set_kernel_done_def split: bind_splits)
  then show ?thesis using kernels_ok_slot[OF assms(1)] by blast
next
  case Clear_executed
  then show ?thesis using kernels_ok_fields[OF assms(1), of h] assms(3)
    by (auto simp: clear_executed_kernel_info_def)
qed

lemma dispatch_run_kernels_ok:
  "kernels_ok g \<Longrightarrow> dispatch_run_ok g es \<Longrightarrow> run_calls dispatch_step g es = Some h \<Longrightarrow> kernels_ok h"
  by (induction es arbitrary: g) (auto split: bind_splits dest: dispatch_step_ok)

lemma kernels_ok_new: "0 < gc_max_concurrent_kernel c \<Longrightarrow> kernels_ok (gpu_kernels_new c)"
  by (auto simp: kernels_ok_def gpu_kernels_new_def slot_holds_def)

subsection \<open>Properties\<close>


text \<open>Two slots, and a second kernel launched while the first still has blocks.\<close>

definition small_gpu_config :: gpu_config where
  "small_gpu_config = \<lparr>gc_max_concurrent_kernel = 2, gc_gpu_max_cycle_opt = 0, gc_gpu_max_insn_opt = 0,
     gc_gpu_max_cta_opt = 0, gc_gpu_max_completed_cta_opt = 0, gc_gpu_deadlock_detect = False,
     gc_n_thread_per_shader = 2048\<rparr>"

definition two_launches :: "dispatch_event list" where
  "two_launches = [Launch small_kernel, Select, Take_cta 1, Launch (small_kernel\<lparr>ki_uid := 2\<rparr>), Select]"

lemma two_slots: "replicate 2 x = [x, x]"
  by (simp add: numeral_2_eq_2)

lemmas dispatch_eval = two_launches_def gpu_kernels_new_def small_gpu_config_def gpu_launch_def free_slot_def
  select_kernel_def continues_def start_slot_def with_kernel_def kernel_slot_def small_kernel_def zero3_def
  kernel_done_def no_more_ctas_to_run_def kernel_running_def threads_per_cta_def wrap32_def Let_def
  increment_cta_id_def inc_running_def increment_x_then_y_then_z_def two_slots


end
