(* ===== verification/Thread_Init.thy ===== *)
theory Thread_Init
  imports Kernel_Dispatch
begin

section \<open>Creating the threads of a block\<close>

text \<open>
  \<open>ptx_sim_init_thread\<close> (\<open>cuda-sim.cc\<close>): the functional threads of a block are created
  together, when its first hardware thread asks, and wait in a list of the kernel until the
  hardware threads take them one by one. The class of a thread lies outside the overlay: here it is
  what this function sets in it, the memory spaces and the objects for blocks and warps being named
  by the keys of the static maps that hold them. What such an object of a block does with its
  threads is a parameter. The contents of memory are left out.
\<close>

record sim_thread =
  st_kernel :: nat
  st_ctaid :: dim3
  st_tid :: dim3
  st_shared :: nat
  st_local :: "nat \<times> nat"
  st_warp_info :: nat
  st_done :: bool
  st_hw_sid :: nat
  st_hw_cta :: nat
  st_hw_warp :: nat
  st_hw_tid :: nat
  st_functional :: bool

record 'c cta_info_env =
  ci_new :: "nat \<Rightarrow> 'c"
  ci_check_reset :: "'c \<Rightarrow> 'c option"
  ci_add_thread :: "sim_thread \<Rightarrow> 'c \<Rightarrow> 'c"
  ci_deleted_thread :: "sim_thread \<Rightarrow> 'c \<Rightarrow> 'c"
  ci_num_shaders :: nat

text \<open>The static maps: which memory spaces and objects exist.\<close>

record 'c sim_lookups =
  sl_cta :: "nat \<Rightarrow> 'c option"
  sl_local :: "nat \<times> nat \<Rightarrow> bool"
  sl_warp :: "nat \<Rightarrow> bool"

record init_call =
  ic_sid :: nat
  ic_tid :: nat
  ic_threads_left :: nat
  ic_num_threads :: nat
  ic_hw_cta_id :: nat
  ic_hw_warp_id :: nat
  ic_functional :: bool

definition thread_init :: "init_call \<Rightarrow> sim_thread \<Rightarrow> sim_thread" where
  "thread_init a th = th\<lparr>st_hw_sid := ic_sid a, st_hw_cta := ic_hw_cta_id a, st_hw_warp := ic_hw_warp_id a,
     st_hw_tid := ic_tid a, st_functional := ic_functional a\<rparr>"

text \<open>A thread that ended is taken out of its block and deleted.\<close>

definition drop_thread :: "'c cta_info_env \<Rightarrow> sim_thread option \<Rightarrow> 'c sim_lookups \<Rightarrow> 'c sim_lookups option" where
  "drop_thread env thread_info L =
     (case thread_info of None \<Rightarrow> Some L
      | Some thd \<Rightarrow> do {
          assert_that (st_done thd);
          c \<leftarrow> sl_cta L (st_shared thd);
          Some (L\<lparr>sl_cta := (sl_cta L)(st_shared thd \<mapsto> ci_deleted_thread env thd c)\<rparr>)
        })"

definition sm_index :: "'c cta_info_env \<Rightarrow> init_call \<Rightarrow> nat" where
  "sm_index env a = wrap32 (ic_hw_cta_id a * ci_num_shaders env + ic_sid a)"

definition cta_alloc :: "'c cta_info_env \<Rightarrow> nat \<Rightarrow> 'c sim_lookups \<Rightarrow> 'c sim_lookups option" where
  "cta_alloc env sm_idx L = do {
     c \<leftarrow> (case sl_cta L sm_idx of None \<Rightarrow> Some (ci_new env sm_idx) | Some c \<Rightarrow> ci_check_reset env c);
     Some (L\<lparr>sl_cta := (sl_cta L)(sm_idx \<mapsto> c)\<rparr>)
   }"

definition new_thread :: "'c cta_info_env \<Rightarrow> init_call \<Rightarrow> kernel_info \<Rightarrow> sim_thread" where
  "new_thread env a k = \<lparr>st_kernel = ki_uid k, st_ctaid = ki_next_cta k, st_tid = ki_next_tid k,
     st_shared = sm_index env a, st_local = (ic_sid a, wrap32 (get_next_thread_id k + ic_tid a)),
     st_warp_info = ic_hw_warp_id a, st_done = False, st_hw_sid = 0, st_hw_cta = 0, st_hw_warp = 0, st_hw_tid = 0,
     st_functional = False\<rparr>"

text \<open>The loop over the threads of a block.\<close>

lemma more_threads_measure:
  assumes "more_threads_in_cta k"
  shows "grid_volume (ki_block_dim (increment_thread_id k)) - raw_id (ki_next_tid (increment_thread_id k)) (ki_block_dim (increment_thread_id k))
    < grid_volume (ki_block_dim k) - raw_id (ki_next_tid k) (ki_block_dim k)"
proof -
  have "raw_id (ki_next_tid k) (ki_block_dim k) < grid_volume (ki_block_dim k)"
    using raw_id_less assms by (auto simp: more_threads_in_cta_def)
  moreover have "raw_id (ki_next_tid (increment_thread_id k)) (ki_block_dim k) = Suc (raw_id (ki_next_tid k) (ki_block_dim k))"
    using increment_step(1)[of "ki_next_tid k" "ki_block_dim k"] assms
    by (auto simp: more_threads_in_cta_def increment_thread_id_def grid_pos_def)
  ultimately show ?thesis by (simp add: increment_thread_id_def)
qed

function cta_threads :: "(kernel_info \<Rightarrow> sim_thread) \<Rightarrow> kernel_info \<Rightarrow> sim_thread list \<times> kernel_info" where
  "cta_threads mk k =
     (if more_threads_in_cta k
      then (let (ts, k') = cta_threads mk (increment_thread_id k) in (mk k # ts, k'))
      else ([], k))"
  by pat_completeness auto
termination
  by (relation "measure (\<lambda>(mk, k). grid_volume (ki_block_dim k) - raw_id (ki_next_tid k) (ki_block_dim k))")
     (use more_threads_measure in auto)

declare cta_threads.simps [simp del]

definition register_thread :: "'c cta_info_env \<Rightarrow> 'c sim_lookups \<Rightarrow> sim_thread \<Rightarrow> 'c sim_lookups option" where
  "register_thread env L thd = do {
     c \<leftarrow> sl_cta L (st_shared thd);
     Some (L\<lparr>sl_cta := (sl_cta L)(st_shared thd \<mapsto> ci_add_thread env thd c),
       sl_local := (sl_local L)(st_local thd := True), sl_warp := (sl_warp L)(st_warp_info thd := True)\<rparr>)
   }"

text \<open>The kernel goes with the list of its threads that no hardware thread has yet.\<close>

definition ptx_sim_init_thread :: "'c cta_info_env \<Rightarrow> init_call \<Rightarrow> sim_thread option \<Rightarrow>
    kernel_info \<times> sim_thread list \<Rightarrow> 'c sim_lookups \<Rightarrow>
    (nat \<times> sim_thread option \<times> (kernel_info \<times> sim_thread list) \<times> 'c sim_lookups) option" where
  "ptx_sim_init_thread env a thread_info = (\<lambda>(k, active) L. do {
     L \<leftarrow> drop_thread env thread_info L;
     (case active of
        thd # rest \<Rightarrow> do {
          assert_that (length active \<le> ic_threads_left a);
          Some (1, Some (thread_init a thd), (k, rest), L)
        }
      | [] \<Rightarrow>
        if no_more_ctas_to_run k then Some (0, None, (k, []), L)
        else if ic_threads_left a < threads_per_cta k then Some (0, None, (k, []), L)
        else do {
          assert_that (threads_per_cta k \<noteq> 0);
          assert_that (ic_num_threads a div threads_per_cta k > 0);
          L \<leftarrow> cta_alloc env (sm_index env a) L;
          let (ts, k) = cta_threads (new_thread env a) k;
          L \<leftarrow> run_calls (register_thread env) L ts;
          let k = increment_cta_id k;
          assert_that (length ts \<le> ic_threads_left a);
          (case ts of [] \<Rightarrow> None
           | thd # rest \<Rightarrow> Some (1, Some (thread_init a thd), (k, rest), L))
        })
   })"

subsection \<open>The threads of a block, in order\<close>

text \<open>Number \<open>i\<close> is the thread with linear index \<open>i\<close> in the block.\<close>

lemma threads_per_cta_volume:
  "grid_volume (ki_block_dim k) < 2 ^ 32 \<Longrightarrow> threads_per_cta k = grid_volume (ki_block_dim k)"
  by (simp add: threads_per_cta_def wrap32_def grid_volume_def mod_mult_left_eq)

lemma new_threads_from:
  assumes "grid_pos (ki_next_tid k) (ki_block_dim k)" "0 < d_x (ki_block_dim k)" "0 < d_y (ki_block_dim k)"
    "cta_threads (new_thread env a) k = (ts, k')"
  shows "raw_id (ki_next_tid k) (ki_block_dim k) + length ts = grid_volume (ki_block_dim k) \<and>
    (\<forall>i < length ts. raw_id (st_tid (ts ! i)) (ki_block_dim k) = raw_id (ki_next_tid k) (ki_block_dim k) + i \<and>
       st_ctaid (ts ! i) = ki_next_cta k \<and> st_kernel (ts ! i) = ki_uid k) \<and>
    (\<exists>t. k' = k\<lparr>ki_next_tid := t\<rparr>)"
  using assms
proof (induction "new_thread env a" k arbitrary: ts k' rule: cta_threads.induct)
  case (1 k)
  let ?b = "ki_block_dim k" and ?n = "raw_id (ki_next_tid k) (ki_block_dim k)" and ?mk = "new_thread env a"
  show ?case
  proof (cases "more_threads_in_cta k")
    case True
    obtain us where us: "cta_threads ?mk (increment_thread_id k) = (us, k')" "ts = ?mk k # us"
      using "1.prems"(4) True by (subst (asm) cta_threads.simps) (auto split: prod.splits)
    have step: "raw_id (ki_next_tid (increment_thread_id k)) ?b = Suc ?n"
      "grid_pos (ki_next_tid (increment_thread_id k)) ?b"
      using increment_step[of "ki_next_tid k" ?b] "1.prems" True
      by (auto simp: increment_thread_id_def more_threads_in_cta_def)
    have fields: "ki_block_dim (increment_thread_id k) = ?b" "ki_next_cta (increment_thread_id k) = ki_next_cta k"
      "ki_uid (increment_thread_id k) = ki_uid k"
      by (simp_all add: increment_thread_id_def)
    with "1.hyps"[OF True _ _ _ us(1)] step "1.prems"(2,3)
    have IH: "Suc ?n + length us = grid_volume ?b" "\<exists>t. k' = k\<lparr>ki_next_tid := t\<rparr>"
      "\<forall>i < length us. raw_id (st_tid (us ! i)) ?b = Suc ?n + i \<and> st_ctaid (us ! i) = ki_next_cta k \<and> st_kernel (us ! i) = ki_uid k"
      by (auto simp: increment_thread_id_def)
    moreover have "raw_id (st_tid (?mk k)) ?b = ?n \<and> st_ctaid (?mk k) = ki_next_cta k \<and> st_kernel (?mk k) = ki_uid k"
      by (simp add: new_thread_def)
    ultimately show ?thesis using us(2) by (auto simp: nth_Cons split: nat.splits)
  next
    case False
    then have "ts = [] \<and> k' = k" using "1.prems"(4) by (subst (asm) cta_threads.simps) auto
    moreover have "?n = grid_volume ?b"
      using at_end_iff[OF "1.prems"(1-3)] False by (auto simp: more_threads_in_cta_def not_less)
    ultimately show ?thesis by (auto intro: exI[of _ "ki_next_tid k"])
  qed
qed

end
