(* ===== verification/Cta_Dispatch.thy ===== *)
theory Cta_Dispatch
  imports Thread_Init Queue_Issue Barrier_Set
begin

section \<open>The life of a block on a core\<close>

text \<open>
  From the dispatch of a block (\<open>issue_block2core\<close> of \<open>gpu-sim.cc\<close>, with \<open>reinit\<close> and
  \<open>init_warps\<close> of \<open>shader.cc\<close>) to the exit of its last thread (the part of \<open>fetch\<close> that
  reclaims a warp, and \<open>register_cta_thread_exit\<close>), and the choice of core and cluster for a block.
  The SIMT stacks, the scoreboard and the program counter of a thread lie outside the overlay.
  Resuming from a checkpoint, which only loads files, is left out.
\<close>

record 'x cta_core = core_queues +
  cc_sid :: nat
  cc_cta_status :: "nat list"
  cc_n_active_cta :: nat
  cc_thread_cta :: "nat list"
  cc_thread_insn :: "nat list"
  cc_thread_active :: "bool list"
  cc_thread :: "sim_thread option list"
  cc_active_threads :: "nat \<Rightarrow> bool"
  cc_not_completed :: nat
  cc_active_warps :: int
  cc_dynamic_warp_id :: nat
  cc_barriers :: barrier_set
  cc_occupancy :: occupancy
  cc_kernel :: "nat option"
  cc_max_cta_per_shader :: nat
  cc_simt :: 'x

record 'c cta_gpu = gpu_kernels +
  cg_active_threads :: "nat \<Rightarrow> sim_thread list"
  cg_lookups :: "'c sim_lookups"
  cg_ctas_completed :: nat

record ('x, 'c) cta_env =
  ce_info :: "'c cta_info_env"
  ce_post_dominator :: bool
  ce_simt_reset :: "nat \<Rightarrow> 'x \<Rightarrow> 'x"
  ce_simt_launch :: "nat \<Rightarrow> u64 \<Rightarrow> active_mask_t \<Rightarrow> 'x \<Rightarrow> 'x"
  ce_thread_pc :: "sim_thread \<Rightarrow> u64"
  ce_thread_done :: "sim_thread \<Rightarrow> bool"
  ce_pending_writes :: "nat \<Rightarrow> 'x \<Rightarrow> bool"

text \<open>A core as its constructor leaves it, with the given warps.\<close>

definition cta_core_new :: "shader_core_config \<Rightarrow> nat \<Rightarrow> shd_warp list \<Rightarrow> barrier_set \<Rightarrow> queue_stats \<Rightarrow> 'x \<Rightarrow> 'x cta_core" where
  "cta_core_new cfg sid warps bars st x = (let n = sc_n_thread_per_shader cfg in
     \<lparr>cq_config = cfg, cq_warp = warps, cq_kernel_padded_threads_per_cta = 0, cq_rfq_table = Map.empty,
     cq_smemq_table = Map.empty, cq_rfq_stats = st, cq_smemq_stats = st, cc_sid = sid,
     cc_cta_status = replicate MAX_CTA_PER_SHADER 0, cc_n_active_cta = 0, cc_thread_cta = replicate n UINT_MAX,
     cc_thread_insn = replicate n 0, cc_thread_active = replicate n False, cc_thread = replicate n None,
     cc_active_threads = (\<lambda>_. False), cc_not_completed = 0, cc_active_warps = 0, cc_dynamic_warp_id = 0,
     cc_barriers = bars, cc_occupancy = occupancy_init, cc_kernel = None, cc_max_cta_per_shader = 0, cc_simt = x\<rparr>)"

subsection \<open>Resetting threads and warps\<close>

definition reset_core_state :: "'x cta_core \<Rightarrow> 'x cta_core" where
  "reset_core_state c = c\<lparr>cc_not_completed := 0, cc_active_threads := (\<lambda>_. False),
     cc_occupancy := occupancy_init, cq_rfq_table := rfq_clear (cq_rfq_table c),
     cq_smemq_table := smemq_clear (cq_smemq_table c), cc_active_warps := 0\<rparr>"

definition reset_thread_state :: "'x cta_core \<Rightarrow> nat \<Rightarrow> 'x cta_core option" where
  "reset_thread_state c i = do {
     insn \<leftarrow> vec_set (cc_thread_insn c) i 0;
     cta \<leftarrow> vec_set (cc_thread_cta c) i UINT_MAX;
     Some (c\<lparr>cc_thread_insn := insn, cc_thread_cta := cta\<rparr>)
   }"

definition with_cta_warp :: "nat \<Rightarrow> (shd_warp \<Rightarrow> shd_warp option) \<Rightarrow> 'x cta_core \<Rightarrow> 'x cta_core option" where
  "with_cta_warp i f c = do {
     w \<leftarrow> vec_at (cq_warp c) i;
     w \<leftarrow> f w;
     Some (c\<lparr>cq_warp := (cq_warp c)[i := w]\<rparr>)
   }"

definition reset_warp :: "('x, 'c) cta_env \<Rightarrow> 'x cta_core \<Rightarrow> nat \<Rightarrow> 'x cta_core option" where
  "reset_warp env c i = do {
     c \<leftarrow> with_cta_warp i sw_reset c;
     Some (c\<lparr>cc_simt := ce_simt_reset env i (cc_simt c)\<rparr>)
   }"

definition core_reinit :: "('x, 'c) cta_env \<Rightarrow> nat \<Rightarrow> nat \<Rightarrow> bool \<Rightarrow> 'x cta_core \<Rightarrow> 'x cta_core option" where
  "core_reinit env start_thread end_thread reset_not_completed c = do {
     let c = (if reset_not_completed then reset_core_state c else c);
     c \<leftarrow> run_calls reset_thread_state c [start_thread..<end_thread];
     assert_that (sc_warp_size (cq_config c) \<noteq> 0);
     run_calls (reset_warp env) c [start_thread div sc_warp_size (cq_config c)..<end_thread div sc_warp_size (cq_config c)]
   }"

subsection \<open>Starting the warps\<close>

definition next_pc :: "('x, 'c) cta_env \<Rightarrow> nat \<Rightarrow> 'x cta_core \<Rightarrow> u64 option" where
  "next_pc env tid c = do {
     th \<leftarrow> vec_at (cc_thread c) tid;
     Some (case th of None \<Rightarrow> -1 | Some th \<Rightarrow> ce_thread_pc env th)
   }"

text \<open>The threads of a warp that start: their number, and the mask.\<close>

definition start_lane :: "nat \<Rightarrow> nat \<Rightarrow> 'x cta_core \<times> nat \<times> active_mask_t \<Rightarrow> nat \<Rightarrow>
    ('x cta_core \<times> nat \<times> active_mask_t) option" where
  "start_lane warp end_thread = (\<lambda>(c, n_active, mask) t.
     let hwtid = warp * sc_warp_size (cq_config c) + t
     in if hwtid < end_thread then do {
          assert_that (hwtid < MAX_THREAD_PER_SM);
          assert_that (\<not> cc_active_threads c hwtid);
          assert_that (t < MAX_WARP_SIZE);
          Some (c\<lparr>cc_active_threads := (cc_active_threads c)(hwtid := True)\<rparr>, n_active + 1, set_bit t mask)
        } else Some (c, n_active, mask))"

definition init_warp :: "('x, 'c) cta_env \<Rightarrow> u64 \<Rightarrow> nat \<Rightarrow> nat \<Rightarrow> nat \<Rightarrow> 'x cta_core \<Rightarrow> nat \<Rightarrow> 'x cta_core option" where
  "init_warp env start_pc cta_id end_thread streamID c i = do {
     (c, n_active, mask) \<leftarrow> run_calls (start_lane i end_thread) (c, 0, 0) [0..<sc_warp_size (cq_config c)];
     let c = c\<lparr>cc_simt := ce_simt_launch env i start_pc mask (cc_simt c)\<rparr>;
     c \<leftarrow> with_cta_warp i (sw_init start_pc cta_id i mask (cc_dynamic_warp_id c) streamID) c;
     Some (c\<lparr>cc_dynamic_warp_id := wrap32 (cc_dynamic_warp_id c + 1),
       cc_not_completed := wrap32 (cc_not_completed c + n_active), cc_active_warps := cc_active_warps c + 1\<rparr>)
   }"

definition init_warps :: "('x, 'c) cta_env \<Rightarrow> nat \<Rightarrow> nat \<Rightarrow> nat \<Rightarrow> nat \<Rightarrow> 'x cta_core \<Rightarrow> 'x cta_core option" where
  "init_warps env cta_id start_thread end_thread streamID c = do {
     start_pc \<leftarrow> next_pc env start_thread c;
     (if ce_post_dominator env then do {
        let ws = sc_warp_size (cq_config c);
        assert_that (ws \<noteq> 0);
        run_calls (init_warp env start_pc cta_id end_thread streamID) c
          [start_thread div ws..<end_thread div ws + (if end_thread mod ws \<noteq> 0 then 1 else 0)]
      } else Some c)
   }"

subsection \<open>Dispatch of a block\<close>

fun first_free_cta :: "nat list \<Rightarrow> nat \<Rightarrow> nat \<Rightarrow> nat option" where
  "first_free_cta status i 0 = None"
| "first_free_cta status i (Suc n) = do {
     s \<leftarrow> vec_at status i;
     (if s = 0 then Some i else first_free_cta status (i + 1) n)
   }"

text \<open>Binding the functional threads to the hardware threads of the block.\<close>

record 'c bind_state =
  bs_kernel :: "kernel_info \<times> sim_thread list"
  bs_lookups :: "'c sim_lookups"
  bs_warps :: warp_set_t
  bs_nthreads :: nat

definition bind_thread :: "('x, 'c) cta_env \<Rightarrow> nat \<Rightarrow> nat \<Rightarrow> nat \<Rightarrow> 'x cta_core \<times> 'c bind_state \<Rightarrow> nat \<Rightarrow>
    ('x cta_core \<times> 'c bind_state) option" where
  "bind_thread env cta_id cta_size start_thread = (\<lambda>(c, b) i. do {
     cta \<leftarrow> vec_set (cc_thread_cta c) i cta_id;
     let warp_id = i div sc_warp_size (cq_config c);
     th \<leftarrow> vec_at (cc_thread c) i;
     (n, th, k, L) \<leftarrow> ptx_sim_init_thread (ce_info env) \<lparr>ic_sid = cc_sid c, ic_tid = i,
       ic_threads_left = cta_size - (i - start_thread), ic_num_threads = sc_n_thread_per_shader (cq_config c),
       ic_hw_cta_id = cta_id, ic_hw_warp_id = warp_id, ic_functional = False\<rparr> th (bs_kernel b) (bs_lookups b);
     active \<leftarrow> vec_set (cc_thread_active c) i True;
     warps \<leftarrow> ws_set (bs_warps b) warp_id;
     Some (c\<lparr>cc_thread_cta := cta, cc_thread := (cc_thread c)[i := th], cc_thread_active := active\<rparr>,
       \<lparr>bs_kernel = k, bs_lookups = L, bs_warps = warps, bs_nthreads = bs_nthreads b + n\<rparr>)
   })"

text \<open>Taking the resources, and the hardware threads.\<close>

definition take_resources :: "kernel_info \<Rightarrow> 'x cta_core \<Rightarrow> (kernel_info \<times> 'x cta_core) option" where
  "take_resources k c =
     (if \<not> sc_gpgpu_concurrent_kernel_sm (cq_config c) then do {
        (m, padded, k) \<leftarrow> set_max_cta (cq_config c) k;
        Some (k, c\<lparr>cc_max_cta_per_shader := m, cq_kernel_padded_threads_per_cta := padded\<rparr>)
      } else do {
        (ok, oc) \<leftarrow> occupy_shader_resource_1block (cq_config c) k True (cc_occupancy c);
        assert_that ok;
        Some (k, c\<lparr>cc_occupancy := oc\<rparr>)
      })"

definition take_threads :: "kernel_info \<Rightarrow> nat \<Rightarrow> 'x cta_core \<Rightarrow> (nat \<times> 'x cta_core) option" where
  "take_threads k cta_id c = do {
     padded \<leftarrow> padded_cta_size (cq_config c) k;
     (if \<not> sc_gpgpu_concurrent_kernel_sm (cq_config c) then Some (wrap32 (cta_id * padded), c)
      else do {
        (t, oc) \<leftarrow> find_available_hwtid (cq_config c) padded True (cc_occupancy c);
        start_thread \<leftarrow> t;
        assert_that (oc_cta_to_hwtid oc cta_id = None);
        Some (start_thread, c\<lparr>cc_occupancy := oc\<lparr>oc_cta_to_hwtid := (oc_cta_to_hwtid oc)(cta_id \<mapsto> start_thread)\<rparr>\<rparr>)
      })
   }"

text \<open>The part that follows the choice of the slot and of the threads.\<close>

definition place_block :: "('x, 'c) cta_env \<Rightarrow> nat \<Rightarrow> nat \<Rightarrow> nat \<Rightarrow> kernel_info \<times> sim_thread list \<Rightarrow> 'c sim_lookups \<Rightarrow>
    'x cta_core \<Rightarrow> ('x cta_core \<times> 'c bind_state) option" where
  "place_block env cta_id start_thread cta_size k L c = do {
     let end_thread = start_thread + cta_size;
     c \<leftarrow> core_reinit env start_thread end_thread False c;
     (c, b) \<leftarrow> run_calls (bind_thread env cta_id cta_size start_thread)
       (c, \<lparr>bs_kernel = k, bs_lookups = L, bs_warps = 0, bs_nthreads = 0\<rparr>) [start_thread..<end_thread];
     assert_that (bs_nthreads b > 0 \<and> bs_nthreads b \<le> sc_n_thread_per_shader (cq_config c));
     status \<leftarrow> vec_set (cc_cta_status c) cta_id (bs_nthreads b);
     bars \<leftarrow> allocate_barrier cta_id (bs_warps b) (cc_barriers c);
     c \<leftarrow> init_warps env cta_id start_thread end_thread (ki_streamID (fst k))
       (c\<lparr>cc_cta_status := status, cc_barriers := bars\<rparr>);
     Some (c\<lparr>cc_n_active_cta := cc_n_active_cta c + 1\<rparr>, b)
   }"

definition core_issue_block :: "('x, 'c) cta_env \<Rightarrow> nat \<Rightarrow> 'c cta_gpu \<times> 'x cta_core \<Rightarrow> ('c cta_gpu \<times> 'x cta_core) option" where
  "core_issue_block env uid = (\<lambda>(g, c). do {
     (n, k) \<leftarrow> kernel_slot uid g;
     (k, c) \<leftarrow> take_resources k c;
     let k = inc_running k;
     cta_id \<leftarrow> first_free_cta (cc_cta_status c) 0
       (if \<not> sc_gpgpu_concurrent_kernel_sm (cq_config c) then cc_max_cta_per_shader c
        else sc_max_cta_per_core (cq_config c));
     (start_thread, c) \<leftarrow> take_threads k cta_id c;
     (c, b) \<leftarrow> place_block env cta_id start_thread (threads_per_cta k) (k, cg_active_threads g uid) (cg_lookups g) c;
     Some (g\<lparr>gk_running_kernels := (gk_running_kernels g)[n := Some (fst (bs_kernel b))],
       cg_active_threads := (cg_active_threads g)(uid := snd (bs_kernel b)), cg_lookups := bs_lookups b\<rparr>, c)
   })"

subsection \<open>The exit of threads\<close>

text \<open>
  \<open>register_cta_thread_exit\<close>. The core forgets its kernel when it is empty; the kernel is done when
  it has no blocks left and none runs.
\<close>

definition core_emptied :: "nat \<Rightarrow> 'c cta_gpu \<times> 'x cta_core \<Rightarrow> ('c cta_gpu \<times> 'x cta_core) option" where
  "core_emptied uid = (\<lambda>(g, c).
     if cc_n_active_cta c = 0 then do {
       (case cc_kernel c of
          None \<Rightarrow> Some ()
        | Some own \<Rightarrow> if own = uid then Some () else do {
            (_, k) \<leftarrow> kernel_slot own g;
            assert_that (\<not> kernel_more_cta_left (Some k) g)
          });
       Some (g, c\<lparr>cc_kernel := None\<rparr>)
     } else Some (g, c))"

definition kernel_block_done :: "nat \<Rightarrow> 'c cta_gpu \<times> 'x cta_core \<Rightarrow> ('c cta_gpu \<times> 'x cta_core) option" where
  "kernel_block_done uid = (\<lambda>(g, c). do {
     (n, k) \<leftarrow> kernel_slot uid g;
     k \<leftarrow> dec_running k;
     let g = g\<lparr>gk_running_kernels := (gk_running_kernels g)[n := Some k]\<rparr>;
     (if \<not> kernel_more_cta_left (Some k) g \<and> \<not> kernel_running k then do {
        let c = (if cc_kernel c = Some uid then c\<lparr>cc_kernel := None\<rparr> else c);
        (_, g) \<leftarrow> set_kernel_done uid (ki_streamID k) g;
        Some (g, c)
      } else Some (g, c))
   })"

definition register_cta_thread_exit :: "nat \<Rightarrow> nat \<Rightarrow> 'c cta_gpu \<times> 'x cta_core \<Rightarrow> ('c cta_gpu \<times> 'x cta_core) option" where
  "register_cta_thread_exit cta_num uid = (\<lambda>(g, c). do {
     s \<leftarrow> vec_at (cc_cta_status c) cta_num;
     assert_that (s > 0);
     let c = c\<lparr>cc_cta_status := (cc_cta_status c)[cta_num := s - 1]\<rparr>;
     (if s - 1 \<noteq> 0 then Some (g, c)
      else do {
        let g = g\<lparr>cg_ctas_completed := cg_ctas_completed g + 1, gk_completed_cta := gk_completed_cta g + 1\<rparr>;
        bars \<leftarrow> deallocate_barrier cta_num (cc_barriers c);
        let c = c\<lparr>cc_n_active_cta := sub32 (cc_n_active_cta c) 1, cc_barriers := bars\<rparr>;
        (g, c) \<leftarrow> core_emptied uid (g, c);
        (n, k) \<leftarrow> kernel_slot uid g;
        oc \<leftarrow> release_shader_resource_1block (cq_config c) cta_num k (cc_occupancy c);
        kernel_block_done uid (g, c\<lparr>cq_rfq_table := rfq_erase_cta cta_num (cq_rfq_table c),
          cq_smemq_table := smemq_erase_cta cta_num (cq_smemq_table c), cc_occupancy := oc\<rparr>)
      })
   })"

text \<open>One thread of a warp that is done. The kernel is that of the functional thread, or
  else the one of the core.\<close>

definition exit_thread :: "nat \<Rightarrow> ('c cta_gpu \<times> 'x cta_core) \<times> bool \<Rightarrow> nat \<Rightarrow> (('c cta_gpu \<times> 'x cta_core) \<times> bool) option" where
  "exit_thread warp_id = (\<lambda>((g, c), did_exit) t. do {
     let tid = warp_id * sc_warp_size (cq_config c) + t;
     active \<leftarrow> vec_at (cc_thread_active c) tid;
     (if \<not> active then Some ((g, c), did_exit)
      else do {
        w \<leftarrow> vec_at (cq_warp c) warp_id;
        th \<leftarrow> vec_at (cc_thread c) tid;
        uid \<leftarrow> (case th of None \<Rightarrow> cc_kernel c | Some th \<Rightarrow> Some (st_kernel th));
        (g, c) \<leftarrow> register_cta_thread_exit (sw_cta_id w) uid
          (g, c\<lparr>cc_thread_active := (cc_thread_active c)[tid := False]\<rparr>);
        assert_that (tid < MAX_THREAD_PER_SM);
        Some ((g, c\<lparr>cc_not_completed := sub32 (cc_not_completed c) 1,
          cc_active_threads := (cc_active_threads c)(tid := False)\<rparr>), True)
      })
   })"

definition reclaim_warp :: "('x, 'c) cta_env \<Rightarrow> nat \<Rightarrow> 'c cta_gpu \<times> 'x cta_core \<Rightarrow> ('c cta_gpu \<times> 'x cta_core) option" where
  "reclaim_warp env warp_id = (\<lambda>(g, c). do {
     w \<leftarrow> vec_at (cq_warp c) warp_id;
     (if sw_hardware_done w \<and> \<not> ce_pending_writes env warp_id (cc_simt c) \<and> \<not> sw_done_exit w then do {
        ((g, c), did_exit) \<leftarrow> run_calls (exit_thread warp_id) ((g, c), False) [0..<sc_warp_size (cq_config c)];
        c \<leftarrow> (if did_exit then with_cta_warp warp_id (\<lambda>w. Some (w\<lparr>sw_done_exit := True\<rparr>)) c else Some c);
        let c = c\<lparr>cc_active_warps := cc_active_warps c - 1\<rparr>;
        assert_that (cc_active_warps c \<ge> 0);
        Some (g, c)
      } else Some (g, c))
   })"

text \<open>\<open>warp_exit\<close>: the barriers hear of a warp when all its threads are done.\<close>

definition core_warp_exit :: "('x, 'c) cta_env \<Rightarrow> nat \<Rightarrow> 'x cta_core \<Rightarrow> 'x cta_core option" where
  "core_warp_exit env warp_id c = do {
     ths \<leftarrow> run_calls (\<lambda>ths i. do { th \<leftarrow> vec_at (cc_thread c) i; Some (ths @ [th]) }) []
       [warp_id * sc_warp_size (cq_config c)..<(warp_id + 1) * sc_warp_size (cq_config c)];
     (if list_all (\<lambda>th. case th of None \<Rightarrow> True | Some th \<Rightarrow> ce_thread_done env th) ths then do {
        bars \<leftarrow> bs_warp_exit warp_id (cc_barriers c);
        Some (c\<lparr>cc_barriers := bars\<rparr>)
      } else Some c)
   }"

subsection \<open>Choice of core and cluster\<close>

record 'x simt_cluster =
  cl_core :: "'x cta_core list"
  cl_cta_issue_next_core :: nat

definition kernel_of :: "nat option \<Rightarrow> 'a gpu_kernels_scheme \<Rightarrow> kernel_info option option" where
  "kernel_of r g = (case r of None \<Rightarrow> Some None | Some uid \<Rightarrow> map_option (\<lambda>(n, k). Some k) (kernel_slot uid g))"

text \<open>The kernel that a core would take a block from.\<close>

definition kernel_for_core :: "'c cta_gpu \<times> 'x cta_core \<Rightarrow> (nat option \<times> 'c cta_gpu \<times> 'x cta_core) option" where
  "kernel_for_core = (\<lambda>(g, c).
     if sc_gpgpu_concurrent_kernel_sm (cq_config c) then do {
       (k, g) \<leftarrow> select_kernel g;
       Some (k, g, c)
     } else do {
       k \<leftarrow> kernel_of (cc_kernel c) g;
       (if \<not> kernel_more_cta_left k g \<and> cc_not_completed c = 0 then do {
          (k, g) \<leftarrow> select_kernel g;
          Some (k, g, if k \<noteq> None then c\<lparr>cc_kernel := k\<rparr> else c)
        } else Some (cc_kernel c, g, c))
     })"

text \<open>The test, which can also note in the kernel that the cache has been configured, and the dispatch.\<close>

definition try_core :: "('x, 'c) cta_env \<Rightarrow> 'c cta_gpu \<times> 'x cta_core \<Rightarrow> (bool \<times> 'c cta_gpu \<times> 'x cta_core) option" where
  "try_core env gc = do {
     (r, g, c) \<leftarrow> kernel_for_core gc;
     k \<leftarrow> kernel_of r g;
     (if kernel_more_cta_left k g then do {
        uid \<leftarrow> r;
        (n, k) \<leftarrow> kernel_slot uid g;
        (ok, k) \<leftarrow> can_issue_1block (cq_config c) (cc_n_active_cta c) (cc_occupancy c) k;
        let g = g\<lparr>gk_running_kernels := (gk_running_kernels g)[n := Some k]\<rparr>;
        (if ok then do { (g, c) \<leftarrow> core_issue_block env uid (g, c); Some (True, g, c) }
         else Some (False, g, c))
      } else Some (False, g, c))
   }"

fun try_cores :: "('x, 'c) cta_env \<Rightarrow> nat list \<Rightarrow> 'c cta_gpu \<times> 'x simt_cluster \<Rightarrow> (nat \<times> 'c cta_gpu \<times> 'x simt_cluster) option" where
  "try_cores env [] (g, cl) = Some (0, g, cl)"
| "try_cores env (core # cores) (g, cl) = do {
     c \<leftarrow> vec_at (cl_core cl) core;
     (issued, g, c) \<leftarrow> try_core env (g, c);
     let cl = cl\<lparr>cl_core := (cl_core cl)[core := c]\<rparr>;
     (if issued then Some (1, g, cl\<lparr>cl_cta_issue_next_core := core\<rparr>) else try_cores env cores (g, cl))
   }"

definition cluster_issue_block :: "('x, 'c) cta_env \<Rightarrow> nat \<Rightarrow> 'c cta_gpu \<times> 'x simt_cluster \<Rightarrow>
    (nat \<times> 'c cta_gpu \<times> 'x simt_cluster) option" where
  "cluster_issue_block env n_cores = (\<lambda>(g, cl).
     try_cores env (map (\<lambda>i. (i + cl_cta_issue_next_core cl + 1) mod n_cores) [0..<n_cores]) (g, cl))"

record 'x gpu_clusters =
  gl_cluster :: "'x simt_cluster list"
  gl_last_cluster_issue :: nat

definition issue_to_cluster :: "('x, 'c) cta_env \<Rightarrow> nat \<Rightarrow> 'c cta_gpu \<times> 'x gpu_clusters \<Rightarrow> nat \<Rightarrow>
    ('c cta_gpu \<times> 'x gpu_clusters) option" where
  "issue_to_cluster env n_cores = (\<lambda>(g, l) idx. do {
     cl \<leftarrow> vec_at (gl_cluster l) idx;
     (num, g, cl) \<leftarrow> cluster_issue_block env n_cores (g, cl);
     let l = l\<lparr>gl_cluster := (gl_cluster l)[idx := cl]\<rparr>;
     Some (if num \<noteq> 0 then (g\<lparr>gk_total_cta_launched := gk_total_cta_launched g + num\<rparr>, l\<lparr>gl_last_cluster_issue := idx\<rparr>)
       else (g, l))
   })"

definition gpu_issue_block2core :: "('x, 'c) cta_env \<Rightarrow> shader_core_config \<Rightarrow> 'c cta_gpu \<times> 'x gpu_clusters \<Rightarrow>
    ('c cta_gpu \<times> 'x gpu_clusters) option" where
  "gpu_issue_block2core env cfg = (\<lambda>(g, l). run_calls (issue_to_cluster env (sc_n_simt_cores_per_cluster cfg)) (g, l)
     (map (\<lambda>i. (i + gl_last_cluster_issue l + 1) mod sc_n_simt_clusters cfg) [0..<sc_n_simt_clusters cfg]))"

definition cluster_not_completed :: "'x simt_cluster \<Rightarrow> nat" where
  "cluster_not_completed cl = wrap32 (sum_list (map cc_not_completed (cl_core cl)))"

definition cluster_n_active_cta :: "'x simt_cluster \<Rightarrow> nat" where
  "cluster_n_active_cta cl = wrap32 (sum_list (map cc_n_active_cta (cl_core cl)))"

definition cluster_n_active_sms :: "'x simt_cluster \<Rightarrow> nat" where
  "cluster_n_active_sms cl = wrap32 (sum_list (map (\<lambda>c. if cc_n_active_cta c > 0 then 1 else 0) (cl_core cl)))"

definition cluster_reinit :: "('x, 'c) cta_env \<Rightarrow> 'x simt_cluster \<Rightarrow> 'x simt_cluster option" where
  "cluster_reinit env cl = do {
     cores \<leftarrow> run_calls (\<lambda>cs c. do {
       c \<leftarrow> core_reinit env 0 (sc_n_thread_per_shader (cq_config c)) True c; Some (cs @ [c]) }) [] (cl_core cl);
     Some (cl\<lparr>cl_core := cores\<rparr>)
   }"

definition cluster_max_cta :: "shader_core_config \<Rightarrow> kernel_info \<Rightarrow> (nat \<times> kernel_info) option" where
  "cluster_max_cta cfg k = do {
     (m, _, k) \<leftarrow> max_cta cfg k;
     Some (wrap32 (sc_n_simt_cores_per_cluster cfg * m), k)
   }"

end
