(* ===== verification/Cta_Life.thy ===== *)
theory Cta_Life
  imports Cta_Dispatch
begin

section \<open>Blocks on a core: what is kept, and what is left behind\<close>

text \<open>
  The accounting of a core that serves one kernel at a time: the counters of threads and blocks
  agree with the threads that are active, through the dispatch of a block and the exit of
  warps; the threads of a block are bound in order; and the last thread of a block takes
  everything of the block with it.
\<close>

subsection \<open>What each step of a dispatch changes\<close>

lemma reset_threads_effect:
  assumes "run_calls reset_thread_state c ts = Some d" "set ts \<subseteq> {s..<e}"
  shows "\<exists>insn cta. d = c\<lparr>cc_thread_insn := insn, cc_thread_cta := cta\<rparr> \<and> length cta = length (cc_thread_cta c) \<and>
    (\<forall>t. t < s \<or> e \<le> t \<longrightarrow> cta ! t = cc_thread_cta c ! t)" (is "?P d")
proof (rule run_calls_invariant[OF assms(1)])
  show "?P c" by (intro exI[of _ "cc_thread_insn c"] exI[of _ "cc_thread_cta c"]) simp
  fix q i q' assume "?P q" "i \<in> set ts" "reset_thread_state q i = Some q'"
  then obtain insn cta where *: "length cta = length (cc_thread_cta c)" "\<forall>t. t < s \<or> e \<le> t \<longrightarrow> cta ! t = cc_thread_cta c ! t"
    "q' = c\<lparr>cc_thread_insn := insn[i := 0], cc_thread_cta := cta[i := UINT_MAX]\<rparr>"
    by (auto simp: reset_thread_state_def vec_set_def split: bind_splits if_splits)
  have i: "s \<le> i" "i < e" using assms(2) \<open>i \<in> set ts\<close> by auto
  show "?P q'" by (intro exI conjI, rule *(3)) (use *(1,2) i in \<open>auto simp: nth_list_update\<close>)
qed

lemma reset_cta_id: "sw_reset w = Some v \<Longrightarrow> sw_cta_id v = sw_cta_id w"
  by (auto simp: sw_reset_def sw_clear_depbar_def split: if_splits)

lemma reset_warps_effect:
  assumes "run_calls (reset_warp env) c ws = Some d"
  shows "\<exists>warps x. d = c\<lparr>cq_warp := warps, cc_simt := x\<rparr> \<and> map sw_cta_id warps = map sw_cta_id (cq_warp c)" (is "?P d")
proof (rule run_calls_invariant[OF assms])
  show "?P c" by (intro exI[of _ "cq_warp c"] exI[of _ "cc_simt c"]) simp
  fix q i q' assume "?P q" "reset_warp env q i = Some q'"
  then obtain warps x w where w: "q = c\<lparr>cq_warp := warps, cc_simt := x\<rparr>" "map sw_cta_id warps = map sw_cta_id (cq_warp c)"
    "i < length warps" "sw_reset (warps ! i) = Some w"
    "q' = c\<lparr>cq_warp := warps[i := w], cc_simt := ce_simt_reset env i x\<rparr>"
    by (auto simp: reset_warp_def with_cta_warp_def split: bind_splits)
  have m: "map sw_cta_id (warps[i := w]) = map sw_cta_id warps"
    using w(3) reset_cta_id[OF w(4)] by (simp add: map_update list_update_same_conv)
  show "?P q'" by (intro exI conjI, rule w(5)) (use w(2) m in simp)
qed

lemma reinit_effect:
  assumes "core_reinit env s e False c = Some d"
  shows "\<exists>insn cta warps x. d = c\<lparr>cc_thread_insn := insn, cc_thread_cta := cta, cq_warp := warps, cc_simt := x\<rparr> \<and>
    length cta = length (cc_thread_cta c) \<and> (\<forall>t. t < s \<or> e \<le> t \<longrightarrow> cta ! t = cc_thread_cta c ! t) \<and>
    map sw_cta_id warps = map sw_cta_id (cq_warp c)"
proof -
  obtain b ws where b: "run_calls reset_thread_state c [s..<e] = Some b" "run_calls (reset_warp env) b ws = Some d"
    using assms by (auto simp: core_reinit_def Let_def split: bind_splits if_splits)
  obtain insn cta where i: "b = c\<lparr>cc_thread_insn := insn, cc_thread_cta := cta\<rparr>" "length cta = length (cc_thread_cta c)"
    "\<forall>t. t < s \<or> e \<le> t \<longrightarrow> cta ! t = cc_thread_cta c ! t"
    using reset_threads_effect[OF b(1), of s e] by auto
  obtain warps x where w: "d = b\<lparr>cq_warp := warps, cc_simt := x\<rparr>" "map sw_cta_id warps = map sw_cta_id (cq_warp c)"
    using reset_warps_effect[OF b(2)] i(1) by auto
  show ?thesis by (intro exI conjI, rule w(1)[unfolded i(1)]) (use i w(2) in auto)
qed

text \<open>Binding a thread that waits in the list of the kernel.\<close>

lemma bind_waiting:
  assumes "bind_thread env cta_id n s (c, b) i = Some (c', b')" "bs_kernel b = (k, th # rest)"
  shows "\<exists>a. ic_tid a = i \<and> c' = c\<lparr>cc_thread_cta := (cc_thread_cta c)[i := cta_id],
      cc_thread := (cc_thread c)[i := Some (thread_init a th)], cc_thread_active := (cc_thread_active c)[i := True]\<rparr> \<and>
    bs_kernel b' = (k, rest) \<and> bs_nthreads b' = bs_nthreads b + 1 \<and>
    i < length (cc_thread_cta c) \<and> i < length (cc_thread c) \<and> i < length (cc_thread_active c)"
proof -
  let ?a = "\<lparr>ic_sid = cc_sid c, ic_tid = i, ic_threads_left = n - (i - s), ic_num_threads = sc_n_thread_per_shader (cq_config c),
    ic_hw_cta_id = cta_id, ic_hw_warp_id = i div sc_warp_size (cq_config c), ic_functional = False\<rparr>"
  have "c' = c\<lparr>cc_thread_cta := (cc_thread_cta c)[i := cta_id],
      cc_thread := (cc_thread c)[i := Some (thread_init ?a th)], cc_thread_active := (cc_thread_active c)[i := True]\<rparr> \<and>
    bs_kernel b' = (k, rest) \<and> bs_nthreads b' = bs_nthreads b + 1 \<and>
    i < length (cc_thread_cta c) \<and> i < length (cc_thread c) \<and> i < length (cc_thread_active c)"
    using assms
    by (auto simp: bind_thread_def ptx_sim_init_thread_def vec_set_def Let_def split: bind_splits if_splits)
  then show ?thesis by (intro exI[of _ ?a]) simp
qed

text \<open>The core after the threads \<open>lo\<close> to \<open>hi - 1\<close> have been bound, the first to \<open>ts ! 0\<close>.\<close>

definition bound_core :: "'x cta_core \<Rightarrow> nat \<Rightarrow> nat \<Rightarrow> sim_thread list \<Rightarrow> 'x cta_core \<Rightarrow> bool" where
  "bound_core c cta_id lo ts d \<longleftrightarrow>
     (\<exists>cta th act. d = c\<lparr>cc_thread_cta := cta, cc_thread := th, cc_thread_active := act\<rparr> \<and>
       length cta = length (cc_thread_cta c) \<and> length th = length (cc_thread c) \<and> length act = length (cc_thread_active c) \<and>
       (\<forall>t. t < lo \<or> lo + length ts \<le> t \<longrightarrow> cta ! t = cc_thread_cta c ! t \<and> act ! t = cc_thread_active c ! t) \<and>
       (\<forall>i < length ts. lo + i < length cta \<and> lo + i < length act \<and> lo + i < length th \<and>
          cta ! (lo + i) = cta_id \<and> act ! (lo + i) \<and>
          (\<exists>a. ic_tid a = lo + i \<and> th ! (lo + i) = Some (thread_init a (ts ! i)))))"

lemma bound_core_step:
  assumes "bound_core c cta_id lo ts d" "i = lo + length ts" "ic_tid a = i"
    "i < length (cc_thread_cta d)" "i < length (cc_thread d)" "i < length (cc_thread_active d)"
    "d' = d\<lparr>cc_thread_cta := (cc_thread_cta d)[i := cta_id],
      cc_thread := (cc_thread d)[i := Some (thread_init a t)], cc_thread_active := (cc_thread_active d)[i := True]\<rparr>"
  shows "bound_core c cta_id lo (ts @ [t]) d'"
proof -
  obtain cta th act where *: "d = c\<lparr>cc_thread_cta := cta, cc_thread := th, cc_thread_active := act\<rparr>"
    "length cta = length (cc_thread_cta c)" "length th = length (cc_thread c)" "length act = length (cc_thread_active c)"
    "\<forall>t. t < lo \<or> lo + length ts \<le> t \<longrightarrow> cta ! t = cc_thread_cta c ! t \<and> act ! t = cc_thread_active c ! t"
    "\<forall>i < length ts. lo + i < length cta \<and> lo + i < length act \<and> lo + i < length th \<and>
          cta ! (lo + i) = cta_id \<and> act ! (lo + i) \<and>
          (\<exists>a. ic_tid a = lo + i \<and> th ! (lo + i) = Some (thread_init a (ts ! i)))"
    using assms(1) unfolding bound_core_def by blast
  have d': "d' = c\<lparr>cc_thread_cta := cta[i := cta_id], cc_thread := th[i := Some (thread_init a t)],
      cc_thread_active := act[i := True]\<rparr>" using assms(7) *(1) by simp
  show ?thesis unfolding bound_core_def
    by (intro exI conjI, rule d')
       (use * assms(2-6) in \<open>auto simp: nth_list_update nth_append less_Suc_eq\<close>)
qed

lemma bind_list:
  assumes "run_calls (bind_thread env cta_id n s) (d, b) [i..<i + length us] = Some (d', b')"
    "bs_kernel b = (k, us)" "bound_core c cta_id s ts d" "i = s + length ts"
  shows "bound_core c cta_id s (ts @ us) d' \<and> bs_kernel b' = (k, []) \<and> bs_nthreads b' = bs_nthreads b + length us"
  using assms
proof (induction us arbitrary: d b i ts)
  case (Cons u us)
  have "[i..<i + length (u # us)] = i # [i + 1..<(i + 1) + length us]" by (simp add: upt_rec)
  with Cons.prems(1) obtain d1 b1 where 1: "bind_thread env cta_id n s (d, b) i = Some (d1, b1)"
    "run_calls (bind_thread env cta_id n s) (d1, b1) [i + 1..<(i + 1) + length us] = Some (d', b')"
    by (auto split: bind_splits simp del: upt_Suc)
  obtain a where a: "ic_tid a = i" "d1 = d\<lparr>cc_thread_cta := (cc_thread_cta d)[i := cta_id],
      cc_thread := (cc_thread d)[i := Some (thread_init a u)], cc_thread_active := (cc_thread_active d)[i := True]\<rparr>"
    "bs_kernel b1 = (k, us)" "bs_nthreads b1 = bs_nthreads b + 1"
    "i < length (cc_thread_cta d)" "i < length (cc_thread d)" "i < length (cc_thread_active d)"
    using bind_waiting[OF 1(1) Cons.prems(2)] by blast
  have "bound_core c cta_id s (ts @ [u]) d1"
    by (rule bound_core_step[OF Cons.prems(3,4) a(1,5,6,7,2)])
  from Cons.IH[OF 1(2) a(3) this] Cons.prems(4) a(4) show ?case by simp
qed simp

text \<open>The threads of one block of a kernel, in the order of their linear index.\<close>

definition block_threads :: "kernel_info \<Rightarrow> sim_thread list \<Rightarrow> bool" where
  "block_threads k ts \<longleftrightarrow> ts \<noteq> [] \<and> length ts = threads_per_cta k \<and>
     (\<forall>i < length ts. raw_id (st_tid (ts ! i)) (ki_block_dim k) = i \<and> st_ctaid (ts ! i) = ki_next_cta k \<and>
        st_kernel (ts ! i) = ki_uid k)"

lemma bind_first:
  assumes "bind_thread env cta_id (threads_per_cta k) s (c, b) s = Some (c', b')" "bs_kernel b = (k, [])"
    "\<not> no_more_ctas_to_run k" "ki_next_tid k = zero3" "grid_volume (ki_block_dim k) < 2 ^ 32"
  obtains ts where "block_threads k ts" "bound_core c cta_id s [hd ts] c'"
    "bs_kernel b' = (increment_cta_id k, tl ts)" "bs_nthreads b' = bs_nthreads b + 1"
proof -
  let ?a = "\<lparr>ic_sid = cc_sid c, ic_tid = s, ic_threads_left = threads_per_cta k - (s - s),
    ic_num_threads = sc_n_thread_per_shader (cq_config c), ic_hw_cta_id = cta_id,
    ic_hw_warp_id = s div sc_warp_size (cq_config c), ic_functional = False\<rparr>"
  let ?mk = "new_thread (ce_info env) ?a"
  obtain ts k1 where t: "cta_threads ?mk k = (ts, k1)" "ts \<noteq> []" "bs_kernel b' = (increment_cta_id k1, tl ts)"
    "bs_nthreads b' = bs_nthreads b + 1" "s < length (cc_thread_cta c)" "s < length (cc_thread c)" "s < length (cc_thread_active c)"
    "c' = c\<lparr>cc_thread_cta := (cc_thread_cta c)[s := cta_id], cc_thread := (cc_thread c)[s := Some (thread_init ?a (hd ts))],
      cc_thread_active := (cc_thread_active c)[s := True]\<rparr>"
    using assms(1-3)
    by (auto simp: bind_thread_def ptx_sim_init_thread_def vec_set_def Let_def
        split: bind_splits if_splits list.splits prod.splits)
  have "more_threads_in_cta k" using t(1,2) by (subst (asm) cta_threads.simps) (auto split: if_splits)
  then have pos: "grid_pos (ki_next_tid k) (ki_block_dim k)" "0 < d_x (ki_block_dim k)" "0 < d_y (ki_block_dim k)"
    by (auto simp: more_threads_in_cta_def grid_pos_def)
  have zero: "raw_id (ki_next_tid k) (ki_block_dim k) = 0" by (simp add: assms(4) zero3_def raw_id_def)
  obtain x where x: "length ts = grid_volume (ki_block_dim k)" "k1 = k\<lparr>ki_next_tid := x\<rparr>"
    "\<forall>i < length ts. raw_id (st_tid (ts ! i)) (ki_block_dim k) = i \<and> st_ctaid (ts ! i) = ki_next_cta k \<and>
      st_kernel (ts ! i) = ki_uid k"
    using new_threads_from[OF pos t(1)] zero by auto
  have "block_threads k ts"
    using t(2) x threads_per_cta_volume[OF assms(5)] by (simp add: block_threads_def)
  moreover have "bound_core c cta_id s ([] @ [hd ts]) c'"
  proof (rule bound_core_step[OF _ _ _ t(5-8)])
    show "bound_core c cta_id s [] c" unfolding bound_core_def
      by (intro exI[of _ "cc_thread_cta c"] exI[of _ "cc_thread c"] exI[of _ "cc_thread_active c"]) simp
  qed simp_all
  moreover have "bs_kernel b' = (increment_cta_id k, tl ts)" using t(3) x(2) by (simp add: increment_cta_id_def)
  ultimately show ?thesis using t(4) by (intro that) simp_all
qed

lemma bind_block:
  assumes "run_calls (bind_thread env cta_id (threads_per_cta k) s) (c, b) [s..<s + threads_per_cta k] = Some (d, b')"
    "bs_kernel b = (k, [])" "bs_nthreads b = 0" "0 < threads_per_cta k"
    "\<not> no_more_ctas_to_run k" "ki_next_tid k = zero3" "grid_volume (ki_block_dim k) < 2 ^ 32"
  obtains ts where "block_threads k ts" "bound_core c cta_id s ts d" "bs_kernel b' = (increment_cta_id k, [])"
    "bs_nthreads b' = threads_per_cta k"
proof -
  have "[s..<s + threads_per_cta k] = s # [s + 1..<(s + 1) + (threads_per_cta k - 1)]"
    using assms(4) by (simp add: upt_rec)
  with assms(1) obtain c1 b1 where 1: "bind_thread env cta_id (threads_per_cta k) s (c, b) s = Some (c1, b1)"
    "run_calls (bind_thread env cta_id (threads_per_cta k) s) (c1, b1) [s + 1..<(s + 1) + (threads_per_cta k - 1)] = Some (d, b')"
    by (auto split: bind_splits simp del: upt_Suc)
  obtain ts where ts: "block_threads k ts" "bound_core c cta_id s [hd ts] c1" "bs_kernel b1 = (increment_cta_id k, tl ts)"
    "bs_nthreads b1 = bs_nthreads b + 1"
    by (rule bind_first[OF 1(1) assms(2,5-7)])
  have len: "length (tl ts) = threads_per_cta k - 1" "[hd ts] @ tl ts = ts" "length ts = threads_per_cta k"
    using ts(1) by (auto simp: block_threads_def)
  have "run_calls (bind_thread env cta_id (threads_per_cta k) s) (c1, b1) [s + 1..<(s + 1) + length (tl ts)] = Some (d, b')"
    using 1(2) len(1) by simp
  from bind_list[OF this ts(3,2)] have "bound_core c cta_id s ts d" "bs_kernel b' = (increment_cta_id k, [])"
    "bs_nthreads b' = bs_nthreads b1 + length (tl ts)" using len(2) by simp_all
  then show ?thesis using ts(1,4) len assms(3,4) by (intro that[of ts]) simp_all
qed

text \<open>The lanes of a warp that start.\<close>

lemma lanes_effect:
  assumes "run_calls (start_lane i e) (c, 0, 0) [0..<n] = Some (d, cnt, msk)"
  shows "\<exists>f. d = c\<lparr>cc_active_threads := f\<rparr> \<and>
    (\<forall>t. f t \<longleftrightarrow> cc_active_threads c t \<or> (i * sc_warp_size (cq_config c) \<le> t \<and> t < i * sc_warp_size (cq_config c) + n \<and> t < e)) \<and>
    (\<forall>t. i * sc_warp_size (cq_config c) \<le> t \<and> t < i * sc_warp_size (cq_config c) + n \<and> t < e \<longrightarrow>
       \<not> cc_active_threads c t \<and> t < MAX_THREAD_PER_SM) \<and>
    cnt = min (i * sc_warp_size (cq_config c) + n) e - i * sc_warp_size (cq_config c)"
  using assms
proof (induction n arbitrary: d cnt msk)
  case 0
  then show ?case by (intro exI[of _ "cc_active_threads c"]) auto
next
  case (Suc n)
  let ?w = "i * sc_warp_size (cq_config c)"
  obtain d1 cnt1 msk1 where 1: "run_calls (start_lane i e) (c, 0, 0) [0..<n] = Some (d1, cnt1, msk1)"
    "start_lane i e (d1, cnt1, msk1) n = Some (d, cnt, msk)"
    using Suc.prems by (auto simp: run_calls_append split: bind_splits)
  obtain f where f: "d1 = c\<lparr>cc_active_threads := f\<rparr>"
    "\<forall>t. f t \<longleftrightarrow> cc_active_threads c t \<or> (?w \<le> t \<and> t < ?w + n \<and> t < e)"
    "\<forall>t. ?w \<le> t \<and> t < ?w + n \<and> t < e \<longrightarrow> \<not> cc_active_threads c t \<and> t < MAX_THREAD_PER_SM"
    "cnt1 = min (?w + n) e - ?w"
    using Suc.IH[OF 1(1)] by blast
  show ?case
  proof (cases "?w + n < e")
    case True
    then have d: "d = c\<lparr>cc_active_threads := f(?w + n := True)\<rparr>" "cnt = cnt1 + 1" "\<not> f (?w + n)" "?w + n < MAX_THREAD_PER_SM"
      using 1(2) f(1) by (auto simp: start_lane_def Let_def split: if_splits)
    show ?thesis
      by (intro exI conjI, rule d(1)) (use f(2-4) d(2-4) True in \<open>auto simp: less_Suc_eq min_def\<close>)
  next
    case False
    then have d: "d = d1" "cnt = cnt1" using 1(2) f(1) by (auto simp: start_lane_def Let_def split: if_splits)
    show ?thesis
      by (intro exI conjI, rule d(1)[unfolded f(1)]) (use f(2-4) d(2) False in \<open>auto simp: less_Suc_eq min_def\<close>)
  qed
qed

text \<open>The core after the warps \<open>a\<close> to \<open>a + m - 1\<close> have started with threads below \<open>e\<close>.\<close>

definition started_core :: "'x cta_core \<Rightarrow> nat \<Rightarrow> nat \<Rightarrow> nat \<Rightarrow> nat \<Rightarrow> 'x cta_core \<Rightarrow> bool" where
  "started_core c cta_id a m e d \<longleftrightarrow> (let ws = sc_warp_size (cq_config c) in
     \<exists>f x warps dyn nc aw. d = c\<lparr>cc_active_threads := f, cc_simt := x, cq_warp := warps, cc_dynamic_warp_id := dyn,
         cc_not_completed := nc, cc_active_warps := aw\<rparr> \<and>
       (\<forall>t. f t \<longleftrightarrow> cc_active_threads c t \<or> (a * ws \<le> t \<and> t < (a + m) * ws \<and> t < e)) \<and>
       (\<forall>t. a * ws \<le> t \<and> t < (a + m) * ws \<and> t < e \<longrightarrow> \<not> cc_active_threads c t \<and> t < MAX_THREAD_PER_SM) \<and>
       length warps = length (cq_warp c) \<and>
       (\<forall>i < length warps. sw_cta_id (warps ! i) = (if a \<le> i \<and> i < a + m then cta_id else sw_cta_id (cq_warp c ! i))) \<and>
       nc mod 2 ^ 32 = (cc_not_completed c + (min ((a + m) * ws) e - a * ws)) mod 2 ^ 32 \<and>
       (nc < 2 ^ 32 \<or> m = 0) \<and> aw = cc_active_warps c + int m)"

lemma init_warp_effect:
  assumes "init_warp env pc cta_id e stream c i = Some d"
  obtains f x w dyn where "d = c\<lparr>cc_active_threads := f, cc_simt := x, cq_warp := (cq_warp c)[i := w],
      cc_dynamic_warp_id := dyn, cc_not_completed := wrap32 (cc_not_completed c +
        (min (i * sc_warp_size (cq_config c) + sc_warp_size (cq_config c)) e - i * sc_warp_size (cq_config c))),
      cc_active_warps := cc_active_warps c + 1\<rparr>"
    "sw_cta_id w = cta_id" "i < length (cq_warp c)"
    "\<forall>t. f t \<longleftrightarrow> cc_active_threads c t \<or> (i * sc_warp_size (cq_config c) \<le> t \<and> t < i * sc_warp_size (cq_config c) + sc_warp_size (cq_config c) \<and> t < e)"
    "\<forall>t. i * sc_warp_size (cq_config c) \<le> t \<and> t < i * sc_warp_size (cq_config c) + sc_warp_size (cq_config c) \<and> t < e \<longrightarrow>
       \<not> cc_active_threads c t \<and> t < MAX_THREAD_PER_SM"
proof -
  let ?ws = "sc_warp_size (cq_config c)"
  obtain d1 cnt msk where 1: "run_calls (start_lane i e) (c, 0, 0) [0..<?ws] = Some (d1, cnt, msk)"
    using assms by (auto simp: init_warp_def Let_def split: bind_splits)
  obtain f where f: "d1 = c\<lparr>cc_active_threads := f\<rparr>"
    "\<forall>t. f t \<longleftrightarrow> cc_active_threads c t \<or> (i * ?ws \<le> t \<and> t < i * ?ws + ?ws \<and> t < e)"
    "\<forall>t. i * ?ws \<le> t \<and> t < i * ?ws + ?ws \<and> t < e \<longrightarrow> \<not> cc_active_threads c t \<and> t < MAX_THREAD_PER_SM"
    "cnt = min (i * ?ws + ?ws) e - i * ?ws"
    using lanes_effect[OF 1] by blast
  obtain w where w: "i < length (cq_warp c)" "sw_init pc cta_id i msk (cc_dynamic_warp_id c) stream (cq_warp c ! i) = Some w"
    "d = c\<lparr>cc_active_threads := f, cc_simt := ce_simt_launch env i pc msk (cc_simt c), cq_warp := (cq_warp c)[i := w],
      cc_dynamic_warp_id := wrap32 (cc_dynamic_warp_id c + 1), cc_not_completed := wrap32 (cc_not_completed c + cnt),
      cc_active_warps := cc_active_warps c + 1\<rparr>"
    using assms 1 f(1) by (auto simp: init_warp_def Let_def with_cta_warp_def split: bind_splits)
  have "sw_cta_id w = cta_id"
    using w(2) by (auto simp: sw_init_def sw_clear_depbar_def split: if_splits)
  from that[OF w(3)[unfolded f(4)] this w(1) f(2,3)] show thesis .
qed

lemma two_ranges:
  "A \<le> M \<Longrightarrow> M \<le> N \<Longrightarrow> ((P \<or> (A \<le> t \<and> t < M \<and> Q)) \<or> (M \<le> t \<and> t < N \<and> Q)) \<longleftrightarrow> P \<or> (A \<le> t \<and> t < N \<and> Q)"
  for A M N t :: nat
  by auto

lemma min_ranges: "A \<le> M \<Longrightarrow> M \<le> N \<Longrightarrow> min M e - A + (min N e - M) = min N e - A" for A M N e :: nat
  by (simp add: min_def)

lemma add_counts:
  assumes "x mod p = (c + a) mod p" "a + b = (r :: nat)"
  shows "(x + b) mod p = (c + r) mod p"
proof -
  have "(x + b) mod p = (x mod p + b) mod p" by (simp only: mod_add_left_eq)
  also have "\<dots> = (c + a + b) mod p" by (simp only: assms(1) mod_add_left_eq)
  finally show ?thesis using assms(2) by (simp add: add.assoc)
qed

lemma started_core_step:
  assumes "started_core c cta_id a m e d" "init_warp env pc cta_id e stream d (a + m) = Some d'"
  shows "started_core c cta_id a (Suc m) e d'"
proof -
  let ?ws = "sc_warp_size (cq_config c)"
  obtain f x warps dyn nc aw where d: "d = c\<lparr>cc_active_threads := f, cc_simt := x, cq_warp := warps,
      cc_dynamic_warp_id := dyn, cc_not_completed := nc, cc_active_warps := aw\<rparr>"
    "\<forall>t. f t \<longleftrightarrow> cc_active_threads c t \<or> (a * ?ws \<le> t \<and> t < (a + m) * ?ws \<and> t < e)"
    "\<forall>t. a * ?ws \<le> t \<and> t < (a + m) * ?ws \<and> t < e \<longrightarrow> \<not> cc_active_threads c t \<and> t < MAX_THREAD_PER_SM"
    "length warps = length (cq_warp c)"
    "\<forall>i < length warps. sw_cta_id (warps ! i) = (if a \<le> i \<and> i < a + m then cta_id else sw_cta_id (cq_warp c ! i))"
    "nc mod 2 ^ 32 = (cc_not_completed c + (min ((a + m) * ?ws) e - a * ?ws)) mod 2 ^ 32"
    "aw = cc_active_warps c + int m"
    using assms(1) unfolding started_core_def Let_def by blast
  have cfg: "cq_config d = cq_config c" by (simp add: d(1))
  have nxt: "(a + m) * ?ws + ?ws = (a + Suc m) * ?ws" by simp
  obtain g y w dyn' where g: "d' = d\<lparr>cc_active_threads := g, cc_simt := y, cq_warp := (cq_warp d)[a + m := w],
      cc_dynamic_warp_id := dyn', cc_not_completed := wrap32 (cc_not_completed d +
        (min ((a + Suc m) * ?ws) e - (a + m) * ?ws)), cc_active_warps := cc_active_warps d + 1\<rparr>"
    "sw_cta_id w = cta_id" "a + m < length (cq_warp d)"
    "\<forall>t. g t \<longleftrightarrow> cc_active_threads d t \<or> ((a + m) * ?ws \<le> t \<and> t < (a + Suc m) * ?ws \<and> t < e)"
    "\<forall>t. (a + m) * ?ws \<le> t \<and> t < (a + Suc m) * ?ws \<and> t < e \<longrightarrow> \<not> cc_active_threads d t \<and> t < MAX_THREAD_PER_SM"
    using init_warp_effect[OF assms(2)] unfolding cfg nxt by metis
  have le: "a * ?ws \<le> (a + m) * ?ws" "(a + m) * ?ws \<le> (a + Suc m) * ?ws" by simp_all
  have d': "d' = c\<lparr>cc_active_threads := g, cc_simt := y, cq_warp := warps[a + m := w], cc_dynamic_warp_id := dyn',
      cc_not_completed := wrap32 (nc + (min ((a + Suc m) * ?ws) e - (a + m) * ?ws)), cc_active_warps := aw + 1\<rparr>"
    using g(1) d(1) by simp
  have f: "cc_active_threads d = f" "cq_warp d = warps" by (simp_all add: d(1))
  have act: "g t \<longleftrightarrow> cc_active_threads c t \<or> (a * ?ws \<le> t \<and> t < (a + Suc m) * ?ws \<and> t < e)" for t
    unfolding g(4)[rule_format] f(1) d(2)[rule_format] by (rule two_ranges[OF le])
  have free: "\<not> cc_active_threads c t \<and> t < MAX_THREAD_PER_SM" if "a * ?ws \<le> t \<and> t < (a + Suc m) * ?ws \<and> t < e" for t
    using g(5)[rule_format, of t] d(2)[rule_format, of t] d(3)[rule_format, of t] that unfolding f(1) by (meson not_le)
  have count: "min ((a + m) * ?ws) e - a * ?ws + (min ((a + Suc m) * ?ws) e - (a + m) * ?ws) = min ((a + Suc m) * ?ws) e - a * ?ws"
    by (rule min_ranges[OF le])
  have nc: "wrap32 (nc + (min ((a + Suc m) * ?ws) e - (a + m) * ?ws)) mod 2 ^ 32 =
      (cc_not_completed c + (min ((a + Suc m) * ?ws) e - a * ?ws)) mod 2 ^ 32"
    unfolding wrap32_def mod_mod_trivial by (rule add_counts[OF d(6) count])
  have am: "a + m < length warps" using g(3) f(2) by simp
  have cta: "sw_cta_id (warps[a + m := w] ! i) = (if a \<le> i \<and> i < a + Suc m then cta_id else sw_cta_id (cq_warp c ! i))"
    if "i < length (warps[a + m := w])" for i
    using d(5) g(2) am that by (simp add: nth_list_update)
  show ?thesis unfolding started_core_def Let_def
  proof (intro exI conjI)
    show "d' = c\<lparr>cc_active_threads := g, cc_simt := y, cq_warp := warps[a + m := w], cc_dynamic_warp_id := dyn',
      cc_not_completed := wrap32 (nc + (min ((a + Suc m) * ?ws) e - (a + m) * ?ws)), cc_active_warps := aw + 1\<rparr>" by (rule d')
    show "length (warps[a + m := w]) = length (cq_warp c)" using d(4) by simp
    show "wrap32 (nc + (min ((a + Suc m) * ?ws) e - (a + m) * ?ws)) mod 2 ^ 32 =
      (cc_not_completed c + (min ((a + Suc m) * ?ws) e - a * ?ws)) mod 2 ^ 32" by (rule nc)
    show "wrap32 (nc + (min ((a + Suc m) * ?ws) e - (a + m) * ?ws)) < 2 ^ 32 \<or> Suc m = 0" by (simp only: wrap32_less simp_thms)
    show "aw + 1 = cc_active_warps c + int (Suc m)" using d(7) by simp
  qed (use act free cta in blast)+
qed

lemma init_warps_loop:
  assumes "run_calls (init_warp env pc cta_id e stream) c [a..<a + m] = Some d"
  shows "started_core c cta_id a m e d"
  using assms
proof (induction m arbitrary: d)
  case 0
  show ?case unfolding started_core_def Let_def
    by (intro exI[of _ "cc_active_threads c"] exI[of _ "cc_simt c"] exI[of _ "cq_warp c"] exI[of _ "cc_dynamic_warp_id c"]
        exI[of _ "cc_not_completed c"] exI[of _ "cc_active_warps c"]) (use 0 in auto)
next
  case (Suc m)
  then obtain d1 where 1: "run_calls (init_warp env pc cta_id e stream) c [a..<a + m] = Some d1"
    "init_warp env pc cta_id e stream d1 (a + m) = Some d"
    by (auto simp: run_calls_append split: bind_splits)
  show ?case by (rule started_core_step[OF Suc.IH[OF 1(1)] 1(2)])
qed

text \<open>A block that starts at a warp boundary: exactly its threads become active.\<close>

lemma init_warps_effect:
  assumes "init_warps env cta_id s (s + n) stream c = Some d" "ce_post_dominator env"
    "sc_warp_size (cq_config c) dvd s" "0 < n"
  obtains a m where "started_core c cta_id a m (s + n) d" "0 < m" "a * sc_warp_size (cq_config c) = s"
    "s + n \<le> (a + m) * sc_warp_size (cq_config c)" "(a + m) * sc_warp_size (cq_config c) < s + n + sc_warp_size (cq_config c)"
proof -
  let ?ws = "sc_warp_size (cq_config c)" and ?e = "s + n"
  have ws: "0 < ?ws" using assms(1,2) by (auto simp: init_warps_def Let_def split: bind_splits if_splits)
  let ?a = "s div ?ws" and ?b = "?e div ?ws + (if ?e mod ?ws \<noteq> 0 then 1 else 0)"
  have a: "?a * ?ws = s" using assms(3) by simp
  have b: "?e \<le> ?b * ?ws" "?b * ?ws < ?e + ?ws"
  proof -
    have "?e = ?e div ?ws * ?ws + ?e mod ?ws" by simp
    moreover have "?e mod ?ws < ?ws" using ws by simp
    ultimately show "?e \<le> ?b * ?ws" "?b * ?ws < ?e + ?ws"
      by (cases "?e mod ?ws = 0"; simp add: add_mult_distrib; linarith)+
  qed
  have "?a * ?ws < ?b * ?ws" using a b(1) assms(4) by simp
  then have less: "?a < ?b" by simp
  obtain pc where "run_calls (init_warp env pc cta_id ?e stream) c [?a..<?b] = Some d"
    using assms(1,2) by (auto simp: init_warps_def Let_def split: bind_splits if_splits)
  then have "started_core c cta_id ?a (?b - ?a) ?e d" using init_warps_loop less by (metis le_add_diff_inverse less_imp_le)
  then show thesis using that[of ?a "?b - ?a"] less a b by simp
qed

text \<open>The core after a block has been placed on the threads \<open>s\<close> to \<open>s + n - 1\<close>.\<close>

definition placed_core :: "'x cta_core \<Rightarrow> nat \<Rightarrow> nat \<Rightarrow> nat \<Rightarrow> sim_thread list \<Rightarrow> 'x cta_core \<Rightarrow> bool" where
  "placed_core c cta_id s n ts d \<longleftrightarrow> (let ws = sc_warp_size (cq_config c) in
     0 < n \<and> cq_config d = cq_config c \<and> cq_kernel_padded_threads_per_cta d = cq_kernel_padded_threads_per_cta c \<and>
     length (cc_thread_cta d) = length (cc_thread_cta c) \<and> length (cc_thread_active d) = length (cc_thread_active c) \<and>
     s + n \<le> length (cc_thread_cta c) \<and> s + n \<le> length (cc_thread_active c) \<and>
     (\<forall>t. t < s \<or> s + n \<le> t \<longrightarrow> cc_thread_cta d ! t = cc_thread_cta c ! t \<and> cc_thread_active d ! t = cc_thread_active c ! t) \<and>
     (\<forall>i < n. cc_thread_cta d ! (s + i) = cta_id \<and> cc_thread_active d ! (s + i) \<and>
        (\<exists>a. ic_tid a = s + i \<and> cc_thread d ! (s + i) = Some (thread_init a (ts ! i)))) \<and>
     cta_id < length (cc_cta_status c) \<and> cc_cta_status d = (cc_cta_status c)[cta_id := n] \<and>
     cc_n_active_cta d = cc_n_active_cta c + 1 \<and>
     (\<forall>t. cc_active_threads d t \<longleftrightarrow> cc_active_threads c t \<or> (s \<le> t \<and> t < s + n)) \<and>
     (\<forall>t. s \<le> t \<and> t < s + n \<longrightarrow> \<not> cc_active_threads c t \<and> t < MAX_THREAD_PER_SM) \<and>
     cc_not_completed d = wrap32 (cc_not_completed c + n) \<and> length (cq_warp d) = length (cq_warp c) \<and>
     (\<exists>a m. a * ws = s \<and> s + n \<le> (a + m) * ws \<and> (a + m) * ws < s + n + ws \<and>
        (\<forall>i < length (cq_warp d). sw_cta_id (cq_warp d ! i) = (if a \<le> i \<and> i < a + m then cta_id else sw_cta_id (cq_warp c ! i)))))"

lemma place_block_effect:
  assumes "place_block env cta_id s (threads_per_cta k) (k, []) L c = Some (d, b)" "ce_post_dominator env"
    "sc_warp_size (cq_config c) dvd s" "\<not> no_more_ctas_to_run k" "ki_next_tid k = zero3" "grid_volume (ki_block_dim k) < 2 ^ 32"
  obtains ts where "block_threads k ts" "placed_core c cta_id s (threads_per_cta k) ts d" "bs_kernel b = (increment_cta_id k, [])"
proof -
  let ?n = "threads_per_cta k" and ?ws = "sc_warp_size (cq_config c)"
  obtain c1 c2 bars c3 where 1: "core_reinit env s (s + ?n) False c = Some c1"
    "run_calls (bind_thread env cta_id ?n s) (c1, \<lparr>bs_kernel = (k, []), bs_lookups = L, bs_warps = 0, bs_nthreads = 0\<rparr>)
       [s..<s + ?n] = Some (c2, b)" "bs_nthreads b > 0" "cta_id < length (cc_cta_status c2)"
    "init_warps env cta_id s (s + ?n) (ki_streamID k)
       (c2\<lparr>cc_cta_status := (cc_cta_status c2)[cta_id := bs_nthreads b], cc_barriers := bars\<rparr>) = Some c3"
    "d = c3\<lparr>cc_n_active_cta := cc_n_active_cta c3 + 1\<rparr>"
    using assms(1) by (auto simp: place_block_def Let_def vec_set_def split: bind_splits if_splits)
  have n: "0 < ?n" using 1(2,3) by (cases "?n = 0") auto
  obtain ts where ts: "block_threads k ts" "bound_core c1 cta_id s ts c2" "bs_kernel b = (increment_cta_id k, [])"
    "bs_nthreads b = ?n"
    by (rule bind_block[OF 1(2) _ _ n assms(4-6)]) simp_all
  obtain insn cta0 warps0 x0 where r: "c1 = c\<lparr>cc_thread_insn := insn, cc_thread_cta := cta0, cq_warp := warps0, cc_simt := x0\<rparr>"
    "length cta0 = length (cc_thread_cta c)" "\<forall>t. t < s \<or> s + ?n \<le> t \<longrightarrow> cta0 ! t = cc_thread_cta c ! t"
    "map sw_cta_id warps0 = map sw_cta_id (cq_warp c)"
    using reinit_effect[OF 1(1)] by blast
  have len: "length ts = ?n" using ts(1) by (simp add: block_threads_def)
  obtain cta th act where b: "c2 = c1\<lparr>cc_thread_cta := cta, cc_thread := th, cc_thread_active := act\<rparr>"
    "length cta = length (cc_thread_cta c1)" "length act = length (cc_thread_active c1)"
    "\<forall>t. t < s \<or> s + ?n \<le> t \<longrightarrow> cta ! t = cc_thread_cta c1 ! t \<and> act ! t = cc_thread_active c1 ! t"
    "\<forall>i < ?n. s + i < length cta \<and> s + i < length act \<and> cta ! (s + i) = cta_id \<and> act ! (s + i) \<and>
       (\<exists>a. ic_tid a = s + i \<and> th ! (s + i) = Some (thread_init a (ts ! i)))"
    using ts(2) unfolding bound_core_def len by blast
  let ?c2 = "c2\<lparr>cc_cta_status := (cc_cta_status c2)[cta_id := bs_nthreads b], cc_barriers := bars\<rparr>"
  have c2: "cq_config ?c2 = cq_config c" "cc_active_threads ?c2 = cc_active_threads c" "cc_not_completed ?c2 = cc_not_completed c"
    "cq_warp ?c2 = warps0" "cc_n_active_cta ?c2 = cc_n_active_cta c" "cc_cta_status ?c2 = (cc_cta_status c)[cta_id := ?n]"
    "cq_kernel_padded_threads_per_cta ?c2 = cq_kernel_padded_threads_per_cta c" "cc_thread_cta ?c2 = cta"
    "cc_thread_active ?c2 = act" "cc_thread ?c2 = th" by (simp_all add: b(1) r(1) ts(4))
  obtain a m where w: "started_core ?c2 cta_id a m (s + ?n) c3" "0 < m" "a * ?ws = s" "s + ?n \<le> (a + m) * ?ws"
    "(a + m) * ?ws < s + ?n + ?ws"
    using init_warps_effect[OF 1(5) assms(2) _ n] assms(3) unfolding c2(1) by blast
  obtain f x warps dyn nc aw where st: "c3 = ?c2\<lparr>cc_active_threads := f, cc_simt := x, cq_warp := warps,
      cc_dynamic_warp_id := dyn, cc_not_completed := nc, cc_active_warps := aw\<rparr>"
    "\<forall>t. f t \<longleftrightarrow> cc_active_threads c t \<or> (s \<le> t \<and> t < (a + m) * ?ws \<and> t < s + ?n)"
    "\<forall>t. s \<le> t \<and> t < (a + m) * ?ws \<and> t < s + ?n \<longrightarrow> \<not> cc_active_threads c t \<and> t < MAX_THREAD_PER_SM"
    "length warps = length warps0"
    "\<forall>i < length warps. sw_cta_id (warps ! i) = (if a \<le> i \<and> i < a + m then cta_id else sw_cta_id (warps0 ! i))"
    "nc mod 2 ^ 32 = (cc_not_completed c + (min ((a + m) * ?ws) (s + ?n) - s)) mod 2 ^ 32" "nc < 2 ^ 32"
    using w(1,2) unfolding started_core_def Let_def c2 w(3) by blast
  have warps: "length warps0 = length (cq_warp c)" "\<And>i. i < length warps0 \<Longrightarrow> sw_cta_id (warps0 ! i) = sw_cta_id (cq_warp c ! i)"
    using r(4) by (metis length_map, metis length_map nth_map)
  have d: "cq_config d = cq_config c" "cq_kernel_padded_threads_per_cta d = cq_kernel_padded_threads_per_cta c"
    "cc_thread_cta d = cta" "cc_thread_active d = act" "cc_thread d = th" "cc_cta_status d = (cc_cta_status c)[cta_id := ?n]"
    "cc_n_active_cta d = cc_n_active_cta c + 1" "cc_active_threads d = f" "cc_not_completed d = nc" "cq_warp d = warps"
    unfolding 1(6) st(1) by (simp_all add: c2 del: One_nat_def) (simp_all add: b(1) r(1) ts(4))
  have "nc = wrap32 (cc_not_completed c + ?n)" using st(6,7) w(4) by (simp add: wrap32_def)
  moreover have "s + ?n \<le> length cta" "s + ?n \<le> length act" using b(5)[rule_format, of "?n - 1"] n by auto
  moreover have "cta_id < length (cc_cta_status c)" using 1(4) by (simp add: b(1) r(1))
  moreover have "\<forall>t. f t \<longleftrightarrow> cc_active_threads c t \<or> (s \<le> t \<and> t < s + ?n)"
    "\<forall>t. s \<le> t \<and> t < s + ?n \<longrightarrow> \<not> cc_active_threads c t \<and> t < MAX_THREAD_PER_SM"
    using st(2,3) w(4) by (metis order_less_le_trans)+
  moreover have "\<forall>i < length warps. sw_cta_id (warps ! i) = (if a \<le> i \<and> i < a + m then cta_id else sw_cta_id (cq_warp c ! i))"
    using st(4,5) warps by simp
  ultimately have "placed_core c cta_id s ?n ts d"
    unfolding placed_core_def Let_def d using n b(2-5) r(1-3) st(4) warps(1) w(3-5) by (intro conjI exI[of _ a] exI[of _ m]) simp_all
  then show thesis by (rule that[OF ts(1) _ ts(3)])
qed

subsection \<open>A dispatch as a whole\<close>

lemma first_free_cta_Some:
  "first_free_cta status i n = Some j \<Longrightarrow> i \<le> j \<and> j < length status \<and> status ! j = 0 \<and> (\<forall>x. i \<le> x \<and> x < j \<longrightarrow> status ! x \<noteq> 0)"
proof (induction status i n rule: first_free_cta.induct)
  case (2 status i n)
  then show ?case by (cases "status ! i = 0") (auto split: bind_splits simp: vec_at_def dest: Suc_leD le_neq_implies_less split: if_splits)
qed simp

lemma max_cta_kernel:
  "max_cta c k = Some (m, opt, k') \<Longrightarrow> k' = k \<or> k' = k\<lparr>ki_cache_config_set := True\<rparr>"
  by (auto simp: max_cta_def Let_def split: bind_splits if_splits)

lemma set_max_cta_kernel:
  assumes "set_max_cta c k = Some (m, padded, k')"
  shows "(k' = k \<or> k' = k\<lparr>ki_cache_config_set := True\<rparr>) \<and> padded_cta_size c k' = Some padded"
proof -
  obtain opt where "max_cta c k = Some (m, opt, k')" "padded_cta_size c k' = Some padded"
    using assms by (auto simp: set_max_cta_def split: bind_splits)
  with max_cta_kernel[OF this(1)] show ?thesis by simp
qed

lemma kernel_slot_uid: "kernel_slot uid g = Some (n, k) \<Longrightarrow> ki_uid k = uid"
  by (auto simp: kernel_slot_def find_Some_iff split: option.splits)

lemma kernel_slot_upd:
  assumes "kernel_slot uid g = Some (n, k)" "ki_uid k' = uid"
  shows "kernel_slot uid (g\<lparr>gk_running_kernels := (gk_running_kernels g)[n := Some k']\<rparr>) = Some (n, k')"
proof -
  let ?P = "\<lambda>(n :: nat, r). case r of None \<Rightarrow> False | Some k \<Rightarrow> ki_uid k = uid" and ?rs = "gk_running_kernels g"
  have "List.find ?P (zip [0..<length ?rs] ?rs) = Some (n, Some k)"
    using assms(1) by (auto simp: kernel_slot_def split: option.splits)
  then obtain i where i: "i < length ?rs" "(n, Some k) = zip [0..<length ?rs] ?rs ! i" "ki_uid k = uid"
    "\<forall>j < i. \<not> ?P (zip [0..<length ?rs] ?rs ! j)"
    using kernel_slot_uid[OF assms(1)] by (auto simp: find_Some_iff)
  then have n: "n = i" by simp
  have "List.find ?P (zip [0..<length (?rs[n := Some k'])] (?rs[n := Some k'])) = Some (n, Some k')"
    unfolding find_Some_iff using i assms(2) n by (intro exI[of _ i]) auto
  then show ?thesis by (simp add: kernel_slot_def)
qed

definition single_kernel_core :: "'x cta_core \<Rightarrow> bool" where
  "single_kernel_core c \<longleftrightarrow> \<not> sc_gpgpu_concurrent_kernel_sm (cq_config c) \<and>
     0 < sc_warp_size (cq_config c) \<and> sc_warp_size (cq_config c) \<le> MAX_WARP_SIZE \<and>
     sc_n_thread_per_shader (cq_config c) \<le> MAX_THREAD_PER_SM \<and>
     length (cc_cta_status c) = MAX_CTA_PER_SHADER \<and>
     length (cc_thread_cta c) = sc_n_thread_per_shader (cq_config c) \<and>
     length (cc_thread_active c) = sc_n_thread_per_shader (cq_config c)"

definition kernel_ready :: "nat \<Rightarrow> 'c cta_gpu \<Rightarrow> kernel_info \<Rightarrow> bool" where
  "kernel_ready uid g k \<longleftrightarrow> map_option snd (kernel_slot uid g) = Some k \<and> \<not> no_more_ctas_to_run k \<and>
     ki_next_tid k = zero3 \<and> grid_volume (ki_block_dim k) < 2 ^ 32 \<and> cg_active_threads g uid = []"

text \<open>What \<open>padded_cta_size\<close> promises when it does not wrap around.\<close>

lemma padded_cta_size_bounds:
  assumes "padded_cta_size cfg k = Some p" "threads_per_cta k \<le> MAX_THREAD_PER_SM" "sc_warp_size cfg \<le> MAX_WARP_SIZE"
  shows "sc_warp_size cfg dvd p" "threads_per_cta k \<le> p" "p < threads_per_cta k + MAX_WARP_SIZE"
proof -
  let ?t = "threads_per_cta k" and ?ws = "sc_warp_size cfg"
  have ws: "0 < ?ws" using assms(1) by (auto simp: padded_cta_size_def split: if_splits)
  have split: "?t div ?ws * ?ws + ?t mod ?ws = ?t" "?t mod ?ws < ?ws" using ws by simp_all
  have "(?t div ?ws + 1) * ?ws = ?t div ?ws * ?ws + ?ws" by (simp only: add_mult_distrib mult_1)
  with split have up: "?t \<le> (?t div ?ws + 1) * ?ws" "(?t div ?ws + 1) * ?ws \<le> ?t + ?ws" by linarith+
  have "?t + ?ws < 2 ^ 32" using assms(2,3) by (simp add: MAX_THREAD_PER_SM_def MAX_WARP_SIZE_def)
  then have w: "wrap32 ((?t div ?ws + 1) * ?ws) = (?t div ?ws + 1) * ?ws" using up(2) by (intro wrap32_small) linarith
  have p: "p = (if ?t mod ?ws \<noteq> 0 then wrap32 ((?t div ?ws + 1) * ?ws) else ?t)"
    using assms(1) by (simp add: padded_cta_size_def Let_def split: if_splits)
  consider "?t mod ?ws = 0" "p = ?t" | "?t mod ?ws \<noteq> 0" "p = (?t div ?ws + 1) * ?ws"
    using p unfolding w by (cases "?t mod ?ws = 0") simp_all
  then have "?ws dvd p \<and> ?t \<le> p \<and> p < ?t + MAX_WARP_SIZE"
  proof cases
    case 1
    have "?ws dvd ?t" by (rule mod_0_imp_dvd[OF 1(1)])
    then show ?thesis unfolding 1(2) by (simp add: MAX_WARP_SIZE_def)
  next
    case 2
    have "(?t div ?ws + 1) * ?ws = ?t div ?ws * ?ws + ?ws" by (simp only: add_mult_distrib mult_1)
    then have "p < ?t + ?ws" using split 2 by linarith
    moreover have "?ws dvd p" unfolding 2(2) by (rule dvd_triv_right)
    ultimately show ?thesis using up(1) 2(2) assms(3) by linarith
  qed
  then show "?ws dvd p" "?t \<le> p" "p < ?t + MAX_WARP_SIZE" by simp_all
qed

lemma kernel_field_updates:
  "threads_per_cta (k\<lparr>ki_cache_config_set := True\<rparr>) = threads_per_cta k" "threads_per_cta (inc_running k) = threads_per_cta k"
  "padded_cta_size cfg (k\<lparr>ki_cache_config_set := True\<rparr>) = padded_cta_size cfg k"
  "padded_cta_size cfg (inc_running k) = padded_cta_size cfg k"
  "no_more_ctas_to_run (k\<lparr>ki_cache_config_set := True\<rparr>) = no_more_ctas_to_run k"
  "no_more_ctas_to_run (inc_running k) = no_more_ctas_to_run k" "ki_next_tid (inc_running k) = ki_next_tid k"
  "ki_block_dim (inc_running k) = ki_block_dim k" "ki_next_cta (inc_running k) = ki_next_cta k" "ki_uid (inc_running k) = ki_uid k"
  by (simp_all add: threads_per_cta_def padded_cta_size_def no_more_ctas_to_run_def inc_running_def)

lemma place_block_size:
  assumes "place_block env cta_id s (threads_per_cta k) (k, []) L c = Some (d, b)"
    "\<not> no_more_ctas_to_run k" "ki_next_tid k = zero3" "grid_volume (ki_block_dim k) < 2 ^ 32"
  shows "threads_per_cta k \<le> sc_n_thread_per_shader (cq_config c)"
proof -
  let ?n = "threads_per_cta k"
  obtain c1 c2 where 1: "core_reinit env s (s + ?n) False c = Some c1"
    "run_calls (bind_thread env cta_id ?n s) (c1, \<lparr>bs_kernel = (k, []), bs_lookups = L, bs_warps = 0, bs_nthreads = 0\<rparr>)
       [s..<s + ?n] = Some (c2, b)" "bs_nthreads b > 0" "bs_nthreads b \<le> sc_n_thread_per_shader (cq_config c2)"
    using assms(1) by (auto simp: place_block_def Let_def split: bind_splits if_splits)
  have n: "0 < ?n" using 1(2,3) by (cases "?n = 0") auto
  obtain ts where ts: "bound_core c1 cta_id s ts c2" "bs_nthreads b = ?n"
    by (rule bind_block[OF 1(2) _ _ n assms(2-4)]) simp_all
  have "cq_config c2 = cq_config c1" "cq_config c1 = cq_config c"
    using ts(1) reinit_effect[OF 1(1)] by (auto simp: bound_core_def)
  with ts(2) 1(4) show ?thesis by simp
qed

lemma placed_core_upd:
  assumes "placed_core (c\<lparr>cc_max_cta_per_shader := m, cq_kernel_padded_threads_per_cta := p\<rparr>) cta_id s n ts d"
  shows "placed_core c cta_id s n ts (d\<lparr>cq_kernel_padded_threads_per_cta := cq_kernel_padded_threads_per_cta c\<rparr>)"
  using assms unfolding placed_core_def Let_def by (elim conjE, intro conjI) (simp_all cong: if_cong split del: if_split)

lemma core_issue_block_effect:
  assumes "core_issue_block env uid (g, c) = Some (g', d)" "ce_post_dominator env" "single_kernel_core c"
    "kernel_ready uid g k"
  obtains cta_id padded ts k' n where
    "cc_cta_status c ! cta_id = 0" "cta_id < MAX_CTA_PER_SHADER" "\<forall>x < cta_id. cc_cta_status c ! x \<noteq> 0"
    "padded_cta_size (cq_config c) k = Some padded" "cq_kernel_padded_threads_per_cta d = padded"
    "sc_warp_size (cq_config c) dvd padded" "threads_per_cta k \<le> padded"
    "block_threads k ts" "placed_core c cta_id (cta_id * padded) (threads_per_cta k) ts (d\<lparr>cq_kernel_padded_threads_per_cta := cq_kernel_padded_threads_per_cta c\<rparr>)"
    "kernel_slot uid g' = Some (n, increment_cta_id (inc_running k'))" "k' = k \<or> k' = k\<lparr>ki_cache_config_set := True\<rparr>"
    "cg_active_threads g' uid = []"
proof -
  obtain n where n: "kernel_slot uid g = Some (n, k)" using assms(4) by (auto simp: kernel_ready_def)
  have single: "\<not> sc_gpgpu_concurrent_kernel_sm (cq_config c)" "sc_warp_size (cq_config c) \<le> MAX_WARP_SIZE"
    "sc_n_thread_per_shader (cq_config c) \<le> MAX_THREAD_PER_SM" "length (cc_cta_status c) = MAX_CTA_PER_SHADER"
    "length (cc_thread_cta c) = sc_n_thread_per_shader (cq_config c)"
    using assms(3) by (simp_all add: single_kernel_core_def)
  have act: "cg_active_threads g uid = []" using assms(4) by (simp add: kernel_ready_def)
  obtain m padded k1 where k1: "set_max_cta (cq_config c) k = Some (m, padded, k1)"
    using assms(1) n single(1) by (auto simp: core_issue_block_def take_resources_def split: bind_splits)
  let ?c1 = "c\<lparr>cc_max_cta_per_shader := m, cq_kernel_padded_threads_per_cta := padded\<rparr>" and ?k = "inc_running k1"
  have same: "k1 = k \<or> k1 = k\<lparr>ki_cache_config_set := True\<rparr>" "padded_cta_size (cq_config c) k1 = Some padded"
    using set_max_cta_kernel[OF k1] by simp_all
  then have fields: "threads_per_cta ?k = threads_per_cta k" "padded_cta_size (cq_config c) ?k = Some padded"
    "padded_cta_size (cq_config c) k = Some padded" "no_more_ctas_to_run ?k = no_more_ctas_to_run k"
    "ki_next_tid ?k = ki_next_tid k" "ki_block_dim ?k = ki_block_dim k" "ki_next_cta ?k = ki_next_cta k" "ki_uid ?k = ki_uid k"
    by (auto simp: kernel_field_updates)
  obtain cta_id b d1 where f: "first_free_cta (cc_cta_status c) 0 m = Some cta_id"
    "place_block env cta_id (wrap32 (cta_id * padded)) (threads_per_cta ?k) (?k, []) (cg_lookups g) ?c1 = Some (d1, b)"
    "d = d1" "g' = g\<lparr>gk_running_kernels := (gk_running_kernels g)[n := Some (fst (bs_kernel b))],
       cg_active_threads := (cg_active_threads g)(uid := snd (bs_kernel b)), cg_lookups := bs_lookups b\<rparr>"
    using assms(1) n single(1) k1 act fields(2)
    by (auto simp: core_issue_block_def take_resources_def take_threads_def Let_def split: bind_splits)
  have cta: "cc_cta_status c ! cta_id = 0" "cta_id < MAX_CTA_PER_SHADER" "\<forall>x < cta_id. cc_cta_status c ! x \<noteq> 0"
    using first_free_cta_Some[OF f(1)] single(4) by auto
  have small: "threads_per_cta k \<le> MAX_THREAD_PER_SM"
    using place_block_size[OF f(2)] assms(4) fields(1,4-6) single(3) by (simp add: kernel_ready_def)
  note pad = padded_cta_size_bounds[OF fields(3) small single(2)]
  have "cta_id * padded \<le> 32 * (2048 + 32)"
    using cta(2) pad(3) small by (intro mult_le_mono) (simp_all add: MAX_CTA_PER_SHADER_def MAX_THREAD_PER_SM_def MAX_WARP_SIZE_def)
  then have w: "wrap32 (cta_id * padded) = cta_id * padded" by (intro wrap32_small) simp
  have "sc_warp_size (cq_config ?c1) dvd cta_id * padded" using pad(1) by simp
  then obtain ts where ts: "block_threads ?k ts" "placed_core ?c1 cta_id (cta_id * padded) (threads_per_cta ?k) ts d"
    "bs_kernel b = (increment_cta_id ?k, [])"
    using place_block_effect[OF f(2)[unfolded w] assms(2)] assms(4) fields f(3) by (auto simp: kernel_ready_def)
  have p: "placed_core c cta_id (cta_id * padded) (threads_per_cta k) ts (d\<lparr>cq_kernel_padded_threads_per_cta := cq_kernel_padded_threads_per_cta c\<rparr>)"
    using placed_core_upd[OF ts(2)] by (simp only: fields(1))
  have "kernel_slot uid g' = Some (n, increment_cta_id ?k)"
    using kernel_slot_upd[OF n, of "increment_cta_id ?k"] kernel_slot_uid[OF n] fields(8) ts(3) f(4)
    by (simp add: kernel_slot_def increment_cta_id_def)
  moreover have "block_threads k ts" using ts(1) fields by (simp add: block_threads_def)
  moreover have "cq_kernel_padded_threads_per_cta d = padded" using ts(2) by (simp add: placed_core_def Let_def)
  moreover have "cg_active_threads g' uid = []" using f(4) ts(3) by simp
  ultimately show thesis using that cta fields(3) pad(1,2) p same(1) by blast
qed

subsection \<open>Properties\<close>


text \<open>One block of two threads on a core with two warps of four threads.\<close>

definition tiny_config :: shader_core_config where
  "tiny_config = h200_config\<lparr>sc_warp_size := 4, sc_n_thread_per_shader := 8\<rparr>"

definition tiny_kernel :: kernel_info where
  "tiny_kernel = small_kernel\<lparr>ki_block_dim := \<lparr>d_x = 2, d_y = 1, d_z = 1\<rparr>\<rparr>"

definition tiny_env :: "(unit, unit) cta_env" where
  "tiny_env = \<lparr>ce_info = \<lparr>ci_new = (\<lambda>_. ()), ci_check_reset = Some, ci_add_thread = (\<lambda>_ _. ()),
       ci_deleted_thread = (\<lambda>_ _. ()), ci_num_shaders = 1\<rparr>,
     ce_post_dominator = True, ce_simt_reset = (\<lambda>_ x. x), ce_simt_launch = (\<lambda>_ _ _ x. x),
     ce_thread_pc = (\<lambda>_. 0), ce_thread_done = st_done, ce_pending_writes = (\<lambda>_ _. False)\<rparr>"

definition tiny_bars :: barrier_set where
  "tiny_bars = \<lparr>bs_max_warps_per_core = 2, bs_max_cta_per_core = 2, bs_max_barriers_per_cta = 1, bs_warp_size = 4,
     bs_cta_to_warps = [], bs_bar_id_to_warps = (\<lambda>_. 0), bs_warp_active = 0, bs_warp_at_barrier = 0\<rparr>"

definition tiny_core :: "unit cta_core" where
  "tiny_core = cta_core_new tiny_config 0 (replicate 2 (the (shd_warp_new 4))) tiny_bars (cq_rfq_stats small_queue_core) ()"

definition tiny_gpu :: "unit cta_gpu" where
  "tiny_gpu = \<lparr>gk_config = small_gpu_config, gk_running_kernels = [None, Some tiny_kernel], gk_last_issued_kernel = 1,
     gk_executed_kernel_uids = [1], gk_finished_kernel = [], gk_kernel_time = (\<lambda>_ _. None), gk_last_uid = 0,
     gk_last_streamID = 0, gk_cycle = 0, gk_insn = 0, gk_tot_issued_cta = 0, gk_total_cta_launched = 0,
     gk_completed_cta = 0, gk_deadlock = False, cg_active_threads = (\<lambda>_. []),
     cg_lookups = \<lparr>sl_cta = (\<lambda>_. None), sl_local = (\<lambda>_. False), sl_warp = (\<lambda>_. False)\<rparr>, cg_ctas_completed = 0\<rparr>"

lemma tiny_kernel_fields [simp]:
  "threads_per_cta tiny_kernel = 2" "ki_uid tiny_kernel = 1" "ki_next_tid tiny_kernel = zero3"
  "ki_next_cta tiny_kernel = zero3" "ki_block_dim tiny_kernel = \<lparr>d_x = 2, d_y = 1, d_z = 1\<rparr>" "\<not> no_more_ctas_to_run tiny_kernel"
  "ki_grid_dim tiny_kernel = \<lparr>d_x = 3, d_y = 2, d_z = 2\<rparr>" "ki_num_cores_running tiny_kernel = 0"
  by (simp_all add: tiny_kernel_def small_kernel_def threads_per_cta_def zero3_def wrap32_def no_more_ctas_to_run_def)

lemma tiny_max_cta: "set_max_cta tiny_config tiny_kernel = Some (1, 4, tiny_kernel\<lparr>ki_cache_config_set := True\<rparr>)"
  by (simp add: set_max_cta_def tiny_config_def tiny_kernel_def max_cta_eval)

lemma tiny_padded: "padded_cta_size tiny_config tiny_kernel = Some 4"
  by (simp add: padded_cta_size_def tiny_config_def wrap32_def)

lemma tiny_config_fields [simp]:
  "sc_warp_size tiny_config = 4" "sc_n_thread_per_shader tiny_config = 8" "\<not> sc_gpgpu_concurrent_kernel_sm tiny_config"
  by (simp_all add: tiny_config_def h200_config_def)

lemma tiny_premises: "single_kernel_core tiny_core" "kernel_ready 1 tiny_gpu tiny_kernel" "ce_post_dominator tiny_env"
  by (simp_all add: single_kernel_core_def tiny_core_def cta_core_new_def MAX_WARP_SIZE_def MAX_THREAD_PER_SM_def
    kernel_ready_def kernel_slot_def tiny_gpu_def grid_volume_def tiny_env_def)

lemma small_ranges: "[0..<2] = [0, 1]" "[0..<4] = [0, 1, 2, 3]" "[0..<1] = [0]"
  by (simp_all add: upt_rec)

definition tiny_running :: kernel_info where
  "tiny_running = inc_running (tiny_kernel\<lparr>ki_cache_config_set := True\<rparr>)"

lemma tiny_running_fields [simp]:
  "threads_per_cta tiny_running = 2" "padded_cta_size tiny_config tiny_running = Some 4" "ki_uid tiny_running = 1"
  "ki_next_tid tiny_running = zero3" "ki_block_dim tiny_running = \<lparr>d_x = 2, d_y = 1, d_z = 1\<rparr>"
  "\<not> no_more_ctas_to_run tiny_running" "ki_next_cta tiny_running = zero3" "ki_streamID tiny_running = 0"
  by (simp_all add: tiny_running_def tiny_kernel_def small_kernel_def inc_running_def threads_per_cta_def
    padded_cta_size_def wrap32_def no_more_ctas_to_run_def zero3_def)

lemma tiny_cta_threads:
  "\<exists>t u k. cta_threads mk tiny_running = ([t, u], k) \<and> t = mk tiny_running \<and> u = mk (increment_thread_id tiny_running)"
  by (subst cta_threads.simps, subst cta_threads.simps, subst cta_threads.simps)
    (simp add: more_threads_in_cta_def increment_thread_id_def zero3_def increment_x_then_y_then_z_def)

definition tiny_ready :: "unit cta_core" where
  "tiny_ready = tiny_core\<lparr>cc_max_cta_per_shader := 1, cq_kernel_padded_threads_per_cta := 4\<rparr>"

lemma tiny_ready_fields [simp]:
  "cq_config tiny_ready = tiny_config" "cc_thread_cta tiny_ready = replicate 8 UINT_MAX" "cc_thread_insn tiny_ready = replicate 8 0"
  "cc_thread_active tiny_ready = replicate 8 False" "cc_thread tiny_ready = replicate 8 None" "cc_active_threads tiny_ready = (\<lambda>_. False)"
  "cc_cta_status tiny_ready = replicate 32 0" "cc_barriers tiny_ready = tiny_bars" "cc_sid tiny_ready = 0"
  "cq_warp tiny_ready = replicate 2 (the (shd_warp_new 4))"
  by (simp_all add: tiny_ready_def tiny_core_def cta_core_new_def MAX_CTA_PER_SHADER_def)

lemma tiny_core_config: "cq_config tiny_core = tiny_config"
  by (simp add: tiny_core_def cta_core_new_def)

lemma tiny_reset: "i < 2 \<Longrightarrow> reset_thread_state tiny_ready i = Some tiny_ready"
  by (simp add: reset_thread_state_def vec_set_def list_update_same_conv)

lemma tiny_reinit: "core_reinit tiny_env 0 2 False tiny_ready = Some tiny_ready"
  by (simp add: core_reinit_def small_ranges tiny_reset)

lemma tiny_bind:
  "\<exists>d b. run_calls (bind_thread tiny_env 0 2 0)
      (tiny_ready, \<lparr>bs_kernel = (tiny_running, []), bs_lookups = cg_lookups tiny_gpu, bs_warps = 0, bs_nthreads = 0\<rparr>) [0, 1] = Some (d, b) \<and>
    bs_nthreads b = 2  \<and> (\<exists>x y z. d = tiny_ready\<lparr>cc_thread_cta := x, cc_thread := y, cc_thread_active := z\<rparr> \<and> 0 < length y)"
proof -
  let ?a = "\<lparr>ic_sid = 0, ic_tid = 0, ic_threads_left = 2, ic_num_threads = 8, ic_hw_cta_id = 0, ic_hw_warp_id = 0,
    ic_functional = False\<rparr>"
  let ?mk = "new_thread (ce_info tiny_env) ?a"
  obtain t u k where "cta_threads ?mk tiny_running = ([t, u], k)" "t = ?mk tiny_running" "u = ?mk (increment_thread_id tiny_running)"
    using tiny_cta_threads by blast
  then have th: "cta_threads ?mk tiny_running = ([t, u], k)" "st_shared t = 0" "st_shared u = 0"
    by (simp_all add: new_thread_def sm_index_def wrap32_def)
  have L: "sl_cta (cg_lookups tiny_gpu) 0 = None" "sm_index (ce_info tiny_env) ?a = 0"
    by (simp_all add: tiny_gpu_def sm_index_def wrap32_def)
  show ?thesis
    using th L by (simp add: bind_thread_def vec_set_def vec_at_def ptx_sim_init_thread_def drop_thread_def cta_alloc_def
      register_thread_def ws_set_def WARP_PER_CTA_MAX_def) (intro exI conjI, rule refl, simp)
qed

lemma tiny_sw_init: "\<exists>w. sw_init pc 0 0 (set_bit (Suc 0) 1) n 0 (the (shd_warp_new 4)) = Some w"
proof -
  have "set_bit (Suc 0) (1 :: active_mask_t) = 3" by (simp add: set_bit_eq_or)
  moreover have "mask_count 3 = 2" by code_simp
  moreover have "sw_n_completed (the (shd_warp_new 4)) = 4" "sw_warp_size (the (shd_warp_new 4)) = 4"
    by (simp_all add: shd_warp_new_def sw_reset_def sw_clear_depbar_def)
  ultimately show ?thesis by (simp add: sw_init_def)
qed

lemma tiny_start:
  assumes "0 < length y"
  shows "init_warps tiny_env 0 0 2 0
    (tiny_ready\<lparr>cc_thread_cta := x, cc_thread := y, cc_thread_active := z, cc_cta_status := s, cc_barriers := b\<rparr>) \<noteq> None"
    (is "init_warps _ _ _ _ _ ?d \<noteq> _")
proof -
  have [simp]: "cq_config ?d = tiny_config" "cq_warp ?d = replicate 2 (the (shd_warp_new 4))" "cc_active_threads ?d = (\<lambda>_. False)"
     "ce_post_dominator tiny_env" by (simp_all add: tiny_env_def)
  obtain pc where pc: "next_pc tiny_env 0 ?d = Some pc" using assms by (auto simp: next_pc_def)
  obtain w where "sw_init pc 0 0 (set_bit (Suc 0) 1) (cc_dynamic_warp_id tiny_ready) 0 (the (shd_warp_new 4)) = Some w"
    using tiny_sw_init by blast
  with pc show ?thesis
    by (auto simp: init_warps_def init_warp_def small_ranges start_lane_def MAX_WARP_SIZE_def MAX_THREAD_PER_SM_def with_cta_warp_def Let_def)
qed

lemma tiny_place:
  "place_block tiny_env 0 0 2 (tiny_running, []) (cg_lookups tiny_gpu) tiny_ready \<noteq> None"
proof -
  obtain d b x y z where b: "run_calls (bind_thread tiny_env 0 2 0) (tiny_ready,
      \<lparr>bs_kernel = (tiny_running, []), bs_lookups = cg_lookups tiny_gpu, bs_warps = 0, bs_nthreads = 0\<rparr>) [0, 1] = Some (d, b)"
    "bs_nthreads b = 2" "d = tiny_ready\<lparr>cc_thread_cta := x, cc_thread := y, cc_thread_active := z\<rparr>" "0 < length y"
    using tiny_bind by blast
  obtain bars where "allocate_barrier 0 (bs_warps b) tiny_bars = Some bars"
    by (simp add: allocate_barrier_def tiny_bars_def)
  moreover obtain e where "init_warps tiny_env 0 0 2 0
    (d\<lparr>cc_cta_status := (replicate 32 0)[0 := 2], cc_barriers := bars\<rparr>) = Some e"
    using tiny_start[OF b(4)] unfolding b(3) by fast
  ultimately show ?thesis
    using b unfolding place_block_def Let_def add_0 small_ranges
    by (simp add: tiny_reinit vec_set_def del: run_calls.simps)
qed


end
