(* ===== verification/Opnd_Collector.thy ===== *)
theory Opnd_Collector
  imports Inst_Model
begin

section \<open>The operand collector: \<open>opndcoll_rfu_t\<close>\<close>

text \<open>
  Between the issue stage and the execution units a collector unit holds an instruction until its
  source registers are read. The arbiter keeps a queue of read requests per register bank and
  lets each bank serve one read or one write in a cycle. A pointer to a collector unit
  is its number in \<open>m_cu\<close>, which \<open>init\<close> also stores in it as \<open>m_cuid\<close>; a pointer to a pipeline
  register set is its number in a list of sets. An operand that waits for a write
  holds a copy of the instruction where the code holds a pointer; only \<open>dump\<close> reads it.
\<close>

subsection \<open>Registers and banks\<close>

definition register_bank :: "nat \<Rightarrow> nat \<Rightarrow> nat \<Rightarrow> bool \<Rightarrow> nat \<Rightarrow> nat \<Rightarrow> nat option" where
  "register_bank regnum wid num_banks sub_core_model banks_per_sched sched_id = (let bank = wrap32 (regnum + wid) in
     if sub_core_model then do {
       assert_that (banks_per_sched \<noteq> 0);
       let bank_num = wrap32 (bank mod banks_per_sched + sched_id * banks_per_sched);
       assert_that (bank_num < num_banks);
       Some bank_num
     } else do {
       assert_that (num_banks \<noteq> 0);
       Some (bank mod num_banks)
     })"

record op_t =
  op_valid :: bool
  op_cu :: "nat option"
  op_warp :: "warp_inst option"
  op_operand :: nat
  op_register :: nat
  op_bank :: nat
  op_sched_id :: nat

definition op_none :: op_t where
  "op_none = \<lparr>op_valid = False, op_cu = None, op_warp = None, op_operand = 0, op_register = 0, op_bank = 0, op_sched_id = 0\<rparr>"

record collector_unit =
  cu_free :: bool
  cu_cuid :: nat
  cu_warp_id :: nat
  cu_warp :: warp_inst
  cu_output :: "nat option"
  cu_src_op :: "op_t list"
  cu_not_ready :: u64
  cu_num_banks :: nat
  cu_num_banks_per_sched :: nat
  cu_sub_core_model :: bool
  cu_reg_id :: nat

definition cu_new :: collector_unit where
  "cu_new = \<lparr>cu_free = True, cu_cuid = 0, cu_warp_id = UINT_MAX, cu_warp = warp_inst_init, cu_output = None,
     cu_src_op = replicate (MAX_REG_OPERANDS * 2) op_none, cu_not_ready = 0, cu_num_banks = 0,
     cu_num_banks_per_sched = 0, cu_sub_core_model = False, cu_reg_id = 0\<rparr>"

definition cu_init :: "nat \<Rightarrow> nat \<Rightarrow> bool \<Rightarrow> nat \<Rightarrow> nat \<Rightarrow> collector_unit \<Rightarrow> collector_unit" where
  "cu_init n num_banks sub_core_model reg_id banks_per_sched cu = cu\<lparr>cu_cuid := n, cu_num_banks := num_banks,
     cu_warp := warp_inst_init, cu_sub_core_model := sub_core_model, cu_reg_id := reg_id,
     cu_num_banks_per_sched := banks_per_sched\<rparr>"

text \<open>The two constructors of an operand.\<close>

definition op_read :: "collector_unit \<Rightarrow> nat \<Rightarrow> nat \<Rightarrow> nat \<Rightarrow> op_t option" where
  "op_read cu operand reg sched_id = do {
     bank \<leftarrow> register_bank reg (cu_warp_id cu) (cu_num_banks cu) (cu_sub_core_model cu) (cu_num_banks_per_sched cu) sched_id;
     Some \<lparr>op_valid = True, op_cu = Some (cu_cuid cu), op_warp = None, op_operand = operand, op_register = reg,
       op_bank = bank, op_sched_id = sched_id\<rparr>
   }"

definition op_write :: "warp_inst \<Rightarrow> nat \<Rightarrow> nat \<Rightarrow> bool \<Rightarrow> nat \<Rightarrow> op_t option" where
  "op_write inst reg num_banks sub_core_model banks_per_sched = do {
     bank \<leftarrow> register_bank reg (wi_warp_id inst) num_banks sub_core_model banks_per_sched (wi_scheduler_id inst);
     Some \<lparr>op_valid = True, op_cu = None, op_warp = Some inst, op_operand = UINT_MAX, op_register = reg,
       op_bank = bank, op_sched_id = wi_scheduler_id inst\<rparr>
   }"

subsection \<open>The arbiter\<close>

datatype alloc_t = NO_ALLOC | READ_ALLOC | WRITE_ALLOC

record allocation =
  al_allocation :: alloc_t
  al_op :: op_t

definition al_free :: "allocation \<Rightarrow> bool" where
  "al_free a \<longleftrightarrow> al_allocation a = NO_ALLOC"

definition al_is_write :: "allocation \<Rightarrow> bool" where
  "al_is_write a \<longleftrightarrow> al_allocation a = WRITE_ALLOC"

definition alloc_read :: "op_t \<Rightarrow> allocation \<Rightarrow> allocation option" where
  "alloc_read op a = do { assert_that (al_free a); Some (a\<lparr>al_allocation := READ_ALLOC, al_op := op\<rparr>) }"

definition alloc_write :: "op_t \<Rightarrow> allocation \<Rightarrow> allocation option" where
  "alloc_write op a = do { assert_that (al_free a); Some (a\<lparr>al_allocation := WRITE_ALLOC, al_op := op\<rparr>) }"

definition alloc_reset :: "allocation \<Rightarrow> allocation" where
  "alloc_reset a = a\<lparr>al_allocation := NO_ALLOC\<rparr>"

record arbiter =
  ar_num_banks :: nat
  ar_num_collectors :: nat
  ar_allocated_bank :: "allocation list"
  ar_queue :: "op_t list list"
  ar_allocator_rr_head :: "nat list"
  ar_last_cu :: nat

definition arbiter_reset :: "arbiter \<Rightarrow> arbiter" where
  "arbiter_reset a = a\<lparr>ar_allocated_bank := map alloc_reset (ar_allocated_bank a)\<rparr>"

definition arbiter_init :: "nat \<Rightarrow> nat \<Rightarrow> arbiter option" where
  "arbiter_init num_cu num_banks = do {
     assert_that (num_cu > 0);
     assert_that (num_banks > 0);
     Some (arbiter_reset \<lparr>ar_num_banks = num_banks, ar_num_collectors = num_cu,
       ar_allocated_bank = replicate num_banks \<lparr>al_allocation = NO_ALLOC, al_op = op_none\<rparr>,
       ar_queue = replicate num_banks [], ar_allocator_rr_head = map (\<lambda>n. n mod num_banks) [0..<num_cu], ar_last_cu = 0\<rparr>)
   }"

definition add_read_request :: "arbiter \<Rightarrow> op_t \<Rightarrow> arbiter option" where
  "add_read_request a op =
     (if op_valid op then do {
        q \<leftarrow> vec_at (ar_queue a) (op_bank op);
        Some (a\<lparr>ar_queue := (ar_queue a)[op_bank op := q @ [op]]\<rparr>)
      } else Some a)"

definition add_read_requests :: "collector_unit \<Rightarrow> arbiter \<Rightarrow> arbiter option" where
  "add_read_requests cu a = run_calls add_read_request a (cu_src_op cu)"

definition bank_idle :: "nat \<Rightarrow> arbiter \<Rightarrow> bool option" where
  "bank_idle bank a = do { b \<leftarrow> vec_at (ar_allocated_bank a) bank; Some (al_free b) }"

definition allocate_bank_for_write :: "nat \<Rightarrow> op_t \<Rightarrow> arbiter \<Rightarrow> arbiter option" where
  "allocate_bank_for_write bank op a = do {
     assert_that (bank < ar_num_banks a);
     b \<leftarrow> vec_at (ar_allocated_bank a) bank;
     b \<leftarrow> alloc_write op b;
     Some (a\<lparr>ar_allocated_bank := (ar_allocated_bank a)[bank := b]\<rparr>)
   }"

definition allocate_for_read :: "nat \<Rightarrow> op_t \<Rightarrow> arbiter \<Rightarrow> arbiter option" where
  "allocate_for_read bank op a = do {
     assert_that (bank < ar_num_banks a);
     b \<leftarrow> vec_at (ar_allocated_bank a) bank;
     b \<leftarrow> alloc_read op b;
     Some (a\<lparr>ar_allocated_bank := (ar_allocated_bank a)[bank := b]\<rparr>)
   }"

text \<open>
  The wavefront allocator: the diagonals of the request matrix are visited one after the other, from a
  diagonal on that moves on with each call. \<open>-1\<close> stands for no match. A bank that writes is matched
  beforehand, with the value 0.
\<close>

definition request_row :: "nat \<Rightarrow> op_t list \<Rightarrow> bool list option" where
  "request_row outputs q =
     (case q of
        [] \<Rightarrow> Some (replicate outputs False)
      | op # _ \<Rightarrow> do {
          oc_id \<leftarrow> op_cu op;
          assert_that (oc_id < outputs);
          Some ((replicate outputs False)[oc_id := True])
        })"

definition grant :: "bool list list \<Rightarrow> nat \<Rightarrow> int list \<times> int list \<times> nat \<Rightarrow> nat \<Rightarrow> int list \<times> int list \<times> nat" where
  "grant request outputs = (\<lambda>(inmatch, outmatch, output) input.
     let next_output = (output + 1) mod outputs
     in if output < outputs \<and> inmatch ! input = -1 \<and> request ! input ! output
        then (inmatch[input := int output], outmatch[output := int input], next_output)
        else (inmatch, outmatch, next_output))"

definition wavefront :: "bool list list \<Rightarrow> nat \<Rightarrow> nat \<Rightarrow> nat \<Rightarrow> int list \<times> int list \<Rightarrow> nat \<Rightarrow> int list \<times> int list" where
  "wavefront request inputs outputs pri = (\<lambda>(inmatch, outmatch) p.
     let (inmatch, outmatch, _) = fold (\<lambda>input m. grant request outputs m input) [0..<inputs]
       (inmatch, outmatch, (pri + p) mod outputs)
     in (inmatch, outmatch))"

definition pop_read :: "int list \<Rightarrow> op_t list \<times> arbiter \<Rightarrow> nat \<Rightarrow> (op_t list \<times> arbiter) option" where
  "pop_read inmatch = (\<lambda>(result, a) i. do {
     b \<leftarrow> vec_at (ar_allocated_bank a) i;
     (if inmatch ! i \<noteq> -1 \<and> \<not> al_is_write b then
        (case ar_queue a ! i of
           [] \<Rightarrow> None
         | op # q \<Rightarrow> Some (result @ [op], a\<lparr>ar_queue := (ar_queue a)[i := q]\<rparr>))
      else Some (result, a))
   })"

definition arbiter_allocate_reads :: "arbiter \<Rightarrow> (op_t list \<times> arbiter) option" where
  "arbiter_allocate_reads a = do {
     let inputs = ar_num_banks a;
     let outputs = ar_num_collectors a;
     let square = (if inputs > outputs then inputs else outputs);
     assert_that (square > 0);
     request \<leftarrow> run_calls (\<lambda>rows i. do { q \<leftarrow> vec_at (ar_queue a) i; row \<leftarrow> request_row outputs q; Some (rows @ [row]) })
       [] [0..<inputs];
     inmatch \<leftarrow> run_calls (\<lambda>ms i. do { b \<leftarrow> vec_at (ar_allocated_bank a) i; Some (ms @ [if al_is_write b then 0 else -1]) })
       [] [0..<inputs];
     assert_that (outputs > 0);
     let (inmatch, outmatch) = foldl (wavefront request inputs outputs (ar_last_cu a))
       (inmatch, replicate outputs (-1)) [0..<square];
     run_calls (pop_read inmatch) ([], a\<lparr>ar_last_cu := (ar_last_cu a + 1) mod outputs\<rparr>) [0..<inputs]
   }"

subsection \<open>Collector units\<close>

text \<open>What the collector uses of the core: its configuration, and the code outside the overlay.\<close>

record collector_env =
  oe_warp_size :: nat
  oe_sub_core_model :: bool
  oe_num_sched_per_core :: nat
  oe_clock_gated_reg_file :: bool
  oe_n_regfile_gating_group :: nat
  oe_move_warp :: "warp_inst \<Rightarrow> warp_inst \<Rightarrow> (warp_inst \<times> warp_inst) option"
  oe_num_operands :: "warp_inst \<Rightarrow> nat"
  oe_num_regs :: "warp_inst \<Rightarrow> nat"

definition cu_ready :: "register_set list \<Rightarrow> collector_unit \<Rightarrow> bool option" where
  "cu_ready sets cu =
     (if \<not> cu_free cu \<and> cu_not_ready cu = 0 then do {
        out \<leftarrow> cu_output cu;
        regs \<leftarrow> vec_at sets out;
        rs_has_free (cu_sub_core_model cu) (cu_reg_id cu) regs
      } else Some False)"

text \<open>One source register of the instruction: a register that occurred before is not read again.\<close>

definition allocate_operand :: "warp_inst \<Rightarrow> int list \<times> collector_unit \<Rightarrow> nat \<Rightarrow> (int list \<times> collector_unit) option" where
  "allocate_operand inst = (\<lambda>(prev_regs, cu) op. do {
     reg_num \<leftarrow> vec_at (wi_arch_reg_src inst) op;
     (if reg_num \<ge> 0 \<and> reg_num \<notin> set prev_regs then do {
        rd \<leftarrow> op_read cu op (nat reg_num) (wi_scheduler_id inst);
        ops \<leftarrow> vec_set (cu_src_op cu) op rd;
        Some (prev_regs @ [reg_num], cu\<lparr>cu_src_op := ops, cu_not_ready := set_bit op (cu_not_ready cu)\<rparr>)
      } else do {
        ops \<leftarrow> vec_set (cu_src_op cu) op op_none;
        Some (prev_regs, cu\<lparr>cu_src_op := ops\<rparr>)
      })
   })"

definition cu_allocate :: "collector_env \<Rightarrow> nat \<Rightarrow> register_set \<Rightarrow> collector_unit \<Rightarrow>
    (bool \<times> register_set \<times> collector_unit) option" where
  "cu_allocate env output_reg_set regs cu = do {
     assert_that (cu_free cu);
     assert_that (cu_not_ready cu = 0);
     let cu = cu\<lparr>cu_free := False, cu_output := Some output_reg_set\<rparr>;
     (case rs_get_ready_any regs of
        None \<Rightarrow> Some (False, regs, cu)
      | Some j \<Rightarrow> if wi_empty (regs ! j) then Some (False, regs, cu) else do {
          (_, cu) \<leftarrow> run_calls (allocate_operand (regs ! j)) ([], cu\<lparr>cu_warp_id := wi_warp_id (regs ! j)\<rparr>) [0..<MAX_REG_OPERANDS];
          (w, regs) \<leftarrow> rs_move_out_to (oe_move_warp env) False 0 (cu_warp cu) regs;
          Some (True, regs, cu\<lparr>cu_warp := w\<rparr>)
        })
   }"

definition cu_collect_operand :: "nat \<Rightarrow> collector_unit \<Rightarrow> collector_unit option" where
  "cu_collect_operand op cu = do {
     assert_that (op < MAX_REG_OPERANDS * 2);
     Some (cu\<lparr>cu_not_ready := unset_bit op (cu_not_ready cu)\<rparr>)
   }"

definition cu_dispatch :: "collector_env \<Rightarrow> register_set list \<times> collector_unit \<Rightarrow> (register_set list \<times> collector_unit) option" where
  "cu_dispatch env = (\<lambda>(sets, cu). do {
     assert_that (cu_not_ready cu = 0);
     out \<leftarrow> cu_output cu;
     regs \<leftarrow> vec_at sets out;
     (w, regs) \<leftarrow> rs_move_in (oe_move_warp env) (cu_sub_core_model cu) (cu_reg_id cu) (cu_warp cu) regs;
     Some (sets[out := regs], cu\<lparr>cu_warp := w, cu_free := True, cu_output := None,
       cu_src_op := map (\<lambda>op. op\<lparr>op_valid := False\<rparr>) (cu_src_op cu)\<rparr>)
   })"

subsection \<open>The collector\<close>

record dispatch_unit =
  du_num_collectors :: nat
  du_collector_units :: nat
  du_last_cu :: nat
  du_sub_core_model :: bool
  du_num_warp_scheds :: nat

record input_port =
  ip_in :: "nat list"
  ip_out :: "nat list"
  ip_cu_sets :: "nat list"

record operand_collector =
  oc_initialized :: bool
  oc_num_banks :: nat
  oc_cu :: "collector_unit list"
  oc_arbiter :: arbiter
  oc_num_banks_per_sched :: nat
  oc_num_warp_scheds :: nat
  oc_sub_core_model :: bool
  oc_in_ports :: "input_port list"
  oc_cus :: "nat \<Rightarrow> nat list"
  oc_dispatch_units :: "dispatch_unit list"
  oc_regs :: "register_set list"
  oc_regfile_reads :: nat
  oc_regfile_writes :: nat
  oc_non_rf_operands :: nat

definition operand_collector_new :: "register_set list \<Rightarrow> operand_collector" where
  "operand_collector_new regs = \<lparr>oc_initialized = False, oc_num_banks = 0, oc_cu = [],
     oc_arbiter = \<lparr>ar_num_banks = 0, ar_num_collectors = 0, ar_allocated_bank = [], ar_queue = [], ar_allocator_rr_head = [], ar_last_cu = 0\<rparr>,
     oc_num_banks_per_sched = 0, oc_num_warp_scheds = 0, oc_sub_core_model = False, oc_in_ports = [], oc_cus = (\<lambda>_. []),
     oc_dispatch_units = [], oc_regs = regs, oc_regfile_reads = 0, oc_regfile_writes = 0, oc_non_rf_operands = 0\<rparr>"

text \<open>A second call for the same set could move its units, to which pointers exist: it fails here.\<close>

definition add_cu_set :: "nat \<Rightarrow> nat \<Rightarrow> nat \<Rightarrow> operand_collector \<Rightarrow> operand_collector option" where
  "add_cu_set set_id num_cu num_dispatch oc = do {
     assert_that (oc_cus oc set_id = []);
     let n = length (oc_cu oc);
     Some (oc\<lparr>oc_cus := (oc_cus oc)(set_id := [n..<n + num_cu]), oc_cu := oc_cu oc @ replicate num_cu cu_new,
       oc_dispatch_units := oc_dispatch_units oc @ replicate num_dispatch
         \<lparr>du_num_collectors = num_cu, du_collector_units = set_id, du_last_cu = 0, du_sub_core_model = False, du_num_warp_scheds = 0\<rparr>\<rparr>)
   }"

definition add_port :: "nat list \<Rightarrow> nat list \<Rightarrow> nat list \<Rightarrow> operand_collector \<Rightarrow> operand_collector option" where
  "add_port input output cu_sets oc = do {
     assert_that (length input = length output);
     assert_that (cu_sets \<noteq> []);
     Some (oc\<lparr>oc_in_ports := oc_in_ports oc @ [\<lparr>ip_in = input, ip_out = output, ip_cu_sets = cu_sets\<rparr>]\<rparr>)
   }"

text \<open>A unit is initialised once: its instruction must not exist yet.\<close>

definition opndcoll_init :: "collector_env \<Rightarrow> nat \<Rightarrow> operand_collector \<Rightarrow> operand_collector option" where
  "opndcoll_init env num_banks oc = do {
     let n = length (oc_cu oc);
     let scheds = oe_num_sched_per_core env;
     let sub = oe_sub_core_model env;
     arb \<leftarrow> arbiter_init n num_banks;
     assert_that (scheds \<noteq> 0);
     assert_that (\<not> oc_initialized oc);
     (if sub then do { assert_that (num_banks mod scheds = 0); assert_that (scheds \<le> n \<and> n mod scheds = 0) } else Some ());
     let bps = num_banks div scheds;
     Some (oc\<lparr>oc_initialized := True, oc_arbiter := arb, oc_num_banks := num_banks, oc_sub_core_model := sub, oc_num_warp_scheds := scheds,
       oc_num_banks_per_sched := bps,
       oc_cu := map (\<lambda>j. cu_init j num_banks sub (if sub then j div (n div scheds) else 0) bps (oc_cu oc ! j)) [0..<n],
       oc_dispatch_units := map (\<lambda>d. d\<lparr>du_sub_core_model := sub, du_num_warp_scheds := scheds\<rparr>) (oc_dispatch_units oc)\<rparr>)
   }"

text \<open>
  The number of lanes that an access is counted for. With a clock-gated register file a group of lanes
  counts when one of its lanes is active; an empty group size never ends.
\<close>

fun any_lane :: "active_mask_t \<Rightarrow> nat list \<Rightarrow> bool option" where
  "any_lane m [] = Some False"
| "any_lane m (l # ls) =
     (if l < 32 then (if bit m l then Some True else any_lane m ls) else None)"

definition access_lanes :: "collector_env \<Rightarrow> active_mask_t \<Rightarrow> nat option" where
  "access_lanes env m =
     (if oe_clock_gated_reg_file env then do {
        let g = oe_n_regfile_gating_group env;
        let ws = oe_warp_size env;
        assert_that (g \<noteq> 0 \<or> ws = 0);
        run_calls (\<lambda>count i. do {
          hit \<leftarrow> any_lane m [i * g..<i * g + g];
          Some (if hit then count + g else count)
        }) 0 [0..<(ws + g - 1) div g]
      } else Some (oe_warp_size env))"

text \<open>Dispatch of the units that are ready.\<close>

fun find_ready_from :: "register_set list \<Rightarrow> collector_unit list \<Rightarrow> nat list \<Rightarrow> nat list \<Rightarrow> nat option option" where
  "find_ready_from sets cus cu_set [] = Some None"
| "find_ready_from sets cus cu_set (c # cs) = do {
     i \<leftarrow> vec_at cu_set c;
     cu \<leftarrow> vec_at cus i;
     ready \<leftarrow> cu_ready sets cu;
     (if ready then Some (Some c) else find_ready_from sets cus cu_set cs)
   }"

definition find_ready :: "operand_collector \<Rightarrow> dispatch_unit \<Rightarrow> (nat option \<times> dispatch_unit) option" where
  "find_ready oc d = do {
     let n = du_num_collectors d;
     let cu_set = oc_cus oc (du_collector_units d);
     assert_that (du_num_warp_scheds d \<noteq> 0);
     let per_sched = n div du_num_warp_scheds d;
     assert_that (du_sub_core_model d \<longrightarrow> per_sched \<noteq> 0);
     let rr_increment = (if du_sub_core_model d then per_sched - du_last_cu d mod per_sched else 1);
     r \<leftarrow> find_ready_from (oc_regs oc) (oc_cu oc) cu_set (map (\<lambda>k. (du_last_cu d + k + rr_increment) mod n) [0..<n]);
     (case r of
        None \<Rightarrow> Some (None, d)
      | Some c \<Rightarrow> Some (Some (cu_set ! c), d\<lparr>du_last_cu := c\<rparr>))
   }"

definition count_non_rf :: "collector_env \<Rightarrow> collector_unit \<Rightarrow> nat option" where
  "count_non_rf env cu = do {
     let n = sub32 (oe_num_operands env (cu_warp cu)) (oe_num_regs env (cu_warp cu));
     (if n = 0 then Some 0 else do { lanes \<leftarrow> access_lanes env (wi_active_mask (cu_warp cu)); Some (n * lanes) })
   }"

definition dispatch_ready :: "collector_env \<Rightarrow> operand_collector \<Rightarrow> nat \<Rightarrow> operand_collector option" where
  "dispatch_ready env oc p = do {
     d \<leftarrow> vec_at (oc_dispatch_units oc) p;
     (r, d) \<leftarrow> find_ready oc d;
     let oc = oc\<lparr>oc_dispatch_units := (oc_dispatch_units oc)[p := d]\<rparr>;
     (case r of
        None \<Rightarrow> Some oc
      | Some i \<Rightarrow> do {
          cu \<leftarrow> vec_at (oc_cu oc) i;
          n \<leftarrow> count_non_rf env cu;
          (sets, cu) \<leftarrow> cu_dispatch env (oc_regs oc, cu);
          Some (oc\<lparr>oc_non_rf_operands := wrap32 (oc_non_rf_operands oc + n), oc_regs := sets, oc_cu := (oc_cu oc)[i := cu]\<rparr>)
        })
   }"

definition dispatch_ready_cu :: "collector_env \<Rightarrow> operand_collector \<Rightarrow> operand_collector option" where
  "dispatch_ready_cu env oc = run_calls (dispatch_ready env) oc [0..<length (oc_dispatch_units oc)]"

text \<open>Taking instructions in.\<close>

definition cu_range :: "operand_collector \<Rightarrow> register_set \<Rightarrow> nat list \<Rightarrow> (nat \<times> nat) option" where
  "cu_range oc regs cu_set =
     (if oc_sub_core_model oc then do {
        reg_id \<leftarrow> rs_get_ready_reg_id regs;
        schd_id \<leftarrow> rs_get_schd_id reg_id regs;
        let scheds = oc_num_warp_scheds oc;
        assert_that (scheds \<noteq> 0);
        assert_that (length cu_set mod scheds = 0 \<and> length cu_set \<ge> scheds);
        let lower = wrap32 (schd_id * (length cu_set div scheds));
        let upper = wrap32 (lower + length cu_set div scheds);
        assert_that (upper \<le> length cu_set);
        Some (lower, upper)
      } else Some (0, length cu_set))"

fun first_free_cu :: "collector_unit list \<Rightarrow> nat list \<Rightarrow> nat option option" where
  "first_free_cu cus [] = Some None"
| "first_free_cu cus (i # is') = do {
     cu \<leftarrow> vec_at cus i;
     (if cu_free cu then Some (Some i) else first_free_cu cus is')
   }"

fun allocate_in_sets :: "collector_env \<Rightarrow> nat \<Rightarrow> nat \<Rightarrow> nat list \<Rightarrow> operand_collector \<Rightarrow> operand_collector option" where
  "allocate_in_sets env inp out [] oc = Some oc"
| "allocate_in_sets env inp out (s # ss) oc = do {
     regs \<leftarrow> vec_at (oc_regs oc) inp;
     (lower, upper) \<leftarrow> cu_range oc regs (oc_cus oc s);
     r \<leftarrow> first_free_cu (oc_cu oc) (map ((!) (oc_cus oc s)) [lower..<upper]);
     (case r of
        None \<Rightarrow> allocate_in_sets env inp out ss oc
      | Some i \<Rightarrow> do {
          (allocated, regs, cu) \<leftarrow> cu_allocate env out regs (oc_cu oc ! i);
          arb \<leftarrow> add_read_requests cu (oc_arbiter oc);
          let oc = oc\<lparr>oc_regs := (oc_regs oc)[inp := regs], oc_cu := (oc_cu oc)[i := cu], oc_arbiter := arb\<rparr>;
          (if allocated then Some oc else allocate_in_sets env inp out ss oc)
        })
   }"

definition allocate_input :: "collector_env \<Rightarrow> input_port \<Rightarrow> operand_collector \<Rightarrow> nat \<Rightarrow> operand_collector option" where
  "allocate_input env port oc i = do {
     regs \<leftarrow> vec_at (oc_regs oc) (ip_in port ! i);
     (if rs_has_ready_any regs then allocate_in_sets env (ip_in port ! i) (ip_out port ! i) (ip_cu_sets port) oc
      else Some oc)
   }"

definition allocate_cu :: "collector_env \<Rightarrow> operand_collector \<Rightarrow> nat \<Rightarrow> operand_collector option" where
  "allocate_cu env oc port_num = do {
     port \<leftarrow> vec_at (oc_in_ports oc) port_num;
     run_calls (allocate_input env port) oc [0..<length (ip_in port)]
   }"

text \<open>Reading the registers. The operands are collected in the order of the banks.\<close>

definition grant_read :: "operand_collector \<times> (nat \<Rightarrow> op_t option) \<Rightarrow> op_t \<Rightarrow>
    (operand_collector \<times> (nat \<Rightarrow> op_t option)) option" where
  "grant_read = (\<lambda>(oc, read_ops) rr. do {
     assert_that (op_valid rr);
     c \<leftarrow> op_cu rr;
     cu \<leftarrow> vec_at (oc_cu oc) c;
     bank \<leftarrow> register_bank (op_register rr) (cu_warp_id cu) (oc_num_banks oc) (oc_sub_core_model oc)
       (oc_num_banks_per_sched oc) (op_sched_id rr);
     arb \<leftarrow> allocate_for_read bank rr (oc_arbiter oc);
     Some (oc\<lparr>oc_arbiter := arb\<rparr>, read_ops(bank \<mapsto> rr))
   })"

definition collect_read :: "collector_env \<Rightarrow> (nat \<Rightarrow> op_t option) \<Rightarrow> operand_collector \<Rightarrow> nat \<Rightarrow> operand_collector option" where
  "collect_read env read_ops oc bank =
     (case read_ops bank of
        None \<Rightarrow> Some oc
      | Some op \<Rightarrow> do {
          c \<leftarrow> op_cu op;
          cu \<leftarrow> vec_at (oc_cu oc) c;
          cu \<leftarrow> cu_collect_operand (op_operand op) cu;
          lanes \<leftarrow> access_lanes env (wi_active_mask (cu_warp cu));
          Some (oc\<lparr>oc_cu := (oc_cu oc)[c := cu], oc_regfile_reads := wrap32 (oc_regfile_reads oc + lanes)\<rparr>)
        })"

definition allocate_reads :: "collector_env \<Rightarrow> operand_collector \<Rightarrow> operand_collector option" where
  "allocate_reads env oc = do {
     (allocated, arb) \<leftarrow> arbiter_allocate_reads (oc_arbiter oc);
     (oc, read_ops) \<leftarrow> run_calls grant_read (oc\<lparr>oc_arbiter := arb\<rparr>, Map.empty) allocated;
     run_calls (collect_read env read_ops) oc [0..<ar_num_banks arb]
   }"

definition process_banks :: "operand_collector \<Rightarrow> operand_collector" where
  "process_banks oc = oc\<lparr>oc_arbiter := arbiter_reset (oc_arbiter oc)\<rparr>"

definition opndcoll_step :: "collector_env \<Rightarrow> operand_collector \<Rightarrow> operand_collector option" where
  "opndcoll_step env oc = do {
     oc \<leftarrow> dispatch_ready_cu env oc;
     oc \<leftarrow> allocate_reads env oc;
     oc \<leftarrow> run_calls (allocate_cu env) oc [0..<length (oc_in_ports oc)];
     Some (process_banks oc)
   }"

subsection \<open>Writing back\<close>

definition get_regs_written :: "warp_inst \<Rightarrow> nat list" where
  "get_regs_written inst = map nat (filter (\<lambda>r. r \<ge> 0) (take MAX_REG_OPERANDS (wi_arch_reg_dst inst)))"

text \<open>A destination that got its bank is marked in the instruction, so that a later call goes on with the others.\<close>

fun write_operands :: "nat list \<Rightarrow> warp_inst \<times> operand_collector \<Rightarrow> (bool \<times> warp_inst \<times> operand_collector) option" where
  "write_operands [] (inst, oc) = Some (True, inst, oc)"
| "write_operands (op # ops) (inst, oc) = do {
     reg_num \<leftarrow> vec_at (wi_arch_reg_dst inst) op;
     (if reg_num \<ge> 0 then do {
        bank \<leftarrow> register_bank (nat reg_num) (wi_warp_id inst) (oc_num_banks oc) (oc_sub_core_model oc)
          (oc_num_banks_per_sched oc) (wi_scheduler_id inst);
        idle \<leftarrow> bank_idle bank (oc_arbiter oc);
        (if idle then do {
           w \<leftarrow> op_write inst (nat reg_num) (oc_num_banks oc) (oc_sub_core_model oc) (oc_num_banks_per_sched oc);
           arb \<leftarrow> allocate_bank_for_write bank w (oc_arbiter oc);
           write_operands ops (inst\<lparr>wi_arch_reg_dst := (wi_arch_reg_dst inst)[op := -1]\<rparr>, oc\<lparr>oc_arbiter := arb\<rparr>)
         } else Some (False, inst, oc))
      } else write_operands ops (inst, oc))
   }"

definition opndcoll_writeback :: "collector_env \<Rightarrow> warp_inst \<times> operand_collector \<Rightarrow>
    (bool \<times> warp_inst \<times> operand_collector) option" where
  "opndcoll_writeback env = (\<lambda>(inst, oc). do {
     assert_that (\<not> wi_empty inst);
     let regs = get_regs_written inst;
     (ok, inst, oc) \<leftarrow> write_operands [0..<MAX_REG_OPERANDS] (inst, oc);
     (if ok then do {
        oc \<leftarrow> run_calls (\<lambda>oc r. do {
            lanes \<leftarrow> access_lanes env (wi_active_mask inst);
            Some (oc\<lparr>oc_regfile_writes := wrap32 (oc_regfile_writes oc + lanes)\<rparr>)
          }) oc regs;
        Some (True, inst, oc)
      } else Some (False, inst, oc))
   })"

end
