(* ===== verification/Opnd_Props.thy ===== *)
theory Opnd_Props
  imports Opnd_Collector
begin

section \<open>Properties of the operand collector\<close>

text \<open>
  The wavefront allocator has a simple closed form: since one collector unit may read several banks in
  a cycle, every bank that does not write serves the first of its requests. From it follow the
  safety of a cycle, and the number of cycles after which an instruction has its operands.
\<close>

subsection \<open>The wavefront allocator\<close>

lemma grant_fold:
  assumes "0 < m" "k \<le> length inm"
  obtains inm' outm' where "fold (\<lambda>input s. grant req m s input) [0..<k] (inm, outm, r mod m) = (inm', outm', (r + k) mod m)"
    "length inm' = length inm"
    "\<And>i. i < length inm \<Longrightarrow> inm' ! i =
      (if i < k \<and> inm ! i = -1 \<and> req ! i ! ((r + i) mod m) then int ((r + i) mod m) else inm ! i)"
proof -
  have "\<exists>inm' outm'. fold (\<lambda>input s. grant req m s input) [0..<k] (inm, outm, r mod m) = (inm', outm', (r + k) mod m) \<and>
      length inm' = length inm \<and> (\<forall>i < length inm. inm' ! i =
        (if i < k \<and> inm ! i = -1 \<and> req ! i ! ((r + i) mod m) then int ((r + i) mod m) else inm ! i))"
    using assms(2)
  proof (induction k)
    case 0
    then show ?case by simp
  next
    case (Suc k)
    then obtain inm' outm' where 1: "fold (\<lambda>input s. grant req m s input) [0..<k] (inm, outm, r mod m) = (inm', outm', (r + k) mod m)"
      "length inm' = length inm" "\<forall>i < length inm. inm' ! i =
        (if i < k \<and> inm ! i = -1 \<and> req ! i ! ((r + i) mod m) then int ((r + i) mod m) else inm ! i)"
      by auto
    have "((r + k) mod m + 1) mod m = (r + Suc k) mod m" by (simp add: mod_Suc_eq)
    moreover have "(r + k) mod m < m" using assms(1) by simp
    ultimately show ?case
      using 1 Suc.prems by (auto simp: grant_def Let_def nth_list_update less_Suc_eq)
  qed
  then show thesis using that by blast
qed

lemma wavefront_all:
  assumes "0 < m"
  obtains inm' outm' where "foldl (wavefront req (length inm) m pri) (inm, outm) [0..<q] = (inm', outm')"
    "length inm' = length inm"
    "\<forall>i < length inm. inm' ! i \<noteq> -1 \<longleftrightarrow> inm ! i \<noteq> -1 \<or> (\<exists>p < q. req ! i ! ((pri + p + i) mod m))"
proof -
  have "\<exists>inm' outm'. foldl (wavefront req (length inm) m pri) (inm, outm) [0..<q] = (inm', outm') \<and>
      length inm' = length inm \<and>
      (\<forall>i < length inm. inm' ! i \<noteq> -1 \<longleftrightarrow> inm ! i \<noteq> -1 \<or> (\<exists>p < q. req ! i ! ((pri + p + i) mod m)))"
  proof (induction q)
    case 0
    then show ?case by simp
  next
    case (Suc q)
    then obtain in1 out1 where 1: "foldl (wavefront req (length inm) m pri) (inm, outm) [0..<q] = (in1, out1)"
      "length in1 = length inm"
      "\<forall>i < length inm. in1 ! i \<noteq> -1 \<longleftrightarrow> inm ! i \<noteq> -1 \<or> (\<exists>p < q. req ! i ! ((pri + p + i) mod m))"
      by blast
    obtain in2 out2 where 2: "fold (\<lambda>input s. grant req m s input) [0..<length inm] (in1, out1, (pri + q) mod m) =
        (in2, out2, (pri + q + length inm) mod m)" "length in2 = length in1"
      "\<And>i. i < length in1 \<Longrightarrow> in2 ! i = (if i < length inm \<and> in1 ! i = -1 \<and> req ! i ! ((pri + q + i) mod m)
         then int ((pri + q + i) mod m) else in1 ! i)"
      using grant_fold[of m "length inm" in1 req out1 "pri + q"] assms 1(2) by auto
    have "\<forall>i < length inm. in2 ! i \<noteq> -1 \<longleftrightarrow> inm ! i \<noteq> -1 \<or> (\<exists>p < Suc q. req ! i ! ((pri + p + i) mod m))"
      using 1(2,3) 2(3) by (simp add: less_Suc_eq) blast
    with 1(1,2) 2(1,2) show ?case by (simp add: wavefront_def)
  qed
  then show thesis using that by blast
qed

text \<open>Enough diagonals meet every collector unit.\<close>

lemma all_diagonals:
  fixes m pri i j q :: nat
  assumes "j < m" "m \<le> q"
  shows "\<exists>p < q. (pri + p + i) mod m = j"
proof -
  let ?r = "(pri + i) mod m" and ?p = "(j + m - (pri + i) mod m) mod m"
  have r: "?r < m" using assms(1) by simp
  have "(?r + ?p) mod m = j" by (rule ring_pos[OF r assms(1)])
  then have "(pri + i + ?p) mod m = j" by (simp add: mod_add_left_eq)
  then have "(pri + ?p + i) mod m = j" by (simp add: ac_simps)
  moreover have "?p < q" using assms by (intro less_le_trans[OF mod_less_divisor]) auto
  ultimately show ?thesis by blast
qed

definition arb_ok :: "arbiter \<Rightarrow> bool" where
  "arb_ok a \<longleftrightarrow> 0 < ar_num_collectors a \<and> length (ar_queue a) = ar_num_banks a \<and>
     length (ar_allocated_bank a) = ar_num_banks a \<and>
     (\<forall>i < ar_num_banks a. ar_queue a ! i \<noteq> [] \<longrightarrow> (\<exists>c. op_cu (hd (ar_queue a ! i)) = Some c \<and> c < ar_num_collectors a))"

text \<open>The bank takes part: it has a request and does not write.\<close>

definition serves :: "arbiter \<Rightarrow> nat \<Rightarrow> bool" where
  "serves a i \<longleftrightarrow> ar_queue a ! i \<noteq> [] \<and> \<not> al_is_write (ar_allocated_bank a ! i)"

lemma request_rows:
  assumes "arb_ok a" "k \<le> ar_num_banks a"
  obtains rows where "run_calls (\<lambda>rows i. do { q \<leftarrow> vec_at (ar_queue a) i; row \<leftarrow> request_row (ar_num_collectors a) q; Some (rows @ [row]) })
      [] [0..<k] = Some rows" "length rows = k"
    "\<forall>i < k. (\<exists>j < ar_num_collectors a. rows ! i ! j) \<longleftrightarrow> ar_queue a ! i \<noteq> []"
proof -
  have "\<exists>rows. run_calls (\<lambda>rows i. do { q \<leftarrow> vec_at (ar_queue a) i; row \<leftarrow> request_row (ar_num_collectors a) q; Some (rows @ [row]) })
      [] [0..<k] = Some rows \<and> length rows = k \<and>
    (\<forall>i < k. (\<exists>j < ar_num_collectors a. rows ! i ! j) \<longleftrightarrow> ar_queue a ! i \<noteq> [])"
    using assms(2)
  proof (induction k)
    case 0
    then show ?case by simp
  next
    case (Suc k)
    obtain row where "request_row (ar_num_collectors a) (ar_queue a ! k) = Some row"
      "(\<exists>j < ar_num_collectors a. row ! j) \<longleftrightarrow> ar_queue a ! k \<noteq> []"
    proof (cases "ar_queue a ! k")
      case Nil
      then show thesis by (intro that) (auto simp: request_row_def)
    next
      case (Cons op q)
      then obtain c where "op_cu op = Some c" "c < ar_num_collectors a"
        using assms(1) Suc.prems unfolding arb_ok_def by (metis Suc_le_lessD list.sel(1) list.discI)
      with Cons show thesis by (intro that[of "(replicate (ar_num_collectors a) False)[c := True]"])
        (auto simp: request_row_def intro!: exI[of _ c])
    qed
    with Suc show ?case
      using assms(1) by (auto simp: run_calls_append arb_ok_def nth_append less_Suc_eq)
  qed
  then show thesis using that by blast
qed

lemma write_matches:
  assumes "k \<le> length (ar_allocated_bank a)"
  shows "run_calls (\<lambda>ms i. do { b \<leftarrow> vec_at (ar_allocated_bank a) i; Some (ms @ [if al_is_write b then 0 else -1 :: int]) })
    [] [0..<k] = Some (map (\<lambda>i. if al_is_write (ar_allocated_bank a ! i) then 0 else -1) [0..<k])"
  using assms by (induction k) (auto simp: run_calls_append)

lemma pop_reads:
  assumes "k \<le> length (ar_queue a)" "length (ar_allocated_bank a) = length (ar_queue a)"
    "\<And>i. i < k \<Longrightarrow> inm ! i \<noteq> -1 \<and> \<not> al_is_write (ar_allocated_bank a ! i) \<longleftrightarrow> serves a i"
  shows "run_calls (pop_read inm) ([], a) [0..<k] =
    Some (map (\<lambda>i. hd (ar_queue a ! i)) (filter (serves a) [0..<k]),
      a\<lparr>ar_queue := map (\<lambda>i. if i < k \<and> serves a i then tl (ar_queue a ! i) else ar_queue a ! i) [0..<length (ar_queue a)]\<rparr>)"
  using assms(1,3)
proof (induction k)
  case 0
  have "map (\<lambda>i. ar_queue a ! i) [0..<length (ar_queue a)] = ar_queue a" by (rule map_nth)
  then show ?case by simp
next
  case (Suc k)
  let ?q = "\<lambda>k. map (\<lambda>i. if i < k \<and> serves a i then tl (ar_queue a ! i) else ar_queue a ! i) [0..<length (ar_queue a)]"
  have IH: "run_calls (pop_read inm) ([], a) [0..<k] =
      Some (map (\<lambda>i. hd (ar_queue a ! i)) (filter (serves a) [0..<k]), a\<lparr>ar_queue := ?q k\<rparr>)"
    using Suc by simp
  have k: "k < length (ar_queue a)" using Suc.prems(1) by simp
  have cond: "inm ! k \<noteq> -1 \<and> \<not> al_is_write (ar_allocated_bank a ! k) \<longleftrightarrow> serves a k" using Suc.prems(2) by simp
  have upd: "?q (Suc k) = (if serves a k then (?q k)[k := tl (ar_queue a ! k)] else ?q k)"
    by (rule nth_equalityI) (auto simp: nth_list_update less_Suc_eq)
  show ?case
  proof (cases "serves a k")
    case True
    then obtain op q where q: "ar_queue a ! k = op # q" by (cases "ar_queue a ! k") (auto simp: serves_def)
    then show ?thesis using IH k cond True upd assms(2)
      by (simp add: run_calls_append pop_read_def)
  next
    case False
    then show ?thesis using IH k cond upd assms(2)
      by (auto simp: run_calls_append pop_read_def)
  qed
qed

lemma arbiter_closed_form:
  assumes "arb_ok a"
  shows "arbiter_allocate_reads a =
    Some (map (\<lambda>i. hd (ar_queue a ! i)) (filter (serves a) [0..<ar_num_banks a]),
      a\<lparr>ar_queue := map (\<lambda>i. if serves a i then tl (ar_queue a ! i) else ar_queue a ! i) [0..<ar_num_banks a],
        ar_last_cu := (ar_last_cu a + 1) mod ar_num_collectors a\<rparr>)"
proof -
  let ?n = "ar_num_banks a" and ?m = "ar_num_collectors a" and ?sq = "if ar_num_banks a > ar_num_collectors a then ar_num_banks a else ar_num_collectors a"
  let ?inm = "map (\<lambda>i. if al_is_write (ar_allocated_bank a ! i) then 0 else -1 :: int) [0..<?n]"
  have m: "0 < ?m" "length (ar_queue a) = ?n" "length (ar_allocated_bank a) = ?n" using assms by (simp_all add: arb_ok_def)
  obtain rows where rows: "run_calls (\<lambda>rows i. do { q \<leftarrow> vec_at (ar_queue a) i; row \<leftarrow> request_row ?m q; Some (rows @ [row]) })
      [] [0..<?n] = Some rows" "length rows = ?n" "\<forall>i < ?n. (\<exists>j < ?m. rows ! i ! j) \<longleftrightarrow> ar_queue a ! i \<noteq> []"
    by (rule request_rows[OF assms order_refl])
  obtain inm outm where w0: "foldl (wavefront rows (length ?inm) ?m (ar_last_cu a)) (?inm, replicate ?m (-1)) [0..<?sq] = (inm, outm)"
    "\<forall>i < length ?inm. inm ! i \<noteq> -1 \<longleftrightarrow> ?inm ! i \<noteq> -1 \<or> (\<exists>p < ?sq. rows ! i ! ((ar_last_cu a + p + i) mod ?m))"
    by (rule wavefront_all[where req = rows and inm = ?inm and pri = "ar_last_cu a" and outm = "replicate ?m (-1)" and q = ?sq,
      OF m(1)]) blast
  have len: "length ?inm = ?n" by simp
  note w = w0[unfolded len]
  have sq: "?m \<le> ?sq" "0 < ?sq" using m(1) by auto
  have s: "inm ! i \<noteq> -1 \<and> \<not> al_is_write (ar_allocated_bank a ! i) \<longleftrightarrow> serves a i" if i: "i < ?n" for i
  proof -
    have "(\<exists>p < ?sq. rows ! i ! ((ar_last_cu a + p + i) mod ?m)) \<longleftrightarrow> (\<exists>j < ?m. rows ! i ! j)"
    proof
      assume "\<exists>p < ?sq. rows ! i ! ((ar_last_cu a + p + i) mod ?m)"
      then show "\<exists>j < ?m. rows ! i ! j" using mod_less_divisor[OF m(1)] by blast
    next
      assume "\<exists>j < ?m. rows ! i ! j"
      then obtain j where j: "j < ?m" "rows ! i ! j" by blast
      obtain p where "p < ?sq" "(ar_last_cu a + p + i) mod ?m = j" using all_diagonals[OF j(1) sq(1)] by blast
      with j(2) show "\<exists>p < ?sq. rows ! i ! ((ar_last_cu a + p + i) mod ?m)" by blast
    qed
    with w(2)[rule_format, OF i] rows(3)[rule_format, OF i] i show ?thesis by (auto simp: serves_def)
  qed
  let ?a = "a\<lparr>ar_last_cu := (ar_last_cu a + 1) mod ?m\<rparr>"
  have "serves ?a = serves a" by (rule ext) (simp add: serves_def)
  then have "run_calls (pop_read inm) ([], ?a) [0..<?n] =
      Some (map (\<lambda>i. hd (ar_queue a ! i)) (filter (serves a) [0..<?n]),
        ?a\<lparr>ar_queue := map (\<lambda>i. if i < ?n \<and> serves a i then tl (ar_queue a ! i) else ar_queue a ! i) [0..<?n]\<rparr>)"
    using pop_reads[of ?n ?a inm] s m by simp
  moreover have "map (\<lambda>i. if i < ?n \<and> serves a i then tl (ar_queue a ! i) else ar_queue a ! i) [0..<?n] =
      map (\<lambda>i. if serves a i then tl (ar_queue a ! i) else ar_queue a ! i) [0..<?n]"
    by (rule map_cong) auto
  ultimately have pop: "run_calls (pop_read inm) ([], ?a) [0..<?n] =
      Some (map (\<lambda>i. hd (ar_queue a ! i)) (filter (serves a) [0..<?n]),
        ?a\<lparr>ar_queue := map (\<lambda>i. if serves a i then tl (ar_queue a ! i) else ar_queue a ! i) [0..<?n]\<rparr>)"
    by simp
  have wm: "run_calls (\<lambda>ms i. do { b \<leftarrow> vec_at (ar_allocated_bank a) i; Some (ms @ [if al_is_write b then 0 else -1 :: int]) }) [] [0..<?n] =
      Some ?inm" by (rule write_matches) (simp add: m(3))
  show ?thesis
    unfolding arbiter_allocate_reads_def Let_def
    by (simp only: rows(1) wm w(1) pop sq(2) m(1) bind_assert_that if_True bind.bind_lunit prod.case) simp
qed

subsection \<open>The invariant\<close>

text \<open>
  A unit that holds an instruction has exactly one request for each operand that it still waits for, in the
  queue of the bank of that register. So an operand is never waited for in vain.
\<close>

definition unit_ok :: "operand_collector \<Rightarrow> nat \<Rightarrow> collector_unit \<Rightarrow> bool" where
  "unit_ok oc c cu \<longleftrightarrow> cu_cuid cu = c \<and> cu_num_banks cu = oc_num_banks oc \<and> cu_sub_core_model cu = oc_sub_core_model oc \<and>
     cu_num_banks_per_sched cu = oc_num_banks_per_sched oc \<and> length (cu_src_op cu) = MAX_REG_OPERANDS * 2 \<and>
     (\<forall>j < MAX_REG_OPERANDS * 2. MAX_REG_OPERANDS \<le> j \<or> cu_free cu \<longrightarrow> \<not> op_valid (cu_src_op cu ! j)) \<and>
     (cu_free cu \<longrightarrow> cu_not_ready cu = 0)"

definition request_ok :: "operand_collector \<Rightarrow> nat \<Rightarrow> op_t \<Rightarrow> bool" where
  "request_ok oc b op \<longleftrightarrow> op_valid op \<and> (\<exists>c < length (oc_cu oc). op_cu op = Some c \<and> \<not> cu_free (oc_cu oc ! c) \<and>
     op_operand op < MAX_REG_OPERANDS \<and> bit (cu_not_ready (oc_cu oc ! c)) (op_operand op) \<and>
     cu_src_op (oc_cu oc ! c) ! op_operand op = op \<and>
     register_bank (op_register op) (cu_warp_id (oc_cu oc ! c)) (oc_num_banks oc) (oc_sub_core_model oc)
       (oc_num_banks_per_sched oc) (op_sched_id op) = Some b)"

definition sizes_ok :: "operand_collector \<Rightarrow> bool" where
  "sizes_ok oc \<longleftrightarrow> 0 < oc_num_banks oc \<and> 0 < length (oc_cu oc) \<and> ar_num_banks (oc_arbiter oc) = oc_num_banks oc \<and>
     ar_num_collectors (oc_arbiter oc) = length (oc_cu oc) \<and> length (ar_queue (oc_arbiter oc)) = oc_num_banks oc \<and>
     length (ar_allocated_bank (oc_arbiter oc)) = oc_num_banks oc"

definition oc_inv :: "operand_collector \<Rightarrow> bool" where
  "oc_inv oc \<longleftrightarrow> sizes_ok oc \<and> (\<forall>c < length (oc_cu oc). unit_ok oc c (oc_cu oc ! c)) \<and>
     (\<forall>b < oc_num_banks oc. distinct (ar_queue (oc_arbiter oc) ! b) \<and>
        (\<forall>op \<in> set (ar_queue (oc_arbiter oc) ! b). request_ok oc b op)) \<and>
     (\<forall>c < length (oc_cu oc). \<forall>j. bit (cu_not_ready (oc_cu oc ! c)) j \<longrightarrow>
        (\<exists>b < oc_num_banks oc. \<exists>op \<in> set (ar_queue (oc_arbiter oc) ! b). op_cu op = Some c \<and> op_operand op = j))"

text \<open>At the start of a cycle a bank is free or writes.\<close>

definition no_reads :: "operand_collector \<Rightarrow> bool" where
  "no_reads oc \<longleftrightarrow> (\<forall>b < oc_num_banks oc. al_allocation (ar_allocated_bank (oc_arbiter oc) ! b) \<noteq> READ_ALLOC)"

lemma oc_invD:
  assumes "oc_inv oc"
  shows "sizes_ok oc" "c < length (oc_cu oc) \<Longrightarrow> unit_ok oc c (oc_cu oc ! c)"
    "b < oc_num_banks oc \<Longrightarrow> distinct (ar_queue (oc_arbiter oc) ! b)"
    "b < oc_num_banks oc \<Longrightarrow> op \<in> set (ar_queue (oc_arbiter oc) ! b) \<Longrightarrow> request_ok oc b op"
    "c < length (oc_cu oc) \<Longrightarrow> bit (cu_not_ready (oc_cu oc ! c)) j \<Longrightarrow>
       \<exists>b < oc_num_banks oc. \<exists>op \<in> set (ar_queue (oc_arbiter oc) ! b). op_cu op = Some c \<and> op_operand op = j"
  using assms unfolding oc_inv_def by blast+

lemma oc_invI:
  assumes "sizes_ok oc" "\<And>c. c < length (oc_cu oc) \<Longrightarrow> unit_ok oc c (oc_cu oc ! c)"
    "\<And>b. b < oc_num_banks oc \<Longrightarrow> distinct (ar_queue (oc_arbiter oc) ! b)"
    "\<And>b op. b < oc_num_banks oc \<Longrightarrow> op \<in> set (ar_queue (oc_arbiter oc) ! b) \<Longrightarrow> request_ok oc b op"
    "\<And>c j. c < length (oc_cu oc) \<Longrightarrow> bit (cu_not_ready (oc_cu oc ! c)) j \<Longrightarrow>
       \<exists>b < oc_num_banks oc. \<exists>op \<in> set (ar_queue (oc_arbiter oc) ! b). op_cu op = Some c \<and> op_operand op = j"
  shows "oc_inv oc"
  using assms unfolding oc_inv_def by blast

text \<open>The unit and the operand determine a request and its place.\<close>

lemma request_unique:
  assumes "oc_inv oc" "b < oc_num_banks oc" "b' < oc_num_banks oc" "op \<in> set (ar_queue (oc_arbiter oc) ! b)"
    "op' \<in> set (ar_queue (oc_arbiter oc) ! b')" "op_cu op = op_cu op'" "op_operand op = op_operand op'"
  shows "op = op' \<and> b = b'"
  using oc_invD(4)[OF assms(1,2,4)] oc_invD(4)[OF assms(1,3,5)] assms(6,7) by (auto simp: request_ok_def)

lemma oc_inv_arb_ok:
  assumes "oc_inv oc"
  shows "arb_ok (oc_arbiter oc)"
proof -
  have s: "sizes_ok oc" by (rule oc_invD(1)[OF assms])
  have "\<exists>c. op_cu (hd (ar_queue (oc_arbiter oc) ! i)) = Some c \<and> c < length (oc_cu oc)"
    if "i < oc_num_banks oc" "ar_queue (oc_arbiter oc) ! i \<noteq> []" for i
    using oc_invD(4)[OF assms that(1) hd_in_set[OF that(2)]] by (auto simp: request_ok_def)
  with s show ?thesis by (auto simp: arb_ok_def sizes_ok_def)
qed

text \<open>The invariant depends on these fields only.\<close>

lemma oc_inv_cong:
  assumes "oc_num_banks d = oc_num_banks oc" "oc_cu d = oc_cu oc" "oc_sub_core_model d = oc_sub_core_model oc"
    "oc_num_banks_per_sched d = oc_num_banks_per_sched oc" "ar_queue (oc_arbiter d) = ar_queue (oc_arbiter oc)"
    "ar_num_banks (oc_arbiter d) = ar_num_banks (oc_arbiter oc)" "ar_num_collectors (oc_arbiter d) = ar_num_collectors (oc_arbiter oc)"
    "length (ar_allocated_bank (oc_arbiter d)) = length (ar_allocated_bank (oc_arbiter oc))"
  shows "oc_inv d \<longleftrightarrow> oc_inv oc"
proof -
  have "sizes_ok d \<longleftrightarrow> sizes_ok oc" "\<And>c cu. unit_ok d c cu \<longleftrightarrow> unit_ok oc c cu" "\<And>b op. request_ok d b op \<longleftrightarrow> request_ok oc b op"
    using assms by (simp_all add: sizes_ok_def unit_ok_def request_ok_def)
  with assms(1,2,5) show ?thesis by (simp add: oc_inv_def)
qed

subsection \<open>Reading the registers\<close>

lemma grant_reads:
  assumes "distinct bs" "\<And>i. i \<in> set bs \<Longrightarrow> i < oc_num_banks oc \<and> al_free (ar_allocated_bank (oc_arbiter oc) ! i) \<and> request_ok oc i (f i)"
    "ar_num_banks (oc_arbiter oc) = oc_num_banks oc" "length (ar_allocated_bank (oc_arbiter oc)) = oc_num_banks oc"
  shows "\<exists>al. run_calls grant_read (oc, rd) (map f bs) =
      Some (oc\<lparr>oc_arbiter := (oc_arbiter oc)\<lparr>ar_allocated_bank := al\<rparr>\<rparr>, \<lambda>i. if i \<in> set bs then Some (f i) else rd i) \<and>
    length al = length (ar_allocated_bank (oc_arbiter oc))"
  using assms
proof (induction bs arbitrary: oc rd)
  case Nil
  show ?case by (rule exI[of _ "ar_allocated_bank (oc_arbiter oc)"]) simp
next
  case (Cons b bs)
  let ?al = "ar_allocated_bank (oc_arbiter oc)"
  let ?al' = "?al[b := (?al ! b)\<lparr>al_allocation := READ_ALLOC, al_op := f b\<rparr>]"
  let ?oc = "oc\<lparr>oc_arbiter := (oc_arbiter oc)\<lparr>ar_allocated_bank := ?al'\<rparr>\<rparr>"
  have b: "b < oc_num_banks oc" "al_free (?al ! b)" "request_ok oc b (f b)" using Cons.prems(2) by auto
  then have step: "grant_read (oc, rd) (f b) = Some (?oc, rd(b \<mapsto> f b))"
    using Cons.prems(3,4) by (auto simp: grant_read_def request_ok_def allocate_for_read_def alloc_read_def)
  have "\<exists>al. run_calls grant_read (?oc, rd(b \<mapsto> f b)) (map f bs) =
      Some (?oc\<lparr>oc_arbiter := (oc_arbiter ?oc)\<lparr>ar_allocated_bank := al\<rparr>\<rparr>, \<lambda>i. if i \<in> set bs then Some (f i) else (rd(b \<mapsto> f b)) i) \<and>
    length al = length (ar_allocated_bank (oc_arbiter ?oc))"
  proof (rule Cons.IH)
    show "i < oc_num_banks ?oc \<and> al_free (ar_allocated_bank (oc_arbiter ?oc) ! i) \<and> request_ok ?oc i (f i)" if "i \<in> set bs" for i
    proof -
      have "i \<noteq> b" using Cons.prems(1) that by auto
      then show ?thesis using Cons.prems(2)[of i] that by (simp add: request_ok_def)
    qed
  qed (use Cons.prems in auto)
  then obtain al where al: "run_calls grant_read (?oc, rd(b \<mapsto> f b)) (map f bs) =
      Some (oc\<lparr>oc_arbiter := (oc_arbiter oc)\<lparr>ar_allocated_bank := al\<rparr>\<rparr>, \<lambda>i. if i \<in> set bs then Some (f i) else (rd(b \<mapsto> f b)) i)"
    "length al = length ?al" by auto
  have "(\<lambda>i. if i \<in> set bs then Some (f i) else (rd(b \<mapsto> f b)) i) = (\<lambda>i. if i \<in> set (b # bs) then Some (f i) else rd i)"
    by auto
  with al step show ?case by auto
qed

definition lanes_ok :: "collector_env \<Rightarrow> bool" where
  "lanes_ok env \<longleftrightarrow> \<not> oe_clock_gated_reg_file env \<or>
     (0 < oe_n_regfile_gating_group env \<and> oe_n_regfile_gating_group env dvd oe_warp_size env \<and> oe_warp_size env \<le> 32)"

lemma any_lane_in: "list_all (\<lambda>l. l < 32) ls \<Longrightarrow> any_lane m ls \<noteq> None"
  by (induction ls) auto

lemma access_lanes_total:
  assumes "lanes_ok env"
  obtains n where "access_lanes env m = Some n"
proof (cases "oe_clock_gated_reg_file env")
  case True
  let ?g = "oe_n_regfile_gating_group env" and ?ws = "oe_warp_size env"
  from True assms have g: "0 < ?g" "?g dvd ?ws" "?ws \<le> 32" by (auto simp: lanes_ok_def)
  then obtain k where k: "?ws = k * ?g" by (auto simp: dvd_def ac_simps)
  have q: "(?ws + ?g - 1) div ?g = k"
    by (rule div_nat_eqI) (use g(1) k in \<open>simp_all add: algebra_simps\<close>)
  let ?f = "\<lambda>count i. do { hit \<leftarrow> any_lane m [i * ?g..<i * ?g + ?g]; Some (if hit then count + ?g else count) }"
  have "\<exists>n. run_calls ?f 0 [0..<j] = Some n" if "j \<le> k" for j
    using that
  proof (induction j)
    case (Suc j)
    have "j * ?g + ?g \<le> k * ?g" using Suc.prems mult_le_mono1[of "Suc j" k ?g] by simp
    then have "list_all (\<lambda>l. l < 32) [j * ?g..<j * ?g + ?g]" using g(3) k by (auto simp: list_all_iff)
    then obtain hit where "any_lane m [j * ?g..<j * ?g + ?g] = Some hit" using any_lane_in by blast
    with Suc show ?case by (auto simp: run_calls_append)
  qed simp
  then obtain n where "run_calls ?f 0 [0..<k] = Some n" by blast
  with True g(1) q show thesis by (intro that) (simp add: access_lanes_def Let_def)
next
  case False
  then show thesis by (intro that) (simp add: access_lanes_def)
qed

text \<open>The state of a unit whose operands in a set have been read.\<close>

definition collected :: "(nat \<Rightarrow> op_t option) \<Rightarrow> nat \<Rightarrow> nat \<Rightarrow> nat \<Rightarrow> bool" where
  "collected rd k c j \<longleftrightarrow> (\<exists>b < k. \<exists>op. rd b = Some op \<and> op_cu op = Some c \<and> op_operand op = j)"

lemma collect_reads:
  assumes "lanes_ok env" "\<And>b op. rd b = Some op \<Longrightarrow> \<exists>c < length (oc_cu oc). op_cu op = Some c \<and> op_operand op < MAX_REG_OPERANDS"
  shows "\<exists>cus n. run_calls (collect_read env rd) oc [0..<k] = Some (oc\<lparr>oc_cu := cus, oc_regfile_reads := n\<rparr>) \<and>
    length cus = length (oc_cu oc) \<and>
    (\<forall>c < length (oc_cu oc). \<exists>r. cus ! c = (oc_cu oc ! c)\<lparr>cu_not_ready := r\<rparr> \<and>
      (\<forall>j. bit r j \<longleftrightarrow> bit (cu_not_ready (oc_cu oc ! c)) j \<and> \<not> collected rd k c j))"
proof (induction k)
  case 0
  have "\<exists>r. oc_cu oc ! c = (oc_cu oc ! c)\<lparr>cu_not_ready := r\<rparr> \<and>
      (\<forall>j. bit r j \<longleftrightarrow> bit (cu_not_ready (oc_cu oc ! c)) j \<and> \<not> collected rd 0 c j)" for c
    by (rule exI[of _ "cu_not_ready (oc_cu oc ! c)"]) (simp add: collected_def)
  then show ?case by (intro exI[of _ "oc_cu oc"] exI[of _ "oc_regfile_reads oc"]) simp
next
  case (Suc k)
  then obtain cus n where 1: "run_calls (collect_read env rd) oc [0..<k] = Some (oc\<lparr>oc_cu := cus, oc_regfile_reads := n\<rparr>)"
    "length cus = length (oc_cu oc)" "\<forall>c < length (oc_cu oc). \<exists>r. cus ! c = (oc_cu oc ! c)\<lparr>cu_not_ready := r\<rparr> \<and>
      (\<forall>j. bit r j \<longleftrightarrow> bit (cu_not_ready (oc_cu oc ! c)) j \<and> \<not> collected rd k c j)" by blast
  show ?case
  proof (cases "rd k")
    case None
    then have "collected rd (Suc k) = collected rd k" by (auto simp: collected_def fun_eq_iff less_Suc_eq)
    moreover have "collect_read env rd d k = Some d" for d using None by (simp add: collect_read_def)
    ultimately show ?thesis using 1 by (intro exI[of _ cus] exI[of _ n]) (simp add: run_calls_append)
  next
    case (Some op)
    then obtain c where c: "c < length (oc_cu oc)" "op_cu op = Some c" "op_operand op < MAX_REG_OPERANDS" using assms(2) by blast
    obtain l where l: "access_lanes env (wi_active_mask (cu_warp (cus ! c))) = Some l" by (rule access_lanes_total[OF assms(1)])
    let ?cu = "(cus ! c)\<lparr>cu_not_ready := unset_bit (op_operand op) (cu_not_ready (cus ! c))\<rparr>"
    have step: "run_calls (collect_read env rd) oc [0..<Suc k] =
        Some (oc\<lparr>oc_cu := cus[c := ?cu], oc_regfile_reads := wrap32 (n + l)\<rparr>)"
    proof -
      have "collect_read env rd (oc\<lparr>oc_cu := cus, oc_regfile_reads := n\<rparr>) k = Some (oc\<lparr>oc_cu := cus[c := ?cu], oc_regfile_reads := wrap32 (n + l)\<rparr>)"
        using 1(2) Some c l by (simp add: collect_read_def cu_collect_operand_def MAX_REG_OPERANDS_def)
      then show ?thesis using 1(1) by (simp add: run_calls_append)
    qed
    have "\<exists>r. cus[c := ?cu] ! e = (oc_cu oc ! e)\<lparr>cu_not_ready := r\<rparr> \<and>
        (\<forall>j. bit r j \<longleftrightarrow> bit (cu_not_ready (oc_cu oc ! e)) j \<and> \<not> collected rd (Suc k) e j)" if e: "e < length (oc_cu oc)" for e
    proof -
      obtain r where r: "cus ! e = (oc_cu oc ! e)\<lparr>cu_not_ready := r\<rparr>"
        "\<forall>j. bit r j \<longleftrightarrow> bit (cu_not_ready (oc_cu oc ! e)) j \<and> \<not> collected rd k e j" using 1(3) e by blast
      have coll: "collected rd (Suc k) e j \<longleftrightarrow> collected rd k e j \<or> e = c \<and> j = op_operand op" for j
        using Some c(2) by (auto simp: collected_def less_Suc_eq)
      show ?thesis
      proof (cases "e = c")
        case True
        then show ?thesis using r coll 1(2) c(1,3)
          by (intro exI[of _ "unset_bit (op_operand op) r"]) (auto simp: bit_simps)
      next
        case False
        then show ?thesis using r coll by (intro exI[of _ r]) auto
      qed
    qed
    with step 1(2) show ?thesis by (intro exI[of _ "cus[c := ?cu]"] exI[of _ "wrap32 (n + l)"]) simp
  qed
qed

lemma request_okI:
  assumes "op_valid op" "c < length (oc_cu oc)" "op_cu op = Some c" "\<not> cu_free (oc_cu oc ! c)" "op_operand op < MAX_REG_OPERANDS"
    "bit (cu_not_ready (oc_cu oc ! c)) (op_operand op)" "cu_src_op (oc_cu oc ! c) ! op_operand op = op"
    "register_bank (op_register op) (cu_warp_id (oc_cu oc ! c)) (oc_num_banks oc) (oc_sub_core_model oc)
       (oc_num_banks_per_sched oc) (op_sched_id op) = Some b"
  shows "request_ok oc b op"
  using assms unfolding request_ok_def by blast

definition granted :: "arbiter \<Rightarrow> nat \<Rightarrow> nat \<Rightarrow> bool" where
  "granted a c j \<longleftrightarrow> (\<exists>b < ar_num_banks a. serves a b \<and> op_cu (hd (ar_queue a ! b)) = Some c \<and> op_operand (hd (ar_queue a ! b)) = j)"

text \<open>What the phase leaves behind.\<close>

definition reads_done :: "operand_collector \<Rightarrow> operand_collector \<Rightarrow> bool" where
  "reads_done oc d \<longleftrightarrow> length (oc_cu d) = length (oc_cu oc) \<and>
     (\<forall>c < length (oc_cu oc). \<exists>r. oc_cu d ! c = (oc_cu oc ! c)\<lparr>cu_not_ready := r\<rparr> \<and>
       (\<forall>j. bit r j \<longleftrightarrow> bit (cu_not_ready (oc_cu oc ! c)) j \<and> \<not> granted (oc_arbiter oc) c j)) \<and>
     (\<forall>b < oc_num_banks oc. ar_queue (oc_arbiter d) ! b =
       (if serves (oc_arbiter oc) b then tl (ar_queue (oc_arbiter oc) ! b) else ar_queue (oc_arbiter oc) ! b))"

definition same_frame :: "operand_collector \<Rightarrow> operand_collector \<Rightarrow> bool" where
  "same_frame oc d \<longleftrightarrow> oc_num_banks d = oc_num_banks oc \<and> oc_sub_core_model d = oc_sub_core_model oc \<and>
     oc_num_banks_per_sched d = oc_num_banks_per_sched oc \<and> ar_num_banks (oc_arbiter d) = ar_num_banks (oc_arbiter oc) \<and>
     ar_num_collectors (oc_arbiter d) = ar_num_collectors (oc_arbiter oc) \<and>
     length (ar_queue (oc_arbiter d)) = length (ar_queue (oc_arbiter oc)) \<and>
     length (ar_allocated_bank (oc_arbiter d)) = length (ar_allocated_bank (oc_arbiter oc))"

lemma reads_done_inv:
  assumes inv: "oc_inv oc" and post: "reads_done oc d" and frame: "same_frame oc d"
  shows "oc_inv d"
proof (rule oc_invI)
  let ?a = "oc_arbiter oc"
  have n: "length (oc_cu d) = length (oc_cu oc)" using post by (simp add: reads_done_def)
  have nb: "ar_num_banks ?a = oc_num_banks oc" using oc_invD(1)[OF inv] by (simp add: sizes_ok_def)
  have q: "ar_queue (oc_arbiter d) ! b = (if serves ?a b then tl (ar_queue ?a ! b) else ar_queue ?a ! b)"
    if "b < oc_num_banks oc" for b using post that by (simp add: reads_done_def)
  have sub: "op \<in> set (ar_queue ?a ! b)" if "b < oc_num_banks oc" "op \<in> set (ar_queue (oc_arbiter d) ! b)" for b op
    using that q[OF that(1)] by (auto simp: serves_def dest: list.set_sel(2) split: if_splits)
  have u: "\<exists>r. oc_cu d ! c = (oc_cu oc ! c)\<lparr>cu_not_ready := r\<rparr> \<and>
      (\<forall>j. bit r j \<longleftrightarrow> bit (cu_not_ready (oc_cu oc ! c)) j \<and> \<not> granted ?a c j)" if "c < length (oc_cu oc)" for c
    using post that by (simp add: reads_done_def)
  show "sizes_ok d" using oc_invD(1)[OF inv] frame n by (simp add: sizes_ok_def same_frame_def)
  show "unit_ok d c (oc_cu d ! c)" if c: "c < length (oc_cu d)" for c
  proof -
    obtain r where r: "oc_cu d ! c = (oc_cu oc ! c)\<lparr>cu_not_ready := r\<rparr>" "\<forall>j. bit r j \<longrightarrow> bit (cu_not_ready (oc_cu oc ! c)) j"
      using u[of c] c n by auto
    have "cu_free (oc_cu oc ! c) \<longrightarrow> r = 0"
      using r(2) oc_invD(2)[OF inv, of c] c n by (auto simp: unit_ok_def intro: bit_eqI)
    then show ?thesis using oc_invD(2)[OF inv, of c] c n r(1) frame by (simp add: unit_ok_def same_frame_def)
  qed
  show "distinct (ar_queue (oc_arbiter d) ! b)" if "b < oc_num_banks d" for b
    using oc_invD(3)[OF inv, of b] that frame q[of b] by (simp add: same_frame_def distinct_tl)
  show "request_ok d b op" if b: "b < oc_num_banks d" and op: "op \<in> set (ar_queue (oc_arbiter d) ! b)" for b op
  proof -
    have b': "b < oc_num_banks oc" using b frame by (simp add: same_frame_def)
    have old: "op \<in> set (ar_queue ?a ! b)" by (rule sub[OF b' op])
    obtain c where c: "c < length (oc_cu oc)" "op_cu op = Some c" using oc_invD(4)[OF inv b' old] by (auto simp: request_ok_def)
    have "\<not> granted ?a c (op_operand op)"
    proof
      assume "granted ?a c (op_operand op)"
      then obtain e where e: "e < oc_num_banks oc" "serves ?a e" "op_cu (hd (ar_queue ?a ! e)) = op_cu op"
        "op_operand (hd (ar_queue ?a ! e)) = op_operand op" using nb c(2) by (auto simp: granted_def)
      have ne: "ar_queue ?a ! e \<noteq> []" using e(2) by (simp add: serves_def)
      have "hd (ar_queue ?a ! e) = op \<and> e = b"
        by (rule request_unique[OF inv e(1) b' hd_in_set[OF ne] old e(3,4)])
      then show False using op q[OF b'] e(2) oc_invD(3)[OF inv b'] ne
        by (cases "ar_queue ?a ! b") auto
    qed
    moreover obtain r where r: "oc_cu d ! c = (oc_cu oc ! c)\<lparr>cu_not_ready := r\<rparr>"
      "\<And>j. bit r j \<longleftrightarrow> bit (cu_not_ready (oc_cu oc ! c)) j \<and> \<not> granted ?a c j" using u[OF c(1)] by blast
    ultimately have bit: "bit r (op_operand op) \<longleftrightarrow> bit (cu_not_ready (oc_cu oc ! c)) (op_operand op)" by simp
    obtain f: "op_valid op" "\<not> cu_free (oc_cu oc ! c)" "op_operand op < MAX_REG_OPERANDS" "bit r (op_operand op)"
      "cu_src_op (oc_cu oc ! c) ! op_operand op = op" "register_bank (op_register op) (cu_warp_id (oc_cu oc ! c))
        (oc_num_banks oc) (oc_sub_core_model oc) (oc_num_banks_per_sched oc) (op_sched_id op) = Some b"
      using oc_invD(4)[OF inv b' old] c(2) unfolding request_ok_def bit by auto
    have eqs: "oc_num_banks d = oc_num_banks oc" "oc_sub_core_model d = oc_sub_core_model oc"
      "oc_num_banks_per_sched d = oc_num_banks_per_sched oc" using frame by (simp_all add: same_frame_def)
    have cu: "cu_free (oc_cu d ! c) = cu_free (oc_cu oc ! c)" "cu_not_ready (oc_cu d ! c) = r"
      "cu_src_op (oc_cu d ! c) = cu_src_op (oc_cu oc ! c)" "cu_warp_id (oc_cu d ! c) = cu_warp_id (oc_cu oc ! c)"
      unfolding r(1) by simp_all
    show ?thesis
      by (rule request_okI[of op c]) (unfold n eqs cu, (fact f c)+)
  qed
  show "\<exists>b < oc_num_banks d. \<exists>op \<in> set (ar_queue (oc_arbiter d) ! b). op_cu op = Some c \<and> op_operand op = j"
    if c: "c < length (oc_cu d)" and j: "bit (cu_not_ready (oc_cu d ! c)) j" for c j
  proof -
    have c': "c < length (oc_cu oc)" using c n by simp
    obtain r where r: "oc_cu d ! c = (oc_cu oc ! c)\<lparr>cu_not_ready := r\<rparr>"
      "\<And>j. bit r j \<longleftrightarrow> bit (cu_not_ready (oc_cu oc ! c)) j \<and> \<not> granted ?a c j" using u[OF c'] by blast
    have "cu_not_ready (oc_cu d ! c) = r" unfolding r(1) by simp
    then have bj: "bit (cu_not_ready (oc_cu oc ! c)) j" "\<not> granted ?a c j" using j r(2) by simp_all
    then obtain b op where op: "b < oc_num_banks oc" "op \<in> set (ar_queue ?a ! b)" "op_cu op = Some c" "op_operand op = j"
      using oc_invD(5)[OF inv c'] by blast
    have "op \<in> set (ar_queue (oc_arbiter d) ! b)"
    proof (cases "serves ?a b")
      case True
      then have "op \<noteq> hd (ar_queue ?a ! b)" using bj(2) op nb by (auto simp: granted_def)
      then show ?thesis using True op(2) q[OF op(1)] by (cases "ar_queue ?a ! b") auto
    qed (use op q[OF op(1)] in simp)
    with op frame show ?thesis by (auto simp: same_frame_def)
  qed
qed

lemma allocate_reads_effect:
  assumes inv: "oc_inv oc" and free: "no_reads oc" and lanes: "lanes_ok env"
  obtains d where "allocate_reads env oc = Some d" "oc_inv d" "reads_done oc d" "same_frame oc d"
    "oc_in_ports d = oc_in_ports oc"
proof -
  let ?a = "oc_arbiter oc" and ?nb = "oc_num_banks oc"
  let ?f = "\<lambda>i. hd (ar_queue ?a ! i)" and ?bs = "filter (serves ?a) [0..<?nb]"
  let ?a' = "?a\<lparr>ar_queue := map (\<lambda>i. if serves ?a i then tl (ar_queue ?a ! i) else ar_queue ?a ! i) [0..<?nb],
        ar_last_cu := (ar_last_cu ?a + 1) mod ar_num_collectors ?a\<rparr>"
  let ?oc = "oc\<lparr>oc_arbiter := ?a'\<rparr>" and ?rd = "\<lambda>i. if i \<in> set ?bs then Some (?f i) else None"
  have s: "ar_num_banks ?a = ?nb" "length (ar_allocated_bank ?a) = ?nb" "length (ar_queue ?a) = ?nb"
    using oc_invD(1)[OF inv] by (simp_all add: sizes_ok_def)
  have alloc: "arbiter_allocate_reads ?a = Some (map ?f ?bs, ?a')"
    using arbiter_closed_form[OF oc_inv_arb_ok[OF inv]] s(1) by simp
  have ok: "i < ?nb \<and> al_free (ar_allocated_bank ?a ! i) \<and> request_ok oc i (?f i)" if "i \<in> set ?bs" for i
  proof -
    have i: "i < ?nb" "serves ?a i" using that by auto
    then have "al_free (ar_allocated_bank ?a ! i)"
      using free by (cases "al_allocation (ar_allocated_bank ?a ! i)") (auto simp: serves_def no_reads_def al_free_def al_is_write_def)
    with i show ?thesis using oc_invD(4)[OF inv i(1)] by (simp add: serves_def)
  qed
  have "\<exists>al. run_calls grant_read (?oc, Map.empty) (map ?f ?bs) =
      Some (?oc\<lparr>oc_arbiter := (oc_arbiter ?oc)\<lparr>ar_allocated_bank := al\<rparr>\<rparr>, \<lambda>i. if i \<in> set ?bs then Some (?f i) else Map.empty i) \<and>
    length al = length (ar_allocated_bank (oc_arbiter ?oc))"
  proof (rule grant_reads)
    show "i < oc_num_banks ?oc \<and> al_free (ar_allocated_bank (oc_arbiter ?oc) ! i) \<and> request_ok ?oc i (?f i)" if "i \<in> set ?bs" for i
      using ok[OF that] by (simp add: request_ok_def)
  qed (simp_all add: s)
  then obtain al where al: "run_calls grant_read (?oc, Map.empty) (map ?f ?bs) = Some (oc\<lparr>oc_arbiter := ?a'\<lparr>ar_allocated_bank := al\<rparr>\<rparr>, ?rd)"
    "length al = ?nb" using s by auto
  let ?oc2 = "oc\<lparr>oc_arbiter := ?a'\<lparr>ar_allocated_bank := al\<rparr>\<rparr>"
  have key: "\<exists>c < length (oc_cu ?oc2). op_cu op = Some c \<and> op_operand op < MAX_REG_OPERANDS" if "?rd b = Some op" for b op
    using ok[of b] that by (auto simp: request_ok_def split: if_splits)
  have "\<exists>cus n. run_calls (collect_read env ?rd) ?oc2 [0..<?nb] = Some (?oc2\<lparr>oc_cu := cus, oc_regfile_reads := n\<rparr>) \<and>
    length cus = length (oc_cu ?oc2) \<and> (\<forall>c < length (oc_cu ?oc2). \<exists>r. cus ! c = (oc_cu ?oc2 ! c)\<lparr>cu_not_ready := r\<rparr> \<and>
      (\<forall>j. bit r j \<longleftrightarrow> bit (cu_not_ready (oc_cu ?oc2 ! c)) j \<and> \<not> collected ?rd ?nb c j))"
    by (rule collect_reads[OF lanes]) (rule key)
  moreover have "oc_cu ?oc2 = oc_cu oc" by simp
  ultimately obtain cus n where cus:
    "run_calls (collect_read env ?rd) ?oc2 [0..<?nb] = Some (?oc2\<lparr>oc_cu := cus, oc_regfile_reads := n\<rparr>)"
    "length cus = length (oc_cu oc)" "\<forall>c < length (oc_cu oc). \<exists>r. cus ! c = (oc_cu oc ! c)\<lparr>cu_not_ready := r\<rparr> \<and>
      (\<forall>j. bit r j \<longleftrightarrow> bit (cu_not_ready (oc_cu oc ! c)) j \<and> \<not> collected ?rd ?nb c j)" by (elim exE conjE) (simp only:)
  let ?d = "?oc2\<lparr>oc_cu := cus, oc_regfile_reads := n\<rparr>"
  have "collected ?rd ?nb c j \<longleftrightarrow> granted ?a c j" for c j using s(1) by (auto simp: collected_def granted_def)
  then have post: "reads_done oc ?d" using cus(2,3) by (simp add: reads_done_def)
  have frame: "same_frame oc ?d" using s al(2) by (simp add: same_frame_def)
  have "ar_num_banks ?a' = ?nb" using s(1) by simp
  then have "allocate_reads env oc = Some ?d"
    unfolding allocate_reads_def by (simp only: alloc al(1) cus(1) bind.bind_lunit prod.case)
  then show thesis by (rule that[OF _ reads_done_inv[OF inv post frame] post frame]) simp
qed

subsection \<open>Units that change\<close>

lemma idle_unit_update:
  assumes inv: "oc_inv oc" and i: "i < length (oc_cu oc)" "cu_not_ready (oc_cu oc ! i) = 0"
    and new: "unit_ok oc i cu" "cu_not_ready cu = 0"
  shows "oc_inv (oc\<lparr>oc_cu := (oc_cu oc)[i := cu]\<rparr>)"
proof (rule oc_invI)
  let ?d = "oc\<lparr>oc_cu := (oc_cu oc)[i := cu]\<rparr>"
  show "sizes_ok ?d" using oc_invD(1)[OF inv] by (simp add: sizes_ok_def)
  show "unit_ok ?d c (oc_cu ?d ! c)" if "c < length (oc_cu ?d)" for c
    using oc_invD(2)[OF inv, of c] new(1) that by (cases "c = i") (simp_all add: unit_ok_def)
  show "distinct (ar_queue (oc_arbiter ?d) ! b)" if "b < oc_num_banks ?d" for b
    using oc_invD(3)[OF inv, of b] that by simp
  show "request_ok ?d b op" if "b < oc_num_banks ?d" "op \<in> set (ar_queue (oc_arbiter ?d) ! b)" for b op
  proof -
    have ok: "request_ok oc b op" using oc_invD(4)[OF inv, of b op] that by simp
    then obtain c where c: "op_cu op = Some c" "bit (cu_not_ready (oc_cu oc ! c)) (op_operand op)" by (auto simp: request_ok_def)
    then have "c \<noteq> i" using i(2) by auto
    with ok c(1) show ?thesis by (auto simp: request_ok_def)
  qed
  show "\<exists>b < oc_num_banks ?d. \<exists>op \<in> set (ar_queue (oc_arbiter ?d) ! b). op_cu op = Some c \<and> op_operand op = j"
    if "c < length (oc_cu ?d)" "bit (cu_not_ready (oc_cu ?d ! c)) j" for c j
    using oc_invD(5)[OF inv, of c j] that new(2) by (cases "c = i") simp_all
qed

lemma find_ready_from_ready:
  "find_ready_from sets cus cu_set cs = Some (Some c) \<Longrightarrow>
    c < length cu_set \<and> cu_set ! c < length cus \<and> cu_not_ready (cus ! (cu_set ! c)) = 0"
  by (induction cs) (auto split: bind_splits if_splits simp: cu_ready_def)

lemma dispatch_ready_inv:
  assumes inv: "oc_inv oc" and d: "dispatch_ready env oc p = Some d"
  shows "oc_inv d \<and> oc_arbiter d = oc_arbiter oc \<and> oc_num_banks d = oc_num_banks oc"
proof -
  obtain u r u' where u: "find_ready oc u = Some (r, u')"
    "(case r of None \<Rightarrow> Some (oc\<lparr>oc_dispatch_units := (oc_dispatch_units oc)[p := u']\<rparr>)
      | Some i \<Rightarrow> do {
          cu \<leftarrow> vec_at (oc_cu oc) i;
          n \<leftarrow> count_non_rf env cu;
          (sets, cu) \<leftarrow> cu_dispatch env (oc_regs oc, cu);
          Some (oc\<lparr>oc_dispatch_units := (oc_dispatch_units oc)[p := u'],
            oc_non_rf_operands := wrap32 (oc_non_rf_operands oc + n), oc_regs := sets, oc_cu := (oc_cu oc)[i := cu]\<rparr>)
        }) = Some d"
    using d by (auto simp: dispatch_ready_def Let_def split: bind_splits option.splits)
  show ?thesis
  proof (cases r)
    case None
    with u(2) have "d = oc\<lparr>oc_dispatch_units := (oc_dispatch_units oc)[p := u']\<rparr>" by simp
    then show ?thesis using inv oc_inv_cong[of d oc] by simp
  next
    case (Some i)
    let ?cu = "oc_cu oc ! i"
    have i: "i < length (oc_cu oc)" "cu_not_ready ?cu = 0"
      using u(1) find_ready_from_ready unfolding Some find_ready_def Let_def
      by (fastforce split: bind_splits option.splits if_splits)+
    obtain n sets w where n: "d = oc\<lparr>oc_dispatch_units := (oc_dispatch_units oc)[p := u'],
        oc_non_rf_operands := n, oc_regs := sets, oc_cu := (oc_cu oc)[i := ?cu\<lparr>cu_warp := w, cu_free := True, cu_output := None,
          cu_src_op := map (\<lambda>op. op\<lparr>op_valid := False\<rparr>) (cu_src_op ?cu)\<rparr>]\<rparr>"
      using u(2) i(1) unfolding Some by (auto simp: cu_dispatch_def split: bind_splits if_splits)
    let ?new = "?cu\<lparr>cu_warp := w, cu_free := True, cu_output := None, cu_src_op := map (\<lambda>op. op\<lparr>op_valid := False\<rparr>) (cu_src_op ?cu)\<rparr>"
    have "oc_inv (oc\<lparr>oc_cu := (oc_cu oc)[i := ?new]\<rparr>)"
      by (rule idle_unit_update[OF inv i]) (use oc_invD(2)[OF inv i(1)] i(2) in \<open>simp_all add: unit_ok_def\<close>)
    then show ?thesis using oc_inv_cong[of d "oc\<lparr>oc_cu := (oc_cu oc)[i := ?new]\<rparr>"] unfolding n by simp
  qed
qed

lemma dispatch_ready_cu_inv:
  assumes "oc_inv oc" "dispatch_ready_cu env oc = Some d"
  shows "oc_inv d \<and> oc_arbiter d = oc_arbiter oc \<and> oc_num_banks d = oc_num_banks oc"
  using assms(2) unfolding dispatch_ready_cu_def
  by (rule run_calls_invariant[where P = "\<lambda>d. oc_inv d \<and> oc_arbiter d = oc_arbiter oc \<and> oc_num_banks d = oc_num_banks oc"])
    (use assms(1) dispatch_ready_inv in \<open>simp_all, metis\<close>)

subsection \<open>Instructions that come in\<close>

lemma register_bank_less: "register_bank r w n s bps sc = Some b \<Longrightarrow> b < n"
  by (auto simp: register_bank_def Let_def split: if_splits)

text \<open>A unit whose requests are about to be queued.\<close>

definition filled :: "operand_collector \<Rightarrow> nat \<Rightarrow> collector_unit \<Rightarrow> bool" where
  "filled oc i cu \<longleftrightarrow> unit_ok oc i cu \<and> \<not> cu_free cu \<and>
     (\<forall>j < MAX_REG_OPERANDS * 2. op_valid (cu_src_op cu ! j) \<longrightarrow> op_cu (cu_src_op cu ! j) = Some i \<and> op_operand (cu_src_op cu ! j) = j \<and>
        register_bank (op_register (cu_src_op cu ! j)) (cu_warp_id cu) (oc_num_banks oc) (oc_sub_core_model oc)
          (oc_num_banks_per_sched oc) (op_sched_id (cu_src_op cu ! j)) = Some (op_bank (cu_src_op cu ! j))) \<and>
     (\<forall>j. bit (cu_not_ready cu) j \<longleftrightarrow> j < MAX_REG_OPERANDS \<and> op_valid (cu_src_op cu ! j))"

definition half_filled :: "warp_inst \<Rightarrow> nat \<Rightarrow> collector_unit \<Rightarrow> collector_unit \<Rightarrow> bool" where
  "half_filled inst k cu d \<longleftrightarrow> (\<exists>ops r. d = cu\<lparr>cu_src_op := ops, cu_not_ready := r\<rparr> \<and> length ops = length (cu_src_op cu) \<and>
     (\<forall>j. k \<le> j \<and> j < length ops \<longrightarrow> ops ! j = cu_src_op cu ! j) \<and>
     (\<forall>j < k. op_valid (ops ! j) \<longrightarrow> op_cu (ops ! j) = Some (cu_cuid cu) \<and> op_operand (ops ! j) = j \<and>
        register_bank (op_register (ops ! j)) (cu_warp_id cu) (cu_num_banks cu) (cu_sub_core_model cu) (cu_num_banks_per_sched cu)
          (op_sched_id (ops ! j)) = Some (op_bank (ops ! j))) \<and>
     (\<forall>j. bit r j \<longleftrightarrow> j < k \<and> op_valid (ops ! j)))"

lemma allocate_operands:
  assumes "run_calls (allocate_operand inst) ([], cu) [0..<k] = Some (prev, d)" "cu_not_ready cu = 0" "k \<le> 64"
  shows "half_filled inst k cu d"
  using assms(1,3)
proof (induction k arbitrary: prev d)
  case 0
  then show ?case using assms(2)
    by (auto simp: half_filled_def intro!: exI[of _ "cu_src_op cu"] exI[of _ "cu_not_ready cu"])
next
  case (Suc k)
  obtain prev1 e where e: "run_calls (allocate_operand inst) ([], cu) [0..<k] = Some (prev1, e)"
    "allocate_operand inst (prev1, e) k = Some (prev, d)"
    using Suc.prems(1) by (auto simp: run_calls_append split: bind_splits)
  obtain ops r where 1: "e = cu\<lparr>cu_src_op := ops, cu_not_ready := r\<rparr>" "length ops = length (cu_src_op cu)"
     "\<forall>j. k \<le> j \<and> j < length ops \<longrightarrow> ops ! j = cu_src_op cu ! j"
     "\<forall>j < k. op_valid (ops ! j) \<longrightarrow> op_cu (ops ! j) = Some (cu_cuid cu) \<and> op_operand (ops ! j) = j \<and>
        register_bank (op_register (ops ! j)) (cu_warp_id cu) (cu_num_banks cu) (cu_sub_core_model cu) (cu_num_banks_per_sched cu)
          (op_sched_id (ops ! j)) = Some (op_bank (ops ! j))"
     "\<forall>j. bit r j \<longleftrightarrow> j < k \<and> op_valid (ops ! j)"
    using Suc.IH[OF e(1)] Suc.prems(2) unfolding half_filled_def by auto
  have "\<exists>op. k < length ops \<and> d = cu\<lparr>cu_src_op := ops[k := op], cu_not_ready := (if op_valid op then set_bit k r else r)\<rparr> \<and>
      (op_valid op \<longrightarrow> op_cu op = Some (cu_cuid cu) \<and> op_operand op = k \<and>
        register_bank (op_register op) (cu_warp_id cu) (cu_num_banks cu) (cu_sub_core_model cu) (cu_num_banks_per_sched cu)
          (op_sched_id op) = Some (op_bank op))"
  proof -
    consider (no) "k < length ops" "d = cu\<lparr>cu_src_op := ops[k := op_none], cu_not_ready := r\<rparr>"
      | (yes) reg op where "op_read e k reg (wi_scheduler_id inst) = Some op" "k < length ops"
          "d = cu\<lparr>cu_src_op := ops[k := op], cu_not_ready := set_bit k r\<rparr>"
      using e(2) 1(1) by (auto simp: allocate_operand_def vec_set_def split: bind_splits if_splits)
    then show ?thesis
    proof cases
      case no
      then show ?thesis by (intro exI[of _ op_none]) (simp add: op_none_def)
    next
      case yes
      then show ?thesis using 1(1) by (intro exI[of _ op]) (auto simp: op_read_def split: bind_splits)
    qed
  qed
  then obtain op where op: "k < length ops" "d = cu\<lparr>cu_src_op := ops[k := op], cu_not_ready := (if op_valid op then set_bit k r else r)\<rparr>"
      "op_valid op \<longrightarrow> op_cu op = Some (cu_cuid cu) \<and> op_operand op = k \<and>
        register_bank (op_register op) (cu_warp_id cu) (cu_num_banks cu) (cu_sub_core_model cu) (cu_num_banks_per_sched cu)
          (op_sched_id op) = Some (op_bank op)" by blast
  have "k < 64" using Suc.prems(2) by simp
  then have "bit (if op_valid op then set_bit k r else r) j \<longleftrightarrow> j < Suc k \<and> op_valid (ops[k := op] ! j)" for j
    using 1(5) op(1) by (auto simp: bit_simps nth_list_update less_Suc_eq)
  with 1 op show ?case unfolding half_filled_def
    by (intro exI[of _ "ops[k := op]"] exI[of _ "if op_valid op then set_bit k r else r"]) (auto simp: nth_list_update less_Suc_eq)
qed

lemma cu_allocate_filled:
  assumes "cu_allocate env out regs cu = Some (ok, regs', d)" "unit_ok oc i cu"
  shows "filled oc i d"
proof -
  have cu: "cu_free cu" "cu_not_ready cu = 0" using assms(1) by (auto simp: cu_allocate_def split: if_splits)
  have invalid: "\<not> op_valid (cu_src_op cu ! j)" if "j < MAX_REG_OPERANDS * 2" for j
    using assms(2) cu(1) that by (auto simp: unit_ok_def)
  let ?cu = "cu\<lparr>cu_free := False, cu_output := Some out\<rparr>"
  consider (none) "d = ?cu"
    | (some) inst prev e w where "run_calls (allocate_operand inst) ([], ?cu\<lparr>cu_warp_id := wi_warp_id inst\<rparr>) [0..<MAX_REG_OPERANDS] = Some (prev, e)"
        "d = e\<lparr>cu_warp := w\<rparr>"
    using assms(1) cu by (auto simp: cu_allocate_def Let_def split: bind_splits option.splits if_splits)
  then show ?thesis
  proof cases
    case none
    then show ?thesis using assms(2) cu invalid by (auto simp: filled_def unit_ok_def)
  next
    case some
    let ?cu' = "?cu\<lparr>cu_warp_id := wi_warp_id inst\<rparr>"
    have "half_filled inst MAX_REG_OPERANDS ?cu' e"
      by (rule allocate_operands[OF some(1)]) (simp_all add: cu MAX_REG_OPERANDS_def)
    then obtain ops r where o: "e = ?cu'\<lparr>cu_src_op := ops, cu_not_ready := r\<rparr>" "length ops = length (cu_src_op cu)"
      "\<forall>j. MAX_REG_OPERANDS \<le> j \<and> j < length ops \<longrightarrow> ops ! j = cu_src_op cu ! j"
      "\<forall>j < MAX_REG_OPERANDS. op_valid (ops ! j) \<longrightarrow> op_cu (ops ! j) = Some (cu_cuid cu) \<and> op_operand (ops ! j) = j \<and>
        register_bank (op_register (ops ! j)) (wi_warp_id inst) (cu_num_banks cu) (cu_sub_core_model cu) (cu_num_banks_per_sched cu)
          (op_sched_id (ops ! j)) = Some (op_bank (ops ! j))"
      "\<forall>j. bit r j \<longleftrightarrow> j < MAX_REG_OPERANDS \<and> op_valid (ops ! j)"
      unfolding half_filled_def by auto
    have high: "\<not> op_valid (ops ! j)" if "MAX_REG_OPERANDS \<le> j" "j < MAX_REG_OPERANDS * 2" for j
      using o(2,3) invalid[of j] that assms(2) by (auto simp: unit_ok_def)
    have d: "d = ?cu'\<lparr>cu_src_op := ops, cu_not_ready := r, cu_warp := w\<rparr>" using some(2) o(1) by simp
    have "unit_ok oc i d" using assms(2) o(2) high unfolding d by (auto simp: unit_ok_def)
    moreover have "\<forall>j < MAX_REG_OPERANDS * 2. op_valid (ops ! j) \<longrightarrow> j < MAX_REG_OPERANDS" using high by (meson not_le)
    ultimately show ?thesis using assms(2) o(4,5) unfolding filled_def d unit_ok_def by auto
  qed
qed

lemma add_read_requests_effect:
  assumes "run_calls add_read_request a ops = Some a'"
  shows "\<exists>qs. a' = a\<lparr>ar_queue := qs\<rparr> \<and> length qs = length (ar_queue a) \<and>
    (\<forall>b < length qs. qs ! b = ar_queue a ! b @ filter (\<lambda>op. op_valid op \<and> op_bank op = b) ops)"
  using assms
proof (induction ops arbitrary: a)
  case Nil
  then show ?case by (intro exI[of _ "ar_queue a"]) simp
next
  case (Cons op ops)
  then obtain a1 where 1: "add_read_request a op = Some a1" "run_calls add_read_request a1 ops = Some a'"
    by (auto split: bind_splits)
  obtain qs where q: "a' = a1\<lparr>ar_queue := qs\<rparr>" "length qs = length (ar_queue a1)"
    "\<forall>b < length qs. qs ! b = ar_queue a1 ! b @ filter (\<lambda>op. op_valid op \<and> op_bank op = b) ops"
    using Cons.IH[OF 1(2)] by blast
  have a1: "a1 = a\<lparr>ar_queue := ar_queue a1\<rparr>" "length (ar_queue a1) = length (ar_queue a)"
    "\<forall>b < length (ar_queue a). ar_queue a1 ! b = ar_queue a ! b @ (if op_valid op \<and> op_bank op = b then [op] else [])"
    using 1(1) by (auto simp: add_read_request_def nth_list_update split: bind_splits if_splits)
  have "a' = a\<lparr>ar_queue := qs\<rparr>" using q(1) a1(1) by (metis arbiter.surjective arbiter.update_convs(4))
  with q a1 show ?case by (intro exI[of _ qs]) auto
qed

lemma distinct_indexed:
  assumes "\<And>j. j < length xs \<Longrightarrow> P (xs ! j) \<Longrightarrow> f (xs ! j) = j"
  shows "distinct (filter P xs)"
  using assms
proof (induction xs rule: rev_induct)
  case (snoc x xs)
  have "f (xs ! j) = j" if "j < length xs" "P (xs ! j)" for j
    using snoc.prems[of j] that by (simp add: nth_append)
  then have d: "distinct (filter P xs)" "\<And>j. j < length xs \<Longrightarrow> P (xs ! j) \<Longrightarrow> f (xs ! j) = j" using snoc.IH by simp_all
  have "x \<notin> set xs" if "P x"
  proof
    assume "x \<in> set xs"
    then obtain j where "j < length xs" "xs ! j = x" by (auto simp: in_set_conv_nth)
    then show False using d(2)[of j] snoc.prems[of "length xs"] that by simp
  qed
  with d(1) show ?case by simp
qed simp

lemma allocate_unit_inv:
  assumes inv: "oc_inv oc" and i: "i < length (oc_cu oc)" "cu_free (oc_cu oc ! i)" and new: "filled oc i cu"
    and add: "add_read_requests cu (oc_arbiter oc) = Some a"
  shows "oc_inv (oc\<lparr>oc_cu := (oc_cu oc)[i := cu], oc_arbiter := a\<rparr>) \<and> ar_allocated_bank a = ar_allocated_bank (oc_arbiter oc)"
proof -
  let ?nb = "oc_num_banks oc" and ?q = "ar_queue (oc_arbiter oc)"
  let ?new = "\<lambda>b. filter (\<lambda>op. op_valid op \<and> op_bank op = b) (cu_src_op cu)"
  have s: "sizes_ok oc" by (rule oc_invD(1)[OF inv])
  obtain qs where qs: "a = (oc_arbiter oc)\<lparr>ar_queue := qs\<rparr>" "length qs = length ?q" "\<forall>b < length qs. qs ! b = ?q ! b @ ?new b"
    using add_read_requests_effect add unfolding add_read_requests_def by blast
  have len: "length qs = ?nb" "length ?q = ?nb" using s qs(2) by (simp_all add: sizes_ok_def)
  have u: "unit_ok oc i cu" "\<not> cu_free cu" "length (cu_src_op cu) = MAX_REG_OPERANDS * 2"
    using new by (simp_all add: filled_def unit_ok_def)
  have valid: "op_cu op = Some i \<and> op_operand op < MAX_REG_OPERANDS \<and> bit (cu_not_ready cu) (op_operand op) \<and>
      cu_src_op cu ! op_operand op = op \<and> register_bank (op_register op) (cu_warp_id cu) ?nb (oc_sub_core_model oc)
        (oc_num_banks_per_sched oc) (op_sched_id op) = Some b" if op: "op \<in> set (?new b)" for op b
  proof -
    obtain j where j: "j < MAX_REG_OPERANDS * 2" "cu_src_op cu ! j = op" "op_valid op" "op_bank op = b"
      using op u(3) by (auto simp: in_set_conv_nth)
    moreover have "j < MAX_REG_OPERANDS" using u(1) j by (auto simp: unit_ok_def not_le[symmetric])
    ultimately show ?thesis using new by (auto simp: filled_def)
  qed
  have old: "op_cu op \<noteq> Some i" if "b < ?nb" "op \<in> set (?q ! b)" for op b
    using oc_invD(4)[OF inv that] i(2) by (auto simp: request_ok_def)
  let ?d = "oc\<lparr>oc_cu := (oc_cu oc)[i := cu], oc_arbiter := a\<rparr>"
  have "oc_inv ?d"
  proof (rule oc_invI)
    show "sizes_ok ?d" using s len qs(1) by (simp add: sizes_ok_def)
    show "unit_ok ?d c (oc_cu ?d ! c)" if "c < length (oc_cu ?d)" for c
      using oc_invD(2)[OF inv, of c] u(1) that by (cases "c = i") (simp_all add: unit_ok_def)
    show "distinct (ar_queue (oc_arbiter ?d) ! b)" if b: "b < oc_num_banks ?d" for b
    proof -
      have "distinct (?new b)"
        by (rule distinct_indexed[where f = op_operand]) (use new u(3) in \<open>auto simp: filled_def\<close>)
      moreover have "set (?q ! b) \<inter> set (?new b) = {}" using old[of b] valid[of _ b] b by fastforce
      moreover have "distinct (?q ! b)" using oc_invD(3)[OF inv, of b] b by simp
      ultimately show ?thesis using b len qs(1,3) by simp
    qed
    show "request_ok ?d b op" if b: "b < oc_num_banks ?d" and op: "op \<in> set (ar_queue (oc_arbiter ?d) ! b)" for b op
    proof -
      consider (old) "op \<in> set (?q ! b)" | (new) "op \<in> set (?new b)" using b op len qs(1,3) by auto
      then show ?thesis
      proof cases
        case old
        then have "request_ok oc b op" "op_cu op \<noteq> Some i" using oc_invD(4)[OF inv, of b op] \<open>\<And>b op. \<lbrakk>b < ?nb; op \<in> set (?q ! b)\<rbrakk> \<Longrightarrow> op_cu op \<noteq> Some i\<close> b by auto
        then show ?thesis by (auto simp: request_ok_def)
      next
        case new
        from valid[OF this] show ?thesis
          by (intro request_okI[of op i]) (use new i(1) u(2) in auto)
      qed
    qed
    show "\<exists>b < oc_num_banks ?d. \<exists>op \<in> set (ar_queue (oc_arbiter ?d) ! b). op_cu op = Some c \<and> op_operand op = j"
      if c: "c < length (oc_cu ?d)" and j: "bit (cu_not_ready (oc_cu ?d ! c)) j" for c j
    proof (cases "c = i")
      case True
      then have "j < MAX_REG_OPERANDS * 2" "op_valid (cu_src_op cu ! j)" using j new i(1) by (auto simp: filled_def MAX_REG_OPERANDS_def)
      then have o: "op_cu (cu_src_op cu ! j) = Some i" "op_operand (cu_src_op cu ! j) = j"
        "register_bank (op_register (cu_src_op cu ! j)) (cu_warp_id cu) ?nb (oc_sub_core_model oc)
          (oc_num_banks_per_sched oc) (op_sched_id (cu_src_op cu ! j)) = Some (op_bank (cu_src_op cu ! j))"
        "cu_src_op cu ! j \<in> set (?new (op_bank (cu_src_op cu ! j)))"
        using new u(3) by (auto simp: filled_def)
      have b: "op_bank (cu_src_op cu ! j) < ?nb" by (rule register_bank_less[OF o(3)])
      then have "cu_src_op cu ! j \<in> set (ar_queue (oc_arbiter ?d) ! op_bank (cu_src_op cu ! j))"
        using o(4) len qs(1,3) by simp
      then show ?thesis using o(1,2) b True by auto
    next
      case False
      then obtain b op where "b < ?nb" "op \<in> set (?q ! b)" "op_cu op = Some c" "op_operand op = j"
        using oc_invD(5)[OF inv, of c j] c j by auto
      then show ?thesis using len qs(1,3) by (intro exI[of _ b]) auto
    qed
  qed
  then show ?thesis using qs(1) by simp
qed

subsection \<open>A cycle\<close>

text \<open>What the allocation of units does to the arbiter.\<close>

definition only_added :: "operand_collector \<Rightarrow> operand_collector \<Rightarrow> bool" where
  "only_added oc d \<longleftrightarrow> oc_num_banks d = oc_num_banks oc \<and> oc_in_ports d = oc_in_ports oc \<and>
     (\<forall>b < oc_num_banks oc. \<exists>new. ar_queue (oc_arbiter d) ! b = ar_queue (oc_arbiter oc) ! b @ new)"

lemma only_added_refl: "only_added oc oc"
  by (simp add: only_added_def)

lemma only_added_trans:
  assumes "only_added a b" "only_added b c"
  shows "only_added a c"
proof -
  have "\<exists>new. ar_queue (oc_arbiter c) ! i = ar_queue (oc_arbiter a) ! i @ new" if i: "i < oc_num_banks a" for i
  proof -
    obtain x where "ar_queue (oc_arbiter b) ! i = ar_queue (oc_arbiter a) ! i @ x" using assms(1) i by (auto simp: only_added_def)
    moreover obtain y where "ar_queue (oc_arbiter c) ! i = ar_queue (oc_arbiter b) ! i @ y" using assms i by (auto simp: only_added_def)
    ultimately show ?thesis by (intro exI[of _ "x @ y"]) simp
  qed
  with assms show ?thesis by (simp add: only_added_def)
qed

lemma first_free_cu_free:
  "first_free_cu cus is = Some (Some i) \<Longrightarrow> i < length cus \<and> cu_free (cus ! i)"
  by (induction "is") (auto split: bind_splits if_splits)

lemma allocate_in_sets_inv:
  assumes "oc_inv oc" "allocate_in_sets env inp out ss oc = Some d"
  shows "oc_inv d \<and> only_added oc d"
  using assms
proof (induction env inp out ss oc rule: allocate_in_sets.induct)
  case (1 env inp out oc)
  then show ?case by (simp add: only_added_refl)
next
  case (2 env inp out s ss oc)
  obtain regs lower upper r where r: "vec_at (oc_regs oc) inp = Some regs" "cu_range oc regs (oc_cus oc s) = Some (lower, upper)"
    "first_free_cu (oc_cu oc) (map ((!) (oc_cus oc s)) [lower..<upper]) = Some r"
    using "2.prems"(2) by (auto split: bind_splits)
  show ?case
  proof (cases r)
    case None
    then show ?thesis using 2 r by auto
  next
    case (Some i)
    obtain ok regs' cu a where c: "cu_allocate env out regs (oc_cu oc ! i) = Some (ok, regs', cu)"
      "add_read_requests cu (oc_arbiter oc) = Some a"
      "(if ok then Some (oc\<lparr>oc_regs := (oc_regs oc)[inp := regs'], oc_cu := (oc_cu oc)[i := cu], oc_arbiter := a\<rparr>)
        else allocate_in_sets env inp out ss (oc\<lparr>oc_regs := (oc_regs oc)[inp := regs'], oc_cu := (oc_cu oc)[i := cu], oc_arbiter := a\<rparr>)) = Some d"
      using "2.prems"(2) r Some by (auto simp: Let_def split: bind_splits)
    let ?e = "oc\<lparr>oc_regs := (oc_regs oc)[inp := regs'], oc_cu := (oc_cu oc)[i := cu], oc_arbiter := a\<rparr>"
    have i: "i < length (oc_cu oc)" "cu_free (oc_cu oc ! i)" using first_free_cu_free r(3) Some by blast+
    have "filled oc i cu" by (rule cu_allocate_filled[OF c(1) oc_invD(2)[OF "2.prems"(1) i(1)]])
    then have "oc_inv (oc\<lparr>oc_cu := (oc_cu oc)[i := cu], oc_arbiter := a\<rparr>)"
      using allocate_unit_inv[OF "2.prems"(1) i _ c(2)] by simp
    then have inv: "oc_inv ?e" using oc_inv_cong[of ?e "oc\<lparr>oc_cu := (oc_cu oc)[i := cu], oc_arbiter := a\<rparr>"] by simp
    have "length (ar_queue (oc_arbiter oc)) = oc_num_banks oc" using oc_invD(1)[OF "2.prems"(1)] by (simp add: sizes_ok_def)
    then have add: "only_added oc ?e"
      using add_read_requests_effect c(2) unfolding add_read_requests_def only_added_def by fastforce
    show ?thesis
    proof (cases ok)
      case True
      then show ?thesis using c(3) inv add by simp
    next
      case False
      then have "allocate_in_sets env inp out ss ?e = Some d" using c(3) by simp
      then have "oc_inv d \<and> only_added ?e d"
        using "2.IH"(2)[OF r(1) r(2) refl r(3) Some c(1) refl refl c(2) refl False inv] by simp
      with add show ?thesis using only_added_trans by blast
    qed
  qed
qed

lemma allocate_input_inv:
  "oc_inv oc \<Longrightarrow> allocate_input env port oc i = Some d \<Longrightarrow> oc_inv d \<and> only_added oc d"
  using allocate_in_sets_inv only_added_refl by (fastforce simp: allocate_input_def split: bind_splits if_splits)

lemma run_added:
  assumes "run_calls f oc xs = Some d" "oc_inv oc" "\<And>oc x d. oc_inv oc \<Longrightarrow> f oc x = Some d \<Longrightarrow> oc_inv d \<and> only_added oc d"
  shows "oc_inv d \<and> only_added oc d"
  by (rule run_calls_invariant[OF assms(1), of "\<lambda>d. oc_inv d \<and> only_added oc d"])
    (use assms(2) assms(3) only_added_refl only_added_trans in blast)+

lemma allocate_cu_inv:
  assumes "oc_inv oc" "allocate_cu env oc p = Some d"
  shows "oc_inv d \<and> only_added oc d"
proof -
  obtain port where "run_calls (allocate_input env port) oc [0..<length (ip_in port)] = Some d"
    using assms(2) by (auto simp: allocate_cu_def split: bind_splits)
  then show ?thesis by (rule run_added[OF _ assms(1) allocate_input_inv])
qed

definition banks_free :: "operand_collector \<Rightarrow> bool" where
  "banks_free oc \<longleftrightarrow> (\<forall>b < oc_num_banks oc. al_free (ar_allocated_bank (oc_arbiter oc) ! b))"

lemma banks_free_no_reads: "banks_free oc \<Longrightarrow> no_reads oc"
  by (simp add: banks_free_def no_reads_def al_free_def)

lemma process_banks_inv:
  assumes "oc_inv oc"
  shows "oc_inv (process_banks oc)" "banks_free (process_banks oc)"
proof -
  have s: "length (ar_allocated_bank (oc_arbiter oc)) = oc_num_banks oc" using oc_invD(1)[OF assms] by (simp add: sizes_ok_def)
  show "oc_inv (process_banks oc)"
    using assms oc_inv_cong[of "process_banks oc" oc] by (simp add: process_banks_def arbiter_reset_def)
  show "banks_free (process_banks oc)"
    using s by (simp add: banks_free_def process_banks_def arbiter_reset_def al_free_def alloc_reset_def)
qed

lemma step_phases:
  assumes "oc_inv oc" "no_reads oc" "lanes_ok env" "opndcoll_step env oc = Some d"
  obtains e f g where "dispatch_ready_cu env oc = Some e" "oc_inv e" "oc_arbiter e = oc_arbiter oc" "oc_num_banks e = oc_num_banks oc"
    "allocate_reads env e = Some f" "reads_done e f" "same_frame e f" "oc_inv g" "only_added f g" "d = process_banks g"
proof -
  obtain e where e: "dispatch_ready_cu env oc = Some e" using assms(4) by (auto simp: opndcoll_step_def split: bind_splits)
  have inv: "oc_inv e" "oc_arbiter e = oc_arbiter oc" "oc_num_banks e = oc_num_banks oc"
    using dispatch_ready_cu_inv[OF assms(1) e] by simp_all
  have "no_reads e" using assms(2) inv by (simp add: no_reads_def)
  from allocate_reads_effect[OF inv(1) this assms(3)]
  obtain f where f: "allocate_reads env e = Some f" "oc_inv f" "reads_done e f" "same_frame e f" by blast
  obtain g where g: "run_calls (allocate_cu env) f [0..<length (oc_in_ports f)] = Some g" "d = process_banks g"
    using assms(4) e f(1) by (auto simp: opndcoll_step_def split: bind_splits)
  have "oc_inv g \<and> only_added f g" by (rule run_added[OF g(1) f(2) allocate_cu_inv])
  with that e inv f g show thesis by blast
qed

lemma step_inv:
  assumes "oc_inv oc" "no_reads oc" "lanes_ok env" "opndcoll_step env oc = Some d"
  shows "oc_inv d \<and> banks_free d \<and> oc_num_banks d = oc_num_banks oc"
proof (rule step_phases[OF assms])
  fix e f g
  assume "oc_inv g" "only_added f g" "d = process_banks g" "same_frame e f" "oc_num_banks e = oc_num_banks oc"
  then show ?thesis using process_banks_inv[of g] by (simp add: only_added_def same_frame_def process_banks_def)
qed

text \<open>With no write, every bank serves the first of its requests, and new ones queue up behind.\<close>

lemma step_queue:
  assumes "oc_inv oc" "banks_free oc" "lanes_ok env" "opndcoll_step env oc = Some d" "b < oc_num_banks oc"
  shows "\<exists>new. ar_queue (oc_arbiter d) ! b = tl (ar_queue (oc_arbiter oc) ! b) @ new"
proof (rule step_phases[OF assms(1) banks_free_no_reads[OF assms(2)] assms(3,4)])
  fix e f g
  assume e: "oc_arbiter e = oc_arbiter oc" "oc_num_banks e = oc_num_banks oc" and f: "reads_done e f" "same_frame e f"
    and g: "only_added f g" "d = process_banks g"
  have "\<not> al_is_write (ar_allocated_bank (oc_arbiter oc) ! b)"
    using assms(2,5) by (simp add: banks_free_def al_free_def al_is_write_def)
  then have "ar_queue (oc_arbiter f) ! b = tl (ar_queue (oc_arbiter oc) ! b)"
    using f(1) assms(5) e by (auto simp: reads_done_def serves_def)
  moreover obtain new where "ar_queue (oc_arbiter g) ! b = ar_queue (oc_arbiter f) ! b @ new"
    using g(1) f(2) e(2) assms(5) by (auto simp: only_added_def same_frame_def)
  ultimately show ?thesis using g(2) by (auto simp: process_banks_def arbiter_reset_def)
qed

lemma write_operands_inv:
  assumes "write_operands ops (inst, oc) = Some (ok, inst', d)" "oc_inv oc" "no_reads oc"
  shows "oc_inv d \<and> no_reads d"
  using assms
proof (induction ops arbitrary: inst oc)
  case (Cons op ops)
  obtain reg where reg: "vec_at (wi_arch_reg_dst inst) op = Some reg" using Cons.prems(1) by (auto split: bind_splits)
  show ?case
  proof (cases "reg \<ge> 0")
    case False
    then show ?thesis using Cons reg by simp
  next
    case True
    then obtain bank idle where bank: "register_bank (nat reg) (wi_warp_id inst) (oc_num_banks oc) (oc_sub_core_model oc)
        (oc_num_banks_per_sched oc) (wi_scheduler_id inst) = Some bank" "bank_idle bank (oc_arbiter oc) = Some idle"
      using Cons.prems(1) reg by (auto split: bind_splits)
    show ?thesis
    proof (cases idle)
      case False
      then show ?thesis using Cons.prems reg True bank by simp
    next
      case idle: True
      let ?al = "ar_allocated_bank (oc_arbiter oc)"
      obtain w a where w: "allocate_bank_for_write bank w (oc_arbiter oc) = Some a"
        "write_operands ops (inst\<lparr>wi_arch_reg_dst := (wi_arch_reg_dst inst)[op := -1]\<rparr>, oc\<lparr>oc_arbiter := a\<rparr>) = Some (ok, inst', d)"
        using Cons.prems(1) reg True bank idle by (auto split: bind_splits)
      have a: "a = (oc_arbiter oc)\<lparr>ar_allocated_bank := ?al[bank := (?al ! bank)\<lparr>al_allocation := WRITE_ALLOC, al_op := w\<rparr>]\<rparr>"
        "bank < length ?al"
        using w(1) by (auto simp: allocate_bank_for_write_def alloc_write_def split: bind_splits if_splits)
      have "oc_inv (oc\<lparr>oc_arbiter := a\<rparr>)" using Cons.prems(2) oc_inv_cong[of "oc\<lparr>oc_arbiter := a\<rparr>" oc] a(1) by simp
      moreover have "no_reads (oc\<lparr>oc_arbiter := a\<rparr>)"
        using Cons.prems(3) a by (auto simp: no_reads_def nth_list_update)
      ultimately show ?thesis using Cons.IH[OF w(2)] by blast
    qed
  qed
qed simp

lemma writeback_inv:
  assumes "opndcoll_writeback env (inst, oc) = Some (ok, inst', d)" "oc_inv oc" "no_reads oc"
  shows "oc_inv d \<and> no_reads d"
proof -
  obtain ok1 inst1 e where e: "write_operands [0..<MAX_REG_OPERANDS] (inst, oc) = Some (ok1, inst1, e)"
    using assms(1) by (auto simp: opndcoll_writeback_def Let_def split: bind_splits if_splits)
  then have inv: "oc_inv e" "no_reads e" using write_operands_inv assms(2,3) by blast+
  have "\<exists>n. d = e\<lparr>oc_regfile_writes := n\<rparr>"
  proof (cases ok1)
    case True
    then have "run_calls (\<lambda>oc r. do {
            lanes \<leftarrow> access_lanes env (wi_active_mask inst1);
            Some (oc\<lparr>oc_regfile_writes := wrap32 (oc_regfile_writes oc + lanes)\<rparr>)
          }) e (get_regs_written inst) = Some d"
      using assms(1) e by (auto simp: opndcoll_writeback_def Let_def split: bind_splits if_splits)
    then show ?thesis
      by (rule run_calls_invariant[where P = "\<lambda>d. \<exists>n. d = e\<lparr>oc_regfile_writes := n\<rparr>"])
        (auto intro: exI[of _ "oc_regfile_writes e"] split: bind_splits)
  next
    case False
    then have "d = e" using assms(1) e by (auto simp: opndcoll_writeback_def Let_def split: bind_splits if_splits)
    then show ?thesis by (intro exI[of _ "oc_regfile_writes e"]) simp
  qed
  then obtain n where n: "d = e\<lparr>oc_regfile_writes := n\<rparr>" by blast
  show ?thesis using inv oc_inv_cong[of d e] unfolding n by (simp add: no_reads_def)
qed

subsection \<open>Reachable states\<close>

text \<open>
  A collector is put together, initialised once, and then goes through cycles and write backs, while other
  stages of the pipeline change the registers.
\<close>

inductive oc_built :: "operand_collector \<Rightarrow> bool" where
  built_new: "oc_built (operand_collector_new regs)"
| built_set: "oc_built oc \<Longrightarrow> add_cu_set s n k oc = Some d \<Longrightarrow> oc_built d"
| built_port: "oc_built oc \<Longrightarrow> add_port i out sets oc = Some d \<Longrightarrow> oc_built d"

inductive oc_reachable :: "collector_env \<Rightarrow> operand_collector \<Rightarrow> bool" for env where
  reach_init: "oc_built oc \<Longrightarrow> opndcoll_init env num_banks oc = Some d \<Longrightarrow> oc_reachable env d"
| reach_step: "oc_reachable env oc \<Longrightarrow> opndcoll_step env oc = Some d \<Longrightarrow> oc_reachable env d"
| reach_writeback: "oc_reachable env oc \<Longrightarrow> opndcoll_writeback env (inst, oc) = Some (ok, inst', d) \<Longrightarrow> oc_reachable env d"
| reach_pipeline: "oc_reachable env oc \<Longrightarrow> oc_reachable env (oc\<lparr>oc_regs := regs\<rparr>)"

lemma built_units: "oc_built oc \<Longrightarrow> set (oc_cu oc) \<subseteq> {cu_new}"
  by (induction rule: oc_built.induct)
    (auto simp: operand_collector_new_def add_cu_set_def add_port_def Let_def split: if_splits)

lemma init_inv:
  assumes "oc_built oc" "opndcoll_init env num_banks oc = Some d"
  shows "oc_inv d \<and> banks_free d"
proof -
  let ?n = "length (oc_cu oc)"
  obtain arb where arb: "arbiter_init ?n num_banks = Some arb" using assms(2) by (auto simp: opndcoll_init_def Let_def split: bind_splits)
  then have a: "0 < ?n" "0 < num_banks" "ar_num_banks arb = num_banks" "ar_num_collectors arb = ?n" "ar_queue arb = replicate num_banks []"
    "length (ar_allocated_bank arb) = num_banks" "\<And>b. b < num_banks \<Longrightarrow> al_free (ar_allocated_bank arb ! b)"
    by (auto simp: arbiter_init_def arbiter_reset_def alloc_reset_def al_free_def split: if_splits)
  let ?sub = "oe_sub_core_model env" and ?bps = "num_banks div oe_num_sched_per_core env"
  let ?r = "\<lambda>j. if ?sub then j div (?n div oe_num_sched_per_core env) else 0"
  have "oc_arbiter d = arb \<and> oc_num_banks d = num_banks \<and> oc_sub_core_model d = ?sub \<and> oc_num_banks_per_sched d = ?bps \<and>
    oc_cu d = map (\<lambda>j. cu_init j num_banks ?sub (?r j) ?bps (oc_cu oc ! j)) [0..<?n]"
    using assms(2) arb by (cases ?sub) (auto simp: opndcoll_init_def Let_def split: bind_splits if_splits)
  then have d: "oc_arbiter d = arb" "oc_num_banks d = num_banks" "oc_sub_core_model d = ?sub" "oc_num_banks_per_sched d = ?bps"
    "oc_cu d = map (\<lambda>j. cu_init j num_banks ?sub (?r j) ?bps (oc_cu oc ! j)) [0..<?n]" by blast+
  have new: "oc_cu oc ! j = cu_new" if "j < ?n" for j using built_units[OF assms(1)] nth_mem[OF that] by auto
  have "oc_inv d"
    by (rule oc_invI) (use a d new in \<open>simp_all add: sizes_ok_def unit_ok_def cu_init_def cu_new_def op_none_def\<close>)
  moreover have "banks_free d" using a(7) d(1,2) by (simp add: banks_free_def)
  ultimately show ?thesis by simp
qed

lemma reachable_inv:
  assumes "oc_reachable env oc" "lanes_ok env"
  shows "oc_inv oc \<and> no_reads oc"
  using assms(1)
proof (induction rule: oc_reachable.induct)
  case (reach_init oc num_banks d)
  then show ?case using init_inv banks_free_no_reads by blast
next
  case (reach_step oc d)
  then show ?case using step_inv[OF _ _ assms(2)] banks_free_no_reads by blast
next
  case (reach_writeback oc inst ok inst' d)
  then show ?case using writeback_inv by blast
next
  case (reach_pipeline oc regs)
  then show ?case using oc_inv_cong[of "oc\<lparr>oc_regs := regs\<rparr>" oc] by (simp add: no_reads_def)
qed

subsection \<open>Properties\<close>

text \<open>C7. The wavefront allocator equals a simple rule: every bank that has a request and does not write
  serves its first request, in the order of the banks; the priority that moves on with each call has no
  influence on the result. In particular one collector unit can get several operands in a cycle, although
  the comment at the head of the function excludes it.\<close>

theorem arbiter_serves_every_bank:
  assumes "arb_ok a"
  shows "arbiter_allocate_reads a =
    Some (map (\<lambda>i. hd (ar_queue a ! i)) (filter (serves a) [0..<ar_num_banks a]),
      a\<lparr>ar_queue := map (\<lambda>i. if serves a i then tl (ar_queue a ! i) else ar_queue a ! i) [0..<ar_num_banks a],
        ar_last_cu := (ar_last_cu a + 1) mod ar_num_collectors a\<rparr>)"
  by (rule arbiter_closed_form[OF assms])

definition demo_op :: "nat \<Rightarrow> op_t" where
  "demo_op j = op_none\<lparr>op_valid := True, op_cu := Some 0, op_operand := j\<rparr>"

theorem arbiter_serves_every_bank_witness:
  "\<exists>a. arbiter_allocate_reads \<lparr>ar_num_banks = 3, ar_num_collectors = 2,
      ar_allocated_bank = map (\<lambda>x. \<lparr>al_allocation = x, al_op = op_none\<rparr>) [NO_ALLOC, WRITE_ALLOC, NO_ALLOC],
      ar_queue = [[demo_op 0, demo_op 1], [demo_op 2], [demo_op 3]], ar_allocator_rr_head = [0, 1], ar_last_cu = 1\<rparr> =
    Some ([demo_op 0, demo_op 3], a)"
proof -
  let ?a = "\<lparr>ar_num_banks = 3, ar_num_collectors = 2,
      ar_allocated_bank = map (\<lambda>x. \<lparr>al_allocation = x, al_op = op_none\<rparr>) [NO_ALLOC, WRITE_ALLOC, NO_ALLOC],
      ar_queue = [[demo_op 0, demo_op 1], [demo_op 2], [demo_op 3]], ar_allocator_rr_head = [0, 1], ar_last_cu = 1\<rparr>"
  have "i < 3 \<longleftrightarrow> i = 0 \<or> i = 1 \<or> i = 2" for i :: nat by auto
  then have ok: "arb_ok ?a" by (auto simp: arb_ok_def demo_op_def)
  have "filter (serves ?a) [0..<3] = [0, 2]" by (simp add: upt_rec serves_def al_is_write_def)
  with arbiter_serves_every_bank[OF ok] show ?thesis by simp
qed

text \<open>C6. The register reads of a cycle cannot fail: in every reachable state, after the dispatch of
  the ready units, no assertion of the arbiter or of a bank fails, and no two operands get the same bank. What the reads
  do is exact: the operands at the head of the queues of the banks that do not write are
  collected, no other. And every operand that a unit waits for has a request in a queue.\<close>

theorem operand_reads_sound:
  assumes "oc_reachable env oc" "lanes_ok env" "dispatch_ready_cu env oc = Some e"
  shows "\<exists>f. allocate_reads env e = Some f \<and> reads_done e f \<and>
    (\<forall>c < length (oc_cu e). \<forall>j. bit (cu_not_ready (oc_cu e ! c)) j \<longrightarrow>
      (\<exists>b < oc_num_banks e. \<exists>op \<in> set (ar_queue (oc_arbiter e) ! b). op_cu op = Some c \<and> op_operand op = j))"
proof -
  have inv: "oc_inv oc" "no_reads oc" using reachable_inv[OF assms(1,2)] by simp_all
  have e: "oc_inv e" "no_reads e" using dispatch_ready_cu_inv[OF inv(1) assms(3)] inv(2) by (simp_all add: no_reads_def)
  obtain f where "allocate_reads env e = Some f" "reads_done e f" by (rule allocate_reads_effect[OF e assms(2)])
  then show ?thesis using oc_invD(5)[OF e(1)] by blast
qed

text \<open>C8. Between two write backs the banks serve their requests in the order in which they came: after
  \<open>n\<close> cycles the first \<open>n\<close> requests of every bank are served and the others still stand in their order,
  in front of those that came later. So an operand is read at most as many cycles after the last write back as
  requests of its bank stood in front of it, plus one.\<close>

theorem banks_serve_in_order:
  assumes "oc_reachable env oc0" "lanes_ok env" "opndcoll_step env oc0 = Some oc"
    "run_calls (\<lambda>oc _. opndcoll_step env oc) oc [0..<n] = Some d" "b < oc_num_banks oc"
  shows "\<exists>new. ar_queue (oc_arbiter d) ! b = drop n (ar_queue (oc_arbiter oc) ! b) @ new"
proof -
  have inv: "oc_inv oc" "banks_free oc" using step_inv[OF _ _ assms(2,3)] reachable_inv[OF assms(1,2)] by simp_all
  have "oc_inv d \<and> banks_free d \<and> oc_num_banks d = oc_num_banks oc \<and>
      (\<exists>new. ar_queue (oc_arbiter d) ! b = drop n (ar_queue (oc_arbiter oc) ! b) @ new)"
    using assms(4)
  proof (induction n arbitrary: d)
    case 0
    then show ?case using inv by simp
  next
    case (Suc n)
    obtain e where e: "run_calls (\<lambda>oc _. opndcoll_step env oc) oc [0..<n] = Some e" "opndcoll_step env e = Some d"
      using Suc.prems by (auto simp: run_calls_append split: bind_splits)
    obtain new where i: "oc_inv e" "banks_free e" "oc_num_banks e = oc_num_banks oc"
      "ar_queue (oc_arbiter e) ! b = drop n (ar_queue (oc_arbiter oc) ! b) @ new" using Suc.IH[OF e(1)] by blast
    obtain more where more: "ar_queue (oc_arbiter d) ! b = tl (ar_queue (oc_arbiter e) ! b) @ more"
      using step_queue[OF i(1,2) assms(2) e(2)] i(3) assms(5) by auto
    have "\<exists>rest. tl (drop n xs @ new) = drop (Suc n) xs @ rest" for xs :: "op_t list"
      by (cases "drop n xs") (auto simp: drop_Suc tl_drop[symmetric])
    then obtain rest where "ar_queue (oc_arbiter d) ! b = drop (Suc n) (ar_queue (oc_arbiter oc) ! b) @ rest @ more"
      using more i(4) by (metis append_assoc)
    then show ?case
      using step_inv[OF i(1) banks_free_no_reads[OF i(2)] assms(2) e(2)] i(3) by auto
  qed
  then show ?thesis by blast
qed

text \<open>One unit, two banks, and an instruction that reads register 3.\<close>

definition demo_coll_env :: collector_env where
  "demo_coll_env = \<lparr>oe_warp_size = 32, oe_sub_core_model = False, oe_num_sched_per_core = 1, oe_clock_gated_reg_file = False,
     oe_n_regfile_gating_group = 0, oe_move_warp = (\<lambda>d s. Some (s, warp_inst_init)), oe_num_operands = (\<lambda>_. 1), oe_num_regs = (\<lambda>_. 1)\<rparr>"

definition demo_reader :: warp_inst where
  "demo_reader = warp_inst_init\<lparr>wi_empty := False, wi_arch_reg_src := 3 # replicate 31 (-1)\<rparr>"

definition demo_unit :: collector_unit where
  "demo_unit = cu_init 0 2 False 0 2 cu_new"

definition demo_arb :: "op_t list \<Rightarrow> arbiter" where
  "demo_arb q = \<lparr>ar_num_banks = 2, ar_num_collectors = 1, ar_allocated_bank = replicate 2 \<lparr>al_allocation = NO_ALLOC, al_op = op_none\<rparr>,
     ar_queue = [[], q], ar_allocator_rr_head = [0], ar_last_cu = 0\<rparr>"

definition demo_coll :: "collector_unit \<Rightarrow> warp_inst \<Rightarrow> op_t list \<Rightarrow> operand_collector" where
  "demo_coll cu inst q = \<lparr>oc_initialized = True, oc_num_banks = 2, oc_cu = [cu], oc_arbiter = demo_arb q, oc_num_banks_per_sched = 2,
     oc_num_warp_scheds = 1, oc_sub_core_model = False, oc_in_ports = [\<lparr>ip_in = [0], ip_out = [1], ip_cu_sets = [0]\<rparr>],
     oc_cus = (\<lambda>_. [])(0 := [0]), oc_dispatch_units = [\<lparr>du_num_collectors = 1, du_collector_units = 0, du_last_cu = 0,
       du_sub_core_model = False, du_num_warp_scheds = 1\<rparr>], oc_regs = [[inst], [warp_inst_init]],
     oc_regfile_reads = 0, oc_regfile_writes = 0, oc_non_rf_operands = 0\<rparr>"

definition demo_read :: op_t where
  "demo_read = \<lparr>op_valid = True, op_cu = Some 0, op_warp = None, op_operand = 0, op_register = 3, op_bank = 1, op_sched_id = 0\<rparr>"

definition demo_waiting :: collector_unit where
  "demo_waiting = demo_unit\<lparr>cu_free := False, cu_output := Some 1, cu_warp_id := 0, cu_src_op := demo_read # replicate 63 op_none,
     cu_not_ready := 1, cu_warp := demo_reader\<rparr>"

lemma demo_init: "oc_reachable demo_coll_env (demo_coll demo_unit demo_reader [])"
proof -
  let ?n = "operand_collector_new [[demo_reader], [warp_inst_init]]"
  obtain d where d: "add_cu_set 0 1 1 ?n = Some d" by (simp add: add_cu_set_def operand_collector_new_def Let_def)
  obtain e where e: "add_port [0] [1] [0] d = Some e" by (simp add: add_port_def)
  have "opndcoll_init demo_coll_env 2 e = Some (demo_coll demo_unit demo_reader [])"
    using d e by (auto simp: add_cu_set_def add_port_def operand_collector_new_def Let_def opndcoll_init_def demo_coll_env_def
      arbiter_init_def arbiter_reset_def alloc_reset_def demo_coll_def demo_arb_def demo_unit_def numeral_2_eq_2)
  with d e show ?thesis by (meson built_new built_set built_port reach_init)
qed

lemma demo_dispatch:
  assumes "cu_free cu \<or> cu_not_ready cu \<noteq> 0"
  shows "dispatch_ready_cu demo_coll_env (demo_coll cu inst q) = Some (demo_coll cu inst q)"
  using assms by (auto simp: dispatch_ready_cu_def dispatch_ready_def find_ready_def demo_coll_def cu_ready_def Let_def)

lemma idle_operands:
  assumes "\<And>j. k \<le> j \<Longrightarrow> j < k + m \<Longrightarrow> j < length (wi_arch_reg_src inst) \<and> wi_arch_reg_src inst ! j < 0 \<and>
    j < length (cu_src_op cu) \<and> cu_src_op cu ! j = op_none"
  shows "run_calls (allocate_operand inst) (prev, cu) [k..<k + m] = Some (prev, cu)"
  using assms
proof (induction m)
  case (Suc m)
  have "(cu_src_op cu)[k + m := op_none] = cu_src_op cu" using Suc.prems[of "k + m"] by (metis list_update_id le_add1 lessI add_Suc_right)
  then have "allocate_operand inst (prev, cu) (k + m) = Some (prev, cu)"
    using Suc.prems[of "k + m"] by (simp add: allocate_operand_def)
  with Suc show ?case by (simp add: run_calls_append)
qed simp

lemma skip_requests: "run_calls add_read_request a (replicate n op_none) = Some a"
  by (induction n) (simp_all add: add_read_request_def op_none_def)

lemma demo_operands:
  "run_calls (allocate_operand demo_reader) ([], demo_unit\<lparr>cu_free := False, cu_output := Some 1, cu_warp_id := 0\<rparr>) [0..<MAX_REG_OPERANDS] =
    Some ([3], demo_waiting\<lparr>cu_warp := cu_warp demo_unit\<rparr>)"
proof -
  let ?cu = "demo_unit\<lparr>cu_free := False, cu_output := Some 1, cu_warp_id := 0\<rparr>"
  have src: "wi_arch_reg_src demo_reader = 3 # replicate 31 (-1)" "wi_scheduler_id demo_reader = 0"
    by (simp_all add: demo_reader_def warp_inst_init_def)
  have ops: "cu_src_op demo_unit = op_none # replicate 63 op_none" "cu_num_banks demo_unit = 2" "cu_sub_core_model demo_unit = False"
    "cu_cuid demo_unit = 0" "cu_not_ready demo_unit = 0"
    by (simp_all add: demo_unit_def cu_init_def cu_new_def MAX_REG_OPERANDS_def numeral_eq_Suc)
  have "allocate_operand demo_reader ([], ?cu) 0 = Some ([3], demo_waiting\<lparr>cu_warp := cu_warp demo_unit\<rparr>)"
    by (simp add: allocate_operand_def src ops op_read_def register_bank_def wrap32_def demo_waiting_def demo_read_def set_bit_eq_or)
  moreover have "run_calls (allocate_operand demo_reader) ([3], demo_waiting\<lparr>cu_warp := cu_warp demo_unit\<rparr>) [1..<1 + 31] =
      Some ([3], demo_waiting\<lparr>cu_warp := cu_warp demo_unit\<rparr>)"
    by (rule idle_operands) (auto simp: src demo_waiting_def nth_Cons split: nat.splits)
  moreover have "[0..<MAX_REG_OPERANDS] = 0 # [1..<1 + 31]" by (simp add: MAX_REG_OPERANDS_def upt_conv_Cons)
  ultimately show ?thesis by simp
qed

lemma demo_step:
  "opndcoll_step demo_coll_env (demo_coll demo_unit demo_reader []) = Some (demo_coll demo_waiting warp_inst_init [demo_read])"
proof -
  have free: "cu_free demo_unit" "cu_not_ready demo_unit = 0" "cu_warp demo_unit = warp_inst_init"
    by (simp_all add: demo_unit_def cu_init_def cu_new_def)
  have ar: "arbiter_allocate_reads (demo_arb []) = Some ([], demo_arb [])"
    by (subst arbiter_closed_form) (simp_all add: arb_ok_def demo_arb_def serves_def less_2_cases_iff nth_Cons upt_rec split: nat.splits)
  then have reads: "allocate_reads demo_coll_env (demo_coll demo_unit demo_reader []) = Some (demo_coll demo_unit demo_reader [])"
    by (simp add: allocate_reads_def demo_coll_def collect_read_def demo_arb_def upt_rec)
  have ready: "rs_get_ready_any [demo_reader] = Some 0" "\<not> wi_empty demo_reader" "wi_warp_id demo_reader = 0"
    by (simp_all add: rs_get_ready_any_def demo_reader_def warp_inst_init_def)
  have alloc: "cu_allocate demo_coll_env 1 [demo_reader] demo_unit = Some (True, [warp_inst_init], demo_waiting)"
    using demo_operands free ready
    by (simp add: cu_allocate_def rs_move_out_to_def rs_get_ready_def demo_coll_env_def demo_waiting_def)
  have "run_calls add_read_request (demo_arb []) (demo_read # replicate 63 op_none) = Some (demo_arb [demo_read])"
    using skip_requests by (simp add: add_read_request_def demo_read_def demo_arb_def)
  then have add: "add_read_requests demo_waiting (demo_arb []) = Some (demo_arb [demo_read])"
    by (simp add: add_read_requests_def demo_waiting_def)
  have "allocate_cu demo_coll_env (demo_coll demo_unit demo_reader []) 0 = Some (demo_coll demo_waiting warp_inst_init [demo_read])"
    using alloc add free ready
    by (simp add: allocate_cu_def allocate_input_def demo_coll_def rs_has_ready_any_def cu_range_def)
  moreover have "process_banks (demo_coll demo_waiting warp_inst_init [demo_read]) = demo_coll demo_waiting warp_inst_init [demo_read]"
    by (simp add: process_banks_def demo_coll_def arbiter_reset_def demo_arb_def alloc_reset_def)
  ultimately show ?thesis
    using reads demo_dispatch[of demo_unit demo_reader "[]"] free
    by (simp add: opndcoll_step_def) (simp add: demo_coll_def)
qed

text \<open>The next cycle reads the register.\<close>

lemma demo_reads: "\<exists>f al. allocate_reads demo_coll_env (demo_coll demo_waiting warp_inst_init [demo_read]) = Some f \<and>
  f = (demo_coll (demo_waiting\<lparr>cu_not_ready := 0\<rparr>) warp_inst_init [])\<lparr>oc_regfile_reads := 32, oc_arbiter := (demo_arb [])\<lparr>ar_allocated_bank := al\<rparr>\<rparr>"
proof -
  let ?oc = "demo_coll demo_waiting warp_inst_init [demo_read]"
  let ?al = "(replicate 2 \<lparr>al_allocation = NO_ALLOC, al_op = op_none\<rparr>)[1 := \<lparr>al_allocation = READ_ALLOC, al_op = demo_read\<rparr>]"
  let ?rd = "[1 \<mapsto> demo_read]"
  let ?oc2 = "(demo_coll demo_waiting warp_inst_init [])\<lparr>oc_arbiter := (demo_arb [])\<lparr>ar_allocated_bank := ?al\<rparr>\<rparr>"
  have ok: "arb_ok (demo_arb [demo_read])"
    by (simp add: arb_ok_def demo_arb_def demo_read_def less_2_cases_iff nth_Cons split: nat.splits)
  have "filter (serves (demo_arb [demo_read])) [0..<2] = [1]"
    by (simp add: upt_rec serves_def demo_arb_def al_is_write_def)
  then have ar: "arbiter_allocate_reads (demo_arb [demo_read]) = Some ([demo_read], demo_arb [])"
    using arbiter_closed_form[OF ok] by (simp add: demo_arb_def upt_rec serves_def al_is_write_def)
  have bank: "register_bank 3 0 2 False s t = Some 1" for s t by (simp add: register_bank_def wrap32_def)
  have cu: "cu_warp_id demo_waiting = 0" by (simp add: demo_waiting_def)
  have "grant_read (demo_coll demo_waiting warp_inst_init [], Map.empty) demo_read = Some (?oc2, ?rd)"
    by (simp add: grant_read_def demo_read_def demo_coll_def cu bank allocate_for_read_def demo_arb_def alloc_read_def al_free_def)
  then have grants: "run_calls grant_read (?oc\<lparr>oc_arbiter := demo_arb []\<rparr>, Map.empty) [demo_read] = Some (?oc2, ?rd)"
    by (simp add: demo_coll_def)
  have "unset_bit 0 (1 :: u64) = 0" by (rule bit_eqI) (auto simp: bit_simps)
  then have collect: "collect_read demo_coll_env ?rd ?oc2 1 = Some (?oc2\<lparr>oc_cu := [demo_waiting\<lparr>cu_not_ready := 0\<rparr>], oc_regfile_reads := 32\<rparr>)"
    by (simp add: collect_read_def demo_read_def demo_coll_def cu_collect_operand_def demo_waiting_def access_lanes_def
      demo_coll_env_def MAX_REG_OPERANDS_def wrap32_def)
  have none: "collect_read demo_coll_env ?rd ?oc2 0 = Some ?oc2" by (simp add: collect_read_def)
  have nb: "[0..<ar_num_banks (demo_arb [])] = [0, 1]" by (simp add: demo_arb_def upt_rec)
  have arb: "oc_arbiter ?oc = demo_arb [demo_read]" by (simp add: demo_coll_def)
  have "allocate_reads demo_coll_env ?oc = Some (?oc2\<lparr>oc_cu := [demo_waiting\<lparr>cu_not_ready := 0\<rparr>], oc_regfile_reads := 32\<rparr>)"
    unfolding allocate_reads_def arb ar bind.bind_lunit prod.case grants nb by (simp only: run_calls.simps none collect bind.bind_lunit)
  moreover have "?oc2\<lparr>oc_cu := [demo_waiting\<lparr>cu_not_ready := 0\<rparr>], oc_regfile_reads := 32\<rparr> =
     (demo_coll (demo_waiting\<lparr>cu_not_ready := 0\<rparr>) warp_inst_init [])\<lparr>oc_regfile_reads := 32, oc_arbiter := (demo_arb [])\<lparr>ar_allocated_bank := ?al\<rparr>\<rparr>"
    by (simp add: demo_coll_def)
  ultimately show ?thesis by metis
qed

lemma demo_reachable: "oc_reachable demo_coll_env (demo_coll demo_waiting warp_inst_init [demo_read])"
  by (rule reach_step[OF demo_init demo_step])

lemma demo_pending: "\<not> cu_free demo_waiting" "cu_not_ready demo_waiting = 1"
  by (simp_all add: demo_waiting_def)

theorem operand_reads_sound_witness:
  "\<exists>oc f. dispatch_ready_cu demo_coll_env oc = Some oc \<and> bit (cu_not_ready (oc_cu oc ! 0)) 0 \<and>
    allocate_reads demo_coll_env oc = Some f \<and> reads_done oc f \<and> \<not> bit (cu_not_ready (oc_cu f ! 0)) 0"
proof -
  let ?oc = "demo_coll demo_waiting warp_inst_init [demo_read]"
  have d: "dispatch_ready_cu demo_coll_env ?oc = Some ?oc" by (rule demo_dispatch) (simp add: demo_pending)
  have lanes: "lanes_ok demo_coll_env" by (simp add: lanes_ok_def demo_coll_env_def)
  obtain f al where f: "allocate_reads demo_coll_env ?oc = Some f"
    "f = (demo_coll (demo_waiting\<lparr>cu_not_ready := 0\<rparr>) warp_inst_init [])\<lparr>oc_regfile_reads := 32, oc_arbiter := (demo_arb [])\<lparr>ar_allocated_bank := al\<rparr>\<rparr>"
    using demo_reads by blast
  have "reads_done ?oc f" using operand_reads_sound[OF demo_reachable lanes d] f(1) by auto
  moreover have "bit (cu_not_ready (oc_cu ?oc ! 0)) 0" by (simp add: demo_coll_def demo_pending)
  moreover have "\<not> bit (cu_not_ready (oc_cu f ! 0)) 0" using f(2) by (simp add: demo_coll_def)
  ultimately show ?thesis using d f(1) by blast
qed

theorem banks_serve_in_order_witness:
  "\<exists>oc d new. ar_queue (oc_arbiter oc) ! 1 = [demo_read] \<and> opndcoll_step demo_coll_env oc = Some d \<and>
    ar_queue (oc_arbiter d) ! 1 = drop 1 [demo_read] @ new"
proof -
  let ?oc = "demo_coll demo_waiting warp_inst_init [demo_read]"
  have lanes: "lanes_ok demo_coll_env" by (simp add: lanes_ok_def demo_coll_env_def)
  have dispatch: "dispatch_ready_cu demo_coll_env ?oc = Some ?oc" by (rule demo_dispatch) (simp add: demo_pending)
  obtain f al where f: "allocate_reads demo_coll_env ?oc = Some f"
    "f = (demo_coll (demo_waiting\<lparr>cu_not_ready := 0\<rparr>) warp_inst_init [])\<lparr>oc_regfile_reads := 32, oc_arbiter := (demo_arb [])\<lparr>ar_allocated_bank := al\<rparr>\<rparr>"
    using demo_reads by blast
  have "\<not> rs_has_ready_any [warp_inst_init]" by (simp add: rs_has_ready_any_def warp_inst_init_def)
  then have "allocate_cu demo_coll_env f 0 = Some f"
    unfolding f(2) by (simp add: allocate_cu_def allocate_input_def demo_coll_def)
  moreover have "[0..<length (oc_in_ports f)] = [0]" unfolding f(2) by (simp add: demo_coll_def)
  ultimately have step: "opndcoll_step demo_coll_env ?oc = Some (process_banks f)"
    by (simp add: opndcoll_step_def dispatch f(1))
  then have run: "run_calls (\<lambda>oc _. opndcoll_step demo_coll_env oc) ?oc [0..<1] = Some (process_banks f)" by simp
  have "1 < oc_num_banks ?oc" by (simp add: demo_coll_def)
  from banks_serve_in_order[OF demo_init lanes demo_step run this]
  have "\<exists>new. ar_queue (oc_arbiter (process_banks f)) ! 1 = drop 1 (ar_queue (oc_arbiter ?oc) ! 1) @ new" .
  moreover have "ar_queue (oc_arbiter ?oc) ! 1 = [demo_read]" by (simp add: demo_coll_def demo_arb_def)
  ultimately show ?thesis using step by metis
qed

end
