(* ===== verification/Exec_Units.thy ===== *)
theory Exec_Units
  imports Shd_Warp Opnd_Collector
begin

section \<open>Execution units, result buses and write back\<close>

text \<open>
  The part of \<open>shader_core_ctx\<close> between the operand collector and the write back: the pipelined units
  of \<open>gpgpu-sim/shader.h\<close> and \<open>shader.cc\<close>, the buses whose bits reserve the cycles in which results arrive,
  \<open>execute\<close> and \<open>writeback\<close>. The pipeline registers of the core are those the operand collector
  works on. The load-store unit, last in the list of units, is an argument; counters for the power model,
  the duty cycle (a floating-point number) and the PTX statistics of a completed instruction are left out.
\<close>

subsection \<open>Bit sets of 512 cycles\<close>

type_synonym latency_bits = "512 word"

definition MAX_ALU_LATENCY :: nat where "MAX_ALU_LATENCY = 512"

definition bits_test :: "latency_bits \<Rightarrow> nat \<Rightarrow> bool option" where
  "bits_test b n = do { assert_that (n < MAX_ALU_LATENCY); Some (bit b n) }"

definition bits_set :: "latency_bits \<Rightarrow> nat \<Rightarrow> latency_bits option" where
  "bits_set b n = do { assert_that (n < MAX_ALU_LATENCY); Some (set_bit n b) }"

subsection \<open>Pipelined units\<close>

datatype unit_kind = SP_UNIT | DP_UNIT | INT_UNIT | SFU | TENSOR_CORE | SPECIALIZED_UNIT int

record simd_unit =
  fu_kind :: unit_kind
  fu_dispatch_reg :: warp_inst
  fu_occupied :: latency_bits
  fu_pipeline_reg :: "warp_inst list"
  fu_issue_reg_id :: nat
  fu_active_insts :: nat

definition simd_unit_new :: "unit_kind \<Rightarrow> nat \<Rightarrow> nat \<Rightarrow> simd_unit" where
  "simd_unit_new kind max_latency issue_reg_id = \<lparr>fu_kind = kind, fu_dispatch_reg = warp_inst_init, fu_occupied = 0,
     fu_pipeline_reg = replicate max_latency warp_inst_init, fu_issue_reg_id = issue_reg_id, fu_active_insts = 0\<rparr>"

fun unit_takes :: "unit_kind \<Rightarrow> uarch_op_t \<Rightarrow> bool" where
  "unit_takes SFU p \<longleftrightarrow> p \<in> {SFU_OP, ALU_SFU_OP, DP_OP}"
| "unit_takes DP_UNIT p \<longleftrightarrow> p = DP_OP"
| "unit_takes TENSOR_CORE p \<longleftrightarrow> p = TENSOR_CORE_OP"
| "unit_takes INT_UNIT p \<longleftrightarrow> p \<notin> {SFU_OP, LOAD_OP, TENSOR_CORE_LOAD_OP, STORE_OP, TENSOR_CORE_STORE_OP,
     MEMORY_BARRIER_OP, SP_OP, DP_OP}"
| "unit_takes SP_UNIT p \<longleftrightarrow> p \<notin> {SFU_OP, LOAD_OP, TENSOR_CORE_LOAD_OP, STORE_OP, TENSOR_CORE_STORE_OP,
     MEMORY_BARRIER_OP, DP_OP}"
| "unit_takes (SPECIALIZED_UNIT supported_op) p \<longleftrightarrow> op_code p = supported_op"

definition simd_can_issue :: "simd_unit \<Rightarrow> warp_inst \<Rightarrow> bool option" where
  "simd_can_issue u inst =
     (if wi_empty (fu_dispatch_reg u) then do { b \<leftarrow> bits_test (fu_occupied u) (wi_latency inst); Some (\<not> b) } else Some False)"

definition unit_can_issue :: "simd_unit \<Rightarrow> warp_inst \<Rightarrow> bool option" where
  "unit_can_issue u inst = (if unit_takes (fu_kind u) (wi_op inst) then simd_can_issue u inst else Some False)"

fun pipe_of :: "unit_kind \<Rightarrow> operation_pipeline" where
  "pipe_of SP_UNIT = SP__OP"
| "pipe_of DP_UNIT = DP__OP"
| "pipe_of INT_UNIT = INTP__OP"
| "pipe_of SFU = SFU__OP"
| "pipe_of TENSOR_CORE = TENSOR_CORE__OP"
| "pipe_of (SPECIALIZED_UNIT _) = SPECIALIZED__OP"

type_synonym move_warp = "warp_inst \<Rightarrow> warp_inst \<Rightarrow> (warp_inst \<times> warp_inst) option"

definition simd_issue :: "move_warp \<Rightarrow> bool \<Rightarrow> simd_unit \<Rightarrow> register_set \<Rightarrow> (simd_unit \<times> register_set) option" where
  "simd_issue mv partition_issue u source_reg = do {
     (d, source_reg) \<leftarrow> rs_move_out_to mv partition_issue (fu_issue_reg_id u) (fu_dispatch_reg u) source_reg;
     occupied \<leftarrow> bits_set (fu_occupied u) (wi_latency d);
     Some (u\<lparr>fu_dispatch_reg := d, fu_occupied := occupied\<rparr>, source_reg)
   }"

definition unit_issue :: "move_warp \<Rightarrow> bool \<Rightarrow> simd_unit \<Rightarrow> register_set \<Rightarrow> (simd_unit \<times> register_set) option" where
  "unit_issue mv sub_core_model u source_reg = do {
     ready_reg \<leftarrow> rs_get_ready sub_core_model (fu_issue_reg_id u) source_reg;
     j \<leftarrow> ready_reg;
     let source_reg = source_reg[j := (source_reg ! j)\<lparr>wi_op_pipe := pipe_of (fu_kind u)\<rparr>];
     simd_issue mv sub_core_model u source_reg
   }"

text \<open>One cycle: the last stage goes to the result port, the stages move on, and the dispatched instruction
  enters when its initiation interval has passed.\<close>

definition unit_result :: "move_warp \<Rightarrow> simd_unit \<times> register_set \<Rightarrow> (simd_unit \<times> register_set) option" where
  "unit_result mv = (\<lambda>(u, port). do {
     r \<leftarrow> vec_at (fu_pipeline_reg u) 0;
     (if \<not> wi_empty r then do {
        (r, port) \<leftarrow> rs_move_in mv False 0 r port;
        assert_that (fu_active_insts u > 0);
        Some (u\<lparr>fu_pipeline_reg := (fu_pipeline_reg u)[0 := r], fu_active_insts := fu_active_insts u - 1\<rparr>, port)
      } else Some (u, port))
   })"

definition move_stage :: "move_warp \<Rightarrow> warp_inst list \<Rightarrow> nat \<Rightarrow> warp_inst list option" where
  "move_stage mv regs stage = do {
     (d, s) \<leftarrow> mv (regs ! stage) (regs ! (stage + 1));
     Some (regs[stage := d, stage + 1 := s])
   }"

definition unit_advance :: "move_warp \<Rightarrow> simd_unit \<Rightarrow> simd_unit option" where
  "unit_advance mv u =
     (if fu_active_insts u \<noteq> 0 then do {
        regs \<leftarrow> run_calls (move_stage mv) (fu_pipeline_reg u) [0..<length (fu_pipeline_reg u) - 1];
        Some (u\<lparr>fu_pipeline_reg := regs\<rparr>)
      } else Some u)"

definition unit_enter :: "move_warp \<Rightarrow> simd_unit \<Rightarrow> simd_unit option" where
  "unit_enter mv u =
     (if \<not> wi_empty (fu_dispatch_reg u) then do {
        let (delay, d) = dispatch_delay (fu_dispatch_reg u);
        let u = u\<lparr>fu_dispatch_reg := d\<rparr>;
        (if \<not> delay then do {
           assert_that (wi_initiation_interval d \<le> wi_latency d);
           let start_stage = wi_latency d - wi_initiation_interval d;
           r \<leftarrow> vec_at (fu_pipeline_reg u) start_stage;
           (if wi_empty r then do {
              (r, d) \<leftarrow> mv r d;
              Some (u\<lparr>fu_pipeline_reg := (fu_pipeline_reg u)[start_stage := r], fu_dispatch_reg := d,
                fu_active_insts := fu_active_insts u + 1\<rparr>)
            } else Some u)
         } else Some u)
      } else Some u)"

definition unit_cycle :: "move_warp \<Rightarrow> simd_unit \<times> register_set \<Rightarrow> (simd_unit \<times> register_set) option" where
  "unit_cycle mv = (\<lambda>(u, port). do {
     (u, port) \<leftarrow> unit_result mv (u, port);
     u \<leftarrow> unit_advance mv u;
     u \<leftarrow> unit_enter mv u;
     Some (u\<lparr>fu_occupied := drop_bit 1 (fu_occupied u)\<rparr>, port)
   })"

definition get_active_lanes_in_pipeline :: "bool \<Rightarrow> simd_unit \<Rightarrow> nat" where
  "get_active_lanes_in_pipeline power_simulation u = mask_count
     (if power_simulation
      then fold (\<lambda>r m. if wi_empty r then m else m OR wi_active_mask r) (take (length (fu_pipeline_reg u) - 1) (fu_pipeline_reg u)) 0
      else 0)"

subsection \<open>The back end of a core\<close>

definition ID_OC_SP :: nat where "ID_OC_SP = 0"
definition ID_OC_DP :: nat where "ID_OC_DP = 1"
definition ID_OC_INT :: nat where "ID_OC_INT = 2"
definition ID_OC_SFU :: nat where "ID_OC_SFU = 3"
definition ID_OC_MEM :: nat where "ID_OC_MEM = 4"
definition OC_EX_SP :: nat where "OC_EX_SP = 5"
definition OC_EX_DP :: nat where "OC_EX_DP = 6"
definition OC_EX_INT :: nat where "OC_EX_INT = 7"
definition OC_EX_SFU :: nat where "OC_EX_SFU = 8"
definition OC_EX_MEM :: nat where "OC_EX_MEM = 9"
definition EX_WB :: nat where "EX_WB = 10"
definition ID_OC_TENSOR_CORE :: nat where "ID_OC_TENSOR_CORE = 11"
definition OC_EX_TENSOR_CORE :: nat where "OC_EX_TENSOR_CORE = 12"
definition N_PIPELINE_STAGES :: nat where "N_PIPELINE_STAGES = 13"

datatype func_unit = Simd_unit simd_unit | Ldst_unit

record ('b, 'l) exec_core =
  xc_sid :: nat
  xc_collector :: operand_collector
  xc_warp :: "shd_warp list"
  xc_scoreboard :: 'b
  xc_ldst :: 'l
  xc_fu :: "func_unit list"
  xc_issue_port :: "nat list"
  xc_result_bus :: "latency_bits list"
  xc_gpu_sim_cycle :: nat
  xc_gpu_tot_sim_cycle :: nat
  xc_num_sp_committed :: nat
  xc_num_sfu_committed :: nat
  xc_num_mem_committed :: nat
  xc_num_sim_insn :: nat
  xc_num_sim_winsn :: nat
  xc_last_num_sim_insn :: nat
  xc_last_num_sim_winsn :: nat
  xc_gpu_sim_insn :: nat
  xc_last_update_sid :: nat
  xc_last_update :: nat
  xc_last_inst_cycle :: nat
  xc_last_inst_tot_cycle :: nat

text \<open>The environment: configuration, scoreboard, and the load-store unit.\<close>

record ('b, 'l) exec_env =
  xe_collector :: collector_env
  xe_clock_gated_lanes :: bool
  xe_power_simulation :: bool
  xe_release_registers :: "warp_inst \<Rightarrow> 'b \<Rightarrow> 'b"
  xe_ldst_multiplier :: nat
  xe_ldst_cycle :: "('b, 'l) exec_core \<Rightarrow> ('b, 'l) exec_core option"
  xe_ldst_can_issue :: "('b, 'l) exec_core \<Rightarrow> warp_inst \<Rightarrow> bool"
  xe_ldst_issue :: "register_set \<Rightarrow> ('b, 'l) exec_core \<Rightarrow> (register_set \<times> ('b, 'l) exec_core) option"

definition pipeline_reg :: "('b, 'l) exec_core \<Rightarrow> register_set list" where
  "pipeline_reg s = oc_regs (xc_collector s)"

definition set_pipeline_reg :: "nat \<Rightarrow> register_set \<Rightarrow> ('b, 'l) exec_core \<Rightarrow> ('b, 'l) exec_core" where
  "set_pipeline_reg p regs s = s\<lparr>xc_collector := (xc_collector s)\<lparr>oc_regs := (pipeline_reg s)[p := regs]\<rparr>\<rparr>"

definition test_res_bus :: "nat \<Rightarrow> latency_bits list \<Rightarrow> nat option option" where
  "test_res_bus latency buses =
     (if buses = [] then Some None else do {
        assert_that (latency < MAX_ALU_LATENCY);
        Some (first_index (\<lambda>b. \<not> bit b latency) 0 buses)
      })"

text \<open>The second half of the loop body: an instruction is issued to the unit if a result bus is free in the
  cycle in which it will arrive.\<close>

definition issue_to_unit :: "('b, 'l) exec_env \<Rightarrow> nat \<Rightarrow> simd_unit \<Rightarrow> ('b, 'l) exec_core \<Rightarrow> ('b, 'l) exec_core option" where
  "issue_to_unit env n u s = do {
     let sub = oe_sub_core_model (xe_collector env);
     issue_port \<leftarrow> vec_at (xc_issue_port s) n;
     issue_inst \<leftarrow> vec_at (pipeline_reg s) issue_port;
     ready_reg \<leftarrow> rs_get_ready sub (fu_issue_reg_id u) issue_inst;
     has_ready \<leftarrow> rs_has_ready sub (fu_issue_reg_id u) issue_inst;
     (if has_ready then do {
        j \<leftarrow> ready_reg;
        can \<leftarrow> unit_can_issue u (issue_inst ! j);
        (if can then do {
           resbus \<leftarrow> test_res_bus (wi_latency (issue_inst ! j)) (xc_result_bus s);
           (case resbus of
              None \<Rightarrow> Some s
            | Some b \<Rightarrow> do {
                bus \<leftarrow> bits_set (xc_result_bus s ! b) (wi_latency (issue_inst ! j));
                (u, issue_inst) \<leftarrow> unit_issue (oe_move_warp (xe_collector env)) sub u issue_inst;
                Some (set_pipeline_reg issue_port issue_inst
                  (s\<lparr>xc_result_bus := (xc_result_bus s)[b := bus], xc_fu := (xc_fu s)[n := Simd_unit u]\<rparr>))
              })
         } else Some s)
      } else Some s)
   }"

definition simd_execute :: "('b, 'l) exec_env \<Rightarrow> nat \<Rightarrow> simd_unit \<Rightarrow> ('b, 'l) exec_core \<Rightarrow> ('b, 'l) exec_core option" where
  "simd_execute env n u s = do {
     wb \<leftarrow> vec_at (pipeline_reg s) EX_WB;
     (u, wb) \<leftarrow> unit_cycle (oe_move_warp (xe_collector env)) (u, wb);
     let s = set_pipeline_reg EX_WB wb (s\<lparr>xc_fu := (xc_fu s)[n := Simd_unit u]\<rparr>);
     assert_that (get_active_lanes_in_pipeline (xe_power_simulation env) u \<le> oe_warp_size (xe_collector env));
     issue_to_unit env n u s
   }"

definition ldst_execute :: "('b, 'l) exec_env \<Rightarrow> nat \<Rightarrow> ('b, 'l) exec_core \<Rightarrow> ('b, 'l) exec_core option" where
  "ldst_execute env n s = do {
     s \<leftarrow> run_calls (\<lambda>s _. xe_ldst_cycle env s) s [0..<xe_ldst_multiplier env];
     issue_port \<leftarrow> vec_at (xc_issue_port s) n;
     issue_inst \<leftarrow> vec_at (pipeline_reg s) issue_port;
     (if rs_has_ready_any issue_inst then do {
        j \<leftarrow> rs_get_ready_any issue_inst;
        (if xe_ldst_can_issue env s (issue_inst ! j) then do {
           (issue_inst, s) \<leftarrow> xe_ldst_issue env issue_inst s;
           Some (set_pipeline_reg issue_port issue_inst s)
         } else Some s)
      } else Some s)
   }"

definition execute_unit :: "('b, 'l) exec_env \<Rightarrow> ('b, 'l) exec_core \<Rightarrow> nat \<Rightarrow> ('b, 'l) exec_core option" where
  "execute_unit env s n = do {
     fu \<leftarrow> vec_at (xc_fu s) n;
     (case fu of Simd_unit u \<Rightarrow> simd_execute env n u s | Ldst_unit \<Rightarrow> ldst_execute env n s)
   }"

definition core_execute :: "('b, 'l) exec_env \<Rightarrow> ('b, 'l) exec_core \<Rightarrow> ('b, 'l) exec_core option" where
  "core_execute env s = run_calls (execute_unit env)
     (s\<lparr>xc_result_bus := map (drop_bit 1) (xc_result_bus s)\<rparr>) [0..<length (xc_fu s)]"

subsection \<open>Write back\<close>

definition warp_inst_complete :: "('b, 'l) exec_env \<Rightarrow> warp_inst \<Rightarrow> ('b, 'l) exec_core \<Rightarrow> ('b, 'l) exec_core" where
  "warp_inst_complete env inst s = (let
     s = (case wi_op_pipe inst of
            SP__OP \<Rightarrow> s\<lparr>xc_num_sp_committed := wrap32 (xc_num_sp_committed s + 1)\<rparr>
          | SFU__OP \<Rightarrow> s\<lparr>xc_num_sfu_committed := wrap32 (xc_num_sfu_committed s + 1)\<rparr>
          | MEM__OP \<Rightarrow> s\<lparr>xc_num_mem_committed := wrap32 (xc_num_mem_committed s + 1)\<rparr>
          | _ \<Rightarrow> s);
     lanes = (if \<not> xe_clock_gated_lanes env then oe_warp_size (xe_collector env) else mask_count (wi_active_mask inst))
   in s\<lparr>xc_num_sim_insn := wrap32 (xc_num_sim_insn s + lanes), xc_num_sim_winsn := wrap32 (xc_num_sim_winsn s + 1),
     xc_gpu_sim_insn := (xc_gpu_sim_insn s + mask_count (wi_active_mask inst)) mod 2 ^ 64\<rparr>)"

definition writeback_inst :: "('b, 'l) exec_env \<Rightarrow> nat \<Rightarrow> ('b, 'l) exec_core \<Rightarrow> ('b, 'l) exec_core option" where
  "writeback_inst env j s = do {
     wb \<leftarrow> vec_at (pipeline_reg s) EX_WB;
     (_, inst, oc) \<leftarrow> opndcoll_writeback (xe_collector env) (wb ! j, xc_collector s);
     let s = s\<lparr>xc_collector := oc\<rparr>;
     let warp_id = wi_warp_id inst;
     let s = s\<lparr>xc_scoreboard := xe_release_registers env inst (xc_scoreboard s)\<rparr>;
     w \<leftarrow> vec_at (xc_warp s) warp_id;
     w \<leftarrow> sw_dec_inst_in_pipeline w;
     let s = warp_inst_complete env inst (s\<lparr>xc_warp := (xc_warp s)[warp_id := w]\<rparr>);
     Some (set_pipeline_reg EX_WB (wb[j := inst_clear inst])
       (s\<lparr>xc_last_update_sid := xc_sid s, xc_last_update := xc_gpu_sim_cycle s, xc_last_inst_cycle := xc_gpu_sim_cycle s,
         xc_last_inst_tot_cycle := xc_gpu_tot_sim_cycle s\<rparr>))
   }"

text \<open>The loop ends: each round empties a register of the set. The fuel is the number of its registers.\<close>

primrec writeback_loop :: "nat \<Rightarrow> ('b, 'l) exec_env \<Rightarrow> ('b, 'l) exec_core \<Rightarrow> ('b, 'l) exec_core option" where
  "writeback_loop 0 env s = (case rs_get_ready_any (pipeline_reg s ! EX_WB) of None \<Rightarrow> Some s | Some _ \<Rightarrow> None)"
| "writeback_loop (Suc n) env s =
     (case rs_get_ready_any (pipeline_reg s ! EX_WB) of
        None \<Rightarrow> Some s
      | Some j \<Rightarrow> do { s \<leftarrow> writeback_inst env j s; writeback_loop n env s })"

definition core_writeback :: "('b, 'l) exec_env \<Rightarrow> ('b, 'l) exec_core \<Rightarrow> ('b, 'l) exec_core option" where
  "core_writeback env s = do {
     let s = s\<lparr>xc_last_num_sim_insn := xc_num_sim_insn s, xc_last_num_sim_winsn := xc_num_sim_winsn s\<rparr>;
     wb \<leftarrow> vec_at (pipeline_reg s) EX_WB;
     writeback_loop (length wb) env s
   }"

end
