(* ===== verification/Exec_Props.thy ===== *)
theory Exec_Props
  imports Exec_Units
begin

section \<open>Properties of the execution units\<close>

text \<open>
  A pipelined unit is a delay line: an abstract state says which instruction arrives at the result
  port after how many cycles, and a cycle shifts it. The bits of the unit and of the result buses are
  views of this state, which is why the registers before the write back never overflow.
\<close>

subsection \<open>The abstract state of a unit\<close>

text \<open>\<open>move_warp\<close>, whose definition is outside the overlay, exchanges an empty register with another one.\<close>

definition swap_regs :: "move_warp \<Rightarrow> bool" where
  "swap_regs mv \<longleftrightarrow> (\<forall>d s. wi_empty d \<longrightarrow> (\<exists>e. mv d s = Some (s, e) \<and> wi_empty e))"

lemma swap_regsD:
  assumes "swap_regs mv" "wi_empty d"
  obtains e where "mv d s = Some (s, e)" "wi_empty e"
  using assms unfolding swap_regs_def by blast

definition in_use :: "warp_inst list \<Rightarrow> nat" where
  "in_use regs = length (filter (\<lambda>r. \<not> wi_empty r) regs)"

definition stage_inst :: "warp_inst list \<Rightarrow> nat \<Rightarrow> warp_inst option" where
  "stage_inst regs k = (if k < length regs \<and> \<not> wi_empty (regs ! k) then Some (regs ! k) else None)"

text \<open>The number of cycles after which a dispatched instruction is in the last stage.\<close>

definition due :: "warp_inst \<Rightarrow> nat" where
  "due i = wi_latency i - wi_initiation_interval i + wi_cycles i"

definition no_delay :: "warp_inst \<Rightarrow> warp_inst" where
  "no_delay i = i\<lparr>wi_cycles := 0\<rparr>"

definition arrivals :: "simd_unit \<Rightarrow> nat \<Rightarrow> warp_inst option" where
  "arrivals u k =
     (case stage_inst (fu_pipeline_reg u) k of
        Some i \<Rightarrow> Some (no_delay i)
      | None \<Rightarrow> if \<not> wi_empty (fu_dispatch_reg u) \<and> k = due (fu_dispatch_reg u)
          then Some (no_delay (fu_dispatch_reg u)) else None)"

definition fits_depth :: "nat \<Rightarrow> warp_inst \<Rightarrow> bool" where
  "fits_depth depth i \<longleftrightarrow> wi_initiation_interval i \<le> wi_latency i \<and> wi_latency i < MAX_ALU_LATENCY \<and>
     wi_latency i - wi_initiation_interval i < depth"

definition unit_inv :: "simd_unit \<Rightarrow> bool" where
  "unit_inv u \<longleftrightarrow> fu_pipeline_reg u \<noteq> [] \<and> fu_active_insts u = in_use (fu_pipeline_reg u) \<and>
     (\<forall>k. bit (fu_occupied u) k \<longleftrightarrow> arrivals u k \<noteq> None) \<and>
     (\<not> wi_empty (fu_dispatch_reg u) \<longrightarrow> fits_depth (length (fu_pipeline_reg u)) (fu_dispatch_reg u) \<and>
        0 < wi_cycles (fu_dispatch_reg u) \<and> stage_inst (fu_pipeline_reg u) (due (fu_dispatch_reg u)) = None)"

lemma new_unit_inv: "0 < depth \<Longrightarrow> unit_inv (simd_unit_new kind depth reg)"
  by (simp add: unit_inv_def simd_unit_new_def in_use_def arrivals_def stage_inst_def warp_inst_init_def)

subsection \<open>A cycle of a unit\<close>

lemma in_use_Nil [simp]: "in_use [] = 0" and
  in_use_Cons [simp]: "in_use (r # regs) = (if wi_empty r then 0 else 1) + in_use regs"
  by (simp_all add: in_use_def)

lemma in_use_append [simp]: "in_use (xs @ ys) = in_use xs + in_use ys"
  by (simp add: in_use_def)

lemma in_use_update:
  "k < length regs \<Longrightarrow>
   in_use (regs[k := r]) + (if wi_empty (regs ! k) then 0 else 1) = in_use regs + (if wi_empty r then 0 else 1)"
proof (induction regs arbitrary: k)
  case (Cons x regs)
  then show ?case
  proof (cases k)
    case (Suc j)
    then show ?thesis using Cons.IH[of j] Cons.prems by simp
  qed simp
qed simp

lemma in_use_0: "in_use regs = 0 \<longleftrightarrow> (\<forall>k. stage_inst regs k = None)"
  by (auto simp: in_use_def filter_empty_conv stage_inst_def all_set_conv_all_nth split: if_splits)

lemma advance_stages:
  assumes "swap_regs mv" "regs \<noteq> []" "wi_empty (hd regs)" "m < length regs"
  shows "\<exists>e. wi_empty e \<and> run_calls (move_stage mv) regs [0..<m] = Some (take m (tl regs) @ e # drop (Suc m) regs)"
  using assms(4)
proof (induction m)
  case 0
  then show ?case using assms(2,3) by (intro exI[of _ "hd regs"]) (simp add: drop_Suc)
next
  case (Suc m)
  then obtain e where e: "wi_empty e" "run_calls (move_stage mv) regs [0..<m] = Some (take m (tl regs) @ e # drop (Suc m) regs)"
    by auto
  let ?r = "take m (tl regs) @ e # drop (Suc m) regs"
  have len: "length (take m (tl regs)) = m" "m < length (tl regs)" "Suc m < length regs" using Suc.prems by simp_all
  have split: "drop (Suc m) regs = regs ! Suc m # drop (Suc (Suc m)) regs" using len(3) by (simp add: Cons_nth_drop_Suc)
  have at: "?r ! m = e" "?r ! Suc m = regs ! Suc m" using len unfolding split by (simp_all add: nth_append)
  obtain f where f: "mv e (regs ! Suc m) = Some (regs ! Suc m, f)" "wi_empty f" by (rule swap_regsD[OF assms(1) e(1)])
  have "take (Suc m) (tl regs) = take m (tl regs) @ [regs ! Suc m]"
    using len(2) by (simp add: take_Suc_conv_app_nth nth_tl)
  moreover have "?r[m := regs ! Suc m, Suc m := f] = take m (tl regs) @ regs ! Suc m # f # drop (Suc (Suc m)) regs"
    using len unfolding split by (simp add: list_update_append)
  ultimately have "move_stage mv ?r m = Some (take (Suc m) (tl regs) @ f # drop (Suc (Suc m)) regs)"
    using at f(1) by (simp add: move_stage_def)
  with e(2) f(2) show ?case by (auto simp: run_calls_append)
qed

lemma stage_inst_advance:
  assumes "regs \<noteq> []" "wi_empty e"
  shows "stage_inst (tl regs @ [e]) k = stage_inst regs (Suc k)"
  using assms by (cases regs) (auto simp: stage_inst_def nth_append less_Suc_eq)

lemma in_use_advance:
  assumes "regs \<noteq> []" "wi_empty (hd regs)" "wi_empty e"
  shows "in_use (tl regs @ [e]) = in_use regs"
  using assms by (cases regs) (auto simp: in_use_def)

lemma unit_advance_effect:
  assumes "swap_regs mv" "fu_pipeline_reg u \<noteq> []" "wi_empty (hd (fu_pipeline_reg u))" "fu_active_insts u = in_use (fu_pipeline_reg u)"
  obtains regs where "unit_advance mv u = Some (u\<lparr>fu_pipeline_reg := regs\<rparr>)" "length regs = length (fu_pipeline_reg u)"
    "in_use regs = in_use (fu_pipeline_reg u)" "\<And>k. stage_inst regs k = stage_inst (fu_pipeline_reg u) (Suc k)"
proof (cases "fu_active_insts u = 0")
  case True
  then have "stage_inst (fu_pipeline_reg u) k = None" for k using assms(4) by (simp add: in_use_0)
  with True show thesis by (intro that[of "fu_pipeline_reg u"]) (simp_all add: unit_advance_def)
next
  case False
  let ?r = "fu_pipeline_reg u"
  obtain e where e: "wi_empty e" "run_calls (move_stage mv) ?r [0..<length ?r - 1] = Some (take (length ?r - 1) (tl ?r) @ e # drop (length ?r) ?r)"
    using advance_stages[OF assms(1-3), of "length ?r - 1"] assms(2) by auto
  have "take (length ?r - 1) (tl ?r) @ e # drop (length ?r) ?r = tl ?r @ [e]" by simp
  with e False show thesis
    by (intro that[of "tl ?r @ [e]"])
      (use assms in \<open>simp_all add: unit_advance_def stage_inst_advance in_use_advance del: in_use_append\<close>)
qed

lemma rs_get_free_first:
  assumes "rs_has_free_any port"
  obtains j where "rs_get_free False 0 port = Some j" "j < length port" "wi_empty (port ! j)"
  using rs_get_free_spec[of False 0 port] assms by (auto simp: rs_has_free_def)

text \<open>Delivery of an instruction to the result port.\<close>

definition delivered :: "warp_inst option \<Rightarrow> register_set \<Rightarrow> register_set \<Rightarrow> bool" where
  "delivered r port port' \<longleftrightarrow>
     (case r of
        None \<Rightarrow> port' = port
      | Some i \<Rightarrow> \<exists>j < length port. wi_empty (port ! j) \<and> \<not> wi_empty (port' ! j) \<and> no_delay (port' ! j) = i \<and>
          port' = port[j := port' ! j])"

lemma unit_result_effect:
  assumes "swap_regs mv" "fu_pipeline_reg u \<noteq> []" "fu_active_insts u = in_use (fu_pipeline_reg u)"
    "stage_inst (fu_pipeline_reg u) 0 \<noteq> None \<Longrightarrow> rs_has_free_any port"
  obtains r port' where "unit_result mv (u, port) = Some (u\<lparr>fu_pipeline_reg := (fu_pipeline_reg u)[0 := r],
      fu_active_insts := in_use ((fu_pipeline_reg u)[0 := r])\<rparr>, port')" "wi_empty r"
    "delivered (map_option no_delay (stage_inst (fu_pipeline_reg u) 0)) port port'"
proof (cases "wi_empty (fu_pipeline_reg u ! 0)")
  case True
  then show thesis using assms(2,3)
    by (intro that[of "fu_pipeline_reg u ! 0" port]) (simp_all add: unit_result_def stage_inst_def delivered_def)
next
  case False
  let ?regs = "fu_pipeline_reg u"
  have st: "stage_inst ?regs 0 = Some (?regs ! 0)" using False assms(2) by (simp add: stage_inst_def)
  then obtain j where j: "rs_get_free False 0 port = Some j" "j < length port" "wi_empty (port ! j)"
    using rs_get_free_first assms(4) by blast
  obtain e where e: "mv (port ! j) (?regs ! 0) = Some (?regs ! 0, e)" "wi_empty e" by (rule swap_regsD[OF assms(1) j(3)])
  have "in_use (?regs[0 := e]) + 1 = in_use ?regs" using in_use_update[of 0 ?regs e] False e(2) assms(2) by simp
  then have "unit_result mv (u, port) = Some (u\<lparr>fu_pipeline_reg := ?regs[0 := e], fu_active_insts := in_use (?regs[0 := e])\<rparr>,
      port[j := ?regs ! 0])"
    using False e(1) j(1) assms(2,3) by (auto simp: unit_result_def rs_move_in_def)
  moreover have "delivered (map_option no_delay (stage_inst ?regs 0)) port (port[j := ?regs ! 0])"
    using j False by (auto simp: delivered_def st)
  ultimately show thesis using e(2) that by blast
qed

lemma stage_inst_update:
  "stage_inst (regs[k := r]) j = (if j = k \<and> k < length regs then (if wi_empty r then None else Some r) else stage_inst regs j)"
  by (cases "k < length regs") (auto simp: stage_inst_def nth_list_update)

lemma unit_enter_effect:
  assumes "swap_regs mv" "fu_active_insts u = in_use (fu_pipeline_reg u)"
    "\<not> wi_empty (fu_dispatch_reg u) \<Longrightarrow> fits_depth (length (fu_pipeline_reg u)) (fu_dispatch_reg u) \<and>
       0 < wi_cycles (fu_dispatch_reg u) \<and> stage_inst (fu_pipeline_reg u) (due (fu_dispatch_reg u) - 1) = None"
  obtains v where "unit_enter mv u = Some v" "fu_active_insts v = in_use (fu_pipeline_reg v)"
    "length (fu_pipeline_reg v) = length (fu_pipeline_reg u)" "fu_occupied v = fu_occupied u" "fu_kind v = fu_kind u"
    "fu_issue_reg_id v = fu_issue_reg_id u"
    "\<not> wi_empty (fu_dispatch_reg v) \<longrightarrow> \<not> wi_empty (fu_dispatch_reg u) \<and> 0 < wi_cycles (fu_dispatch_reg v) \<and>
       fu_dispatch_reg v = (fu_dispatch_reg u)\<lparr>wi_cycles := wi_cycles (fu_dispatch_reg u) - 1\<rparr> \<and> fu_pipeline_reg v = fu_pipeline_reg u"
    "\<forall>k. arrivals v k = (case stage_inst (fu_pipeline_reg u) k of
        Some i \<Rightarrow> Some (no_delay i)
      | None \<Rightarrow> if \<not> wi_empty (fu_dispatch_reg u) \<and> Suc k = due (fu_dispatch_reg u)
          then Some (no_delay (fu_dispatch_reg u)) else None)"
proof (cases "wi_empty (fu_dispatch_reg u)")
  case True
  then show thesis by (intro that[of u]) (simp_all add: unit_enter_def arrivals_def assms(2) split: option.splits)
next
  case False
  let ?d = "fu_dispatch_reg u" and ?regs = "fu_pipeline_reg u"
  let ?e = "?d\<lparr>wi_cycles := wi_cycles ?d - 1\<rparr>"
  have d: "fits_depth (length ?regs) ?d" "0 < wi_cycles ?d" "stage_inst ?regs (due ?d - 1) = None" using assms(3) False by auto
  have delay: "dispatch_delay ?d = (1 < wi_cycles ?d, ?e)" using d(2) by (auto simp: dispatch_delay_def Let_def)
  have due: "Suc k = due ?d \<longleftrightarrow> k = due ?e" for k using d(2) by (auto simp: due_def)
  show thesis
  proof (cases "1 < wi_cycles ?d")
    case True
    then have "unit_enter mv u = Some (u\<lparr>fu_dispatch_reg := ?e\<rparr>)" using False by (simp add: unit_enter_def delay)
    then show thesis
      by (rule that) (use False True assms(2) due in \<open>auto simp: arrivals_def no_delay_def split: option.splits\<close>)
  next
    case False
    let ?s = "wi_latency ?d - wi_initiation_interval ?d"
    have one: "wi_cycles ?d = 1" using False d(2) by simp
    then have s: "due ?d = Suc ?s" "?s < length ?regs" "wi_empty (?regs ! ?s)"
      using d(1,3) by (auto simp: due_def fits_depth_def stage_inst_def split: if_splits)
    obtain f where f: "mv (?regs ! ?s) ?e = Some (?e, f)" "wi_empty f" by (rule swap_regsD[OF assms(1) s(3)])
    let ?v = "u\<lparr>fu_pipeline_reg := ?regs[?s := ?e], fu_dispatch_reg := f, fu_active_insts := fu_active_insts u + 1\<rparr>"
    have "unit_enter mv u = Some ?v"
      using \<open>\<not> wi_empty ?d\<close> False d(1) s(2,3) f(1) by (simp add: unit_enter_def delay fits_depth_def Let_def)
    moreover have "in_use (?regs[?s := ?e]) = in_use ?regs + 1"
      using in_use_update[OF s(2), of ?e] s(3) \<open>\<not> wi_empty ?d\<close> by simp
    moreover have "arrivals ?v k = (case stage_inst ?regs k of Some i \<Rightarrow> Some (no_delay i)
        | None \<Rightarrow> if \<not> wi_empty ?d \<and> Suc k = due ?d then Some (no_delay ?d) else None)" for k
      using s f(2) d(3) \<open>\<not> wi_empty ?d\<close> by (auto simp: arrivals_def stage_inst_update no_delay_def split: option.splits)
    ultimately show thesis using f(2) assms(2) by (intro that[of ?v]) simp_all
  qed
qed

text \<open>The delay line: a cycle delivers what is due and brings the rest one cycle nearer.\<close>

lemma unit_cycle_effect:
  assumes mv: "swap_regs mv" and inv: "unit_inv u" and free: "arrivals u 0 \<noteq> None \<Longrightarrow> rs_has_free_any port"
  obtains v port' where "unit_cycle mv (u, port) = Some (v, port')" "unit_inv v" "fu_kind v = fu_kind u"
    "length (fu_pipeline_reg v) = length (fu_pipeline_reg u)" "fu_issue_reg_id v = fu_issue_reg_id u"
    "\<And>k. arrivals v k = arrivals u (Suc k)" "delivered (arrivals u 0) port port'"
    "\<not> wi_empty (fu_dispatch_reg v) \<Longrightarrow> \<not> wi_empty (fu_dispatch_reg u)"
proof -
  let ?r = "fu_pipeline_reg u" and ?d = "fu_dispatch_reg u"
  have ne: "?r \<noteq> []" and act: "fu_active_insts u = in_use ?r" and occ: "\<And>k. bit (fu_occupied u) k \<longleftrightarrow> arrivals u k \<noteq> None"
    and disp: "\<not> wi_empty ?d \<Longrightarrow> fits_depth (length ?r) ?d \<and> 0 < wi_cycles ?d \<and> stage_inst ?r (due ?d) = None"
    using inv by (auto simp: unit_inv_def)
  have a0: "arrivals u 0 = map_option no_delay (stage_inst ?r 0)"
    using disp by (cases "wi_empty ?d") (auto simp: arrivals_def due_def split: option.splits)
  then have "stage_inst ?r 0 \<noteq> None \<Longrightarrow> rs_has_free_any port" using free by auto
  from unit_result_effect[OF mv ne act this] obtain e port' where 1:
    "unit_result mv (u, port) = Some (u\<lparr>fu_pipeline_reg := ?r[0 := e], fu_active_insts := in_use (?r[0 := e])\<rparr>, port')"
    "wi_empty e" "delivered (arrivals u 0) port port'" unfolding a0 by blast
  let ?u1 = "u\<lparr>fu_pipeline_reg := ?r[0 := e], fu_active_insts := in_use (?r[0 := e])\<rparr>"
  have "fu_pipeline_reg ?u1 \<noteq> []" "wi_empty (hd (fu_pipeline_reg ?u1))" "fu_active_insts ?u1 = in_use (fu_pipeline_reg ?u1)"
    using ne 1(2) by (simp_all add: hd_conv_nth)
  from unit_advance_effect[OF mv this] obtain regs where 2: "unit_advance mv ?u1 = Some (?u1\<lparr>fu_pipeline_reg := regs\<rparr>)"
    "length regs = length ?r" "in_use regs = in_use (?r[0 := e])" "\<And>k. stage_inst regs k = stage_inst (?r[0 := e]) (Suc k)" by auto
  let ?u2 = "?u1\<lparr>fu_pipeline_reg := regs\<rparr>"
  have st: "stage_inst regs k = stage_inst ?r (Suc k)" for k using 2(4) by (simp add: stage_inst_update)
  have "\<not> wi_empty ?d \<Longrightarrow> stage_inst regs (due ?d - 1) = None" using disp st[of "due ?d - 1"] by (simp add: due_def)
  then have "\<not> wi_empty (fu_dispatch_reg ?u2) \<Longrightarrow> fits_depth (length (fu_pipeline_reg ?u2)) (fu_dispatch_reg ?u2) \<and>
       0 < wi_cycles (fu_dispatch_reg ?u2) \<and> stage_inst (fu_pipeline_reg ?u2) (due (fu_dispatch_reg ?u2) - 1) = None"
    using disp 2(2) by simp
  note disp2 = this
  have act2: "fu_active_insts ?u2 = in_use (fu_pipeline_reg ?u2)" using 2(3) by simp
  obtain v where 3: "unit_enter mv ?u2 = Some v" "fu_active_insts v = in_use (fu_pipeline_reg v)"
    "length (fu_pipeline_reg v) = length (fu_pipeline_reg ?u2)" "fu_occupied v = fu_occupied ?u2" "fu_kind v = fu_kind ?u2"
    "fu_issue_reg_id v = fu_issue_reg_id ?u2"
    "\<not> wi_empty (fu_dispatch_reg v) \<longrightarrow> \<not> wi_empty (fu_dispatch_reg ?u2) \<and> 0 < wi_cycles (fu_dispatch_reg v) \<and>
       fu_dispatch_reg v = (fu_dispatch_reg ?u2)\<lparr>wi_cycles := wi_cycles (fu_dispatch_reg ?u2) - 1\<rparr> \<and>
       fu_pipeline_reg v = fu_pipeline_reg ?u2"
    "\<forall>k. arrivals v k = (case stage_inst (fu_pipeline_reg ?u2) k of
        Some i \<Rightarrow> Some (no_delay i)
      | None \<Rightarrow> if \<not> wi_empty (fu_dispatch_reg ?u2) \<and> Suc k = due (fu_dispatch_reg ?u2)
          then Some (no_delay (fu_dispatch_reg ?u2)) else None)"
    by (rule unit_enter_effect[OF mv act2 disp2])
  let ?v = "v\<lparr>fu_occupied := drop_bit 1 (fu_occupied u)\<rparr>"
  have arr: "arrivals ?v k = arrivals u (Suc k)" for k
  proof -
    have "arrivals ?v k = arrivals v k" by (simp add: arrivals_def split: option.split)
    then show ?thesis using spec[OF 3(8), of k] st by (simp add: arrivals_def split: option.splits)
  qed
  have "unit_inv ?v"
    unfolding unit_inv_def
  proof (intro conjI allI impI)
    show "bit (fu_occupied ?v) k \<longleftrightarrow> arrivals ?v k \<noteq> None" for k using occ[of "Suc k"] arr[of k] by (simp add: bit_simps)
    assume ne: "\<not> wi_empty (fu_dispatch_reg ?v)"
    then have d: "\<not> wi_empty ?d" "0 < wi_cycles (fu_dispatch_reg v)" "fu_dispatch_reg v = ?d\<lparr>wi_cycles := wi_cycles ?d - 1\<rparr>"
      "fu_pipeline_reg v = regs" using 3(7) by auto
    show "fits_depth (length (fu_pipeline_reg ?v)) (fu_dispatch_reg ?v)" using disp[OF d(1)] d(3) 3(3) 2(2) by (simp add: fits_depth_def)
    show "0 < wi_cycles (fu_dispatch_reg ?v)" using d(2) by simp
    have "Suc (due (fu_dispatch_reg v)) = due ?d" using d(2,3) disp[OF d(1)] by (simp add: due_def)
    then show "stage_inst (fu_pipeline_reg ?v) (due (fu_dispatch_reg ?v)) = None" using disp[OF d(1)] d(4) st by simp
  qed (use 2(2) 3(2,3) ne in auto)
  moreover have "unit_cycle mv (u, port) = Some (?v, port')"
    using 1(1) 2(1) 3(1,4) by (simp add: unit_cycle_def)
  ultimately show thesis
    by (intro that[of ?v port']) (use 1(3) 2(2) 3(3,5,6,7) arr in simp_all)
qed

subsection \<open>Issue to a unit\<close>

text \<open>What the issue stage guarantees of an instruction: its interval counter is set.\<close>

definition issued_inst :: "warp_inst \<Rightarrow> bool" where
  "issued_inst i \<longleftrightarrow> 0 < wi_initiation_interval i \<and> wi_cycles i = wi_initiation_interval i"

lemma rs_get_ready_Some:
  assumes "rs_get_ready sub k regs = Some (Some j)"
  shows "j < length regs \<and> \<not> wi_empty (regs ! j)"
proof (cases sub)
  case False
  then show ?thesis using assms rs_get_ready_oldest[of regs] by (auto simp: rs_get_ready_def rs_oldest_def)
qed (use assms in \<open>auto simp: rs_get_ready_def split: bind_splits if_splits\<close>)

lemma rs_scan_ready_cong:
  assumes "\<And>k. k < length all \<Longrightarrow> wi_uid (all' ! k) = wi_uid (all ! k)"
    "map wi_empty rs' = map wi_empty rs" "map wi_uid rs' = map wi_uid rs" "i + length rs \<le> length all"
    "case ready of None \<Rightarrow> True | Some j \<Rightarrow> j < length all"
  shows "rs_scan_ready ready i all' rs' = rs_scan_ready ready i all rs"
  using assms(2-)
proof (induction rs arbitrary: rs' ready i)
  case (Cons r rs)
  then obtain r' rs2 where r: "rs' = r' # rs2" "wi_empty r' = wi_empty r" "wi_uid r' = wi_uid r" by (cases rs') auto
  let ?ready = "if \<not> wi_empty r then (case ready of Some j \<Rightarrow> if wi_uid (all ! j) < wi_uid r then Some j else Some i | None \<Rightarrow> Some i)
    else ready"
  have "rs_scan_ready ?ready (Suc i) all' rs2 = rs_scan_ready ?ready (Suc i) all rs"
    by (rule Cons.IH) (use Cons.prems r in \<open>auto split: option.splits\<close>)
  then show ?case using r Cons.prems(4) assms(1) by (auto split: option.splits)
qed simp

lemma rs_get_ready_op_pipe:
  "rs_get_ready sub k (regs[j := (regs ! j)\<lparr>wi_op_pipe := p\<rparr>]) = rs_get_ready sub k regs"
proof -
  let ?r = "regs[j := (regs ! j)\<lparr>wi_op_pipe := p\<rparr>]"
  have m: "map f ?r = map f regs" if "f ((regs ! j)\<lparr>wi_op_pipe := p\<rparr>) = f (regs ! j)" for f :: "warp_inst \<Rightarrow> 'a"
    using that by (cases "j < length regs") (auto simp: map_update list_eq_iff_nth_eq nth_list_update)
  have e: "map wi_empty ?r = map wi_empty regs" "map wi_uid ?r = map wi_uid regs" by (rule m, simp)+
  have "wi_uid (?r ! k) = wi_uid (regs ! k)" if "k < length regs" for k using that by (cases "j = k") auto
  then have "rs_get_ready_any ?r = rs_get_ready_any regs"
    unfolding rs_get_ready_any_def by (intro rs_scan_ready_cong) (use e in auto)
  moreover have "wi_empty (?r ! k) = wi_empty (regs ! k)"
    by (cases "j < length regs") (auto simp: nth_list_update list_update_beyond)
  ultimately show ?thesis by (auto simp: rs_get_ready_def vec_at_def)
qed

lemma unit_issue_effect:
  assumes mv: "swap_regs mv" and inv: "unit_inv u" and ready: "rs_get_ready sub (fu_issue_reg_id u) regs = Some (Some j)"
    and can: "unit_can_issue u (regs ! j) = Some True" and inst: "issued_inst (regs ! j)" "fits_depth (length (fu_pipeline_reg u)) (regs ! j)"
  obtains v r where "unit_issue mv sub u regs = Some (v, regs[j := r])" "wi_empty r" "unit_inv v" "fu_kind v = fu_kind u"
    "length (fu_pipeline_reg v) = length (fu_pipeline_reg u)" "fu_issue_reg_id v = fu_issue_reg_id u"
    "arrivals v = (arrivals u)(wi_latency (regs ! j) \<mapsto> no_delay ((regs ! j)\<lparr>wi_op_pipe := pipe_of (fu_kind u)\<rparr>))"
    "arrivals u (wi_latency (regs ! j)) = None"
proof -
  let ?i = "(regs ! j)\<lparr>wi_op_pipe := pipe_of (fu_kind u)\<rparr>" and ?L = "wi_latency (regs ! j)"
  have j: "j < length regs" "\<not> wi_empty (regs ! j)" using rs_get_ready_Some[OF ready] by simp_all
  have c: "wi_empty (fu_dispatch_reg u)" "\<not> bit (fu_occupied u) ?L" "?L < MAX_ALU_LATENCY"
    using can by (auto simp: unit_can_issue_def simd_can_issue_def bits_test_def split: if_splits)
  have free: "arrivals u ?L = None" using c(2) inv by (simp add: unit_inv_def)
  obtain e where e: "mv (fu_dispatch_reg u) ?i = Some (?i, e)" "wi_empty e" by (rule swap_regsD[OF mv c(1)])
  let ?v = "u\<lparr>fu_dispatch_reg := ?i, fu_occupied := set_bit ?L (fu_occupied u)\<rparr>"
  have "unit_issue mv sub u regs = Some (?v, regs[j := e])"
    using ready j e(1) c(3)
    by (simp add: unit_issue_def simd_issue_def rs_move_out_to_def rs_get_ready_op_pipe bits_set_def)
  moreover have due: "due ?i = ?L" using inst by (simp add: due_def issued_inst_def fits_depth_def)
  have st: "stage_inst (fu_pipeline_reg u) ?L = None" using free by (auto simp: arrivals_def split: option.splits)
  have arr: "arrivals ?v = (arrivals u)(?L \<mapsto> no_delay ?i)"
    using c(1) j(2) due st by (auto simp: arrivals_def fun_eq_iff split: option.splits)
  have "unit_inv ?v"
    unfolding unit_inv_def
  proof (intro conjI allI impI)
    show "bit (fu_occupied ?v) k \<longleftrightarrow> arrivals ?v k \<noteq> None" for k
      using inv c(3) unfolding arr by (auto simp: unit_inv_def bit_set_bit_iff MAX_ALU_LATENCY_def)
  qed (use inv inst due st in \<open>auto simp: unit_inv_def fits_depth_def issued_inst_def\<close>)
  ultimately show thesis by (rule that[OF _ e(2)]) (use arr free in simp_all)
qed

subsection \<open>Write back\<close>

lemma write_operands_regs:
  "write_operands ops (inst, oc) = Some (ok, inst', d) \<Longrightarrow> oc_regs d = oc_regs oc \<and> wi_warp_id inst' = wi_warp_id inst"
proof (induction ops arbitrary: inst oc)
  case (Cons op ops)
  show ?case using Cons.prems by (auto split: bind_splits if_splits dest!: Cons.IH)
qed simp

lemma opndcoll_writeback_regs:
  assumes "opndcoll_writeback env (inst, oc) = Some (ok, inst', d)"
  shows "oc_regs d = oc_regs oc"
proof -
  obtain ok1 inst1 e where e: "write_operands [0..<MAX_REG_OPERANDS] (inst, oc) = Some (ok1, inst1, e)"
    using assms by (auto simp: opndcoll_writeback_def Let_def split: bind_splits if_splits)
  then have r: "oc_regs e = oc_regs oc" using write_operands_regs by blast
  show ?thesis
  proof (cases ok1)
    case True
    then have "run_calls (\<lambda>oc r. do {
            lanes \<leftarrow> access_lanes env (wi_active_mask inst1);
            Some (oc\<lparr>oc_regfile_writes := wrap32 (oc_regfile_writes oc + lanes)\<rparr>)
          }) e (get_regs_written inst) = Some d"
      using assms e by (auto simp: opndcoll_writeback_def Let_def split: bind_splits if_splits)
    then have "oc_regs d = oc_regs e"
      by (rule run_calls_invariant[where P = "\<lambda>d. oc_regs d = oc_regs e"]) (auto split: bind_splits)
    with r show ?thesis by simp
  next
    case False
    then show ?thesis using assms e r by (auto simp: opndcoll_writeback_def Let_def split: bind_splits if_splits)
  qed
qed

text \<open>What the write back leaves alone.\<close>

definition wb_frame :: "('b, 'l) exec_core \<Rightarrow> ('b, 'l) exec_core \<Rightarrow> bool" where
  "wb_frame s t \<longleftrightarrow> xc_fu t = xc_fu s \<and> xc_issue_port t = xc_issue_port s \<and> xc_result_bus t = xc_result_bus s \<and>
     length (pipeline_reg t) = length (pipeline_reg s) \<and> length (pipeline_reg t ! EX_WB) = length (pipeline_reg s ! EX_WB) \<and>
     (\<forall>p. p \<noteq> EX_WB \<longrightarrow> pipeline_reg t ! p = pipeline_reg s ! p)"

lemma wb_frame_refl [simp]: "wb_frame s s"
  by (simp add: wb_frame_def)

lemma wb_frame_trans: "wb_frame s t \<Longrightarrow> wb_frame t u \<Longrightarrow> wb_frame s u"
  by (simp add: wb_frame_def)

lemma pipeline_reg_upd [simp]: "pipeline_reg (set_pipeline_reg p regs s) = (pipeline_reg s)[p := regs]"
  by (simp add: set_pipeline_reg_def pipeline_reg_def)

lemma pipeline_reg_fields [simp]:
  "pipeline_reg (s\<lparr>xc_fu := f\<rparr>) = pipeline_reg s" "pipeline_reg (s\<lparr>xc_result_bus := b\<rparr>) = pipeline_reg s"
  "xc_fu (set_pipeline_reg p regs s) = xc_fu s" "xc_issue_port (set_pipeline_reg p regs s) = xc_issue_port s"
  "xc_result_bus (set_pipeline_reg p regs s) = xc_result_bus s"
  by (simp_all add: pipeline_reg_def set_pipeline_reg_def)

lemma complete_frame [simp]:
  "xc_fu (warp_inst_complete env i s) = xc_fu s" "xc_issue_port (warp_inst_complete env i s) = xc_issue_port s"
  "xc_result_bus (warp_inst_complete env i s) = xc_result_bus s" "xc_collector (warp_inst_complete env i s) = xc_collector s"
  by (simp_all add: warp_inst_complete_def Let_def split: operation_pipeline.splits)

lemma writeback_inst_frame:
  assumes "writeback_inst env j s = Some t" "EX_WB < length (pipeline_reg s)"
  shows "wb_frame s t \<and> (\<exists>r. wi_empty r \<and> pipeline_reg t ! EX_WB = (pipeline_reg s ! EX_WB)[j := r])"
proof -
  obtain ok inst d w c where w: "opndcoll_writeback (xe_collector env) (pipeline_reg s ! EX_WB ! j, xc_collector s) = Some (ok, inst, d)"
    "c = warp_inst_complete env inst (s\<lparr>xc_collector := d, xc_scoreboard := xe_release_registers env inst (xc_scoreboard s),
       xc_warp := (xc_warp s)[wi_warp_id inst := w]\<rparr>)"
    "t = set_pipeline_reg EX_WB ((pipeline_reg s ! EX_WB)[j := inst_clear inst]) (c\<lparr>xc_last_update_sid := xc_sid c,
       xc_last_update := xc_gpu_sim_cycle c, xc_last_inst_cycle := xc_gpu_sim_cycle c, xc_last_inst_tot_cycle := xc_gpu_tot_sim_cycle c\<rparr>)"
    using assms by (auto simp: writeback_inst_def Let_def split: bind_splits)
  have r: "oc_regs d = pipeline_reg s" using opndcoll_writeback_regs[OF w(1)] by (simp add: pipeline_reg_def)
  then have p: "pipeline_reg t = (pipeline_reg s)[EX_WB := (pipeline_reg s ! EX_WB)[j := inst_clear inst]]"
    unfolding w(2,3) pipeline_reg_upd by (simp add: pipeline_reg_def)
  moreover have "xc_fu t = xc_fu s" "xc_issue_port t = xc_issue_port s" "xc_result_bus t = xc_result_bus s"
    unfolding w(2,3) by (simp_all add: set_pipeline_reg_def)
  ultimately show ?thesis using assms(2) by (auto simp: wb_frame_def inst_clear_def intro: exI[of _ "inst_clear inst"])
qed

lemma rs_get_ready_any_None: "rs_get_ready_any regs = None \<longleftrightarrow> (\<forall>r \<in> set regs. wi_empty r)"
  using rs_get_ready_oldest[of regs] by (auto simp: rs_oldest_def all_set_conv_all_nth split: option.splits)

text \<open>The write back drains the registers; its fuel always suffices.\<close>

lemma writeback_loop_frame:
  assumes "writeback_loop n env s = Some t" "EX_WB < length (pipeline_reg s)"
  shows "wb_frame s t \<and> (\<forall>r \<in> set (pipeline_reg t ! EX_WB). wi_empty r)"
  using assms
proof (induction n arbitrary: s)
  case 0
  then show ?case by (auto simp: rs_get_ready_any_None split: option.splits)
next
  case (Suc n)
  show ?case
  proof (cases "rs_get_ready_any (pipeline_reg s ! EX_WB)")
    case None
    then have "t = s" using Suc.prems(1) by simp
    then show ?thesis using None by (simp add: rs_get_ready_any_None)
  next
    case (Some j)
    then obtain u where u: "writeback_inst env j s = Some u" "writeback_loop n env u = Some t"
      using Suc.prems(1) by (auto split: bind_splits)
    have f: "wb_frame s u" using writeback_inst_frame[OF u(1) Suc.prems(2)] by simp
    then have "EX_WB < length (pipeline_reg u)" using Suc.prems(2) by (simp add: wb_frame_def)
    then show ?thesis using Suc.IH[OF u(2)] wb_frame_trans[OF f] by blast
  qed
qed

lemma core_writeback_frame:
  assumes "core_writeback env s = Some t" "EX_WB < length (pipeline_reg s)"
  shows "wb_frame s t \<and> (\<forall>r \<in> set (pipeline_reg t ! EX_WB). wi_empty r)"
proof -
  let ?s = "s\<lparr>xc_last_num_sim_insn := xc_num_sim_insn s, xc_last_num_sim_winsn := xc_num_sim_winsn s\<rparr>"
  have p: "pipeline_reg ?s = pipeline_reg s" by (simp add: pipeline_reg_def)
  then have "writeback_loop (length (pipeline_reg s ! EX_WB)) env ?s = Some t"
    using assms by (simp add: core_writeback_def Let_def)
  from writeback_loop_frame[OF this] show ?thesis using assms(2) p by (simp add: wb_frame_def)
qed

lemma writeback_fuel:
  assumes "EX_WB < length (pipeline_reg s)" "in_use (pipeline_reg s ! EX_WB) \<le> n" "writeback_loop n env s = None"
  shows "\<exists>t j. wb_frame s t \<and> rs_get_ready_any (pipeline_reg t ! EX_WB) = Some j \<and> writeback_inst env j t = None"
  using assms
proof (induction n arbitrary: s)
  case 0
  then have "rs_get_ready_any (pipeline_reg s ! EX_WB) = None"
    by (auto simp: rs_get_ready_any_None in_use_def filter_empty_conv)
  with 0 show ?case by simp
next
  case (Suc n)
  then obtain j where j: "rs_get_ready_any (pipeline_reg s ! EX_WB) = Some j" by (auto split: option.splits)
  show ?case
  proof (cases "writeback_inst env j s")
    case None
    then show ?thesis using j by (intro exI[of _ s] exI[of _ j]) simp
  next
    case (Some u)
    then obtain r where r: "wb_frame s u" "wi_empty r" "pipeline_reg u ! EX_WB = (pipeline_reg s ! EX_WB)[j := r]"
      using writeback_inst_frame Suc.prems(1) by blast
    have "j < length (pipeline_reg s ! EX_WB)" "\<not> wi_empty (pipeline_reg s ! EX_WB ! j)"
      using rs_get_ready_Some[of False] j by (auto simp: rs_get_ready_def)
    then have "in_use (pipeline_reg u ! EX_WB) \<le> n"
      using in_use_update[of j "pipeline_reg s ! EX_WB" r] r Suc.prems(2) by simp
    moreover have "writeback_loop n env u = None" using Suc.prems(3) j Some by simp
    moreover have "EX_WB < length (pipeline_reg u)" using r(1) Suc.prems(1) by (simp add: wb_frame_def)
    ultimately obtain t k where "wb_frame u t" "rs_get_ready_any (pipeline_reg t ! EX_WB) = Some k" "writeback_inst env k t = None"
      using Suc.IH by blast
    then show ?thesis using wb_frame_trans[OF r(1)] by blast
  qed
qed

subsection \<open>The back end\<close>

definition bus_count :: "latency_bits list \<Rightarrow> nat \<Rightarrow> nat" where
  "bus_count buses k = length (filter (\<lambda>b. bit b k) buses)"

fun unit_count :: "func_unit \<Rightarrow> nat \<Rightarrow> nat" where
  "unit_count (Simd_unit u) k = (if bit (fu_occupied u) k then 1 else 0)"
| "unit_count Ldst_unit k = 0"

definition unit_ready :: "('b, 'l) exec_core \<Rightarrow> bool \<Rightarrow> nat \<Rightarrow> bool" where
  "unit_ready s sub n \<longleftrightarrow> (let p = xc_issue_port s ! n; regs = pipeline_reg s ! p in
     p < length (pipeline_reg s) \<and> p \<noteq> EX_WB \<and>
     (case xc_fu s ! n of
        Simd_unit u \<Rightarrow> unit_inv u \<and> (sub \<longrightarrow> fu_issue_reg_id u < length regs) \<and>
          (\<forall>r \<in> set regs. \<not> wi_empty r \<and> unit_takes (fu_kind u) (wi_op r) \<longrightarrow>
            issued_inst r \<and> fits_depth (length (fu_pipeline_reg u)) r)
      | Ldst_unit \<Rightarrow> True))"

text \<open>In the middle of \<open>execute\<close> the buses and the first \<open>n\<close> units are one cycle ahead of the others.\<close>

definition exec_inv :: "('b, 'l) exec_env \<Rightarrow> nat \<Rightarrow> ('b, 'l) exec_core \<Rightarrow> bool" where
  "exec_inv env n s \<longleftrightarrow> EX_WB < length (pipeline_reg s) \<and> length (pipeline_reg s ! EX_WB) = length (xc_result_bus s) \<and>
     length (xc_issue_port s) = length (xc_fu s) \<and> n \<le> length (xc_fu s) \<and>
     (\<forall>m < length (xc_fu s). unit_ready s (oe_sub_core_model (xe_collector env)) m) \<and>
     (\<forall>k. bus_count (xc_result_bus s) k =
        (\<Sum>m < n. unit_count (xc_fu s ! m) k) + (\<Sum>m = n..<length (xc_fu s). unit_count (xc_fu s ! m) (Suc k))) \<and>
     in_use (pipeline_reg s ! EX_WB) + (\<Sum>m = n..<length (xc_fu s). unit_count (xc_fu s ! m) 0) \<le> length (xc_result_bus s)"

lemma in_use_less: "in_use regs < length regs \<Longrightarrow> rs_has_free_any regs"
  by (induction regs) (auto simp: rs_has_free_any_def split: if_splits)

lemma delivered_count:
  assumes "delivered r port port'"
  shows "length port' = length port \<and> in_use port' = in_use port + (if r = None then 0 else 1)"
proof (cases r)
  case None
  then show ?thesis using assms by (simp add: delivered_def)
next
  case (Some i)
  then obtain j where j: "j < length port" "wi_empty (port ! j)" "\<not> wi_empty (port' ! j)" "port' = port[j := port' ! j]"
    using assms unfolding delivered_def by auto
  have "length port' = length port" using arg_cong[OF j(4), of length] by simp
  moreover have "in_use port' = in_use port + 1" using in_use_update[OF j(1), of "port' ! j"] j(2,3) j(4)[symmetric] by simp
  ultimately show ?thesis using Some by simp
qed

lemma sum_units_update:
  fixes f :: "func_unit \<Rightarrow> nat"
  assumes "n < length fu"
  shows "(\<Sum>m < Suc n. f (fu[n := v] ! m)) = (\<Sum>m < n. f (fu ! m)) + f v"
    and "(\<Sum>m = Suc n..<l. f (fu[n := v] ! m)) = (\<Sum>m = Suc n..<l. f (fu ! m))"
proof -
  have "(\<Sum>m < n. f (fu[n := v] ! m)) = (\<Sum>m < n. f (fu ! m))" by (rule sum.cong) auto
  then show "(\<Sum>m < Suc n. f (fu[n := v] ! m)) = (\<Sum>m < n. f (fu ! m)) + f v" using assms by simp
  show "(\<Sum>m = Suc n..<l. f (fu[n := v] ! m)) = (\<Sum>m = Suc n..<l. f (fu ! m))" by (rule sum.cong) auto
qed

lemma exec_inv_cycle:
  assumes inv: "exec_inv env n s" and n: "n < length (xc_fu s)" and u: "xc_fu s ! n = Simd_unit u"
    and v: "unit_inv v" "fu_kind v = fu_kind u" "length (fu_pipeline_reg v) = length (fu_pipeline_reg u)"
      "fu_issue_reg_id v = fu_issue_reg_id u" "\<And>k. arrivals v k = arrivals u (Suc k)"
    and port: "delivered (arrivals u 0) (pipeline_reg s ! EX_WB) port'"
  shows "exec_inv env (Suc n) (set_pipeline_reg EX_WB port' (s\<lparr>xc_fu := (xc_fu s)[n := Simd_unit v]\<rparr>))" (is "exec_inv env _ ?t")
proof -
  let ?N = "length (xc_fu s)" and ?fu = "(xc_fu s)[n := Simd_unit v]"
  have i: "EX_WB < length (pipeline_reg s)" "length (pipeline_reg s ! EX_WB) = length (xc_result_bus s)"
    "length (xc_issue_port s) = ?N" "\<And>m. m < ?N \<Longrightarrow> unit_ready s (oe_sub_core_model (xe_collector env)) m"
    "\<And>k. bus_count (xc_result_bus s) k = (\<Sum>m < n. unit_count (xc_fu s ! m) k) + (\<Sum>m = n..<?N. unit_count (xc_fu s ! m) (Suc k))"
    "in_use (pipeline_reg s ! EX_WB) + (\<Sum>m = n..<?N. unit_count (xc_fu s ! m) 0) \<le> length (xc_result_bus s)"
    using inv by (simp_all add: exec_inv_def)
  have uinv: "unit_inv u" using i(4)[OF n] u by (simp add: unit_ready_def Let_def)
  have t: "xc_fu ?t = ?fu" "xc_issue_port ?t = xc_issue_port s" "xc_result_bus ?t = xc_result_bus s"
    "pipeline_reg ?t = (pipeline_reg s)[EX_WB := port']"
    by simp_all
  have cnt: "unit_count (Simd_unit v) k = unit_count (xc_fu s ! n) (Suc k)" for k
    using uinv v(1,5) u by (simp add: unit_inv_def)
  have c0: "unit_count (xc_fu s ! n) 0 = (if arrivals u 0 = None then 0 else 1)" using uinv u by (simp add: unit_inv_def)
  have up: "(\<Sum>m = n..<?N. f m) = f n + (\<Sum>m = Suc n..<?N. f m)" for f :: "nat \<Rightarrow> nat"
    using n by (simp add: sum.atLeast_Suc_lessThan)
  have ready: "unit_ready ?t (oe_sub_core_model (xe_collector env)) m" if "m < ?N" for m
    using i(4)[OF that] v u n by (cases "m = n") (auto simp: unit_ready_def Let_def split: func_unit.splits)
  have bus: "bus_count (xc_result_bus s) k = (\<Sum>m < Suc n. unit_count (?fu ! m) k) + (\<Sum>m = Suc n..<?N. unit_count (?fu ! m) (Suc k))" for k
    unfolding i(5) sum_units_update[OF n, of "\<lambda>f. unit_count f k"] sum_units_update[OF n, of "\<lambda>f. unit_count f (Suc k)"] up cnt by simp
  have wb: "in_use port' + (\<Sum>m = Suc n..<?N. unit_count (?fu ! m) 0) \<le> length (xc_result_bus s)"
    using i(6) delivered_count[OF port] c0 unfolding sum_units_update[OF n, of "\<lambda>f. unit_count f 0"] up by simp
  show ?thesis
    unfolding exec_inv_def t using i(1-3) n delivered_count[OF port] ready bus wb by simp
qed

lemma bus_count_set:
  assumes "b < length buses" "\<not> bit (buses ! b) L" "L < MAX_ALU_LATENCY"
  shows "bus_count (buses[b := set_bit L (buses ! b)]) k = bus_count buses k + (if k = L then 1 else 0)"
  using assms(1,2)
proof (induction buses arbitrary: b)
  case (Cons x buses)
  have "bit (set_bit L x) k \<longleftrightarrow> bit x k \<or> k = L" for x :: latency_bits
    using assms(3) by (auto simp: bit_set_bit_iff MAX_ALU_LATENCY_def)
  then show ?case using Cons by (cases b) (auto simp: bus_count_def)
qed simp

lemma exec_inv_issue:
  assumes inv: "exec_inv env (Suc n) s" and u: "xc_fu s ! n = Simd_unit u"
    and v: "unit_inv v" "fu_kind v = fu_kind u" "length (fu_pipeline_reg v) = length (fu_pipeline_reg u)"
      "fu_issue_reg_id v = fu_issue_reg_id u" "arrivals v = (arrivals u)(L \<mapsto> i)" "arrivals u L = None"
    and p: "p = xc_issue_port s ! n" "wi_empty r"
    and bus: "b < length (xc_result_bus s)" "\<not> bit (xc_result_bus s ! b) L" "L < MAX_ALU_LATENCY"
  shows "exec_inv env (Suc n) (set_pipeline_reg p ((pipeline_reg s ! p)[j := r])
    (s\<lparr>xc_result_bus := (xc_result_bus s)[b := set_bit L (xc_result_bus s ! b)], xc_fu := (xc_fu s)[n := Simd_unit v]\<rparr>))"
    (is "exec_inv env _ ?t")
proof -
  let ?N = "length (xc_fu s)" and ?fu = "(xc_fu s)[n := Simd_unit v]" and ?sub = "oe_sub_core_model (xe_collector env)"
  have i: "EX_WB < length (pipeline_reg s)" "length (pipeline_reg s ! EX_WB) = length (xc_result_bus s)"
    "length (xc_issue_port s) = ?N" "n < ?N" "\<And>m. m < ?N \<Longrightarrow> unit_ready s ?sub m"
    "\<And>k. bus_count (xc_result_bus s) k = (\<Sum>m < Suc n. unit_count (xc_fu s ! m) k) + (\<Sum>m = Suc n..<?N. unit_count (xc_fu s ! m) (Suc k))"
    "in_use (pipeline_reg s ! EX_WB) + (\<Sum>m = Suc n..<?N. unit_count (xc_fu s ! m) 0) \<le> length (xc_result_bus s)"
    using inv by (simp_all add: exec_inv_def)
  have uinv: "unit_inv u" and pne: "p \<noteq> EX_WB" using i(5)[OF i(4)] u p(1) by (simp_all add: unit_ready_def Let_def)
  have cnt: "unit_count (Simd_unit v) k = unit_count (Simd_unit u) k + (if k = L then 1 else 0)" for k
    using uinv v(1,5,6) by (simp add: unit_inv_def)
  have ready: "unit_ready ?t ?sub m" if "m < ?N" for m
  proof -
    have "r' \<in> set (pipeline_reg s ! p) \<or> r' = r" if "r' \<in> set ((pipeline_reg s ! p)[j := r])" for r'
      using set_update_subset_insert[of "pipeline_reg s ! p" j r] that by auto
    moreover have "xc_issue_port s ! m < length (pipeline_reg s)" using i(5)[OF that] by (simp add: unit_ready_def Let_def)
    ultimately show ?thesis
      using i(5)[OF that] v u p(2) i(4)
      by (cases "m = n"; cases "xc_issue_port s ! m = p") (auto simp: unit_ready_def Let_def split: func_unit.splits)
  qed
  have "bus_count ((xc_result_bus s)[b := set_bit L (xc_result_bus s ! b)]) k =
      (\<Sum>m < Suc n. unit_count (?fu ! m) k) + (\<Sum>m = Suc n..<?N. unit_count (?fu ! m) (Suc k))" for k
    unfolding bus_count_set[OF bus] i(6) sum_units_update[OF i(4), of "\<lambda>f. unit_count f k"]
      sum_units_update[OF i(4), of "\<lambda>f. unit_count f (Suc k)"] cnt using u by simp
  moreover have "(\<Sum>m = Suc n..<?N. unit_count (?fu ! m) 0) = (\<Sum>m = Suc n..<?N. unit_count (xc_fu s ! m) 0)"
    by (rule sum_units_update[OF i(4)])
  ultimately show ?thesis
    unfolding exec_inv_def using i(1-4,7) ready pne by simp
qed

lemma rs_ready_cases:
  assumes "sub \<Longrightarrow> k < length regs"
  shows "\<exists>rr h. rs_get_ready sub k regs = Some rr \<and> rs_has_ready sub k regs = Some h \<and> (h \<longrightarrow> rr \<noteq> None)"
proof (cases sub)
  case True
  with assms show ?thesis by (auto simp: rs_get_ready_def rs_has_ready_def)
next
  case False
  have "rs_has_ready_any regs \<longrightarrow> rs_get_ready_any regs \<noteq> None"
    using rs_get_ready_any_None[of regs] by (auto simp: rs_has_ready_any_def list_ex_iff)
  with False show ?thesis by (simp add: rs_get_ready_def rs_has_ready_def)
qed

lemma test_res_bus_cases:
  assumes "L < MAX_ALU_LATENCY"
  shows "\<exists>r. test_res_bus L buses = Some r \<and> (\<forall>b. r = Some b \<longrightarrow> b < length buses \<and> \<not> bit (buses ! b) L)"
  using assms first_index_Some[of "\<lambda>b. \<not> bit b L" 0 buses] by (auto simp: test_res_bus_def)

lemma issue_to_unit_ok:
  assumes mv: "swap_regs (oe_move_warp (xe_collector env))" and inv: "exec_inv env (Suc n) s" and u: "xc_fu s ! n = Simd_unit u"
  shows "\<exists>t. issue_to_unit env n u s = Some t \<and> exec_inv env (Suc n) t"
proof -
  let ?sub = "oe_sub_core_model (xe_collector env)" and ?p = "xc_issue_port s ! n"
  let ?regs = "pipeline_reg s ! ?p"
  have ready: "unit_ready s ?sub n" "n < length (xc_issue_port s)" using inv by (simp_all add: exec_inv_def)
  have p: "unit_inv u" "?p < length (pipeline_reg s)" "?sub \<Longrightarrow> fu_issue_reg_id u < length ?regs"
    "\<And>r. r \<in> set ?regs \<Longrightarrow> \<not> wi_empty r \<Longrightarrow> unit_takes (fu_kind u) (wi_op r) \<Longrightarrow>
       issued_inst r \<and> fits_depth (length (fu_pipeline_reg u)) r"
    using ready(1) u by (auto simp: unit_ready_def Let_def)
  obtain rr h where rr: "rs_get_ready ?sub (fu_issue_reg_id u) ?regs = Some rr" "rs_has_ready ?sub (fu_issue_reg_id u) ?regs = Some h"
    "h \<Longrightarrow> rr \<noteq> None" using rs_ready_cases[OF p(3)] by metis
  note step = issue_to_unit_def vec_at_in[OF ready(2)] vec_at_in[OF p(2)] rr(1,2) Let_def bind.bind_lunit
  show ?thesis
  proof (cases h)
    case False
    then show ?thesis using inv by (simp add: step)
  next
    case True
    then obtain j where j: "rr = Some j" using rr(3) by auto
    let ?i = "?regs ! j" and ?L = "wi_latency (?regs ! j)"
    have jr: "j < length ?regs" "\<not> wi_empty ?i" using rs_get_ready_Some rr(1) j by blast+
    show ?thesis
    proof (cases "unit_can_issue u ?i = Some True")
      case can: True
      then have "unit_takes (fu_kind u) (wi_op ?i)" by (auto simp: unit_can_issue_def split: if_splits)
      then have ok: "issued_inst ?i" "fits_depth (length (fu_pipeline_reg u)) ?i" using p(4)[of ?i] jr by simp_all
      then have L: "?L < MAX_ALU_LATENCY" by (simp add: fits_depth_def)
      have ready2: "rs_get_ready ?sub (fu_issue_reg_id u) ?regs = Some (Some j)" using rr(1) j by simp
      obtain w r where w: "unit_issue (oe_move_warp (xe_collector env)) ?sub u ?regs = Some (w, ?regs[j := r])" "wi_empty r"
        "unit_inv w" "fu_kind w = fu_kind u" "length (fu_pipeline_reg w) = length (fu_pipeline_reg u)"
        "fu_issue_reg_id w = fu_issue_reg_id u"
        "arrivals w = (arrivals u)(?L \<mapsto> no_delay (?i\<lparr>wi_op_pipe := pipe_of (fu_kind u)\<rparr>))" "arrivals u ?L = None"
        by (rule unit_issue_effect[OF mv p(1) ready2 can ok])
      obtain rb where rb: "test_res_bus ?L (xc_result_bus s) = Some rb" "\<And>b. rb = Some b \<Longrightarrow>
          b < length (xc_result_bus s) \<and> \<not> bit (xc_result_bus s ! b) ?L" using test_res_bus_cases[OF L] by metis
      show ?thesis
      proof (cases rb)
        case None
        then show ?thesis using True j can rb(1) inv by (simp add: step)
      next
        case (Some b)
        have b: "b < length (xc_result_bus s)" "\<not> bit (xc_result_bus s ! b) ?L" using rb(2)[OF Some] by simp_all
        have "exec_inv env (Suc n) (set_pipeline_reg ?p (?regs[j := r])
            (s\<lparr>xc_result_bus := (xc_result_bus s)[b := set_bit ?L (xc_result_bus s ! b)], xc_fu := (xc_fu s)[n := Simd_unit w]\<rparr>))"
          by (rule exec_inv_issue[OF inv u w(3-8) _ w(2) b L]) simp
        then show ?thesis using True j can rb(1) Some w(1) L by (simp add: step bits_set_def)
      qed
    next
      case False
      then obtain "unit_can_issue u ?i = Some False"
        using p(4)[of ?i] jr by (auto simp: unit_can_issue_def simd_can_issue_def bits_test_def fits_depth_def split: if_splits)
      then show ?thesis using True j inv by (simp add: step)
    qed
  qed
qed

lemma simd_execute_ok:
  assumes mv: "swap_regs (oe_move_warp (xe_collector env))" and lanes: "xe_power_simulation env \<longrightarrow> 32 \<le> oe_warp_size (xe_collector env)"
    and inv: "exec_inv env n s" and n: "n < length (xc_fu s)" and u: "xc_fu s ! n = Simd_unit u"
  shows "\<exists>t. simd_execute env n u s = Some t \<and> exec_inv env (Suc n) t"
proof -
  let ?mv = "oe_move_warp (xe_collector env)" and ?sub = "oe_sub_core_model (xe_collector env)" and ?N = "length (xc_fu s)"
  let ?wb = "pipeline_reg s ! EX_WB"
  have i: "EX_WB < length (pipeline_reg s)" "length ?wb = length (xc_result_bus s)"
    "unit_ready s ?sub n" "in_use ?wb + (\<Sum>m = n..<?N. unit_count (xc_fu s ! m) 0) \<le> length (xc_result_bus s)"
    using inv n by (simp_all add: exec_inv_def)
  have uinv: "unit_inv u" using i(3) u by (simp add: unit_ready_def Let_def)
  have free: "rs_has_free_any ?wb" if "arrivals u 0 \<noteq> None"
  proof (rule in_use_less)
    have "unit_count (xc_fu s ! n) 0 = 1" using uinv u that by (simp add: unit_inv_def)
    then have "1 \<le> (\<Sum>m = n..<?N. unit_count (xc_fu s ! m) 0)" using n by (simp add: sum.atLeast_Suc_lessThan)
    then show "in_use ?wb < length ?wb" using i(2,4) by simp
  qed
  obtain v port' where v: "unit_cycle ?mv (u, ?wb) = Some (v, port')" "unit_inv v" "fu_kind v = fu_kind u"
    "length (fu_pipeline_reg v) = length (fu_pipeline_reg u)" "fu_issue_reg_id v = fu_issue_reg_id u"
    "\<And>k. arrivals v k = arrivals u (Suc k)" "delivered (arrivals u 0) ?wb port'"
    using unit_cycle_effect[OF mv uinv free] by metis
  let ?s = "set_pipeline_reg EX_WB port' (s\<lparr>xc_fu := (xc_fu s)[n := Simd_unit v]\<rparr>)"
  have inv1: "exec_inv env (Suc n) ?s" by (rule exec_inv_cycle[OF inv n u v(2-7)])
  have "get_active_lanes_in_pipeline (xe_power_simulation env) v \<le> oe_warp_size (xe_collector env)"
    using lanes le_trans[OF mask_count_le] by (auto simp: get_active_lanes_in_pipeline_def mask_count_def)
  then have "simd_execute env n u s = issue_to_unit env n v ?s"
    using i(1) v(1) by (simp add: simd_execute_def Let_def)
  moreover have "xc_fu ?s ! n = Simd_unit v" using n by simp
  ultimately show ?thesis using issue_to_unit_ok[OF mv inv1] by simp
qed

subsection \<open>Runs of the back end\<close>

definition issue_regs_ok :: "('b, 'l) exec_env \<Rightarrow> ('b, 'l) exec_core \<Rightarrow> bool" where
  "issue_regs_ok env s \<longleftrightarrow> length (xc_issue_port s) = length (xc_fu s) \<and>
     (\<forall>m < length (xc_fu s). let p = xc_issue_port s ! m; regs = pipeline_reg s ! p in
       p < length (pipeline_reg s) \<and> p \<noteq> EX_WB \<and>
       (case xc_fu s ! m of
          Simd_unit u \<Rightarrow> (oe_sub_core_model (xe_collector env) \<longrightarrow> fu_issue_reg_id u < length regs) \<and>
            (\<forall>r \<in> set regs. \<not> wi_empty r \<and> unit_takes (fu_kind u) (wi_op r) \<longrightarrow>
              issued_inst r \<and> fits_depth (length (fu_pipeline_reg u)) r)
        | Ldst_unit \<Rightarrow> True))"

definition exec_start :: "('b, 'l) exec_env \<Rightarrow> ('b, 'l) exec_core \<Rightarrow> bool" where
  "exec_start env s \<longleftrightarrow> EX_WB < length (pipeline_reg s) \<and> length (pipeline_reg s ! EX_WB) = length (xc_result_bus s) \<and>
     (\<forall>b \<in> set (xc_result_bus s). b = 0) \<and> (\<forall>r \<in> set (pipeline_reg s ! EX_WB). wi_empty r) \<and>
     (\<forall>f \<in> set (xc_fu s). f = Ldst_unit \<or> (\<exists>kind depth reg. 0 < depth \<and> f = Simd_unit (simd_unit_new kind depth reg))) \<and>
     issue_regs_ok env s"

text \<open>Between the cycles the other stages change everything but the units, the buses and the last registers.\<close>

definition exec_change :: "('b, 'l) exec_env \<Rightarrow> ('b, 'l) exec_core \<Rightarrow> ('b, 'l) exec_core \<Rightarrow> bool" where
  "exec_change env s t \<longleftrightarrow> xc_fu t = xc_fu s \<and> xc_issue_port t = xc_issue_port s \<and> xc_result_bus t = xc_result_bus s \<and>
     length (pipeline_reg t) = length (pipeline_reg s) \<and> pipeline_reg t ! EX_WB = pipeline_reg s ! EX_WB \<and> issue_regs_ok env t"

inductive exec_reachable :: "('b, 'l) exec_env \<Rightarrow> ('b, 'l) exec_core \<Rightarrow> bool" for env where
  exec_init: "exec_start env s \<Longrightarrow> exec_reachable env s"
| exec_cycle: "exec_reachable env s \<Longrightarrow> core_writeback env s = Some t \<Longrightarrow> core_execute env t = Some u \<Longrightarrow> exec_reachable env u"
| exec_other: "exec_reachable env s \<Longrightarrow> exec_change env s t \<Longrightarrow> exec_reachable env t"

text \<open>The load-store unit takes its instructions from its port and leaves the other units alone.\<close>

definition ldst_frame :: "('b, 'l) exec_env \<Rightarrow> bool" where
  "ldst_frame env \<longleftrightarrow>
     (\<forall>s t. xe_ldst_cycle env s = Some t \<longrightarrow> xc_fu t = xc_fu s \<and> xc_issue_port t = xc_issue_port s \<and>
        xc_result_bus t = xc_result_bus s \<and> pipeline_reg t = pipeline_reg s) \<and>
     (\<forall>regs s regs' t. xe_ldst_issue env regs s = Some (regs', t) \<longrightarrow> xc_fu t = xc_fu s \<and> xc_issue_port t = xc_issue_port s \<and>
        xc_result_bus t = xc_result_bus s \<and> pipeline_reg t = pipeline_reg s \<and>
        length regs' = length regs \<and> (\<forall>r \<in> set regs'. wi_empty r \<or> r \<in> set regs))"

lemma exec_inv_congI:
  assumes "exec_inv env n s" "xc_fu t = xc_fu s" "xc_issue_port t = xc_issue_port s" "xc_result_bus t = xc_result_bus s"
    "pipeline_reg t = pipeline_reg s"
  shows "exec_inv env n t"
  using assms by (simp add: exec_inv_def unit_ready_def)

lemma exec_inv_port:
  assumes "exec_inv env n s" "p \<noteq> EX_WB" "length regs = length (pipeline_reg s ! p)"
    "\<And>r. r \<in> set regs \<Longrightarrow> wi_empty r \<or> r \<in> set (pipeline_reg s ! p)"
  shows "exec_inv env n (set_pipeline_reg p regs s)"
proof -
  have "unit_ready (set_pipeline_reg p regs s) sub m" if "unit_ready s sub m" for sub m
    using that assms(3,4) by (cases "xc_issue_port s ! m = p") (auto simp: unit_ready_def Let_def split: func_unit.splits)
  then show ?thesis using assms(1,2) by (simp add: exec_inv_def)
qed

lemma exec_inv_ldst:
  assumes "exec_inv env n s" "n < length (xc_fu s)" "xc_fu s ! n = Ldst_unit"
  shows "exec_inv env (Suc n) s"
  using assms by (simp add: exec_inv_def sum.atLeast_Suc_lessThan)

lemma ldst_execute_inv:
  assumes "ldst_frame env" "exec_inv env n s" "n < length (xc_fu s)" "xc_fu s ! n = Ldst_unit" "ldst_execute env n s = Some t"
  shows "exec_inv env (Suc n) t"
proof -
  let ?p = "xc_issue_port s ! n"
  obtain u where u: "run_calls (\<lambda>s _. xe_ldst_cycle env s) s [0..<xe_ldst_multiplier env] = Some u"
    using assms(5) by (auto simp: ldst_execute_def split: bind_splits)
  have "xc_fu u = xc_fu s \<and> xc_issue_port u = xc_issue_port s \<and> xc_result_bus u = xc_result_bus s \<and> pipeline_reg u = pipeline_reg s"
    by (rule run_calls_invariant[OF u]) (use assms(1) in \<open>auto simp: ldst_frame_def\<close>)
  then have inv: "exec_inv env (Suc n) u" and p: "xc_issue_port u = xc_issue_port s" "xc_fu u = xc_fu s"
    using exec_inv_ldst[OF assms(2-4)] exec_inv_congI by blast+
  have pw: "?p \<noteq> EX_WB" using assms(2,3) by (simp add: exec_inv_def unit_ready_def Let_def)
  show ?thesis
  proof (cases "t = u")
    case True
    then show ?thesis using inv by simp
  next
    case False
    then obtain regs v where v: "xe_ldst_issue env (pipeline_reg u ! ?p) u = Some (regs, v)" "t = set_pipeline_reg ?p regs v"
      using assms(5) u p by (auto simp: ldst_execute_def split: bind_splits if_splits)
    then have f: "xc_fu v = xc_fu u" "xc_issue_port v = xc_issue_port u" "xc_result_bus v = xc_result_bus u" "pipeline_reg v = pipeline_reg u"
      "length regs = length (pipeline_reg u ! ?p)" "\<forall>r \<in> set regs. wi_empty r \<or> r \<in> set (pipeline_reg u ! ?p)"
      using assms(1) unfolding ldst_frame_def by blast+
    have "exec_inv env (Suc n) v" by (rule exec_inv_congI[OF inv f(1-4)])
    then show ?thesis unfolding v(2) by (rule exec_inv_port[OF _ pw]) (use f in auto)
  qed
qed

lemma execute_unit_inv:
  assumes "swap_regs (oe_move_warp (xe_collector env))" "xe_power_simulation env \<longrightarrow> 32 \<le> oe_warp_size (xe_collector env)"
    "ldst_frame env" "exec_inv env n s" "n < length (xc_fu s)" "execute_unit env s n = Some t"
  shows "exec_inv env (Suc n) t"
proof (cases "xc_fu s ! n")
  case (Simd_unit u)
  then show ?thesis using simd_execute_ok[OF assms(1,2,4,5)] assms(5,6) by (auto simp: execute_unit_def)
next
  case Ldst_unit
  then show ?thesis using ldst_execute_inv[OF assms(3-5)] assms(5,6) by (auto simp: execute_unit_def)
qed

lemma execute_units_inv:
  assumes "swap_regs (oe_move_warp (xe_collector env))" "xe_power_simulation env \<longrightarrow> 32 \<le> oe_warp_size (xe_collector env)"
    "ldst_frame env" "exec_inv env 0 s" "run_calls (execute_unit env) s [0..<n] = Some t"
  shows "exec_inv env n t"
  using assms(5)
proof (induction n arbitrary: t)
  case 0
  then show ?case using assms(4) by simp
next
  case (Suc n)
  then obtain u where u: "run_calls (execute_unit env) s [0..<n] = Some u" "execute_unit env u n = Some t"
    by (auto simp: run_calls_append split: bind_splits)
  then have "n < length (xc_fu u)" by (auto simp: execute_unit_def split: bind_splits)
  then show ?case using execute_unit_inv[OF assms(1-3) Suc.IH[OF u(1)] _ u(2)] by simp
qed

lemma issue_to_unit_length: "issue_to_unit env n u s = Some t \<Longrightarrow> length (xc_fu t) = length (xc_fu s)"
  by (auto simp: issue_to_unit_def Let_def split: bind_splits if_splits option.splits)

lemma execute_unit_length:
  assumes "ldst_frame env" "execute_unit env s n = Some t"
  shows "length (xc_fu t) = length (xc_fu s)"
proof (cases "xc_fu s ! n")
  case (Simd_unit u)
  then show ?thesis using assms(2)
    by (auto simp: execute_unit_def simd_execute_def Let_def split: bind_splits if_splits dest!: issue_to_unit_length)
next
  case Ldst_unit
  then obtain u where u: "run_calls (\<lambda>s _. xe_ldst_cycle env s) s [0..<xe_ldst_multiplier env] = Some u"
    using assms(2) by (auto simp: execute_unit_def ldst_execute_def split: bind_splits)
  have f: "xc_fu u = xc_fu s" by (rule run_calls_invariant[OF u]) (use assms(1) in \<open>auto simp: ldst_frame_def\<close>)
  show ?thesis
  proof (cases "t = u")
    case False
    then obtain p regs v where "xe_ldst_issue env p u = Some (regs, v)" "xc_fu t = xc_fu v"
      using assms(2) u Ldst_unit by (auto simp: execute_unit_def ldst_execute_def split: bind_splits if_splits)
    then show ?thesis using f assms(1) unfolding ldst_frame_def by metis
  qed (use f in simp)
qed

lemma bus_count_shift: "bus_count (map (drop_bit 1) buses) k = bus_count buses (Suc k)"
  by (induction buses) (simp_all add: bus_count_def bit_simps)

lemma bus_count_le: "bus_count buses k \<le> length buses"
  by (simp add: bus_count_def)

text \<open>The start of \<open>execute\<close>: after the write back there is a free register for every result that is due.\<close>

lemma execute_start:
  assumes inv: "exec_inv env (length (xc_fu s)) s" and frame: "wb_frame s t" and empty: "\<forall>r \<in> set (pipeline_reg t ! EX_WB). wi_empty r"
  shows "exec_inv env 0 (t\<lparr>xc_result_bus := map (drop_bit 1) (xc_result_bus t)\<rparr>)"
proof -
  let ?N = "length (xc_fu s)"
  have i: "EX_WB < length (pipeline_reg s)" "length (pipeline_reg s ! EX_WB) = length (xc_result_bus s)"
    "length (xc_issue_port s) = ?N" "\<And>m. m < ?N \<Longrightarrow> unit_ready s (oe_sub_core_model (xe_collector env)) m"
    "\<And>k. bus_count (xc_result_bus s) k = (\<Sum>m < ?N. unit_count (xc_fu s ! m) k)"
    using inv by (simp_all add: exec_inv_def)
  have f: "xc_fu t = xc_fu s" "xc_issue_port t = xc_issue_port s" "xc_result_bus t = xc_result_bus s"
    "length (pipeline_reg t) = length (pipeline_reg s)" "length (pipeline_reg t ! EX_WB) = length (pipeline_reg s ! EX_WB)"
    "\<And>p. p \<noteq> EX_WB \<Longrightarrow> pipeline_reg t ! p = pipeline_reg s ! p" using frame by (simp_all add: wb_frame_def)
  have ready: "unit_ready (t\<lparr>xc_result_bus := map (drop_bit 1) (xc_result_bus t)\<rparr>) (oe_sub_core_model (xe_collector env)) m" if "m < ?N" for m
    using i(4)[OF that] f by (auto simp: unit_ready_def Let_def split: func_unit.splits)
  have "in_use (pipeline_reg t ! EX_WB) = 0" using empty by (simp add: in_use_def filter_empty_conv)
  moreover have "(\<Sum>m < ?N. unit_count (xc_fu s ! m) 0) \<le> length (xc_result_bus s)" using i(5)[of 0] bus_count_le by metis
  ultimately show ?thesis
    using i f ready bus_count_shift by (simp add: exec_inv_def atLeast0LessThan)
qed

lemma start_inv:
  assumes "exec_start env s"
  shows "exec_inv env (length (xc_fu s)) s"
proof -
  have zero: "unit_count (xc_fu s ! m) k = 0" if "m < length (xc_fu s)" for m k
    using assms nth_mem[OF that] by (fastforce simp: exec_start_def simd_unit_new_def)
  have "bus_count (xc_result_bus s) k = 0" for k using assms by (auto simp: exec_start_def bus_count_def filter_empty_conv)
  moreover have "in_use (pipeline_reg s ! EX_WB) = 0" using assms by (simp add: exec_start_def in_use_def filter_empty_conv)
  moreover have "unit_ready s (oe_sub_core_model (xe_collector env)) m" if m: "m < length (xc_fu s)" for m
  proof -
    have "xc_fu s ! m = Ldst_unit \<or> (\<exists>kind depth reg. 0 < depth \<and> xc_fu s ! m = Simd_unit (simd_unit_new kind depth reg))"
      using assms nth_mem[OF m] by (auto simp: exec_start_def)
    then have "case xc_fu s ! m of Simd_unit u \<Rightarrow> unit_inv u | Ldst_unit \<Rightarrow> True" using new_unit_inv by auto
    then show ?thesis using assms m
      by (auto simp: exec_start_def issue_regs_ok_def unit_ready_def Let_def split: func_unit.splits)
  qed
  ultimately show ?thesis using assms zero by (simp add: exec_inv_def exec_start_def issue_regs_ok_def)
qed

lemma change_inv:
  assumes "exec_inv env (length (xc_fu s)) s" "exec_change env s t"
  shows "exec_inv env (length (xc_fu t)) t"
proof -
  have "unit_ready t (oe_sub_core_model (xe_collector env)) m" if "m < length (xc_fu s)" for m
    using assms that by (auto simp: exec_inv_def exec_change_def unit_ready_def issue_regs_ok_def Let_def split: func_unit.splits)
  then show ?thesis using assms by (simp add: exec_inv_def exec_change_def)
qed

lemma exec_reachable_inv:
  assumes "swap_regs (oe_move_warp (xe_collector env))" "xe_power_simulation env \<longrightarrow> 32 \<le> oe_warp_size (xe_collector env)"
    "ldst_frame env" "exec_reachable env s"
  shows "exec_inv env (length (xc_fu s)) s"
  using assms(4)
proof (induction rule: exec_reachable.induct)
  case (exec_cycle s t u)
  have "EX_WB < length (pipeline_reg s)" using exec_cycle.IH by (simp add: exec_inv_def)
  then have wb: "wb_frame s t \<and> (\<forall>r \<in> set (pipeline_reg t ! EX_WB). wi_empty r)"
    by (rule core_writeback_frame[OF exec_cycle.hyps(2)])
  then have start: "exec_inv env 0 (t\<lparr>xc_result_bus := map (drop_bit 1) (xc_result_bus t)\<rparr>)"
    using execute_start[OF exec_cycle.IH] by blast
  have run: "run_calls (execute_unit env) (t\<lparr>xc_result_bus := map (drop_bit 1) (xc_result_bus t)\<rparr>) [0..<length (xc_fu t)] = Some u"
    using exec_cycle.hyps(3) by (simp add: core_execute_def)
  have "length (xc_fu u) = length (xc_fu t)"
    by (rule run_calls_invariant[OF run]) (simp_all add: execute_unit_length[OF assms(3)])
  then show ?case using execute_units_inv[OF assms(1-3) start run] by simp
qed (simp_all add: start_inv change_inv)

subsection \<open>Latencies\<close>

text \<open>A run of one unit: cycles, and attempts to issue.\<close>

datatype unit_event = Unit_cycle register_set | Unit_issue register_set

fun unit_step :: "move_warp \<Rightarrow> bool \<Rightarrow> simd_unit \<Rightarrow> unit_event \<Rightarrow> simd_unit option" where
  "unit_step mv sub u (Unit_cycle port) = do { (u, port) \<leftarrow> unit_cycle mv (u, port); Some u }"
| "unit_step mv sub u (Unit_issue regs) =
     (case rs_get_ready sub (fu_issue_reg_id u) regs of
        Some (Some j) \<Rightarrow> if unit_can_issue u (regs ! j) = Some True
          then do { (u, regs) \<leftarrow> unit_issue mv sub u regs; Some u } else Some u
      | _ \<Rightarrow> Some u)"

definition cycles_of :: "unit_event list \<Rightarrow> nat" where
  "cycles_of es = length (filter (\<lambda>e. case e of Unit_cycle _ \<Rightarrow> True | _ \<Rightarrow> False) es)"

definition events_ok :: "simd_unit \<Rightarrow> unit_event list \<Rightarrow> bool" where
  "events_ok u es \<longleftrightarrow> (\<forall>regs. Unit_issue regs \<in> set es \<longrightarrow> (\<forall>r \<in> set regs. \<not> wi_empty r \<and> unit_takes (fu_kind u) (wi_op r) \<longrightarrow>
     issued_inst r \<and> fits_depth (length (fu_pipeline_reg u)) r))"

lemma unit_cycle_free:
  assumes "unit_inv u" "unit_cycle mv (u, port) = Some r" "arrivals u 0 \<noteq> None"
  shows "rs_has_free_any port"
proof -
  have "stage_inst (fu_pipeline_reg u) 0 \<noteq> None"
    using assms(1,3) by (auto simp: unit_inv_def arrivals_def due_def split: option.splits if_splits)
  then have "\<not> wi_empty (fu_pipeline_reg u ! 0)" "fu_pipeline_reg u \<noteq> []" by (auto simp: stage_inst_def split: if_splits)
  then obtain j where "rs_get_free False 0 port = Some j"
    using assms(2) by (auto simp: unit_cycle_def unit_result_def rs_move_in_def split: bind_splits)
  then show ?thesis using first_index_None[of wi_empty 0 port]
    by (auto simp: rs_get_free_def rs_get_free_any_def rs_has_free_any_def)
qed

lemma unit_step_arrivals:
  assumes "swap_regs mv" "unit_inv u" "events_ok u [e]" "unit_step mv sub u e = Some v"
  shows "unit_inv v \<and> fu_kind v = fu_kind u \<and> length (fu_pipeline_reg v) = length (fu_pipeline_reg u) \<and>
    fu_issue_reg_id v = fu_issue_reg_id u \<and>
    (\<forall>k i. arrivals u (k + cycles_of [e]) = Some i \<longrightarrow> arrivals v k = Some i)"
proof (cases e)
  case (Unit_cycle port)
  then obtain port1 where c: "unit_cycle mv (u, port) = Some (v, port1)" using assms(4) by (auto split: bind_splits)
  obtain w port' where w: "unit_cycle mv (u, port) = Some (w, port')" "unit_inv w" "fu_kind w = fu_kind u"
    "length (fu_pipeline_reg w) = length (fu_pipeline_reg u)" "fu_issue_reg_id w = fu_issue_reg_id u"
    "\<And>k. arrivals w k = arrivals u (Suc k)"
    using unit_cycle_effect[OF assms(1,2) unit_cycle_free[OF assms(2) c]] by metis
  then show ?thesis using c Unit_cycle by (simp add: cycles_of_def)
next
  case (Unit_issue regs)
  show ?thesis
  proof (cases "\<exists>j. rs_get_ready sub (fu_issue_reg_id u) regs = Some (Some j) \<and> unit_can_issue u (regs ! j) = Some True")
    case False
    then have "v = u" using assms(4) Unit_issue by (auto split: option.splits if_splits)
    then show ?thesis using assms(2) Unit_issue by (simp add: cycles_of_def)
  next
    case True
    then obtain j where j: "rs_get_ready sub (fu_issue_reg_id u) regs = Some (Some j)" "unit_can_issue u (regs ! j) = Some True" by blast
    have "unit_takes (fu_kind u) (wi_op (regs ! j))" using j(2) by (auto simp: unit_can_issue_def split: if_splits)
    then have ok: "issued_inst (regs ! j)" "fits_depth (length (fu_pipeline_reg u)) (regs ! j)"
      using assms(3) Unit_issue rs_get_ready_Some[OF j(1)] by (auto simp: events_ok_def)
    obtain w r where w: "unit_issue mv sub u regs = Some (w, regs[j := r])" "wi_empty r" "unit_inv w" "fu_kind w = fu_kind u"
      "length (fu_pipeline_reg w) = length (fu_pipeline_reg u)" "fu_issue_reg_id w = fu_issue_reg_id u"
      "arrivals w = (arrivals u)(wi_latency (regs ! j) \<mapsto> no_delay ((regs ! j)\<lparr>wi_op_pipe := pipe_of (fu_kind u)\<rparr>))"
      "arrivals u (wi_latency (regs ! j)) = None"
      by (rule unit_issue_effect[OF assms(1,2) j ok])
    have "v = w" using assms(4) Unit_issue j w(1) by simp
    then show ?thesis using w Unit_issue by (auto simp: cycles_of_def)
  qed
qed

lemma unit_run_arrivals:
  assumes "swap_regs mv" "unit_inv u" "events_ok u es" "run_calls (unit_step mv sub) u es = Some v"
  shows "unit_inv v \<and> fu_kind v = fu_kind u \<and> (\<forall>k i. arrivals u (k + cycles_of es) = Some i \<longrightarrow> arrivals v k = Some i)"
  using assms(2-)
proof (induction es arbitrary: u)
  case Nil
  then show ?case by (simp add: cycles_of_def)
next
  case (Cons e es)
  then obtain w where w: "unit_step mv sub u e = Some w" "run_calls (unit_step mv sub) w es = Some v" by (auto split: bind_splits)
  have "events_ok u [e]" using Cons.prems(2) by (simp add: events_ok_def)
  then have s: "unit_inv w" "fu_kind w = fu_kind u" "length (fu_pipeline_reg w) = length (fu_pipeline_reg u)"
    "\<forall>k i. arrivals u (k + cycles_of [e]) = Some i \<longrightarrow> arrivals w k = Some i"
    using unit_step_arrivals[OF assms(1) Cons.prems(1) _ w(1)] by auto
  have "events_ok w es" using Cons.prems(2) s(2,3) by (simp add: events_ok_def)
  note IH = Cons.IH[OF s(1) this w(2)]
  have "cycles_of (e # es) = cycles_of es + cycles_of [e]" by (simp add: cycles_of_def)
  then show ?case using IH s(2,4) by (simp add: add.assoc[symmetric])
qed

lemma simd_cycle_delivers:
  assumes "swap_regs mv" "unit_inv u" "rs_has_free_any port"
  shows "\<exists>v port'. unit_cycle mv (u, port) = Some (v, port') \<and> delivered (arrivals u 0) port port'"
  using unit_cycle_effect[OF assms(1,2), of port] assms(3) by metis

subsection \<open>Properties\<close>

text \<open>C10. A pipelined unit refines a delay line: seen as the map from the number of cycles left to the
  instruction that arrives then, a cycle of the unit delivers what is due to the result port and
  shifts the rest. The entry of a pipeline stage is never blocked, although the code tests for it.\<close>

theorem simd_unit_delay_line:
  assumes "swap_regs mv" "unit_inv u" "arrivals u 0 \<noteq> None \<longrightarrow> rs_has_free_any port"
  shows "\<exists>v port'. unit_cycle mv (u, port) = Some (v, port') \<and> unit_inv v \<and> arrivals v = (\<lambda>k. arrivals u (Suc k)) \<and>
    delivered (arrivals u 0) port port'"
  using unit_cycle_effect[OF assms(1,2), of port] assms(3) by (metis ext)

definition demo_move :: move_warp where
  "demo_move d s = (if wi_empty d then Some (s, inst_clear d) else None)"

lemma demo_move_ok: "swap_regs demo_move"
  by (simp add: swap_regs_def demo_move_def inst_clear_def)

definition demo_add :: warp_inst where
  "demo_add = warp_inst_init\<lparr>wi_empty := False, wi_op := SP_OP, wi_cycles := 1\<rparr>"

abbreviation demo_sp :: simd_unit where
  "demo_sp \<equiv> simd_unit_new SP_UNIT 4 0"

lemma demo_add_ok: "issued_inst demo_add" "fits_depth 4 demo_add" "wi_latency demo_add = 1" "wi_empty demo_add = False"
  "wi_op demo_add = SP_OP"
  by (simp_all add: demo_add_def warp_inst_init_def issued_inst_def fits_depth_def MAX_ALU_LATENCY_def)

lemma demo_issue:
  obtains v r where "unit_issue demo_move False demo_sp [demo_add] = Some (v, [r])" "unit_inv v"
    "arrivals v 1 = Some (no_delay (demo_add\<lparr>wi_op_pipe := SP__OP\<rparr>))" "unit_can_issue demo_sp demo_add = Some True"
    "rs_get_ready False 0 [demo_add] = Some (Some 0)" "unit_inv demo_sp"
    "fu_kind demo_sp = SP_UNIT" "length (fu_pipeline_reg demo_sp) = 4" "fu_issue_reg_id demo_sp = 0"
    "fu_kind v = SP_UNIT" "length (fu_pipeline_reg v) = 4" "arrivals v 0 = None"
proof -
  have f: "fu_kind demo_sp = SP_UNIT" "length (fu_pipeline_reg demo_sp) = 4" "fu_issue_reg_id demo_sp = 0" "unit_inv demo_sp"
    by (simp_all add: simd_unit_new_def new_unit_inv[unfolded simd_unit_new_def])
  have ready: "rs_get_ready False (fu_issue_reg_id demo_sp) [demo_add] = Some (Some 0)"
    by (simp add: rs_get_ready_def rs_get_ready_any_def demo_add_ok)
  have can: "unit_can_issue demo_sp ([demo_add] ! 0) = Some True"
    by (simp add: unit_can_issue_def simd_can_issue_def bits_test_def simd_unit_new_def warp_inst_init_def demo_add_ok MAX_ALU_LATENCY_def)
  have ok: "issued_inst ([demo_add] ! 0)" "fits_depth (length (fu_pipeline_reg demo_sp)) ([demo_add] ! 0)"
    using demo_add_ok f(2) by simp_all
  have none: "arrivals demo_sp 0 = None"
    by (simp add: arrivals_def stage_inst_def simd_unit_new_def warp_inst_init_def)
  obtain v r where v: "unit_issue demo_move False demo_sp [demo_add] = Some (v, [demo_add][0 := r])" "wi_empty r" "unit_inv v"
    "fu_kind v = fu_kind demo_sp" "length (fu_pipeline_reg v) = length (fu_pipeline_reg demo_sp)"
    "fu_issue_reg_id v = fu_issue_reg_id demo_sp"
    "arrivals v = (arrivals demo_sp)(wi_latency ([demo_add] ! 0) \<mapsto> no_delay (([demo_add] ! 0)\<lparr>wi_op_pipe := pipe_of (fu_kind demo_sp)\<rparr>))"
    "arrivals demo_sp (wi_latency ([demo_add] ! 0)) = None"
    by (rule unit_issue_effect[OF demo_move_ok f(4) ready can ok])
  show thesis
    by (rule that[of v r]) (use v f ready can none demo_add_ok in simp_all)
qed

theorem simd_unit_delay_line_witness:
  "\<exists>v w port'. unit_issue demo_move False demo_sp [demo_add] = Some (v, port') \<and>
    arrivals v 1 = Some (no_delay (demo_add\<lparr>wi_op_pipe := SP__OP\<rparr>)) \<and>
    unit_cycle demo_move (v, [warp_inst_init]) = Some (w, [warp_inst_init]) \<and> arrivals w 0 = arrivals v 1"
proof -
  obtain v r where v: "unit_issue demo_move False demo_sp [demo_add] = Some (v, [r])" "unit_inv v"
    "arrivals v 1 = Some (no_delay (demo_add\<lparr>wi_op_pipe := SP__OP\<rparr>))" "arrivals v 0 = None" by (rule demo_issue)
  have "arrivals v 0 \<noteq> None \<longrightarrow> rs_has_free_any [warp_inst_init]" using v(4) by simp
  from simd_unit_delay_line[OF demo_move_ok v(2) this] obtain w port' where w:
    "unit_cycle demo_move (v, [warp_inst_init]) = Some (w, port')" "arrivals w = (\<lambda>k. arrivals v (Suc k))"
    "delivered (arrivals v 0) [warp_inst_init] port'" by blast
  have "port' = [warp_inst_init]" using w(3) v(4) by (simp add: delivered_def)
  then show ?thesis using v(1,3) w(1,2) by auto
qed

text \<open>C11. An instruction of latency \<open>L\<close> reaches the result port in the cycle that follows \<open>L\<close> further cycles
  of its unit, whatever else is issued to the unit meanwhile.\<close>

theorem issued_instruction_arrives:
  assumes "swap_regs mv" "unit_inv u" "rs_get_ready sub (fu_issue_reg_id u) regs = Some (Some j)"
    "unit_can_issue u (regs ! j) = Some True" "events_ok u (Unit_issue regs # es)"
    "unit_issue mv sub u regs = Some (v, regs')" "run_calls (unit_step mv sub) v es = Some w"
    "cycles_of es = wi_latency (regs ! j)" "unit_cycle mv (w, port) = Some (x, port')"
  shows "\<exists>m < length port. wi_empty (port ! m) \<and> port' = port[m := port' ! m] \<and>
    no_delay (port' ! m) = no_delay ((regs ! j)\<lparr>wi_op_pipe := pipe_of (fu_kind u)\<rparr>)"
proof -
  let ?i = "no_delay ((regs ! j)\<lparr>wi_op_pipe := pipe_of (fu_kind u)\<rparr>)"
  have "unit_takes (fu_kind u) (wi_op (regs ! j))" using assms(4) by (auto simp: unit_can_issue_def split: if_splits)
  then have ok: "issued_inst (regs ! j)" "fits_depth (length (fu_pipeline_reg u)) (regs ! j)"
    using assms(5) rs_get_ready_Some[OF assms(3)] by (auto simp: events_ok_def)
  obtain v' r where v: "unit_issue mv sub u regs = Some (v', regs[j := r])" "wi_empty r" "unit_inv v'" "fu_kind v' = fu_kind u"
    "length (fu_pipeline_reg v') = length (fu_pipeline_reg u)" "fu_issue_reg_id v' = fu_issue_reg_id u"
    "arrivals v' = (arrivals u)(wi_latency (regs ! j) \<mapsto> ?i)" "arrivals u (wi_latency (regs ! j)) = None"
    by (rule unit_issue_effect[OF assms(1-4) ok])
  have eq: "v' = v" using v(1) assms(6) by simp
  then have "events_ok v es" using assms(5) v(4,5) by (auto simp: events_ok_def)
  from unit_run_arrivals[OF assms(1) _ this assms(7)] have w: "unit_inv w" "arrivals w 0 = Some ?i"
    using v(3,7) eq assms(8) by (metis add_0 fun_upd_same)+
  have "rs_has_free_any port" using unit_cycle_free[OF w(1) assms(9)] w(2) by simp
  then obtain y p where y: "unit_cycle mv (w, port) = Some (y, p)" "delivered (arrivals w 0) port p"
    using simd_cycle_delivers[OF assms(1) w(1)] by blast
  then show ?thesis using assms(9) w(2) by (auto simp: delivered_def)
qed

theorem issued_instruction_arrives_witness:
  "\<exists>v w x regs q. unit_issue demo_move False demo_sp [demo_add] = Some (v, regs) \<and>
    run_calls (unit_step demo_move False) v [Unit_cycle [warp_inst_init]] = Some w \<and>
    unit_cycle demo_move (w, [warp_inst_init]) = Some (x, q) \<and>
    no_delay (q ! 0) = no_delay (demo_add\<lparr>wi_op_pipe := SP__OP\<rparr>)"
proof -
  obtain v r where v: "unit_issue demo_move False demo_sp [demo_add] = Some (v, [r])" "unit_inv v"
    "unit_can_issue demo_sp demo_add = Some True" "rs_get_ready False 0 [demo_add] = Some (Some 0)" "unit_inv demo_sp"
    "fu_kind demo_sp = SP_UNIT" "length (fu_pipeline_reg demo_sp) = 4" "fu_issue_reg_id demo_sp = 0"
    by (rule demo_issue)
  have free: "rs_has_free_any [warp_inst_init]" by (simp add: rs_has_free_any_def warp_inst_init_def)
  obtain w p where w: "unit_cycle demo_move (v, [warp_inst_init]) = Some (w, p)" "unit_inv w"
    using unit_cycle_effect[OF demo_move_ok v(2) free] by metis
  obtain x q where x: "unit_cycle demo_move (w, [warp_inst_init]) = Some (x, q)"
    using unit_cycle_effect[OF demo_move_ok w(2) free] by metis
  have ready: "rs_get_ready False (fu_issue_reg_id demo_sp) [demo_add] = Some (Some 0)" using v(4,8) by simp
  have can: "unit_can_issue demo_sp ([demo_add] ! 0) = Some True" using v(3) by simp
  have events: "events_ok demo_sp (Unit_issue [demo_add] # [Unit_cycle [warp_inst_init]])"
    using demo_add_ok v(7) by (simp add: events_ok_def)
  have run: "run_calls (unit_step demo_move False) v [Unit_cycle [warp_inst_init]] = Some w" using w(1) by simp
  have cycles: "cycles_of [Unit_cycle [warp_inst_init]] = wi_latency ([demo_add] ! 0)" by (simp add: cycles_of_def demo_add_ok)
  from issued_instruction_arrives[OF demo_move_ok v(5) ready can events v(1) run cycles x] v(6)
  have "no_delay (q ! 0) = no_delay (demo_add\<lparr>wi_op_pipe := SP__OP\<rparr>)" by auto
  then show ?thesis using v(1) run x by blast
qed


definition demo_exec_env :: "(unit, unit) exec_env" where
  "demo_exec_env = \<lparr>xe_collector = \<lparr>oe_warp_size = 32, oe_sub_core_model = False, oe_num_sched_per_core = 1,
     oe_clock_gated_reg_file = False, oe_n_regfile_gating_group = 0, oe_move_warp = demo_move, oe_num_operands = (\<lambda>_. 1),
     oe_num_regs = (\<lambda>_. 1)\<rparr>, xe_clock_gated_lanes = False, xe_power_simulation = True, xe_release_registers = (\<lambda>_ b. b),
     xe_ldst_multiplier = 1, xe_ldst_cycle = Some, xe_ldst_can_issue = (\<lambda>_ _. False), xe_ldst_issue = (\<lambda>regs s. Some (regs, s))\<rparr>"

definition demo_back_end :: "(unit, unit) exec_core" where
  "demo_back_end = \<lparr>xc_sid = 0, xc_collector = (operand_collector_new ((replicate N_PIPELINE_STAGES [warp_inst_init])[OC_EX_SP := [demo_add]])),
     xc_warp = [], xc_scoreboard = (), xc_ldst = (), xc_fu = [Simd_unit demo_sp, Simd_unit demo_sp, Ldst_unit],
     xc_issue_port = [OC_EX_SP, OC_EX_SP, OC_EX_MEM], xc_result_bus = [0], xc_gpu_sim_cycle = 0, xc_gpu_tot_sim_cycle = 0,
     xc_num_sp_committed = 0, xc_num_sfu_committed = 0, xc_num_mem_committed = 0, xc_num_sim_insn = 0, xc_num_sim_winsn = 0,
     xc_last_num_sim_insn = 0, xc_last_num_sim_winsn = 0, xc_gpu_sim_insn = 0, xc_last_update_sid = 0, xc_last_update = 0,
     xc_last_inst_cycle = 0, xc_last_inst_tot_cycle = 0\<rparr>"

lemma demo_env_ok: "swap_regs (oe_move_warp (xe_collector demo_exec_env))" "ldst_frame demo_exec_env"
  "xe_power_simulation demo_exec_env \<longrightarrow> 32 \<le> oe_warp_size (xe_collector demo_exec_env)"
  by (simp_all add: demo_exec_env_def demo_move_ok ldst_frame_def)

lemma demo_back_end_start: "exec_reachable demo_exec_env demo_back_end"
proof (rule exec_init)
  have less: "(\<forall>m < Suc (Suc (Suc 0)). P m) \<longleftrightarrow> P 0 \<and> P (Suc 0) \<and> P (Suc (Suc 0))" for P :: "nat \<Rightarrow> bool"
    by (auto simp: less_Suc_eq)
  have regs: "pipeline_reg demo_back_end = (replicate N_PIPELINE_STAGES [warp_inst_init])[OC_EX_SP := [demo_add]]"
    by (simp add: pipeline_reg_def demo_back_end_def operand_collector_new_def)
  have "issue_regs_ok demo_exec_env demo_back_end"
    unfolding issue_regs_ok_def regs
    by (simp add: demo_back_end_def less Let_def simd_unit_new_def demo_add_ok N_PIPELINE_STAGES_def OC_EX_SP_def OC_EX_MEM_def
      EX_WB_def demo_exec_env_def nth_list_update)
  moreover have "\<exists>kind depth reg. 0 < depth \<and> demo_sp = simd_unit_new kind depth reg"
    by (intro exI[of _ SP_UNIT] exI[of _ 4] exI[of _ 0]) simp
  ultimately show "exec_start demo_exec_env demo_back_end"
    unfolding exec_start_def regs
    by (simp add: demo_back_end_def N_PIPELINE_STAGES_def OC_EX_SP_def EX_WB_def nth_list_update warp_inst_init_def)
qed


end
